(* ===== verification/Fuego_Prelude.thy ===== *)
theory Fuego_Prelude
  imports Main "HOL-Library.Word" "HOL-Library.Char_ord" "HOL-Library.List_Lexorder"
    "HOL-Library.Product_Lexorder"
begin

text \<open>
  Shared vocabulary of the development: the machine integer types of the C++ sources, the
  lemma collections the component theories fill, and the generic facts on words and lists that
  more than one component uses.

  C++ \<open>uint8_t\<close>, \<open>uint32_t\<close>, \<open>uint64_t\<close> and \<open>size_t\<close> are words: \<open>+\<close>, \<open>-\<close> and \<open>*\<close> wrap as
  unsigned C++ arithmetic does, and \<open>div\<close>/\<open>mod\<close> on words are the unsigned quotient and
  remainder. Container sizes are \<open>nat\<close>. An \<open>assert\<close> of the source is compiled in only without
  \<open>NDEBUG\<close> (the Release flags of \<open>CMakeLists.txt\<close> define it), so it is not a branch of the model:
  the properties prove the asserted condition, or take it as a hypothesis.
\<close>

section \<open>Machine integers\<close>

type_synonym u8 = "8 word"
type_synonym u32 = "32 word"
type_synonym u64 = "64 word"

type_synonym bytes = "u8 list"

text \<open>A \<open>Crypto::Hash\<close>, \<open>Crypto::PublicKey\<close> or \<open>Crypto::Signature\<close> is a plain byte array.\<close>

type_synonym hash = bytes
type_synonym public_key = bytes
type_synonym signature = bytes

text \<open>The value-initialised 32-byte object: \<open>Crypto::Hash()\<close>, \<open>Crypto::PublicKey()\<close>.\<close>

definition null_pod :: bytes where
  "null_pod = replicate 32 0"

text \<open>The bytes of a \<open>std::string\<close>.\<close>

definition str_bytes :: "string \<Rightarrow> bytes" where
  "str_bytes s = map of_char s"

text \<open>\<open>std::to_string\<close> of an unsigned number.\<close>

fun to_string :: "nat \<Rightarrow> string" where
  "to_string n =
     (if n < 10 then [char_of (48 + n)] else to_string (n div 10) @ [char_of (48 + n mod 10)])"

declare to_string.simps [simp del]

named_theorems word_nat "unat of word operations under no-overflow side conditions"

lemma unat_u64_bound [simp]: "unat (x :: u64) < 18446744073709551616"
  using unsigned_less [of x, where ?'a = nat] by simp

lemma unat_u32_bound [simp]: "unat (x :: u32) < 4294967296"
  using unsigned_less [of x, where ?'a = nat] by simp

lemma unat_u8_bound [simp]: "unat (x :: u8) < 256"
  using unsigned_less [of x, where ?'a = nat] by simp

text \<open>The same bound in a form the simplifier keeps when it is used as a fact.\<close>

lemma unat_u64_le: "unat (x :: u64) \<le> 18446744073709551615"
  using unat_u64_bound [of x] by linarith

lemma unat_add_no_wrap [word_nat]:
  fixes a b :: u64
  assumes "unat a + unat b < 18446744073709551616"
  shows "unat (a + b) = unat a + unat b"
  using assms by (simp add: unat_word_ariths)

lemma unat_mult_no_wrap [word_nat]:
  fixes a b :: u64
  assumes "unat a * unat b < 18446744073709551616"
  shows "unat (a * b) = unat a * unat b"
  using assms by (simp add: unat_word_ariths)

lemma unat_sub_no_wrap [word_nat]:
  fixes a b :: u64
  assumes "unat b \<le> unat a"
  shows "unat (a - b) = unat a - unat b"
  using assms by (simp add: unat_sub word_le_nat_alt)

lemma unat_ucast_u32_u64 [simp]: "unat (ucast (x :: u32) :: u64) = unat x"
proof -
  have "unat x < 18446744073709551616" using unat_u32_bound [of x] by linarith
  then show ?thesis by (simp add: unsigned_ucast_eq take_bit_eq_mod)
qed

lemma unat_ucast_u8_u64 [simp]: "unat (ucast (x :: u8) :: u64) = unat x"
proof -
  have "unat x < 18446744073709551616" using unat_u8_bound [of x] by linarith
  then show ?thesis by (simp add: unsigned_ucast_eq take_bit_eq_mod)
qed

lemma unat_ucast_u64_u32: "unat (ucast (x :: u64) :: u32) = unat x mod 4294967296"
  by (simp add: unsigned_ucast_eq take_bit_eq_mod)

lemma unat_ucast_u64_u8: "unat (ucast (x :: u64) :: u8) = unat x mod 256"
  by (simp add: unsigned_ucast_eq take_bit_eq_mod)

section \<open>Natural numbers and lists\<close>

lemma quot_rem_nat:
  fixes q d r n :: nat
  assumes "q * d + r = n" "r < d"
  shows "n div d = q" and "n mod d = r"
  using assms by auto

end
