(* ===== verification/Int_Util.thy ===== *)
theory Int_Util
  imports Fuego_Prelude
begin

unbundle bit_operations_syntax

text \<open>
  The 128-bit arithmetic of \<open>src/src/Common/int-util.h\<close> (products and quotients by 32-bit
  divisors, built from 32-bit halves) and the proof-of-work test of
  \<open>src/src/CryptoNoteCore/Difficulty.cpp\<close>, which is built on it. The lemmas show that
  each routine computes the exact mathematical value its comment names.
\<close>

section \<open>Definitions\<close>

definition hi_dword :: "u64 \<Rightarrow> u64" where
  "hi_dword val = drop_bit 32 val"

definition lo_dword :: "u64 \<Rightarrow> u64" where
  "lo_dword val = val AND 0xFFFFFFFF"

text \<open>\<open>mul128\<close> returns the low word and writes the high word through \<open>product_hi\<close>; the model
  returns the pair (low, high).\<close>

definition mul128 :: "u64 \<Rightarrow> u64 \<Rightarrow> u64 \<times> u64" where
  "mul128 multiplier multiplicand =
     (let a = hi_dword multiplier;
          b = lo_dword multiplier;
          c = hi_dword multiplicand;
          d = lo_dword multiplicand;
          ac = a * c;
          ad = a * d;
          bc = b * c;
          bd = b * d;
          adbc = ad + bc;
          adbc_carry = (if adbc < ad then 1 else 0);
          product_lo = bd + push_bit 32 adbc;
          product_lo_carry = (if product_lo < bd then 1 else 0);
          product_hi = ac + drop_bit 32 adbc + push_bit 32 adbc_carry + product_lo_carry
      in (product_lo, product_hi))"

text \<open>\<open>div_with_reminder\<close> reads and writes \<open>*remainder\<close>: the model takes it and returns
  (quotient, new remainder).\<close>

definition div_with_reminder :: "u64 \<Rightarrow> u32 \<Rightarrow> u32 \<Rightarrow> u64 \<times> u32" where
  "div_with_reminder dividend divisor remainder =
     (let dividend' = dividend OR push_bit 32 (ucast remainder :: u64)
      in (dividend' div ucast divisor, ucast (dividend' mod ucast divisor)))"

text \<open>The result is (remainder, quotient high, quotient low).\<close>

definition div128_32 :: "u64 \<Rightarrow> u64 \<Rightarrow> u32 \<Rightarrow> u32 \<times> u64 \<times> u64" where
  "div128_32 dividend_hi dividend_lo divisor =
     (let (q3, r3) = div_with_reminder (hi_dword dividend_hi) divisor 0;
          (q2, r2) = div_with_reminder (lo_dword dividend_hi) divisor r3;
          (q1, r1) = div_with_reminder (hi_dword dividend_lo) divisor r2;
          (q0, r0) = div_with_reminder (lo_dword dividend_lo) divisor r1
      in (r0, push_bit 32 q3 OR q2, push_bit 32 q1 OR q0))"

text \<open>\<open>mul\<close> of \<open>Difficulty.cpp\<close> where the compiler has 128-bit integers: (low, high). Elsewhere \<open>mul\<close>
  is \<open>mul128\<close>; the two branches agree (lemma \<open>mul_eq_mul128\<close>).\<close>

definition mul :: "u64 \<Rightarrow> u64 \<Rightarrow> u64 \<times> u64" where
  "mul a b = (let res = (ucast a :: 128 word) * ucast b in (ucast res, ucast (drop_bit 64 res)))"

definition cadd :: "u64 \<Rightarrow> u64 \<Rightarrow> bool" where
  "cadd a b \<longleftrightarrow> a + b < a"

definition cadc :: "u64 \<Rightarrow> u64 \<Rightarrow> bool \<Rightarrow> bool" where
  "cadc a b c \<longleftrightarrow> a + b < a \<or> (c \<and> a + b = - 1)"

text \<open>\<open>check_hash\<close> reads the 32-byte hash as four little-endian 64-bit words \<open>w0..w3\<close>.\<close>

definition check_hash :: "u64 \<times> u64 \<times> u64 \<times> u64 \<Rightarrow> u64 \<Rightarrow> bool" where
  "check_hash h difficulty =
     (case h of (w0, w1, w2, w3) \<Rightarrow>
       let (top, high3) = mul w3 difficulty
       in if high3 \<noteq> 0 then False
          else
            let (low0, cur0) = mul w0 difficulty;
                (low1, high1) = mul w1 difficulty;
                carry1 = cadd cur0 low1;
                (low2, high2) = mul w2 difficulty;
                carry2 = cadc high1 low2 carry1;
                carry3 = cadc high2 top carry2
            in \<not> carry3)"

text \<open>The 256-bit little-endian value of a hash.\<close>

definition hash_value :: "u64 \<times> u64 \<times> u64 \<times> u64 \<Rightarrow> nat" where
  "hash_value h = (case h of (w0, w1, w2, w3) \<Rightarrow>
     unat w0 + unat w1 * 2 ^ 64 + unat w2 * 2 ^ 128 + unat w3 * 2 ^ 192)"

section \<open>Exactness of the 128-bit routines\<close>

lemma unat_hi_dword: "unat (hi_dword v) = unat v div 4294967296"
  by (simp add: hi_dword_def drop_bit_eq_div unat_div_distrib)

lemma unat_lo_dword: "unat (lo_dword v) = unat v mod 4294967296"
proof -
  have "lo_dword v = take_bit 32 v"
    by (simp add: lo_dword_def take_bit_eq_mask mask_numeral)
  then show ?thesis by (simp add: take_bit_eq_mod unat_mod_distrib)
qed

lemma unat_push_32: "unat (push_bit 32 (x :: u64)) = (unat x mod 4294967296) * 4294967296"
proof -
  have "unat (push_bit 32 x) = (unat x * 4294967296) mod 18446744073709551616"
    by (simp add: push_bit_eq_mult unat_word_ariths mult.commute)
  also have "\<dots> = (unat x mod 4294967296) * 4294967296"
    using mod_mult_mult2 [of "unat x" 4294967296 4294967296] by simp
  finally show ?thesis .
qed

lemma word_sum_carry:
  fixes x y :: u64
  shows "unat x + unat y = (if x + y < x then 1 else 0) * 18446744073709551616 + unat (x + y)"
proof -
  have lt: "unat x + unat y < 2 * 18446744073709551616"
    using unat_u64_bound [of x] unat_u64_bound [of y] by linarith
  have s: "unat (x + y) = (unat x + unat y) mod 18446744073709551616"
    by (simp add: unat_word_ariths)
  show ?thesis
  proof (cases "unat x + unat y < 18446744073709551616")
    case True
    then have "unat (x + y) = unat x + unat y" using s by simp
    then show ?thesis by (simp add: word_less_nat_alt)
  next
    case False
    then have e: "unat (x + y) = unat x + unat y - 18446744073709551616"
      using s lt by (simp add: mod_if)
    then have "x + y < x" using False unat_u64_bound [of y] unfolding word_less_nat_alt by linarith
    then show ?thesis using e False by simp
  qed
qed

lemma half_product_bound:
  fixes x y :: nat
  assumes "x < 4294967296" "y < 4294967296"
  shows "x * y < 18446744073709551616"
proof -
  have "x * y \<le> 4294967295 * 4294967295" using assms by (intro mult_le_mono) auto
  then show ?thesis by simp
qed

lemma mul128_carries:
  fixes p ac k s bd v j l u :: nat
  assumes "p = ac * 18446744073709551616 + (k * 18446744073709551616 + s) * 4294967296 + bd"
    and "bd + v * 4294967296 = j * 18446744073709551616 + l"
    and "s = u * 4294967296 + v"
  shows "p = (ac + u + k * 4294967296 + j) * 18446744073709551616 + l"
  using assms by simp

lemma mul128_exact:
  assumes "mul128 x y = (lo, hi)"
  shows "unat hi * 18446744073709551616 + unat lo = unat x * unat y"
proof -
  define a b c d where "a = hi_dword x" and "b = lo_dword x" and "c = hi_dword y" and "d = lo_dword y"
  have bounds: "unat a < 4294967296" "unat b < 4294967296" "unat c < 4294967296" "unat d < 4294967296"
    unfolding a_def b_def c_def d_def
    by (simp_all add: unat_hi_dword unat_lo_dword less_mult_imp_div_less)
  have xs: "unat x = unat a * 4294967296 + unat b" and ys: "unat y = unat c * 4294967296 + unat d"
    by (simp_all add: a_def b_def c_def d_def unat_hi_dword unat_lo_dword)
  have pr: "unat (a * c) = unat a * unat c" "unat (a * d) = unat a * unat d"
    "unat (b * c) = unat b * unat c" "unat (b * d) = unat b * unat d"
    using bounds by (simp_all add: unat_mult_no_wrap half_product_bound)
  define s where "s = a * d + b * c"
  define k :: nat where "k = (if s < a * d then 1 else 0)"
  define l where "l = b * d + push_bit 32 s"
  define j :: nat where "j = (if l < b * d then 1 else 0)"
  define kw :: u64 where "kw = (if s < a * d then 1 else 0)"
  define jw :: u64 where "jw = (if l < b * d then 1 else 0)"
  define h where "h = a * c + drop_bit 32 s + push_bit 32 kw + jw"
  have res: "lo = l" "hi = h"
    using assms unfolding mul128_def Let_def l_def h_def s_def a_def b_def c_def d_def kw_def jw_def
    by auto
  have sum1: "unat a * unat d + unat b * unat c = k * 18446744073709551616 + unat s"
    using word_sum_carry [of "a * d" "b * c"] pr by (simp add: s_def k_def)
  have sum2: "unat b * unat d + (unat s mod 4294967296) * 4294967296
      = j * 18446744073709551616 + unat l"
    using word_sum_carry [of "b * d" "push_bit 32 s"] pr by (simp add: l_def j_def unat_push_32)
  define H where "H = unat a * unat c + unat s div 4294967296 + k * 4294967296 + j"
  have tot: "unat x * unat y = H * 18446744073709551616 + unat l"
  proof -
    have "unat x * unat y = unat a * unat c * 18446744073709551616
        + (unat a * unat d + unat b * unat c) * 4294967296 + unat b * unat d"
      unfolding xs ys by (simp add: algebra_simps)
    also have "\<dots> = unat a * unat c * 18446744073709551616
        + (k * 18446744073709551616 + unat s) * 4294967296 + unat b * unat d"
      by (simp only: sum1)
    finally have e: "unat x * unat y = unat a * unat c * 18446744073709551616
        + (k * 18446744073709551616 + unat s) * 4294967296 + unat b * unat d" .
    have "unat s = (unat s div 4294967296) * 4294967296 + unat s mod 4294967296" by simp
    from mul128_carries [OF e sum2 this] show ?thesis unfolding H_def .
  qed
  have "H * 18446744073709551616 < 18446744073709551616 * 18446744073709551616"
  proof -
    have "unat x * unat y < 18446744073709551616 * 18446744073709551616"
      by (intro mult_strict_mono') simp_all
    then show ?thesis using tot by linarith
  qed
  then have Hb: "H < 18446744073709551616" by simp
  have "unat h = H mod 18446744073709551616"
  proof -
    have "unat (push_bit 32 kw) = k * 4294967296"
      by (simp add: unat_push_32 kw_def k_def)
    moreover have "unat jw = j" by (simp add: jw_def j_def)
    moreover have "unat (drop_bit 32 s) = unat s div 4294967296"
      by (simp add: drop_bit_eq_div unat_div_distrib)
    ultimately show ?thesis
      unfolding h_def H_def using pr by (simp add: unat_word_ariths mod_simps)
  qed
  then have "unat h = H" using Hb by simp
  then show ?thesis using tot res by simp
qed

lemma mul_eq_mul128: "mul x y = mul128 x y"
proof -
  obtain lo hi where m: "mul128 x y = (lo, hi)" by fastforce
  note e = mul128_exact [OF m]
  have b: "unat x * unat y < 340282366920938463463374607431768211456"
    using mult_strict_mono' [of "unat x" 18446744073709551616 "unat y" 18446744073709551616] by simp
  have t: "take_bit 128 (unat v) = unat v" for v :: u64
    using unat_u64_le [of v] by (simp add: take_bit_nat_eq_self)
  have p: "unat ((ucast x :: 128 word) * ucast y) = unat x * unat y"
    using b by (simp add: unat_word_ariths unsigned_ucast_eq t)
  have "unat lo = unat x * unat y mod 18446744073709551616"
    and "unat hi = unat x * unat y div 18446744073709551616"
    by (simp_all flip: e)
  moreover have "unat x * unat y div 18446744073709551616 < 18446744073709551616"
    using b by (intro less_mult_imp_div_less) simp
  ultimately have "lo = ucast ((ucast x :: 128 word) * ucast y)"
    and "hi = ucast (drop_bit 64 ((ucast x :: 128 word) * ucast y))"
    by (simp_all add: word_unat_eq_iff unsigned_ucast_eq p take_bit_eq_mod drop_bit_eq_div unat_div_distrib)
  then show ?thesis by (simp add: m mul_def Let_def)
qed

lemma or_push_32:
  fixes q r :: u64
  assumes "unat r < 4294967296"
  shows "unat (r OR push_bit 32 q) = (unat q mod 4294967296) * 4294967296 + unat r"
proof -
  have r: "take_bit 32 r = r"
    using assms by (simp add: word_eq_iff_unsigned [where ?'a = nat] take_bit_eq_mod unat_mod_distrib)
  have "take_bit 32 r AND push_bit 32 q = 0"
    by (rule bit_word_eqI) (auto simp: bit_simps)
  then have "r OR push_bit 32 q = r + push_bit 32 q"
    using r by (simp add: disjunctive_add_eq_or)
  moreover have "unat r + unat (push_bit 32 q) < 18446744073709551616"
    using assms by (simp add: unat_push_32)
  ultimately show ?thesis by (simp add: unat_add_no_wrap unat_push_32)
qed

lemma div_step:
  assumes "div_with_reminder n d r = (q, r')" "unat n < 4294967296" "unat r < unat d"
  shows "unat q * unat d + unat r' = unat r * 4294967296 + unat n"
    and "unat r' < unat d"
    and "unat q < 4294967296"
proof -
  define D where "D = n OR push_bit 32 (ucast r :: u64)"
  have D: "unat D = unat r * 4294967296 + unat n"
    using or_push_32 [OF assms(2), of "ucast r"] by (simp add: D_def)
  have q: "unat q = unat D div unat d"
    using assms(1) by (auto simp: div_with_reminder_def Let_def D_def unat_div_distrib)
  have m: "unat D mod unat d < 4294967296"
    using mod_less_divisor [of "unat d" "unat D"] assms(3) unat_u32_bound [of d] by linarith
  have "r' = ucast (D mod ucast d)"
    using assms(1) by (auto simp: div_with_reminder_def Let_def D_def)
  then have r': "unat r' = unat D mod unat d"
    using m by (simp add: unat_ucast_u64_u32 unat_mod_distrib)
  show "unat q * unat d + unat r' = unat r * 4294967296 + unat n"
    using q r' D by (metis div_mult_mod_eq)
  show "unat r' < unat d" using r' assms(3) by simp
  have "unat D < unat d * 4294967296"
  proof -
    obtain k where "unat d = unat r + 1 + k"
      using assms(3) by (metis Suc_eq_plus1 less_iff_Suc_add add_Suc)
    then show ?thesis using D assms(2) by simp
  qed
  then show "unat q < 4294967296" using q by (simp add: less_mult_imp_div_less mult.commute)
qed

lemma or_quotient:
  fixes q r :: u64
  assumes "unat q < 4294967296" "unat r < 4294967296"
  shows "unat (push_bit 32 q OR r) = unat q * 4294967296 + unat r"
  using or_push_32 [OF assms(2), of q] assms(1) by (simp add: or.commute)

lemma div128_32_exact:
  assumes "d \<noteq> 0" "div128_32 hi lo d = (r, qhi, qlo)"
  shows "(unat qhi * 18446744073709551616 + unat qlo) * unat d + unat r
         = unat hi * 18446744073709551616 + unat lo"
    and "unat r < unat d"
proof -
  obtain q3 r3 where s3: "div_with_reminder (hi_dword hi) d 0 = (q3, r3)" by fastforce
  obtain q2 r2 where s2: "div_with_reminder (lo_dword hi) d r3 = (q2, r2)" by fastforce
  obtain q1 r1 where s1: "div_with_reminder (hi_dword lo) d r2 = (q1, r1)" by fastforce
  obtain q0 r0 where s0: "div_with_reminder (lo_dword lo) d r1 = (q0, r0)" by fastforce
  have res: "r = r0" "qhi = push_bit 32 q3 OR q2" "qlo = push_bit 32 q1 OR q0"
    using assms(2) s3 s2 s1 s0 by (simp_all add: div128_32_def)
  have h: "unat (hi_dword v) < 4294967296" "unat (lo_dword v) < 4294967296" for v
    by (simp_all add: unat_hi_dword unat_lo_dword less_mult_imp_div_less)
  have d0: "unat (0 :: u32) < unat d" using assms(1) by (simp add: unat_gt_0)
  note e3 = div_step [OF s3 h(1) d0]
  note e2 = div_step [OF s2 h(2) e3(2)]
  note e1 = div_step [OF s1 h(1) e2(2)]
  note e0 = div_step [OF s0 h(2) e1(2)]
  have Q: "unat qhi = unat q3 * 4294967296 + unat q2" "unat qlo = unat q1 * 4294967296 + unat q0"
    using res e3(3) e2(3) e1(3) e0(3) by (simp_all add: or_quotient)
  have split: "unat v = unat (hi_dword v) * 4294967296 + unat (lo_dword v)" for v
    by (simp add: unat_hi_dword unat_lo_dword)
  have arith: "((a3 * 4294967296 + a2) * 18446744073709551616 + (a1 * 4294967296 + a0)) + x0
      = (n3 * 4294967296 + n2) * 18446744073709551616 + (n1 * 4294967296 + n0)"
    if "a3 + x3 = n3" "a2 + x2 = x3 * 4294967296 + n2" "a1 + x1 = x2 * 4294967296 + n1"
       "a0 + x0 = x1 * 4294967296 + n0" for a3 a2 a1 a0 x3 x2 x1 x0 n3 n2 n1 n0 :: nat
    using that by simp
  have e3': "unat q3 * unat d + unat r3 = unat (hi_dword hi)" using e3(1) by simp
  show "(unat qhi * 18446744073709551616 + unat qlo) * unat d + unat r
         = unat hi * 18446744073709551616 + unat lo"
    using arith [OF e3' e2(1) e1(1) e0(1)] unfolding Q res(1) split [of hi] split [of lo]
    by (simp add: algebra_simps)
  show "unat r < unat d" using e0(2) res(1) by simp
qed

text \<open>\<open>mul128\<close> returns the exact 128-bit product: high word times \<open>2^64\<close> plus low word is
  the product of the operands, for all 64-bit operands (the carries never lose a bit). It is the
  same pair as the branch of \<open>mul\<close> compiled with native 128-bit integers computes.\<close>

theorem mul128_correct:
  "mul x y = mul128 x y \<and> (case mul128 x y of (lo, hi) \<Rightarrow> unat hi * 2 ^ 64 + unat lo = unat x * unat y)"
  using mul128_exact [of x y] by (cases "mul128 x y") (simp add: mul_eq_mul128)

text \<open>\<open>div128_32\<close> divides a 128-bit number by a non-zero 32-bit divisor: the two quotient
  words are the exact quotient and the returned word is the exact remainder.\<close>

theorem div128_32_correct:
  assumes "d \<noteq> 0"
  shows "case div128_32 hi lo d of (r, qhi, qlo) \<Rightarrow>
    unat qhi * 2 ^ 64 + unat qlo = (unat hi * 2 ^ 64 + unat lo) div unat d \<and>
    unat r = (unat hi * 2 ^ 64 + unat lo) mod unat d"
proof -
  obtain r qhi qlo where e: "div128_32 hi lo d = (r, qhi, qlo)" by (cases "div128_32 hi lo d") auto
  from quot_rem_nat [OF div128_32_exact [OF assms e]] show ?thesis by (simp add: e)
qed

theorem div128_32_correct_witness:
  "case div128_32 5 7 3 of (r, qhi, qlo) \<Rightarrow>
    unat qhi * 2 ^ 64 + unat qlo = (5 * 2 ^ 64 + 7) div 3 \<and> unat r = (5 * 2 ^ 64 + 7) mod 3"
  using div128_32_correct [of 3 5 7] by simp

section \<open>The proof-of-work test\<close>

lemma cadd_iff: "cadd a b \<longleftrightarrow> 18446744073709551616 \<le> unat a + unat b"
proof (cases "a + b < a")
  case True
  then show ?thesis using word_sum_carry [of a b] by (simp add: cadd_def)
next
  case False
  then have "unat a + unat b = unat (a + b)" using word_sum_carry [of a b] by simp
  then show ?thesis using False unat_u64_bound [of "a + b"] unfolding cadd_def by linarith
qed

lemma cadc_iff:
  "cadc a b c \<longleftrightarrow> 18446744073709551616 \<le> unat a + unat b + (if c then 1 else 0)"
proof -
  have "unat (- 1 :: u64) = 18446744073709551615"
    by (simp add: unsigned_minus_1_eq_mask mask_eq_exp_minus_1)
  then have m1: "a + b = - 1 \<longleftrightarrow> unat (a + b) = 18446744073709551615"
    by (metis word_unat_eq_iff)
  show ?thesis
  proof (cases "a + b < a")
    case True
    then show ?thesis using word_sum_carry [of a b] by (simp add: cadc_def)
  next
    case False
    then have "unat a + unat b = unat (a + b)" using word_sum_carry [of a b] by simp
    then show ?thesis using False unat_u64_le [of "a + b"] unfolding cadc_def m1 by auto
  qed
qed

lemma carry_chain:
  fixes l0 s1 s2 s3 :: nat
  defines "W \<equiv> 18446744073709551616 :: nat"
  defines "c1 \<equiv> (if W \<le> s1 then 1 else 0 :: nat)"
  defines "c2 \<equiv> (if W \<le> s2 + c1 then 1 else 0 :: nat)"
  assumes "l0 < W" "s1 + 2 \<le> 2 * W" "s2 + 2 \<le> 2 * W"
  shows "l0 + s1 * W + s2 * (W * W) + s3 * (W * W * W) < W * W * W * W \<longleftrightarrow> s3 + c2 < W"
proof -
  define y1 where "y1 = l0 + s1 * W - c1 * (W * W)"
  have y1: "l0 + s1 * W = c1 * (W * W) + y1" "y1 < W * W"
    using assms by (auto simp: y1_def c1_def W_def)
  define y2 where "y2 = y1 + (s2 + c1) * (W * W) - c2 * (W * W * W)"
  have y2: "y1 + (s2 + c1) * (W * W) = c2 * (W * W * W) + y2" "y2 < W * W * W"
    using assms y1(2) by (auto simp: y2_def c2_def c1_def W_def split: if_splits)
  have "l0 + s1 * W + s2 * (W * W) + s3 * (W * W * W) = (s3 + c2) * (W * W * W) + y2"
    using y1(1) y2(1) by (simp add: W_def)
  then show ?thesis using y2(2) by (simp add: W_def) linarith
qed

lemma mul128_sum_bound:
  assumes "mul128 x d = (lo, hi)" "mul128 x' d = (lo', hi')"
  shows "unat hi + unat lo' + 2 \<le> 2 * 18446744073709551616"
proof -
  have "unat hi * 18446744073709551616 \<le> unat x * unat d"
    using mul128_exact [OF assms(1)] by linarith
  also have "\<dots> \<le> 18446744073709551615 * 18446744073709551615"
    using unat_u64_bound [of x] unat_u64_bound [of d] by (intro mult_le_mono) linarith+
  finally have "unat hi \<le> 18446744073709551614" by simp
  then show ?thesis using unat_u64_bound [of lo'] by linarith
qed

text \<open>C17: \<open>check_hash\<close> accepts a hash exactly when hash times difficulty fits in 256 bits,
  i.e. when the 256-bit value of the hash is below \<open>2^256 / difficulty\<close>.\<close>

theorem check_hash_correct: "check_hash h d \<longleftrightarrow> hash_value h * unat d < 2 ^ 256"
proof -
  obtain w0 w1 w2 w3 where h: "h = (w0, w1, w2, w3)" by (cases h) auto
  obtain l0 h0 where m0: "mul128 w0 d = (l0, h0)" by fastforce
  obtain l1 h1 where m1: "mul128 w1 d = (l1, h1)" by fastforce
  obtain l2 h2 where m2: "mul128 w2 d = (l2, h2)" by fastforce
  obtain l3 h3 where m3: "mul128 w3 d = (l3, h3)" by fastforce
  define W where "W = (18446744073709551616 :: nat)"
  note ex = mul128_exact [OF m0] mul128_exact [OF m1] mul128_exact [OF m2] mul128_exact [OF m3]
  have V: "hash_value h * unat d = unat w0 * unat d + unat w1 * unat d * W
      + unat w2 * unat d * (W * W) + unat w3 * unat d * (W * W * W)"
    by (simp add: h hash_value_def W_def algebra_simps)
  have V': "hash_value h * unat d = unat l0 + (unat h0 + unat l1) * W + (unat h1 + unat l2) * (W * W)
      + (unat h2 + unat l3 + unat h3 * W) * (W * W * W)"
    unfolding V ex [symmetric] by (simp add: W_def algebra_simps)
  have p: "(2 :: nat) ^ 256 = W * W * W * W" by (simp add: W_def)
  show ?thesis
  proof (cases "h3 = 0")
    case False
    then have "1 \<le> unat h3" by (simp add: Suc_leI unat_gt_0)
    then have "W * W * W * W \<le> unat h3 * (W * W * W * W)" by simp
    also have "\<dots> \<le> hash_value h * unat d" unfolding V' by (simp add: algebra_simps)
    finally have "\<not> hash_value h * unat d < 2 ^ 256" unfolding p by simp
    then show ?thesis using False h m3 by (simp add: check_hash_def mul_eq_mul128)
  next
    case True
    have "check_hash h d \<longleftrightarrow> \<not> cadc h2 l3 (cadc h1 l2 (cadd h0 l1))"
      using True h m0 m1 m2 m3 by (simp add: check_hash_def mul_eq_mul128)
    also have "\<dots> \<longleftrightarrow> hash_value h * unat d < 2 ^ 256"
      using carry_chain [of "unat l0" "unat h0 + unat l1" "unat h1 + unat l2" "unat h2 + unat l3"]
        mul128_sum_bound [OF m0 m1] mul128_sum_bound [OF m1 m2] True
      unfolding V' p W_def cadd_iff cadc_iff by (simp add: not_le)
    finally show ?thesis .
  qed
qed

end
