(* ===== verification/Keccak.thy ===== *)
theory Keccak
  imports Fuego_Prelude
begin

unbundle bit_operations_syntax

text \<open>
  The fast hash \<open>cn_fast_hash\<close> of \<open>src/src/crypto/hash.c\<close>: the Keccak-1600 sponge of
  \<open>src/src/crypto/keccak.c\<close> with rate 136, of whose final state the first 32 bytes are
  returned. The state \<open>uint64_t st[25]\<close> is a list of 25 words; the in-place loops of \<open>keccakf\<close>
  become one list function per step of the round. All other theories use the hash only through
  its length.
\<close>

section \<open>Definitions\<close>

definition ROTL64 :: "u64 \<Rightarrow> nat \<Rightarrow> u64" where
  "ROTL64 x y = push_bit y x OR drop_bit (64 - y) x"

definition keccakf_rndc :: "u64 list" where
  "keccakf_rndc =
    [0x0000000000000001, 0x0000000000008082, 0x800000000000808a,
     0x8000000080008000, 0x000000000000808b, 0x0000000080000001,
     0x8000000080008081, 0x8000000000008009, 0x000000000000008a,
     0x0000000000000088, 0x0000000080008009, 0x000000008000000a,
     0x000000008000808b, 0x800000000000008b, 0x8000000000008089,
     0x8000000000008003, 0x8000000000008002, 0x8000000000000080,
     0x000000000000800a, 0x800000008000000a, 0x8000000080008081,
     0x8000000000008080, 0x0000000080000001, 0x8000000080008008]"

definition keccakf_rotc :: "nat list" where
  "keccakf_rotc =
    [1, 3, 6, 10, 15, 21, 28, 36, 45, 55, 2, 14,
     27, 41, 56, 8, 25, 43, 62, 18, 39, 61, 20, 44]"

definition keccakf_piln :: "nat list" where
  "keccakf_piln =
    [10, 7, 11, 17, 18, 3, 5, 16, 8, 21, 24, 4,
     15, 23, 19, 13, 12, 2, 20, 14, 22, 9, 6, 1]"

text \<open>Theta: the column parities \<open>bc\<close> are computed first, then xored into every lane.\<close>

definition theta :: "u64 list \<Rightarrow> u64 list" where
  "theta st =
     (let bc = map (\<lambda>i. st ! i XOR st ! (i + 5) XOR st ! (i + 10) XOR st ! (i + 15) XOR st ! (i + 20)) [0..<5];
          t = map (\<lambda>i. bc ! ((i + 4) mod 5) XOR ROTL64 (bc ! ((i + 1) mod 5)) 1) [0..<5]
      in map (\<lambda>k. st ! k XOR t ! (k mod 5)) [0..<25])"

text \<open>Rho and Pi: one walk over the lanes, carrying the displaced lane in \<open>t\<close>.\<close>

fun rho_pi_loop :: "(nat \<times> nat) list \<Rightarrow> u64 \<Rightarrow> u64 list \<Rightarrow> u64 list" where
  "rho_pi_loop [] t st = st"
| "rho_pi_loop ((j, r) # rest) t st = rho_pi_loop rest (st ! j) (st[j := ROTL64 t r])"

definition rho_pi :: "u64 list \<Rightarrow> u64 list" where
  "rho_pi st = rho_pi_loop (zip keccakf_piln keccakf_rotc) (st ! 1) st"

text \<open>Chi works on each row of five lanes with the row's old values.\<close>

definition chi :: "u64 list \<Rightarrow> u64 list" where
  "chi st = map (\<lambda>k. let j = 5 * (k div 5); i = k mod 5
       in st ! k XOR (NOT (st ! (j + (i + 1) mod 5)) AND st ! (j + (i + 2) mod 5))) [0..<25]"

definition keccak_round :: "nat \<Rightarrow> u64 list \<Rightarrow> u64 list" where
  "keccak_round round st =
     (let st' = chi (rho_pi (theta st)) in st'[0 := st' ! 0 XOR keccakf_rndc ! round])"

definition keccakf :: "u64 list \<Rightarrow> nat \<Rightarrow> u64 list" where
  "keccakf st rounds = fold keccak_round [0..<rounds] st"

text \<open>\<open>((uint64_t *) in)[i]\<close> on a little-endian machine, and the inverse copy of the state.\<close>

fun le_word :: "bytes \<Rightarrow> u64" where
  "le_word [] = 0"
| "le_word (b # bs) = ucast b OR push_bit 8 (le_word bs)"

definition word_le :: "u64 \<Rightarrow> bytes" where
  "word_le w = map (\<lambda>k. ucast (drop_bit (8 * k) w)) [0..<8]"

definition xor_block :: "nat \<Rightarrow> u64 list \<Rightarrow> bytes \<Rightarrow> u64 list" where
  "xor_block rsizw st block =
     map (\<lambda>k. if k < rsizw then st ! k XOR le_word (take 8 (drop (8 * k) block)) else st ! k) [0..<25]"

definition KECCAK_ROUNDS :: nat where
  "KECCAK_ROUNDS = 24"

text \<open>The last block: the rest of the input, the padding byte 1, zeros, and the top bit of the
  last byte.\<close>

definition pad_block :: "nat \<Rightarrow> bytes \<Rightarrow> bytes" where
  "pad_block rsiz rest =
     (let temp = rest @ [1] @ replicate (rsiz - (length rest + 1)) 0
      in temp[rsiz - 1 := temp ! (rsiz - 1) OR 0x80])"

function keccak_absorb :: "nat \<Rightarrow> u64 list \<Rightarrow> bytes \<Rightarrow> u64 list" where
  "keccak_absorb rsiz st inp =
     (if 0 < rsiz \<and> rsiz \<le> length inp
      then keccak_absorb rsiz (keccakf (xor_block (rsiz div 8) st (take rsiz inp)) KECCAK_ROUNDS) (drop rsiz inp)
      else keccakf (xor_block (rsiz div 8) st (pad_block rsiz inp)) KECCAK_ROUNDS)"
  by pat_completeness auto
termination
  by (relation "measure (\<lambda>(rsiz, st, inp). length inp)") auto

definition HASH_DATA_AREA :: nat where
  "HASH_DATA_AREA = 136"

definition keccak :: "bytes \<Rightarrow> nat \<Rightarrow> bytes" where
  "keccak inp mdlen =
     (let rsiz = (if mdlen = 200 then HASH_DATA_AREA else 200 - 2 * mdlen)
      in take mdlen (concat (map word_le (keccak_absorb rsiz (replicate 25 0) inp))))"

definition keccak1600 :: "bytes \<Rightarrow> bytes" where
  "keccak1600 inp = keccak inp 200"

definition HASH_SIZE :: nat where
  "HASH_SIZE = 32"

definition cn_fast_hash :: "bytes \<Rightarrow> hash" where
  "cn_fast_hash data = take HASH_SIZE (keccak1600 data)"

text \<open>
  The reference form of the steps Rho and Pi, as the Keccak specification gives them: lane \<open>(x, y)\<close>
  is the word \<open>x + 5 * y\<close>; the \<open>t\<close>-th lane of the walk from \<open>(1, 0)\<close> is rotated by the
  triangular number \<open>(t + 1) (t + 2) / 2\<close> and moved to \<open>(y, 2 x + 3 y)\<close>.
\<close>

definition lane :: "nat \<times> nat \<Rightarrow> nat" where
  "lane p = fst p + 5 * snd p"

definition pi_step :: "nat \<times> nat \<Rightarrow> nat \<times> nat" where
  "pi_step p = (snd p, (2 * fst p + 3 * snd p) mod 5)"

primrec walk_lane :: "nat \<Rightarrow> nat \<times> nat" where
  "walk_lane 0 = (1, 0)"
| "walk_lane (Suc t) = pi_step (walk_lane t)"

section \<open>The hash has 32 bytes\<close>

declare keccak_absorb.simps [simp del]

lemma length_keccak_round [simp]: "length (keccak_round r st) = 25"
  by (simp add: keccak_round_def chi_def Let_def)

lemma length_keccakf: "length st = 25 \<Longrightarrow> length (keccakf st n) = 25"
proof -
  have "length st = 25 \<Longrightarrow> length (fold keccak_round rs st) = 25" for rs
    by (induction rs arbitrary: st) simp_all
  then show "length st = 25 \<Longrightarrow> length (keccakf st n) = 25" by (simp add: keccakf_def)
qed

lemma length_keccak_absorb [simp]: "length (keccak_absorb rsiz st inp) = 25"
proof (induction rsiz st inp rule: keccak_absorb.induct)
  case (1 rsiz st inp)
  then show ?case
    by (subst keccak_absorb.simps) (simp add: length_keccakf xor_block_def)
qed

lemma length_concat_word_le: "length (concat (map word_le ws)) = 8 * length ws"
  by (induction ws) (simp_all add: word_le_def)

lemma length_cn_fast_hash [simp]: "length (cn_fast_hash data) = 32"
  by (simp add: cn_fast_hash_def keccak1600_def keccak_def HASH_SIZE_def HASH_DATA_AREA_def
      length_concat_word_le Let_def)

section \<open>Rho and Pi against their reference form\<close>

lemma walk_lane_numeral: "walk_lane (numeral n) = pi_step (walk_lane (pred_numeral n))"
  by (simp add: numeral_eq_Suc)

lemma walk_tables:
  assumes "t < 24"
  shows "keccakf_piln ! t = lane (pi_step (walk_lane t))"
    and "keccakf_rotc ! t = (t + 1) * (t + 2) div 2 mod 64"
proof -
  have "list_all (\<lambda>t. keccakf_piln ! t = lane (pi_step (walk_lane t)) \<and>
      keccakf_rotc ! t = (t + 1) * (t + 2) div 2 mod 64) [0..<24]"
    by (simp add: keccakf_piln_def keccakf_rotc_def walk_lane_numeral pi_step_def lane_def upt_rec_numeral upt_rec)
  then show "keccakf_piln ! t = lane (pi_step (walk_lane t))"
    and "keccakf_rotc ! t = (t + 1) * (t + 2) div 2 mod 64"
    using assms by (simp_all add: list_all_iff)
qed

text \<open>A walk over distinct positions writes into each the rotated old value of the one before it.\<close>

lemma rho_pi_loop_other:
  "j \<notin> fst ` set w \<Longrightarrow> rho_pi_loop w t st ! j = st ! j"
  by (induction w t st rule: rho_pi_loop.induct) auto

lemma rho_pi_loop_nth:
  assumes "distinct (map fst w)" "\<forall>j \<in> fst ` set w. j < length st" "k < length w"
  shows "rho_pi_loop w t st ! fst (w ! k)
       = ROTL64 (if k = 0 then t else st ! fst (w ! (k - 1))) (snd (w ! k))"
  using assms
proof (induction w t st arbitrary: k rule: rho_pi_loop.induct)
  case (1 t st)
  then show ?case by simp
next
  case (2 j r rest t st)
  show ?case
  proof (cases k)
    case 0
    then show ?thesis using 2 by (simp add: rho_pi_loop_other)
  next
    case (Suc k')
    have "k' \<noteq> 0 \<Longrightarrow> fst (rest ! (k' - 1)) \<noteq> j" using 2 Suc by (auto simp: image_iff)
    then show ?thesis using 2 Suc by (auto simp: nth_Cons')
  qed
qed

text \<open>
  The in-place Rho/Pi loop of \<open>keccakf\<close> performs the simultaneous rotation and permutation of
  the lanes that the Keccak specification defines: no lane is read after it was overwritten.
\<close>

theorem rho_pi_correct:
  assumes "length st = 25" "t < 24"
  shows "rho_pi st ! lane (pi_step (walk_lane t))
       = ROTL64 (st ! lane (walk_lane t)) ((t + 1) * (t + 2) div 2 mod 64) \<and>
     rho_pi st ! 0 = st ! 0"
proof -
  let ?w = "zip keccakf_piln keccakf_rotc"
  have len: "length keccakf_piln = 24" "length keccakf_rotc = 24"
    by (simp_all add: keccakf_piln_def keccakf_rotc_def)
  have piln: "distinct keccakf_piln" "\<forall>j \<in> set keccakf_piln. 0 < j \<and> j < 25"
    by (simp_all add: keccakf_piln_def)
  have fw: "map fst ?w = keccakf_piln" by (simp add: len)
  then have sw: "fst ` set ?w = set keccakf_piln" by (metis set_map)
  have pos: "(if t = 0 then st ! 1 else st ! fst (?w ! (t - 1))) = st ! lane (walk_lane t)"
    using assms(2) walk_tables(1) [of "t - 1"] len by (cases t) (simp_all add: lane_def)
  have "rho_pi st ! fst (?w ! t)
      = ROTL64 (if t = 0 then st ! 1 else st ! fst (?w ! (t - 1))) (snd (?w ! t))"
    unfolding rho_pi_def using assms piln fw sw len by (intro rho_pi_loop_nth) auto
  then have "rho_pi st ! lane (pi_step (walk_lane t))
       = ROTL64 (st ! lane (walk_lane t)) ((t + 1) * (t + 2) div 2 mod 64)"
    using pos walk_tables [OF assms(2)] assms(2) len by simp
  moreover have "rho_pi st ! 0 = st ! 0"
    unfolding rho_pi_def using piln sw by (intro rho_pi_loop_other) auto
  ultimately show ?thesis by simp
qed

theorem rho_pi_correct_witness:
  "rho_pi (map of_nat [0..<25]) ! lane (pi_step (walk_lane 3))
   = ROTL64 (map of_nat [0..<25] ! lane (walk_lane 3)) 10"
  using rho_pi_correct [of "map of_nat [0..<25]" 3] by simp

end
