(* ===== verification/Byte_Codecs.thy ===== *)
theory Byte_Codecs
  imports Fuego_Prelude
begin

unbundle bit_operations_syntax

text \<open>
  The byte-level codecs of \<open>src/src/Common\<close>: hexadecimal text (\<open>StringTools.cpp\<close>, \<open>podToHex\<close>
  and \<open>podFromHex\<close>) and variable-length integers (\<open>Varint.h\<close>). A \<open>std::string\<close> of text is a
  \<open>string\<close>, a byte buffer a list of bytes.
\<close>

section \<open>Hexadecimal text\<close>

text \<open>\<open>characterValues\<close>: the value of a hexadecimal digit, \<open>0xff\<close> for every other character.\<close>

definition characterValues :: "char \<Rightarrow> u8" where
  "characterValues c =
     (let n = of_char c :: nat
      in if 0x30 \<le> n \<and> n \<le> 0x39 then of_nat (n - 0x30)
         else if 0x41 \<le> n \<and> n \<le> 0x46 then of_nat (n - 0x41 + 10)
         else if 0x61 \<le> n \<and> n \<le> 0x66 then of_nat (n - 0x61 + 10)
         else 0xff)"

definition fromHex_char :: "char \<Rightarrow> u8 option" where
  "fromHex_char c = (if 0x0f < characterValues c then None else Some (characterValues c))"

text \<open>The loop of \<open>fromHex(text, data, bufferSize, size)\<close> over the pairs of digits.\<close>

fun fromHex_pairs :: "string \<Rightarrow> bytes option" where
  "fromHex_pairs (c1 # c2 # text) =
     (case fromHex_char c1 of None \<Rightarrow> None
      | Some value1 \<Rightarrow>
        (case fromHex_char c2 of None \<Rightarrow> None
         | Some value2 \<Rightarrow>
           (case fromHex_pairs text of None \<Rightarrow> None
            | Some data \<Rightarrow> Some ((push_bit 4 value1 OR value2) # data))))"
| "fromHex_pairs _ = Some []"

definition fromHex :: "string \<Rightarrow> nat \<Rightarrow> bytes option" where
  "fromHex text bufferSize =
     (if length text mod 2 \<noteq> 0 then None
      else if bufferSize < length text div 2 then None
      else fromHex_pairs text)"

text \<open>\<open>podFromHex\<close> into an object of \<open>n\<close> bytes.\<close>

definition podFromHex :: "nat \<Rightarrow> string \<Rightarrow> bytes option" where
  "podFromHex n text =
     (case fromHex text n of None \<Rightarrow> None
      | Some data \<Rightarrow> if length data = n then Some data else None)"

definition hex_digits :: string where
  "hex_digits = ''0123456789abcdef''"

definition toHex :: "bytes \<Rightarrow> string" where
  "toHex data = concat (map (\<lambda>b. [hex_digits ! unat (drop_bit 4 b), hex_digits ! unat (b AND 15)]) data)"

definition podToHex :: "bytes \<Rightarrow> string" where
  "podToHex s = toHex s"

section \<open>Variable-length integers\<close>

function write_varint :: "u64 \<Rightarrow> bytes" where
  "write_varint i =
     (if 0x80 \<le> i then (ucast i AND 0x7f OR 0x80) # write_varint (drop_bit 7 i) else [ucast i])"
  by pat_completeness auto
termination
proof (relation "measure unat", goal_cases)
  case 1
  show ?case by simp
next
  case (2 i)
  then have "128 \<le> unat i" by (simp add: word_le_nat_alt)
  then show ?case by (simp add: drop_bit_eq_div unat_div_distrib)
qed

declare write_varint.simps [simp del]

text \<open>
  The loop of \<open>read_varint<bits>\<close>: the state is the shift, the number of bytes read and the value
  so far. The result is the returned \<open>int\<close> (the number of bytes, \<open>-1\<close> for an overflow, \<open>-2\<close> for
  a non-canonical encoding) and the value. At the end of the input the loop returns what it has
  read, as the source does.
\<close>

fun read_varint_loop :: "nat \<Rightarrow> nat \<Rightarrow> int \<Rightarrow> u64 \<Rightarrow> bytes \<Rightarrow> int \<times> u64" where
  "read_varint_loop bits shift read i [] = (read, i)"
| "read_varint_loop bits shift read i (byte # rest) =
     (let read' = read + 1
      in if bits \<le> shift + 7 \<and> 2 ^ (bits - shift) \<le> unat byte then (- 1, i)
         else if byte = 0 \<and> shift \<noteq> 0 then (- 2, i)
         else
           let i' = i OR push_bit shift (ucast (byte AND 0x7f))
           in if byte AND 0x80 = 0 then (read', i')
              else read_varint_loop bits (shift + 7) read' i' rest)"

definition read_varint :: "nat \<Rightarrow> bytes \<Rightarrow> int \<times> u64" where
  "read_varint bits inp = read_varint_loop bits 0 0 0 inp"

section \<open>Hexadecimal round trip\<close>

lemma fromHex_char_digit:
  assumes "n < 16"
  shows "fromHex_char (hex_digits ! n) = Some (of_nat n)"
proof -
  have "\<forall>n \<in> set [0..<16]. fromHex_char (hex_digits ! n) = Some (of_nat n)" by code_simp
  then show ?thesis using assms by simp
qed

lemma and_mask_u8:
  fixes b :: u8
  shows "b AND 15 = take_bit 4 b" and "b AND 127 = take_bit 7 b"
  by (simp_all add: take_bit_eq_mask mask_numeral)

lemma hex_byte:
  fixes b :: u8
  shows "push_bit 4 (drop_bit 4 b) OR (b AND 15) = b"
  unfolding and_mask_u8 by (rule bit_word_eqI) (auto simp: bit_simps)

lemma nibble_bounds:
  fixes b :: u8
  shows "unat (drop_bit 4 b) < 16" and "unat (b AND 15) < 16"
proof -
  show "unat (drop_bit 4 b) < 16"
    by (simp add: drop_bit_eq_div unat_div_distrib less_mult_imp_div_less)
  show "unat (b AND 15) < 16"
    by (simp add: and_mask_u8 take_bit_eq_mod unat_mod_distrib)
qed

lemma fromHex_pairs_toHex: "fromHex_pairs (toHex data) = Some data"
proof (induction data)
  case Nil
  then show ?case by (simp add: toHex_def)
next
  case (Cons b data)
  have "toHex (b # data) = (hex_digits ! unat (drop_bit 4 b)) # (hex_digits ! unat (b AND 15)) # toHex data"
    by (simp add: toHex_def)
  then show ?case using Cons by (simp add: fromHex_char_digit nibble_bounds hex_byte)
qed

lemma length_toHex [simp]: "length (toHex data) = 2 * length data"
  by (induction data) (simp_all add: toHex_def)

lemma podFromHex_podToHex: "podFromHex (length h) (podToHex h) = Some h"
  by (simp add: podFromHex_def podToHex_def fromHex_def fromHex_pairs_toHex)

lemma podToHex_inject [simp]: "podToHex a = podToHex b \<longleftrightarrow> a = b"
  by (metis fromHex_pairs_toHex option.inject podToHex_def)

section \<open>Variable-length integers: round trip and canonical form\<close>

lemma high_bit_u8:
  fixes b :: u8
  shows "b AND 0x80 = 0 \<longleftrightarrow> unat b < 128"
proof -
  have "b AND 0x80 = 0 \<longleftrightarrow> \<not> bit b 7"
    using and_exp_eq_0_iff_not_bit [of b 7] by simp
  also have "\<dots> \<longleftrightarrow> \<not> bit (unat b) 7" by (simp add: bit_unsigned_iff)
  also have "\<dots> \<longleftrightarrow> even (unat b div 128)" by (simp add: bit_iff_odd)
  also have "\<dots> \<longleftrightarrow> unat b < 128"
  proof -
    have "unat b div 128 < 2" using unat_u8_bound [of b] by (simp add: less_mult_imp_div_less)
    then have "even (unat b div 128) \<longleftrightarrow> unat b div 128 = 0" by (auto simp: less_2_cases_iff)
    then show ?thesis by (simp add: div_eq_0_iff)
  qed
  finally show ?thesis .
qed

text \<open>The two cases of the bytes \<open>write_varint\<close> emits.\<close>

lemma small_byte:
  fixes v :: u64
  assumes "v < 0x80"
  shows "unat (ucast v :: u8) = unat v"
    and "ucast ((ucast v :: u8) AND 0x7f) = v"
    and "(ucast v :: u8) AND 0x80 = 0"
proof -
  have v: "unat v < 128" using assms by (simp add: word_less_nat_alt)
  then show u: "unat (ucast v :: u8) = unat v" by (simp add: unat_ucast_u64_u8)
  show "(ucast v :: u8) AND 0x80 = 0" using u v by (simp add: high_bit_u8)
  show "ucast ((ucast v :: u8) AND 0x7f) = v"
    using u v by (simp add: word_unat_eq_iff and_mask_u8 take_bit_eq_mod unat_mod_distrib)
qed

lemma cont_byte:
  fixes v :: u64
  defines "b \<equiv> (ucast v AND 0x7f OR 0x80 :: u8)"
  shows "ucast (b AND 0x7f) = take_bit 7 v"
    and "b AND 0x80 \<noteq> 0" and "b \<noteq> 0"
proof -
  have s: "(0x80 :: u8) = push_bit 7 1" by simp
  have "b AND 0x7f = take_bit 7 (ucast v :: u8)"
    unfolding b_def and_mask_u8 s by (rule bit_word_eqI) (auto simp: bit_simps)
  then show "ucast (b AND 0x7f) = take_bit 7 v"
    by (simp add: word_unat_eq_iff take_bit_eq_mod unat_mod_distrib unat_ucast_u64_u8 mod_mod_cancel)
  have "bit b 7" unfolding b_def s by (simp add: bit_simps)
  then show "b AND 0x80 \<noteq> 0" using and_exp_eq_0_iff_not_bit [of b 7] by simp
  then show "b \<noteq> 0" by auto
qed

lemma split_low7:
  fixes v :: u64
  assumes "s + 7 \<le> 64"
  shows "push_bit s (take_bit 7 v) OR push_bit (s + 7) (drop_bit 7 v) = push_bit s v"
proof (rule bit_word_eqI)
  fix n assume "n < LENGTH(64)"
  have "s + 7 \<le> n \<Longrightarrow> 7 + (n - (s + 7)) = n - s" by simp
  then show "bit (push_bit s (take_bit 7 v) OR push_bit (s + 7) (drop_bit 7 v)) n = bit (push_bit s v) n"
    by (cases "s + 7 \<le> n") (auto simp: bit_simps)
qed

lemma read_write_varint_loop:
  assumes "s \<le> 63" "unat v < 2 ^ (64 - s)" "s = 0 \<or> v \<noteq> 0"
  shows "read_varint_loop 64 s r i (write_varint v @ suf)
       = (r + int (length (write_varint v)), i OR push_bit s v)"
  using assms
proof (induction v arbitrary: s r i rule: write_varint.induct)
  case (1 v)
  show ?case
  proof (cases "0x80 \<le> v")
    case False
    then have v: "v < 0x80" by simp
    have w: "write_varint v = [ucast v]" using False by (simp add: write_varint.simps)
    have nz: "\<not> ((ucast v :: u8) = 0 \<and> s \<noteq> 0)"
      using "1.prems"(3) small_byte(1) [OF v] by (metis unat_eq_0)
    show ?thesis using "1.prems"(2) nz
      by (auto simp: w small_byte [OF v] Let_def not_le)
  next
    case True
    then have v: "128 \<le> unat v" by (simp add: word_le_nat_alt)
    define b where "b = (ucast v AND 0x7f OR 0x80 :: u8)"
    have w: "write_varint v = b # write_varint (drop_bit 7 v)"
      using True by (simp add: write_varint.simps [of v] b_def)
    have s: "s + 7 < 64"
    proof (rule ccontr)
      assume "\<not> s + 7 < 64"
      then have "(2 :: nat) ^ (64 - s) \<le> 2 ^ 7" by (intro power_increasing) auto
      then show False using "1.prems"(2) v by simp
    qed
    have d: "unat (drop_bit 7 v) = unat v div 128" by (simp add: drop_bit_eq_div unat_div_distrib)
    have lt: "unat (drop_bit 7 v) < 2 ^ (64 - (s + 7))"
    proof -
      have k: "64 - s = (57 - s) + 7" "64 - (s + 7) = 57 - s" using s by simp_all
      have "unat v < 2 ^ (57 - s) * 128" using "1.prems"(2) unfolding k(1) by (simp add: power_add)
      then show ?thesis unfolding k(2) d by (rule less_mult_imp_div_less)
    qed
    have nz: "drop_bit 7 v \<noteq> 0" using d v by (auto simp: div_eq_0_iff)
    have "read_varint_loop 64 s r i (write_varint v @ suf)
        = read_varint_loop 64 (s + 7) (r + 1) (i OR push_bit s (take_bit 7 v)) (write_varint (drop_bit 7 v) @ suf)"
      using s cont_byte [of v] by (simp add: w b_def Let_def)
    also have "\<dots> = (r + 1 + int (length (write_varint (drop_bit 7 v))),
        (i OR push_bit s (take_bit 7 v)) OR push_bit (s + 7) (drop_bit 7 v))"
      using s lt nz by (intro "1.IH" [OF True]) auto
    also have "\<dots> = (r + int (length (write_varint v)), i OR push_bit s v)"
      using split_low7 [of s v] s by (simp add: w or.assoc)
    finally show ?thesis .
  qed
qed

text \<open>A continuation byte followed by the encoding of the remaining bits is the encoding.\<close>

lemma write_varint_cont:
  fixes w' :: u64
  assumes "unat w' < 2 ^ 57" "w' \<noteq> 0" "byte AND 0x80 \<noteq> 0"
  defines "w \<equiv> ucast (byte AND 0x7f) OR push_bit 7 w'"
  shows "write_varint w = byte # write_varint w'" and "unat w div 128 = unat w'"
proof -
  have lo: "unat (ucast (byte AND 0x7f) :: u64) < 2 ^ 7"
    by (simp add: and_mask_u8 take_bit_eq_mod unat_mod_distrib)
  have dr: "drop_bit 7 w = w'"
  proof (rule bit_word_eqI)
    fix n assume "n < LENGTH(64)"
    have "take_bit 57 (unat w') = unat w'" using assms(1) by (simp add: take_bit_nat_eq_self)
    then have "bit (unat w') n \<Longrightarrow> n < 57" by (metis bit_take_bit_iff)
    then have "bit w' n \<Longrightarrow> n < 57" using \<open>n < LENGTH(64)\<close> by (simp add: bit_unsigned_iff)
    moreover have "\<not> bit byte (7 + n) \<or> n = 0" using bit_imp_le_length [of byte "7 + n"] by auto
    ultimately show "bit (drop_bit 7 w) n = bit w' n"
      unfolding w_def and_mask_u8 by (auto simp: bit_simps)
  qed
  then have q: "unat w' = unat w div 128"
    by (simp add: drop_bit_eq_div unat_div_distrib flip: dr)
  then show "unat w div 128 = unat w'" by simp
  have "0 < unat w'" using assms(2) by (simp add: unat_gt_0)
  then have big: "0x80 \<le> w" using q by (simp add: word_le_nat_alt div_greater_zero_iff)
  have "(ucast w :: u8) AND 0x7f OR 0x80 = byte"
  proof (rule bit_word_eqI)
    fix n assume n: "n < LENGTH(8)"
    have "bit (2 ^ 7 :: u8) n \<longleftrightarrow> n = 7" unfolding bit_exp_iff by auto
    then have s: "bit (0x80 :: u8) n \<longleftrightarrow> n = 7" by simp
    have "bit byte 7" using assms(3) and_exp_eq_0_iff_not_bit [of byte 7] by simp
    then show "bit ((ucast w :: u8) AND 0x7f OR 0x80) n = bit byte n"
      using n unfolding w_def and_mask_u8 bit_or_iff s by (cases "n = 7") (auto simp: bit_simps)
  qed
  then show "write_varint w = byte # write_varint w'"
    using big dr by (simp add: write_varint.simps [of w])
qed

lemma varint_cont_spec:
  fixes w' :: u64
  assumes "c = byte # c'" "c' = write_varint w'"
    "j = (i OR push_bit s (ucast (byte AND 0x7f))) OR push_bit (s + 7) w'"
    "unat w' < 2 ^ (64 - (s + 7))" "w' \<noteq> 0" "byte AND 0x80 \<noteq> 0" "s + 7 < 64"
  defines "w \<equiv> ucast (byte AND 0x7f) OR push_bit 7 w'"
  shows "c = write_varint w \<and> j = i OR push_bit s w \<and> unat w < 2 ^ (64 - s) \<and> (s = 0 \<or> w \<noteq> 0)"
proof -
  have "(2 :: nat) ^ (64 - (s + 7)) \<le> 2 ^ 57" by (intro power_increasing) auto
  then have "unat w' < 2 ^ 57" using assms(4) by linarith
  note wc = write_varint_cont [OF this assms(5,6), folded w_def]
  have j: "j = i OR push_bit s w"
    unfolding assms(3) w_def push_bit_or by (simp add: or.assoc push_bit_push_bit add.commute)
  have k: "64 - s = (57 - s) + 7" "64 - (s + 7) = 57 - s" using assms(7) by simp_all
  have "unat w < 2 ^ (57 - s) * 128"
    using assms(4) wc(2) unfolding k(2) by (metis div_less_iff_less_mult zero_less_numeral)
  then have "unat w < 2 ^ (64 - s)" unfolding k(1) by (simp add: power_add)
  moreover have "w \<noteq> 0" using wc(2) assms(5) by (auto simp: unat_eq_0)
  ultimately show ?thesis using wc(1) j assms(1,2) by simp
qed

text \<open>
  What the loop accepts: if it consumes a prefix that ends in a byte without the continuation bit,
  then the prefix is what \<open>write_varint\<close> emits for the bits the loop adds to \<open>i\<close>.
\<close>

lemma read_varint_loop_canonical:
  assumes "read_varint_loop 64 s r i inp = (n, j)" "0 \<le> n" "s \<le> 63"
    and "c = take (nat (n - r)) inp" "c \<noteq> []" "last c AND 0x80 = 0"
  shows "\<exists>w. c = write_varint w \<and> j = i OR push_bit s w \<and> unat w < 2 ^ (64 - s) \<and> (s = 0 \<or> w \<noteq> 0)"
  using assms
proof (induction inp arbitrary: s r i c)
  case Nil
  then show ?case by simp
next
  case (Cons byte rest)
  let ?i' = "i OR push_bit s (ucast (byte AND 0x7f))"
  have ok: "\<not> (64 \<le> s + 7 \<and> 2 ^ (64 - s) \<le> unat byte)" "\<not> (byte = 0 \<and> s \<noteq> 0)"
    using Cons.prems(1,2) by (auto simp: Let_def split: if_splits)
  have bnd: "unat byte < 128 \<Longrightarrow> unat byte < 2 ^ (64 - s)"
  proof (cases "64 \<le> s + 7")
    case False
    then have "(2 :: nat) ^ 7 \<le> 2 ^ (64 - s)" by (intro power_increasing) auto
    then show "unat byte < 128 \<Longrightarrow> unat byte < 2 ^ (64 - s)" by simp
  qed (use ok in simp)
  show ?case
  proof (cases "byte AND 0x80 = 0")
    case True
    then have "n = r + 1" "j = ?i'" and c: "c = [byte]"
      using Cons.prems(1,4) ok by (auto simp: Let_def split: if_splits)
    have b: "unat byte < 128" using True by (simp add: high_bit_u8)
    have w: "write_varint (ucast byte) = [byte]"
      using b by (simp add: write_varint.simps word_le_nat_alt word_unat_eq_iff unat_ucast_u64_u8)
    have "byte AND 0x7f = byte"
      using b by (simp add: and_mask_u8 word_unat_eq_iff take_bit_eq_mod unat_mod_distrib)
    then have "j = i OR push_bit s (ucast byte)" using \<open>j = ?i'\<close> by simp
    moreover have "byte \<noteq> 0 \<Longrightarrow> (ucast byte :: u64) \<noteq> 0" by (auto simp: word_unat_eq_iff)
    ultimately show ?thesis using w c bnd [OF b] ok(2)
      by (intro exI [of _ "ucast byte"]) auto
  next
    case False
    then have b: "128 \<le> unat byte" by (simp add: high_bit_u8)
    have s: "s + 7 < 64"
    proof (rule ccontr)
      assume a: "\<not> s + 7 < 64"
      then have "(2 :: nat) ^ (64 - s) \<le> 2 ^ 7" by (intro power_increasing) auto
      then show False using ok(1) a b by simp
    qed
    have step: "read_varint_loop 64 (s + 7) (r + 1) ?i' rest = (n, j)"
      using Cons.prems(1) ok False by (auto simp: Let_def split: if_splits)
    define c' where "c' = take (nat (n - (r + 1))) rest"
    have nr: "nat (n - r) = Suc (nat (n - (r + 1)))"
      using Cons.prems(4,5) by (cases "n - r \<le> 0") (auto simp: nat_diff_distrib')
    have cc: "c = byte # c'" unfolding c'_def using Cons.prems(4) nr by simp
    have c': "c' \<noteq> []" "last c' AND 0x80 = 0" using cc Cons.prems(6) False by (auto split: if_splits)
    obtain w' where w': "c' = write_varint w'" "j = ?i' OR push_bit (s + 7) w'"
        "unat w' < 2 ^ (64 - (s + 7))" "w' \<noteq> 0"
      using Cons.IH [OF step Cons.prems(2) _ c'_def c'] s by auto
    show ?thesis by (rule exI [of _ "ucast (byte AND 0x7f) OR push_bit 7 w'"],
      rule varint_cont_spec [OF cc w' False s])
  qed
qed

lemma read_varint_inverse:
  "read_varint 64 (write_varint v @ suf) = (int (length (write_varint v)), v)"
  using read_write_varint_loop [of 0 v 0 0 suf] unat_u64_bound [of v]
  by (simp add: read_varint_def)

lemma write_varint_not_Nil [simp]: "write_varint v \<noteq> []"
  by (simp add: write_varint.simps [of v])

text \<open>A read that stops before the end of the input stopped at a byte without the continuation
  bit.\<close>

lemma read_varint_loop_stop:
  assumes "read_varint_loop bits s r i inp = (n, j)" "0 \<le> n" "n - r < int (length inp)"
  shows "r < n \<and> inp ! nat (n - r - 1) AND 0x80 = 0"
  using assms
proof (induction inp arbitrary: s r i)
  case Nil
  then show ?case by simp
next
  case (Cons byte rest)
  show ?case
  proof (cases "byte AND 0x80 = 0")
    case True
    then show ?thesis using Cons.prems by (auto simp: Let_def split: if_splits)
  next
    case False
    then obtain i' where "read_varint_loop bits (s + 7) (r + 1) i' rest = (n, j)"
      using Cons.prems(1,2) by (auto simp: Let_def split: if_splits)
    from Cons.IH [OF this Cons.prems(2)] Cons.prems(3)
    have "r + 1 < n" "rest ! nat (n - (r + 1) - 1) AND 0x80 = 0" by simp_all
    moreover from this have "nat (n - r - 1) = Suc (nat (n - (r + 1) - 1))" by simp
    ultimately show ?thesis by simp
  qed
qed

lemma read_varint_accepts:
  assumes "read_varint 64 inp = (n, v)" "0 < n" "n \<le> int (length inp)"
    and "inp ! nat (n - 1) AND 0x80 = 0"
  shows "take (nat n) inp = write_varint v"
proof -
  let ?c = "take (nat n) inp"
  have ne: "?c \<noteq> []" and l: "length ?c = nat n" using assms(2,3) by auto
  have "last ?c = inp ! nat (n - 1)" using ne l assms(2) by (simp add: last_conv_nth nat_diff_distrib)
  then obtain w where "?c = write_varint w" "v = 0 OR push_bit 0 w"
    using read_varint_loop_canonical [of 0 0 0 inp n v ?c] assms ne by (auto simp: read_varint_def)
  then show ?thesis by simp
qed

lemma read_varint_proper_prefix:
  assumes "read_varint 64 inp = (n, v)" "0 < n" "n < int (length inp)"
  shows "take (nat n) inp = write_varint v"
  using read_varint_accepts [OF assms(1,2)] read_varint_loop_stop [of 64 0 0 0 inp n v] assms
  by (simp add: read_varint_def)

section \<open>Properties\<close>

text \<open>
  Reading back what \<open>write_varint\<close> wrote returns the value and the number of bytes written,
  whatever follows in the input.
\<close>

theorem read_varint_write_varint:
  "read_varint 64 (write_varint v @ suf) = (int (length (write_varint v)), v)"
  by (rule read_varint_inverse)

text \<open>
  \<open>read_varint\<close> accepts canonical encodings only: if it succeeds and the last byte it consumed
  carries no continuation bit, the bytes consumed are exactly those \<open>write_varint\<close> emits for the
  value it returned.
\<close>

theorem read_varint_canonical:
  assumes "read_varint 64 inp = (n, v)" "0 < n" "n \<le> int (length inp)"
    and "inp ! nat (n - 1) AND 0x80 = 0"
  shows "take (nat n) inp = write_varint v"
  using assms by (rule read_varint_accepts)

theorem read_varint_canonical_witness:
  "read_varint 64 [0xac, 0x02, 0x55] = (2, 300) \<and> take 2 [0xac, 0x02, 0x55] = write_varint 300"
proof -
  have r: "read_varint 64 [0xac, 0x02, 0x55] = (2, 300)" by code_simp
  moreover have "take (nat 2) [0xac, 0x02, 0x55] = write_varint 300"
    by (rule read_varint_canonical [OF r]) simp_all
  ultimately show ?thesis by simp
qed

text \<open>
  The hexadecimal text of a byte string is read back by \<open>podFromHex\<close> as the same bytes, and no
  two byte strings have the same text, so it can serve as a map key.
\<close>

theorem podHex_roundtrip:
  "podFromHex (length b) (podToHex b) = Some b \<and> (podToHex b = podToHex c \<longleftrightarrow> b = c)"
  by (simp add: podFromHex_podToHex)

end
