(* ===== verification/Base58.thy ===== *)
theory Base58
  imports Int_Util Keccak Byte_Codecs
begin

unbundle bit_operations_syntax

text \<open>
  The Base58 codec and the address format of \<open>src/src/Common/Base58.cpp\<close>. Binary data is a list
  of bytes and encoded text a string. Where the source writes through a pointer into the result
  string, the model's block routine takes and returns the part of the string the pointer
  addresses; a write in front of that part is the value \<open>None\<close>, and the lemmas show that it does
  not happen. The codec is a bijection between byte strings and the texts \<open>decode\<close> accepts.
\<close>

section \<open>Definitions\<close>

definition alphabet :: string where
  "alphabet = ''123456789ABCDEFGHJKLMNPQRSTUVWXYZabcdefghijkmnopqrstuvwxyz''"

definition alphabet_size :: nat where
  "alphabet_size = 58"

definition encoded_block_sizes :: "nat list" where
  "encoded_block_sizes = [0, 2, 3, 5, 6, 7, 9, 10, 11]"

definition full_block_size :: nat where
  "full_block_size = 8"

definition full_encoded_block_size :: nat where
  "full_encoded_block_size = 11"

definition addr_checksum_size :: nat where
  "addr_checksum_size = 4"

text \<open>The tables \<open>m_data\<close> that the constructors of \<open>reverse_alphabet\<close> and \<open>decoded_block_sizes\<close>
  fill.\<close>

definition reverse_alphabet_data :: "int list" where
  "reverse_alphabet_data =
     fold (\<lambda>i m_data. m_data[of_char (alphabet ! i) - 49 := int i]) [0..<alphabet_size]
       (replicate (122 - 49 + 1) (- 1))"

definition reverse_alphabet :: "char \<Rightarrow> int" where
  "reverse_alphabet letter =
     (let n = of_char letter :: nat
      in if 49 \<le> n \<and> n - 49 < length reverse_alphabet_data then reverse_alphabet_data ! (n - 49) else - 1)"

definition decoded_block_sizes_data :: "int list" where
  "decoded_block_sizes_data =
     fold (\<lambda>i m_data. m_data[encoded_block_sizes ! i := int i]) [0..<Suc full_block_size]
       (replicate (full_encoded_block_size + 1) (- 1))"

definition decoded_block_sizes :: "nat \<Rightarrow> int" where
  "decoded_block_sizes encoded_block_size = decoded_block_sizes_data ! encoded_block_size"

definition uint_8be_to_64 :: "bytes \<Rightarrow> nat \<Rightarrow> u64" where
  "uint_8be_to_64 data sz = foldl (\<lambda>res b. push_bit 8 res OR ucast b) 0 (take sz data)"

text \<open>The bytes of \<open>SWAP64BE(num)\<close> in memory, and the copy of the last \<open>sz\<close> of them.\<close>

definition bytes_be64 :: "u64 \<Rightarrow> bytes" where
  "bytes_be64 num = map (\<lambda>j. ucast (drop_bit (8 * (7 - j)) num)) [0..<8]"

definition uint_64_to_8be :: "u64 \<Rightarrow> nat \<Rightarrow> bytes" where
  "uint_64_to_8be num sz = take sz (drop (8 - sz) (bytes_be64 num))"

function encode_block_loop :: "u64 \<Rightarrow> int \<Rightarrow> string \<Rightarrow> string option" where
  "encode_block_loop num i res =
     (if 0 < num
      then if i < 0 then None
           else encode_block_loop (num div 58) (i - 1) (res[nat i := alphabet ! unat (num mod 58)])
      else Some res)"
  by pat_completeness auto
termination
proof (relation "measure (\<lambda>(num, i, res). unat num)", goal_cases)
  case 1
  show ?case by simp
next
  case (2 num i res)
  then have "0 < unat num" by (simp add: unat_gt_0)
  then show ?case by (simp add: unat_div_distrib)
qed

declare encode_block_loop.simps [simp del]

definition encode_block :: "bytes \<Rightarrow> nat \<Rightarrow> string \<Rightarrow> string option" where
  "encode_block block sz res =
     (let num = uint_8be_to_64 block sz
      in encode_block_loop num (int (encoded_block_sizes ! sz) - 1) res)"

text \<open>The loop of \<open>decode_block\<close> runs from the last character to the first: it takes the block
  reversed.\<close>

fun decode_block_loop :: "u64 \<Rightarrow> u64 \<Rightarrow> string \<Rightarrow> u64 option" where
  "decode_block_loop res_num order [] = Some res_num"
| "decode_block_loop res_num order (c # block) =
     (let digit = reverse_alphabet c
      in if digit < 0 then None
         else
           let (product_lo, product_hi) = mul128 order (of_int digit);
               tmp = res_num + product_lo
           in if tmp < res_num \<or> product_hi \<noteq> 0 then None
              else decode_block_loop tmp (order * 58) block)"

definition decode_block :: "string \<Rightarrow> nat \<Rightarrow> bytes option" where
  "decode_block block sz =
     (let res_size = decoded_block_sizes sz
      in if res_size \<le> 0 then None
         else
           (case decode_block_loop 0 1 (rev (take sz block)) of None \<Rightarrow> None
            | Some res_num \<Rightarrow>
              if nat res_size < full_block_size \<and> push_bit (8 * nat res_size) 1 \<le> res_num then None
              else Some (uint_64_to_8be res_num (nat res_size))))"

text \<open>The block loops of \<open>encode\<close> and \<open>decode\<close>, with the result of each block appended.\<close>

definition encode :: "bytes \<Rightarrow> string option" where
  "encode data =
     (if data = [] then Some []
      else
        let full_block_count = length data div full_block_size;
            last_block_size = length data mod full_block_size;
            fresh = (\<lambda>sz. replicate (encoded_block_sizes ! sz) (alphabet ! 0))
        in (case those (map (\<lambda>i. encode_block (drop (i * full_block_size) data) full_block_size
                                   (fresh full_block_size)) [0..<full_block_count]) of
              None \<Rightarrow> None
            | Some blocks \<Rightarrow>
              if 0 < last_block_size
              then (case encode_block (drop (full_block_count * full_block_size) data) last_block_size
                           (fresh last_block_size) of
                      None \<Rightarrow> None
                    | Some b \<Rightarrow> Some (concat blocks @ b))
              else Some (concat blocks)))"

definition decode :: "string \<Rightarrow> bytes option" where
  "decode enc =
     (if enc = [] then Some []
      else
        let full_block_count = length enc div full_encoded_block_size;
            last_block_size = length enc mod full_encoded_block_size;
            last_block_decoded_size = decoded_block_sizes last_block_size
        in if last_block_decoded_size < 0 then None
           else
             (case those (map (\<lambda>i. decode_block (drop (i * full_encoded_block_size) enc)
                                     full_encoded_block_size) [0..<full_block_count]) of
                None \<Rightarrow> None
              | Some blocks \<Rightarrow>
                if 0 < last_block_size
                then (case decode_block (drop (full_block_count * full_encoded_block_size) enc)
                             last_block_size of
                        None \<Rightarrow> None
                      | Some b \<Rightarrow> Some (concat blocks @ b))
                else Some (concat blocks)))"

definition encode_addr :: "u64 \<Rightarrow> bytes \<Rightarrow> string option" where
  "encode_addr tag data =
     (let buf = write_varint tag @ data
      in encode (buf @ take addr_checksum_size (cn_fast_hash buf)))"

definition decode_addr :: "string \<Rightarrow> (u64 \<times> bytes) option" where
  "decode_addr addr =
     (case decode addr of None \<Rightarrow> None
      | Some addr_data \<Rightarrow>
        if length addr_data \<le> addr_checksum_size then None
        else
          let checksum = drop (length addr_data - addr_checksum_size) addr_data;
              body = take (length addr_data - addr_checksum_size) addr_data;
              expected_checksum = take addr_checksum_size (cn_fast_hash body)
          in if expected_checksum \<noteq> checksum then None
             else
               let (read, tag) = read_varint 64 body
               in if read \<le> 0 then None else Some (tag, drop (nat read) body))"

section \<open>The reference encoding\<close>

text \<open>The value of a big-endian byte string and of a little-endian string of Base58 digits.\<close>

definition be_value :: "bytes \<Rightarrow> nat" where
  "be_value bs = foldl (\<lambda>r b. r * 256 + unat b) 0 bs"

fun digits58 :: "nat \<Rightarrow> nat \<Rightarrow> string" where
  "digits58 0 v = []"
| "digits58 (Suc n) v = digits58 n (v div 58) @ [alphabet ! (v mod 58)]"

fun value58 :: "string \<Rightarrow> nat" where
  "value58 [] = 0"
| "value58 (c # cs) = nat (reverse_alphabet c) + 58 * value58 cs"

text \<open>The \<open>i\<close>-th piece of \<open>n\<close> elements.\<close>

abbreviation piece :: "nat \<Rightarrow> 'a list \<Rightarrow> nat \<Rightarrow> 'a list" where
  "piece n xs i \<equiv> take n (drop (i * n) xs)"

text \<open>What \<open>encode\<close> computes: the digits of every piece of eight bytes, and of the rest.\<close>

definition block_digits :: "bytes \<Rightarrow> string" where
  "block_digits b = digits58 (encoded_block_sizes ! length b) (be_value b)"

definition encoding :: "bytes \<Rightarrow> string" where
  "encoding data =
     (let n = length data div 8
      in concat (map (\<lambda>i. block_digits (piece 8 data i)) [0..<n]) @ block_digits (drop (n * 8) data))"

section \<open>The tables\<close>

lemma replicate_pred_numeral: "replicate (numeral n) x = x # replicate (pred_numeral n) x"
  by (simp add: numeral_eq_Suc)

lemma reverse_alphabet_data_eval:
  "reverse_alphabet_data = [0, 1, 2, 3, 4, 5, 6, 7, 8, - 1, - 1, - 1, - 1, - 1, - 1, - 1,
     9, 10, 11, 12, 13, 14, 15, 16, - 1, 17, 18, 19, 20, 21, - 1, 22, 23, 24, 25, 26, 27, 28, 29, 30,
     31, 32, - 1, - 1, - 1, - 1, - 1, - 1, 33, 34, 35, 36, 37, 38, 39, 40, 41, 42, 43, - 1, 44, 45, 46, 47,
     48, 49, 50, 51, 52, 53, 54, 55, 56, 57]"
  unfolding reverse_alphabet_data_def alphabet_def alphabet_size_def
  by (simp add: upt_rec_numeral upt_rec replicate_pred_numeral)

lemma reverse_alphabet_alphabet:
  assumes "d < 58"
  shows "reverse_alphabet (alphabet ! d) = int d"
proof -
  have "list_all (\<lambda>d. reverse_alphabet (alphabet ! d) = int d) [0..<58]"
    unfolding reverse_alphabet_def reverse_alphabet_data_eval alphabet_def
    by (simp add: upt_rec_numeral upt_rec)
  then show ?thesis using assms by (simp add: list_all_iff)
qed

lemma alphabet_reverse_alphabet:
  assumes "reverse_alphabet c = int d"
  shows "d < 58" and "alphabet ! d = c"
proof -
  let ?n = "of_char c :: nat"
  have tab: "list_all (\<lambda>k. reverse_alphabet_data ! k = - 1 \<or>
      (nat (reverse_alphabet_data ! k) < 58 \<and> 0 \<le> reverse_alphabet_data ! k \<and>
       of_char (alphabet ! nat (reverse_alphabet_data ! k)) = k + 49)) [0..<74]"
    unfolding reverse_alphabet_data_eval alphabet_def
    by (simp add: upt_rec_numeral upt_rec)
  have n: "49 \<le> ?n" "?n - 49 < 74" "reverse_alphabet_data ! (?n - 49) = int d"
    using assms by (auto simp: reverse_alphabet_def Let_def reverse_alphabet_data_eval split: if_splits)
  then have "d < 58 \<and> of_char (alphabet ! d) = ?n - 49 + 49"
    using tab by (auto simp: list_all_iff dest!: bspec [of _ _ "?n - 49"])
  moreover have "?n - 49 + 49 = ?n" using n(1) by simp
  ultimately show "d < 58" "alphabet ! d = c" by (simp_all add: of_char_eq_iff)
qed

lemma decoded_block_sizes_data_eval:
  "decoded_block_sizes_data = [0, - 1, 1, 2, - 1, 3, 4, 5, - 1, 6, 7, 8]"
  unfolding decoded_block_sizes_data_def encoded_block_sizes_def full_block_size_def
    full_encoded_block_size_def
  by (simp add: upt_rec replicate_pred_numeral)

section \<open>Blocks and numbers\<close>

lemma length_digits58 [simp]: "length (digits58 n v) = n"
  by (induction n arbitrary: v) simp_all

lemma be_value_snoc: "be_value (bs @ [b]) = be_value bs * 256 + unat b"
  by (simp add: be_value_def)

lemma be_value_bound: "be_value bs < 256 ^ length bs"
proof (induction bs rule: rev_induct)
  case Nil
  show ?case by (simp add: be_value_def)
next
  case (snoc b bs)
  have "be_value bs * 256 + unat b < (be_value bs + 1) * 256" using unat_u8_bound [of b] by simp
  also have "\<dots> \<le> 256 ^ length bs * 256" using snoc by (intro mult_le_mono) simp_all
  finally show ?case by (simp add: be_value_snoc)
qed

lemma or_push_8:
  fixes r :: u64
  assumes "unat r * 256 < 18446744073709551616"
  shows "unat (push_bit 8 r OR ucast (b :: u8)) = unat r * 256 + unat b"
proof -
  have "push_bit 8 r AND ucast b = 0"
    by (rule bit_word_eqI) (auto simp: bit_simps dest: bit_imp_le_length)
  then have "push_bit 8 r OR ucast b = push_bit 8 r + ucast b"
    by (simp add: disjunctive_add_eq_or)
  moreover have p: "unat (push_bit 8 r) = unat r * 256"
    using assms by (simp add: push_bit_eq_mult unat_word_ariths mult.commute)
  moreover have "unat (push_bit 8 r) + unat (ucast b :: u64) < 18446744073709551616"
  proof -
    have "unat r < 72057594037927936" using assms by simp
    then show ?thesis unfolding p unat_ucast_u8_u64 using unat_u8_bound [of b] by linarith
  qed
  ultimately show ?thesis by (simp add: unat_add_no_wrap)
qed

lemma unat_uint_8be:
  assumes "length bs \<le> 8"
  shows "unat (foldl (\<lambda>res b. push_bit 8 res OR ucast b) (0 :: u64) bs) = be_value bs"
  using assms
proof (induction bs rule: rev_induct)
  case Nil
  show ?case by (simp add: be_value_def)
next
  case (snoc b bs)
  have "be_value bs * 256 < 256 ^ length bs * 256" using be_value_bound [of bs] by simp
  also have "(256 :: nat) ^ length bs * 256 \<le> 256 ^ 8"
    using power_increasing [of "Suc (length bs)" 8 "256 :: nat"] snoc.prems by simp
  finally have "be_value bs * 256 < 18446744073709551616" by simp
  then show ?case using snoc by (simp add: or_push_8 be_value_snoc)
qed

lemma unat_uint_8be_to_64: "length block = sz \<Longrightarrow> sz \<le> 8 \<Longrightarrow> unat (uint_8be_to_64 block sz) = be_value block"
  by (simp add: uint_8be_to_64_def unat_uint_8be)

lemma be_value_div: "k \<le> length bs \<Longrightarrow> be_value bs div 256 ^ k = be_value (take (length bs - k) bs)"
proof (induction k)
  case 0
  then show ?case by simp
next
  case (Suc k)
  let ?m = "length bs - Suc k"
  have m: "length bs - k = Suc ?m" using Suc.prems by simp
  have t: "take (Suc ?m) bs = take ?m bs @ [bs ! ?m]"
    using Suc.prems by (simp add: take_Suc_conv_app_nth)
  have "be_value bs div 256 ^ Suc k = be_value bs div 256 ^ k div 256"
    by (simp only: power_Suc2 div_mult2_eq)
  also have "\<dots> = be_value (take ?m bs @ [bs ! ?m]) div 256" using Suc by (simp only: m t)
  also have "\<dots> = be_value (take ?m bs)" by (simp add: be_value_snoc div_add1_eq)
  finally show ?case .
qed

lemma be_value_mod: "bs \<noteq> [] \<Longrightarrow> be_value bs mod 256 = unat (last bs)"
  by (cases bs rule: rev_cases) (simp_all add: be_value_snoc)

lemma uint_64_to_8be_be_value:
  assumes "length bs = sz" "sz \<le> 8" "unat num = be_value bs"
  shows "uint_64_to_8be num sz = bs"
proof (rule nth_equalityI)
  show "length (uint_64_to_8be num sz) = length bs"
    using assms(1,2) by (simp add: uint_64_to_8be_def bytes_be64_def)
  fix k assume "k < length (uint_64_to_8be num sz)"
  then have k: "k < sz" using assms(1,2) by (simp add: uint_64_to_8be_def bytes_be64_def)
  have "8 - sz + k < 8" "7 - (8 - sz + k) = sz - 1 - k" using k assms(2) by arith+
  then have "uint_64_to_8be num sz ! k = ucast (drop_bit (8 * (sz - 1 - k)) num)"
    using k assms(2) by (simp add: uint_64_to_8be_def bytes_be64_def del: upt_rec_numeral)
  moreover have "unat (ucast (drop_bit (8 * (sz - 1 - k)) num) :: u8) = be_value bs div 256 ^ (sz - 1 - k) mod 256"
    by (simp only: unat_ucast_u64_u8 unat_drop_bit_eq assms(3)) (simp add: drop_bit_eq_div power_mult)
  moreover have "be_value bs div 256 ^ (sz - 1 - k) = be_value (take (Suc k) bs)"
    using be_value_div [of "sz - 1 - k" bs] assms(1) k by (simp add: Suc_diff_Suc)
  moreover have "be_value (take (Suc k) bs) mod 256 = unat (bs ! k)"
  proof -
    have ne: "take (Suc k) bs \<noteq> []" using k assms(1) by auto
    show ?thesis using be_value_mod [OF ne] k assms(1) ne by (simp add: last_conv_nth min_absorb2)
  qed
  ultimately show "uint_64_to_8be num sz ! k = bs ! k" by (simp add: word_unat_eq_iff)
qed

text \<open>The encoder's loop writes the digits of the number, padded with the zero digit.\<close>

lemma digits58_zero: "digits58 n 0 = replicate n (alphabet ! 0)"
  by (induction n) (simp_all add: replicate_append_same)

lemma encode_block_loop_digits:
  assumes "unat num < 58 ^ n" "n \<le> length res" "take n res = replicate n (alphabet ! 0)"
  shows "encode_block_loop num (int n - 1) res = Some (digits58 n (unat num) @ drop n res)"
  using assms
proof (induction n arbitrary: num res)
  case 0
  then have "num = 0" by (simp add: unat_eq_0)
  then show ?case by (simp add: encode_block_loop.simps)
next
  case (Suc n)
  show ?case
  proof (cases "num = 0")
    case True
    have "digits58 (Suc n) (unat num) @ drop (Suc n) res = res"
      unfolding True unat_0 digits58_zero Suc.prems(3) [symmetric] by simp
    then show ?thesis using True by (simp add: encode_block_loop.simps del: digits58.simps)
  next
    case False
    let ?res = "res[n := alphabet ! unat (num mod 58)]"
    have lt: "unat (num div 58) < 58 ^ n"
      using Suc.prems(1) by (simp add: unat_div_distrib less_mult_imp_div_less mult.commute)
    have "encode_block_loop num (int (Suc n) - 1) res = encode_block_loop (num div 58) (int n - 1) ?res"
      using False by (simp add: encode_block_loop.simps [of num] word_gt_0)
    also have "\<dots> = Some (digits58 n (unat (num div 58)) @ drop n ?res)"
    proof (rule Suc.IH [OF lt])
      show "n \<le> length ?res" using Suc.prems(2) by simp
      have "take n res = replicate n (alphabet ! 0)"
        using arg_cong [OF Suc.prems(3), of "take n"] by (simp add: min_def del: replicate_Suc)
      then show "take n ?res = replicate n (alphabet ! 0)" by simp
    qed
    also have "drop n ?res = [alphabet ! unat (num mod 58)] @ drop (Suc n) res"
      using Suc.prems(2) Cons_nth_drop_Suc [of n res] by (simp add: drop_update_swap flip: Cons_nth_drop_Suc)
    finally show ?thesis by (simp add: unat_div_distrib unat_mod_distrib)
  qed
qed

text \<open>The decoder's loop computes the value of the digits or detects that it needs more than 64 bits.\<close>

lemma value58_bound:
  "\<forall>c \<in> set cs. 0 \<le> reverse_alphabet c \<Longrightarrow> value58 cs < 58 ^ length cs"
proof (induction cs)
  case (Cons c cs)
  obtain d where d: "reverse_alphabet c = int d" using Cons.prems by (metis list.set_intros(1) nonneg_int_cases)
  have "value58 (c # cs) < 58 * (value58 cs + 1)" using d alphabet_reverse_alphabet(1) [OF d] by simp
  also have "\<dots> \<le> 58 * 58 ^ length cs" using Cons by (intro mult_le_mono) auto
  finally show ?case by simp
qed simp

lemma decode_step:
  fixes rn ord :: u64
  assumes "mul128 ord (of_int (int d)) = (lo, hi)" "d < 58"
  shows "(rn + lo < rn \<or> hi \<noteq> 0) \<longleftrightarrow> 18446744073709551616 \<le> unat rn + unat ord * d"
    and "\<not> (rn + lo < rn \<or> hi \<noteq> 0) \<Longrightarrow> unat (rn + lo) = unat rn + unat ord * d"
proof -
  have "unat (of_int (int d) :: u64) = d" using assms(2) by (simp add: unat_of_nat take_bit_nat_eq_self)
  then have e: "unat hi * 18446744073709551616 + unat lo = unat ord * d"
    using mul128_exact [OF assms(1)] by simp
  have hi: "hi \<noteq> 0 \<Longrightarrow> 1 \<le> unat hi" by (simp add: Suc_leI unat_gt_0)
  show "(rn + lo < rn \<or> hi \<noteq> 0) \<longleftrightarrow> 18446744073709551616 \<le> unat rn + unat ord * d"
    using word_sum_carry [of rn lo] hi e unat_u64_le [of "rn + lo"] by (auto split: if_splits)
  show "\<not> (rn + lo < rn \<or> hi \<noteq> 0) \<Longrightarrow> unat (rn + lo) = unat rn + unat ord * d"
    using word_sum_carry [of rn lo] e by simp
qed

lemma decode_block_loop_value:
  assumes "\<forall>c \<in> set cs. 0 \<le> reverse_alphabet c" "cs \<noteq> [] \<longrightarrow> unat ord * 58 ^ (length cs - 1) < 18446744073709551616"
  shows "decode_block_loop rn ord cs =
    (if unat rn + unat ord * value58 cs < 18446744073709551616
     then Some (of_nat (unat rn + unat ord * value58 cs)) else None)"
  using assms
proof (induction cs arbitrary: rn ord)
  case Nil
  then show ?case by simp
next
  case (Cons c cs)
  obtain d where d: "reverse_alphabet c = int d" using Cons.prems by (metis list.set_intros(1) nonneg_int_cases)
  have d58: "d < 58" using alphabet_reverse_alphabet(1) [OF d] .
  obtain lo hi where m: "mul128 ord (of_int (int d)) = (lo, hi)" by fastforce
  note st = decode_step [OF m d58, of rn]
  have tot: "unat rn + unat ord * value58 (c # cs) = unat rn + unat ord * d + unat ord * 58 * value58 cs"
    using d by (simp add: algebra_simps)
  show ?case
  proof (cases "rn + lo < rn \<or> hi \<noteq> 0")
    case True
    then show ?thesis using st(1) tot d m by simp
  next
    case False
    have ord: "cs \<noteq> [] \<Longrightarrow> unat (ord * 58) = unat ord * 58"
    proof -
      assume "cs \<noteq> []"
      then have "(58 :: nat) \<le> 58 ^ length cs" by (cases cs) simp_all
      then have "unat ord * 58 \<le> unat ord * 58 ^ length cs" by (rule mult_le_mono2)
      also have "\<dots> < 18446744073709551616" using Cons.prems(2) by simp
      finally have "unat ord * 58 < 18446744073709551616" .
      then show ?thesis by (simp add: unat_word_ariths)
    qed
    have "decode_block_loop rn ord (c # cs) = decode_block_loop (rn + lo) (ord * 58) cs"
      using False d m by simp
    also have "\<dots> = (if unat (rn + lo) + unat (ord * 58) * value58 cs < 18446744073709551616
       then Some (of_nat (unat (rn + lo) + unat (ord * 58) * value58 cs)) else None)"
    proof (rule Cons.IH)
      show "\<forall>c \<in> set cs. 0 \<le> reverse_alphabet c" using Cons.prems(1) by simp
      show "cs \<noteq> [] \<longrightarrow> unat (ord * 58) * 58 ^ (length cs - 1) < 18446744073709551616"
        using Cons.prems(2) ord by (cases cs) (simp_all add: mult.assoc)
    qed
    also have "unat (rn + lo) + unat (ord * 58) * value58 cs = unat rn + unat ord * value58 (c # cs)"
      unfolding tot st(2) [OF False] using ord by (cases "cs = []") simp_all
    finally show ?thesis .
  qed
qed

lemma decode_block_loop_invalid:
  "\<exists>c \<in> set cs. reverse_alphabet c < 0 \<Longrightarrow> decode_block_loop rn ord cs = None"
  by (induction cs arbitrary: rn ord) (auto simp: Let_def split: prod.splits)

text \<open>Digits and values are inverse.\<close>

lemma value58_digits58: "v < 58 ^ n \<Longrightarrow> value58 (rev (digits58 n v)) = v"
  by (induction n arbitrary: v)
    (simp_all add: reverse_alphabet_alphabet less_mult_imp_div_less mult.commute)

lemma digits58_valid: "c \<in> set (digits58 n v) \<Longrightarrow> 0 \<le> reverse_alphabet c"
  by (induction n arbitrary: v) (auto simp: reverse_alphabet_alphabet)

lemma digits58_value58:
  "\<forall>c \<in> set cs. 0 \<le> reverse_alphabet c \<Longrightarrow> digits58 (length cs) (value58 cs) = rev cs"
proof (induction cs)
  case (Cons c cs)
  obtain d where d: "reverse_alphabet c = int d" using Cons.prems by (metis list.set_intros(1) nonneg_int_cases)
  then show ?case using Cons alphabet_reverse_alphabet [OF d] by simp
qed simp

section \<open>One block\<close>

lemma unat_push_1: "sz < 8 \<Longrightarrow> unat (push_bit (8 * sz) 1 :: u64) = 256 ^ sz"
proof -
  assume "sz < 8"
  then have "(2 :: nat) ^ (8 * sz) < 2 ^ 64" by (intro power_strict_increasing) auto
  then have "take_bit 64 (push_bit (8 * sz) (1 :: nat)) = 256 ^ sz"
    by (simp add: push_bit_eq_mult take_bit_nat_eq_self power_mult)
  then show ?thesis by (subst unsigned_push_bit_eq) simp
qed

lemma be_value_surj: "v < 256 ^ n \<Longrightarrow> \<exists>bs. length bs = n \<and> be_value bs = v"
proof (induction n arbitrary: v)
  case 0
  then show ?case by (simp add: be_value_def)
next
  case (Suc n)
  then have "v div 256 < 256 ^ n" by (simp add: less_mult_imp_div_less mult.commute)
  then obtain bs where bs: "length bs = n" "be_value bs = v div 256" using Suc.IH by blast
  have "unat (of_nat (v mod 256) :: u8) = v mod 256" by (simp add: unat_of_nat take_bit_nat_eq_self)
  then have "be_value (bs @ [of_nat (v mod 256)]) = v" using bs by (simp add: be_value_snoc)
  then show ?case using bs by (intro exI [of _ "bs @ [of_nat (v mod 256)]"]) simp
qed

lemma block_sizes:
  assumes "1 \<le> sz" "sz \<le> 8"
  shows "decoded_block_sizes (encoded_block_sizes ! sz) = int sz"
    and "(256 :: nat) ^ sz \<le> 58 ^ (encoded_block_sizes ! sz)"
    and "1 \<le> encoded_block_sizes ! sz" "encoded_block_sizes ! sz \<le> 11"
    and "encoded_block_sizes ! sz = 11 \<longleftrightarrow> sz = 8"
proof -
  consider "sz = 1" | "sz = 2" | "sz = 3" | "sz = 4" | "sz = 5" | "sz = 6" | "sz = 7" | "sz = 8"
    using assms by linarith
  then show "decoded_block_sizes (encoded_block_sizes ! sz) = int sz"
    and "(256 :: nat) ^ sz \<le> 58 ^ (encoded_block_sizes ! sz)"
    and "1 \<le> encoded_block_sizes ! sz" "encoded_block_sizes ! sz \<le> 11"
    and "encoded_block_sizes ! sz = 11 \<longleftrightarrow> sz = 8"
    by (cases; simp add: encoded_block_sizes_def decoded_block_sizes_def decoded_block_sizes_data_eval)+
qed

lemma decoded_block_sizes_inv:
  assumes "decoded_block_sizes n = int sz" "0 < sz" "n \<le> 11"
  shows "sz \<le> 8" and "n = encoded_block_sizes ! sz"
proof -
  have "n < 12" using assms(3) by simp
  then have "n \<in> set [0..<12]" by simp
  then show "sz \<le> 8" and "n = encoded_block_sizes ! sz"
    using assms(1,2)
    by (auto simp: decoded_block_sizes_def decoded_block_sizes_data_eval encoded_block_sizes_def
        upt_rec_numeral upt_rec)
qed

lemma encode_block_digits:
  assumes "sz = length block" "1 \<le> sz" "sz \<le> 8"
  shows "encode_block (block @ rest) sz (replicate (encoded_block_sizes ! sz) (alphabet ! 0))
       = Some (digits58 (encoded_block_sizes ! sz) (be_value block))"
proof -
  let ?n = "encoded_block_sizes ! sz"
  have u: "unat (uint_8be_to_64 (block @ rest) sz) = be_value block"
    using unat_uint_8be_to_64 [of block sz] assms by (simp add: uint_8be_to_64_def)
  have "be_value block < 58 ^ ?n"
    using be_value_bound [of block] block_sizes(2) [OF assms(2,3)] assms(1) by simp
  then show ?thesis
    unfolding encode_block_def Let_def by (subst encode_block_loop_digits) (simp_all add: u)
qed

lemma decode_block_digits:
  assumes "sz = length block" "1 \<le> sz" "sz \<le> 8"
  shows "decode_block (digits58 (encoded_block_sizes ! sz) (be_value block) @ rest) (encoded_block_sizes ! sz)
       = Some block"
proof -
  let ?n = "encoded_block_sizes ! sz" and ?v = "be_value block"
  note bs = block_sizes [OF assms(2,3)]
  have v: "?v < 256 ^ sz" using be_value_bound [of block] assms(1) by simp
  have "(256 :: nat) ^ sz \<le> 256 ^ 8" using assms(3) by (intro power_increasing) auto
  then have v64: "?v < 18446744073709551616" using v by simp
  have "(58 :: nat) ^ (?n - 1) \<le> 58 ^ 10" using bs(4) by (intro power_increasing) auto
  then have loop: "decode_block_loop 0 1 (rev (digits58 ?n ?v)) = Some (of_nat ?v)"
    using v bs(2) v64 by (subst decode_block_loop_value) (auto simp: value58_digits58 digits58_valid)
  have u: "unat (of_nat ?v :: u64) = ?v" using v64 by (simp add: unat_of_nat take_bit_nat_eq_self)
  have small: "sz < 8 \<Longrightarrow> \<not> push_bit (8 * sz) 1 \<le> (of_nat ?v :: u64)"
    using v u unat_push_1 by (simp only: word_le_nat_alt not_le)
  show ?thesis
    using bs(1) assms loop small uint_64_to_8be_be_value [OF assms(1) [symmetric] assms(3) u]
    by (auto simp: decode_block_def full_block_size_def Let_def)
qed

lemma decode_block_inv:
  assumes "decode_block (block @ rest) n = Some d" "n = length block" "n \<le> 11"
  shows "1 \<le> length d" "length d \<le> 8" "n = encoded_block_sizes ! length d"
    and "block = digits58 n (be_value d)"
proof -
  let ?sz = "nat (decoded_block_sizes n)"
  obtain num where pos: "0 < decoded_block_sizes n"
    and loop: "decode_block_loop 0 1 (rev block) = Some num"
    and small: "\<not> (?sz < 8 \<and> push_bit (8 * ?sz) 1 \<le> num)"
    and d: "d = uint_64_to_8be num ?sz"
    using assms(1,2) by (auto simp: decode_block_def full_block_size_def Let_def
        split: if_splits option.splits)
  have "decoded_block_sizes n = int ?sz" "0 < ?sz" using pos by simp_all
  note inv = decoded_block_sizes_inv [OF this assms(3)]
  show len: "1 \<le> length d" "length d \<le> 8" "n = encoded_block_sizes ! length d"
    using inv pos by (simp_all add: d uint_64_to_8be_def bytes_be64_def)
  have lsz: "length d = ?sz" using inv(1) by (simp add: d uint_64_to_8be_def bytes_be64_def)
  have ok: "\<forall>c \<in> set (rev block). 0 \<le> reverse_alphabet c"
    using loop decode_block_loop_invalid [of "rev block"] by (metis linorder_not_le option.distinct(1))
  have "(58 :: nat) ^ (n - 1) \<le> 58 ^ 10" using assms(3) by (intro power_increasing) auto
  then have "decode_block_loop 0 1 (rev block) =
    (if value58 (rev block) < 18446744073709551616 then Some (of_nat (value58 (rev block))) else None)"
    using ok assms(2) by (subst decode_block_loop_value) simp_all
  then have num: "unat num = value58 (rev block)"
    using loop by (auto simp: unat_of_nat take_bit_nat_eq_self split: if_splits)
  have "unat num < 256 ^ ?sz"
  proof (cases "?sz < 8")
    case True
    then show ?thesis using small unat_push_1 [OF True] by (simp only: word_le_nat_alt) simp
  next
    case False
    then have "?sz = 8" using inv(1) by simp
    then show ?thesis by simp
  qed
  then obtain bs where bs: "length bs = ?sz" "be_value bs = unat num" using be_value_surj by blast
  then have "be_value d = unat num"
    unfolding d using uint_64_to_8be_be_value [OF bs(1) inv(1)] by simp
  then show "block = digits58 n (be_value d)"
    using digits58_value58 [OF ok] num assms(2) by simp
qed

section \<open>Block sequences\<close>

lemma those_map_Some: "(\<And>i. i \<in> set is \<Longrightarrow> f i = Some (g i)) \<Longrightarrow> those (map f is) = Some (map g is)"
  by (induction "is") simp_all

lemma those_map_inv: "those (map f is) = Some ys \<Longrightarrow> ys = map (the \<circ> f) is \<and> (\<forall>i \<in> set is. f i \<noteq> None)"
  by (induction "is" arbitrary: ys) (auto split: option.splits)

lemma concat_pieces: "concat (map (piece n xs) [0..<k]) = take (k * n) xs"
  by (induction k) (simp_all add: add.commute [of n] take_add)

lemma length_concat_const: "\<forall>x \<in> set xss. length x = n \<Longrightarrow> length (concat xss) = length xss * n"
  by (induction xss) simp_all

lemma piece_concat:
  assumes "\<forall>x \<in> set xss. length x = n" "i < length xss"
  shows "drop (i * n) (concat xss @ rest) = xss ! i @ concat (drop (Suc i) xss) @ rest"
proof -
  have "concat xss = concat (take i xss) @ xss ! i @ concat (drop (Suc i) xss)"
    by (metis append_Cons append_take_drop_id assms(2) concat.simps(2) concat_append Cons_nth_drop_Suc)
  moreover have "length (concat (take i xss)) = i * n"
    using length_concat_const [of "take i xss" n] assms by (auto dest: in_set_takeD simp: min_def)
  ultimately show ?thesis by simp
qed

lemma block_digits_Nil [simp]: "block_digits [] = []"
  by (simp add: block_digits_def encoded_block_sizes_def)

lemma length_block_digits: "length (block_digits b) = encoded_block_sizes ! length b"
  by (simp add: block_digits_def)

lemma length_piece: "i < length xs div n \<Longrightarrow> length (piece n xs i) = n"
proof -
  assume i: "i < length xs div n"
  have "(i + 1) * n \<le> length xs div n * n" using i by (intro mult_le_mono1) simp
  also have "\<dots> \<le> length xs" by simp
  finally show ?thesis by simp
qed

lemma length_rest: "length (drop (length xs div 8 * 8) xs) = length xs mod 8"
  by (simp add: minus_div_mult_eq_mod)

lemma encode_spec: "encode data = Some (encoding data)"
proof (cases "data = []")
  case True
  then show ?thesis by (simp add: encode_def encoding_def)
next
  case False
  let ?n = "length data div 8" and ?r = "drop (length data div 8 * 8) data"
  have e8: "encoded_block_sizes ! 8 = 11" by (simp add: encoded_block_sizes_def)
  have blk: "encode_block (drop (i * 8) data) 8 (replicate (encoded_block_sizes ! 8) (alphabet ! 0))
      = Some (block_digits (piece 8 data i))" if "i < ?n" for i
    using encode_block_digits [of 8 "piece 8 data i" "drop 8 (drop (i * 8) data)",
        unfolded append_take_drop_id] length_piece [OF that] by (simp add: block_digits_def)
  have full: "those (map (\<lambda>i. encode_block (drop (i * 8) data) 8
        (replicate (encoded_block_sizes ! 8) (alphabet ! 0))) [0..<?n])
      = Some (map (\<lambda>i. block_digits (piece 8 data i)) [0..<?n])"
    by (rule those_map_Some) (simp add: blk)
  have "0 < length data mod 8 \<Longrightarrow> encode_block ?r (length data mod 8)
      (replicate (encoded_block_sizes ! (length data mod 8)) (alphabet ! 0)) = Some (block_digits ?r)"
    using encode_block_digits [of "length data mod 8" ?r "[]"] length_rest [of data]
    by (simp add: block_digits_def)
  moreover have "length data mod 8 = 0 \<Longrightarrow> ?r = []" using length_rest [of data] by (metis length_0_conv)
  ultimately show ?thesis
    using False full by (auto simp: encode_def encoding_def full_block_size_def Let_def)
qed

lemma rest_sizes:
  assumes "sz < 8"
  shows "encoded_block_sizes ! sz < 11" "encoded_block_sizes ! sz = 0 \<longleftrightarrow> sz = 0"
    and "decoded_block_sizes (encoded_block_sizes ! sz) = int sz"
proof -
  have "sz \<in> set [0..<8]" using assms by simp
  then show "encoded_block_sizes ! sz < 11" "encoded_block_sizes ! sz = 0 \<longleftrightarrow> sz = 0"
    and "decoded_block_sizes (encoded_block_sizes ! sz) = int sz"
    by (auto simp: decoded_block_sizes_def decoded_block_sizes_data_eval encoded_block_sizes_def
        upt_rec_numeral upt_rec)
qed

lemma decode_encoding: "decode (encoding data) = Some data"
proof (cases "data = []")
  case True
  then show ?thesis by (simp add: decode_def encoding_def)
next
  case False
  let ?n = "length data div 8" and ?r = "drop (length data div 8 * 8) data"
  let ?bs = "map (\<lambda>i. block_digits (piece 8 data i)) [0..<?n]"
  have bl: "\<forall>x \<in> set ?bs. length x = 11"
    using length_piece [of _ data 8] by (auto simp: length_block_digits encoded_block_sizes_def)
  have enc: "encoding data = concat ?bs @ block_digits ?r" by (simp add: encoding_def Let_def)
  have rl: "length (block_digits ?r) = encoded_block_sizes ! (length data mod 8)"
    unfolding length_block_digits length_rest ..
  have "length data mod 8 < 8" by simp
  note rs = rest_sizes [OF this]
  have len: "length (encoding data) = ?n * 11 + encoded_block_sizes ! (length data mod 8)"
    unfolding enc using length_concat_const [OF bl] rl by simp
  then have dm: "length (encoding data) div 11 = ?n"
    "length (encoding data) mod 11 = encoded_block_sizes ! (length data mod 8)"
    using rs(1) by simp_all
  have blk: "decode_block (drop (i * 11) (encoding data)) 11 = Some (piece 8 data i)" if "i < ?n" for i
  proof -
    have "drop (i * 11) (encoding data) = ?bs ! i @ concat (drop (Suc i) ?bs) @ block_digits ?r"
      unfolding enc using that by (intro piece_concat [OF bl]) simp
    then show ?thesis
      using decode_block_digits [of 8 "piece 8 data i"] length_piece [OF that] that
      by (simp add: block_digits_def encoded_block_sizes_def)
  qed
  have full: "those (map (\<lambda>i. decode_block (drop (i * 11) (encoding data)) 11) [0..<?n])
      = Some (map (piece 8 data) [0..<?n])"
    by (rule those_map_Some) (simp add: blk)
  have last: "length data mod 8 \<noteq> 0 \<Longrightarrow>
      decode_block (drop (?n * 11) (encoding data)) (encoded_block_sizes ! (length data mod 8)) = Some ?r"
    using decode_block_digits [of "length data mod 8" ?r "[]"] length_rest [of data]
      length_concat_const [OF bl] by (simp add: enc block_digits_def)
  have "concat (map (piece 8 data) [0..<?n]) @ ?r = data" by (simp add: concat_pieces)
  moreover have "encoding data \<noteq> []" using False len rs(2) by (cases "?n = 0") auto
  moreover have "length data mod 8 = 0 \<Longrightarrow> ?r = []" using length_rest [of data] by (metis length_0_conv)
  ultimately show ?thesis
    using full last dm rs by (auto simp: decode_def full_encoded_block_size_def Let_def)
qed

text \<open>Conversely, the decoder accepts only encodings.\<close>

lemma decode_inv:
  assumes "decode enc = Some data"
  shows "enc = encoding data"
proof (cases "enc = []")
  case True
  then show ?thesis using assms by (simp add: decode_def encoding_def)
next
  case False
  let ?n = "length enc div 11" and ?m = "length enc mod 11" and ?t = "drop (length enc div 11 * 11) enc"
  define b where "b = (\<lambda>i. the (decode_block (drop (i * 11) enc) 11))"
  obtain bl where some: "\<forall>i < ?n. decode_block (drop (i * 11) enc) 11 \<noteq> None"
    and data: "data = concat (map b [0..<?n]) @ bl"
    and bl: "if 0 < ?m then decode_block ?t ?m = Some bl else bl = []"
    using assms False
    by (auto simp: decode_def full_encoded_block_size_def b_def Let_def comp_def
        split: if_splits option.splits dest!: those_map_inv)
  have blk: "length (b i) = 8" "piece 11 enc i = block_digits (b i)" if "i < ?n" for i
  proof -
    have "decode_block (piece 11 enc i @ drop 11 (drop (i * 11) enc)) 11 = Some (b i)"
      using some that unfolding append_take_drop_id by (auto simp: b_def)
    note inv = decode_block_inv [OF this length_piece [OF that, symmetric] order_refl]
    show "length (b i) = 8" using inv(1-3) block_sizes(5) by metis
    then show "piece 11 enc i = block_digits (b i)"
      using inv(3,4) by (simp add: block_digits_def)
  qed
  have lt: "length ?t = ?m" by (simp add: minus_div_mult_eq_mod)
  have tail: "?t = block_digits bl" "length bl < 8"
  proof -
    have "?t = block_digits bl \<and> length bl < 8"
    proof (cases "0 < ?m")
      case True
      then have "decode_block (?t @ []) ?m = Some bl" using bl by simp
      note inv = decode_block_inv [OF this lt [symmetric]]
      have "?m < 11" by simp
      then show ?thesis using inv block_sizes(5) [of "length bl"]
        by (auto simp: block_digits_def)
    next
      case False
      then show ?thesis using bl lt by simp
    qed
    then show "?t = block_digits bl" "length bl < 8" by simp_all
  qed
  have bb: "\<forall>x \<in> set (map b [0..<?n]). length x = 8" using blk(1) by auto
  have "length data = ?n * 8 + length bl" using length_concat_const [OF bb] data by simp
  then have n: "length data div 8 = ?n" using tail(2) by simp
  have pc: "piece 8 data i = b i" if "i < ?n" for i
    using piece_concat [OF bb, of i bl] that blk(1) data by simp
  have "encoding data = concat (map (\<lambda>i. block_digits (b i)) [0..<?n]) @ block_digits (drop (?n * 8) data)"
  proof -
    have "map (\<lambda>i. block_digits (piece 8 data i)) [0..<?n] = map (\<lambda>i. block_digits (b i)) [0..<?n]"
      using pc by simp
    then show ?thesis by (simp only: encoding_def Let_def n)
  qed
  also have "drop (?n * 8) data = bl" using length_concat_const [OF bb] data by simp
  also have "map (\<lambda>i. block_digits (b i)) [0..<?n] = map (piece 11 enc) [0..<?n]"
    using blk(2) by simp
  finally have "encoding data = take (?n * 11) enc @ ?t" using tail(1) by (simp add: concat_pieces)
  then show ?thesis by simp
qed

section \<open>Addresses\<close>

lemma address_roundtrip:
  "\<exists>addr. encode_addr tag data = Some addr \<and> decode_addr addr = Some (tag, data)"
proof -
  let ?buf = "write_varint tag @ data"
  let ?full = "?buf @ take addr_checksum_size (cn_fast_hash ?buf)"
  have len: "length ?full = length ?buf + 4" by (simp add: addr_checksum_size_def)
  have "decode_addr (encoding ?full) = Some (tag, data)"
    using read_varint_inverse [of tag data] len
    by (simp add: decode_addr_def decode_encoding addr_checksum_size_def Let_def)
  then show ?thesis unfolding encode_addr_def Let_def by (simp add: encode_spec)
qed

section \<open>Properties\<close>

text \<open>
  C40: the codec is a bijection. \<open>encode\<close> always returns a text (it never writes in front of its
  block), and a text decodes to \<open>data\<close> exactly if it is the encoding of \<open>data\<close>: decoding inverts
  encoding and every accepted text is canonical.
\<close>

theorem base58_bijection:
  "(\<exists>enc. encode data = Some enc) \<and> (decode enc = Some data \<longleftrightarrow> encode data = Some enc)"
  using decode_inv [of enc data] decode_encoding [of data] by (auto simp: encode_spec)

text \<open>
  An address decodes to the tag and the data it was made from.
\<close>

theorem decode_addr_encode_addr:
  "\<exists>addr. encode_addr tag data = Some addr \<and> decode_addr addr = Some (tag, data)"
  by (rule address_roundtrip)

text \<open>
  An address that carries data has one text only: whatever \<open>decode_addr\<close> accepts with non-empty
  data is the text \<open>encode_addr\<close> produces for the tag and the data.
\<close>

theorem decode_addr_canonical:
  assumes "decode_addr addr = Some (tag, data)" "data \<noteq> []"
  shows "encode_addr tag data = Some addr"
proof -
  obtain full read where full: "decode addr = Some full" "4 < length full"
    and sum: "take 4 (cn_fast_hash (take (length full - 4) full)) = drop (length full - 4) full"
    and rd: "read_varint 64 (take (length full - 4) full) = (read, tag)" "0 < read"
    and data: "data = drop (nat read) (take (length full - 4) full)"
    using assms(1) by (auto simp: decode_addr_def addr_checksum_size_def Let_def
        split: option.splits if_splits prod.splits)
  let ?body = "take (length full - 4) full"
  have "read < int (length ?body)" using assms(2) data rd(2) by (auto simp: not_le)
  then have "take (nat read) ?body = write_varint tag" using rd by (intro read_varint_proper_prefix)
  then have body: "write_varint tag @ data = ?body" using data by (metis append_take_drop_id)
  have "?body @ take 4 (cn_fast_hash ?body) = full" using sum by (simp add: append_take_drop_id)
  then show ?thesis
    using decode_inv [OF full(1)] by (simp add: encode_addr_def body encode_spec addr_checksum_size_def)
qed

theorem decode_addr_canonical_witness:
  "\<exists>addr. decode_addr addr = Some (6, [1, 2, 3]) \<and> encode_addr 6 [1, 2, 3] = Some addr"
proof -
  obtain addr where a: "decode_addr addr = Some (6, [1, 2, 3])" using address_roundtrip by blast
  have "encode_addr 6 [1, 2, 3] = Some addr" by (rule decode_addr_canonical [OF a]) simp
  then show ?thesis using a by blast
qed

end
