(* ===== verification/Ordered_Map.thy ===== *)
theory Ordered_Map
  imports Fuego_Prelude
begin

text \<open>
  The \<open>std::map\<close> of the C++ sources: an association list sorted strictly by key, so that iterating
  the list is iterating the map. The locale \<open>keyed_store\<close> is the contract the components rely on;
  its lemmas (cancellation of an insertion by an erasure, order independence, equality by lookups)
  are proved once from the contract and used through the interpretation \<open>om\<close>.
\<close>

section \<open>Definitions\<close>

type_synonym ('k, 'v) omap = "('k \<times> 'v) list"

definition om_inv :: "('k :: linorder, 'v) omap \<Rightarrow> bool" where
  "om_inv m \<longleftrightarrow> sorted_wrt (<) (map fst m)"

definition om_find :: "('k, 'v) omap \<Rightarrow> 'k \<Rightarrow> 'v option" where
  "om_find m k = map_of m k"

text \<open>\<open>m[k] = v\<close>.\<close>

fun om_put :: "'k :: linorder \<Rightarrow> 'v \<Rightarrow> ('k, 'v) omap \<Rightarrow> ('k, 'v) omap" where
  "om_put k v [] = [(k, v)]"
| "om_put k v ((j, w) # m) =
     (if k < j then (k, v) # (j, w) # m
      else if k = j then (k, v) # m
      else (j, w) # om_put k v m)"

text \<open>\<open>m.erase(k)\<close>.\<close>

definition om_erase :: "'k \<Rightarrow> ('k, 'v) omap \<Rightarrow> ('k, 'v) omap" where
  "om_erase k m = filter (\<lambda>e. fst e \<noteq> k) m"

text \<open>\<open>m.count(k) > 0\<close>.\<close>

definition om_has :: "('k, 'v) omap \<Rightarrow> 'k \<Rightarrow> bool" where
  "om_has m k \<longleftrightarrow> om_find m k \<noteq> None"

definition om_values :: "('k, 'v) omap \<Rightarrow> 'v list" where
  "om_values m = map snd m"

text \<open>The entries from \<open>m.upper_bound(k)\<close> on, and those in front of it.\<close>

definition om_above :: "'k :: linorder \<Rightarrow> ('k, 'v) omap \<Rightarrow> ('k, 'v) omap" where
  "om_above k m = filter (\<lambda>e. k < fst e) m"

definition om_upto :: "'k :: linorder \<Rightarrow> ('k, 'v) omap \<Rightarrow> ('k, 'v) omap" where
  "om_upto k m = filter (\<lambda>e. fst e \<le> k) m"

section \<open>The contract of a keyed store\<close>

locale keyed_store =
  fixes inv :: "'m \<Rightarrow> bool"
    and empty :: "'m"
    and find :: "'m \<Rightarrow> 'k \<Rightarrow> 'v option"
    and put :: "'k \<Rightarrow> 'v \<Rightarrow> 'm \<Rightarrow> 'm"
    and erase :: "'k \<Rightarrow> 'm \<Rightarrow> 'm"
  assumes inv_empty: "inv empty"
    and inv_put: "inv m \<Longrightarrow> inv (put k v m)"
    and inv_erase: "inv m \<Longrightarrow> inv (erase k m)"
    and find_empty: "find empty k = None"
    and find_put: "inv m \<Longrightarrow> find (put k v m) j = (if j = k then Some v else find m j)"
    and find_erase: "inv m \<Longrightarrow> find (erase k m) j = (if j = k then None else find m j)"
    and ext: "inv m \<Longrightarrow> inv n \<Longrightarrow> (\<And>k. find m k = find n k) \<Longrightarrow> m = n"
begin

lemma erase_put_fresh: "inv m \<Longrightarrow> find m k = None \<Longrightarrow> erase k (put k v m) = m"
  by (rule ext) (simp_all add: inv_put inv_erase find_put find_erase)

lemma erase_absent: "inv m \<Longrightarrow> find m k = None \<Longrightarrow> erase k m = m"
  by (rule ext) (simp_all add: inv_erase find_erase)

lemma put_put: "inv m \<Longrightarrow> put k v (put k w m) = put k v m"
  by (rule ext) (simp_all add: inv_put find_put)

lemma put_same: "inv m \<Longrightarrow> find m k = Some v \<Longrightarrow> put k v m = m"
  by (rule ext) (simp_all add: inv_put find_put)

lemma put_commute: "inv m \<Longrightarrow> j \<noteq> k \<Longrightarrow> put j w (put k v m) = put k v (put j w m)"
  by (rule ext) (simp_all add: inv_put find_put)

lemma put_erase: "inv m \<Longrightarrow> put k v (erase k m) = put k v m"
  by (rule ext) (simp_all add: inv_put inv_erase find_put find_erase)

lemma inv_fold_erase: "inv m \<Longrightarrow> inv (fold erase ks m)"
  by (induction ks arbitrary: m) (simp_all add: inv_erase)

lemma find_fold_erase: "inv m \<Longrightarrow> find (fold erase ks m) j = (if j \<in> set ks then None else find m j)"
  by (induction ks arbitrary: m) (auto simp: inv_erase find_erase)

end

section \<open>Sorted association lists meet the contract\<close>

lemma om_put_keys: "set (map fst (om_put k v m)) = insert k (set (map fst m))"
  by (induction k v m rule: om_put.induct) auto

lemma om_put_mem: "e \<in> set (om_put k v m) \<Longrightarrow> e = (k, v) \<or> e \<in> set m"
  by (induction k v m rule: om_put.induct) (auto split: if_splits)

lemma om_inv_Nil [simp]: "om_inv []"
  by (simp add: om_inv_def)

lemma om_inv_put [simp]: "om_inv m \<Longrightarrow> om_inv (om_put k v m)"
  unfolding om_inv_def
  by (induction k v m rule: om_put.induct) (auto dest: om_put_mem)

lemma om_inv_erase [simp]: "om_inv m \<Longrightarrow> om_inv (om_erase k m)"
  unfolding om_inv_def om_erase_def by (induction m) auto

lemma om_inv_filter: "om_inv m \<Longrightarrow> om_inv (filter P m)"
  unfolding om_inv_def by (simp add: sorted_wrt_map sorted_wrt_filter)

lemma om_find_put [simp]: "om_inv m \<Longrightarrow> om_find (om_put k v m) j = (if j = k then Some v else om_find m j)"
  unfolding om_inv_def om_find_def
  by (induction k v m rule: om_put.induct) auto

lemma om_find_erase [simp]: "om_find (om_erase k m) j = (if j = k then None else om_find m j)"
  unfolding om_find_def om_erase_def by (induction m) auto

lemma om_distinct: "om_inv m \<Longrightarrow> distinct (map fst m)"
  unfolding om_inv_def by (simp add: strict_sorted_iff)

lemma om_ext:
  assumes "om_inv m" "om_inv n" "\<And>k. om_find m k = om_find n k"
  shows "m = n"
proof -
  have "set m = set n"
    using assms(3) om_distinct [OF assms(1)] om_distinct [OF assms(2)]
    by (auto simp: om_find_def) (metis map_of_SomeD map_of_eq_Some_iff)+
  then show ?thesis
    using assms(1,2) map_sorted_distinct_set_unique [of fst m n] om_distinct [OF assms(1)]
      om_distinct [OF assms(2)]
    unfolding om_inv_def by (auto simp: strict_sorted_iff distinct_map)
qed

interpretation om: keyed_store om_inv "[]" om_find om_put om_erase
  by unfold_locales (auto simp: om_find_def [of "[]"] intro: om_ext)

end
