(* ===== verification/Alias_Index.thy ===== *)
theory Alias_Index
  imports Ordered_Map Keccak Byte_Codecs
begin

text \<open>
  The alias registry of \<open>src/src/CryptoNoteCore/AliasIndex.cpp\<close>: a map from alias to entry and a
  map from the hexadecimal hash of the owner's address to the alias. Every registry that
  registrations and voidings can produce satisfies \<open>alias_inv\<close>: the two maps are inverse to each
  other (up to the reserved names of the developer fund, which share one address) and the two
  spellings of a special name never coexist. The locale \<open>alias_registry\<close> is what the commitment
  index relies on.
\<close>

section \<open>Definitions\<close>

record AliasEntry =
  ae_alias :: string
  ae_ownerAddress :: string
  ae_aliasHash :: hash
  ae_addressHash :: hash
  ae_aliasType :: u8
  ae_registeredBlock :: u32

record AliasIndex =
  m_aliases :: "(string, AliasEntry) omap"
  m_addrHashToAlias :: "(string, string) omap"

definition FUEGO_DEV_FUND_ADDRESS :: string where
  "FUEGO_DEV_FUND_ADDRESS =
     ''fireVHx639SLMhzmBoJ8drTXbVyv2eRG6A8aMLc1taTiRNwk8pnwXpBDUSjH1dT5fg7yVVZrKkvm31CmigAMdVDg7sgxJmAUNp''"

text \<open>\<open>podToHex(cn_fast_hash(address.data(), address.size()))\<close>: the key of an address.\<close>

definition address_key :: "string \<Rightarrow> string" where
  "address_key address = podToHex (cn_fast_hash (str_bytes address))"

definition reserved_aliases :: "(string \<times> u8) list" where
  "reserved_aliases = [(''FUEGOXFG'', 0), (''fuegoxfg'', 1), (''FUEGODEV'', 0), (''fuegodev'', 1)]"

definition reserved_entry :: "string \<times> u8 \<Rightarrow> AliasEntry" where
  "reserved_entry r =
     \<lparr>ae_alias = fst r, ae_ownerAddress = [], ae_aliasHash = cn_fast_hash (str_bytes (fst r)),
      ae_addressHash = cn_fast_hash (str_bytes FUEGO_DEV_FUND_ADDRESS),
      ae_aliasType = snd r, ae_registeredBlock = 0\<rparr>"

definition reserve_alias :: "string \<times> u8 \<Rightarrow> AliasIndex \<Rightarrow> AliasIndex" where
  "reserve_alias r s =
     (let entry = reserved_entry r;
          addrHashHex = podToHex (ae_addressHash entry);
          s1 = s\<lparr>m_aliases := om_put (ae_alias entry) entry (m_aliases s)\<rparr>
      in if om_find (m_addrHashToAlias s1) addrHashHex = None
         then s1\<lparr>m_addrHashToAlias := om_put addrHashHex (ae_alias entry) (m_addrHashToAlias s1)\<rparr>
         else s1)"

text \<open>The constructor: an empty registry with the reserved names.\<close>

definition reserveDevTeamAliases :: "AliasIndex \<Rightarrow> AliasIndex" where
  "reserveDevTeamAliases s = fold reserve_alias reserved_aliases s"

definition AliasIndex_new :: AliasIndex where
  "AliasIndex_new = reserveDevTeamAliases \<lparr>m_aliases = [], m_addrHashToAlias = []\<rparr>"

definition in_range :: "char \<Rightarrow> char \<Rightarrow> char \<Rightarrow> bool" where
  "in_range lo hi c \<longleftrightarrow> (of_char lo :: nat) \<le> of_char c \<and> (of_char c :: nat) \<le> of_char hi"

definition isValidElderfierAlias :: "string \<Rightarrow> bool" where
  "isValidElderfierAlias name =
     (if name = ''GALAPAGOS'' then True
      else if name = ''WINSLAYER'' then True
      else if name = ''LOUDMINING'' then True
      else if length name \<noteq> 8 then False
      else list_all (\<lambda>c. in_range CHR ''A'' CHR ''Z'' c \<or> in_range CHR ''0'' CHR ''9'' c \<or> c = CHR ''&'') name)"

definition isValidRegularAlias :: "string \<Rightarrow> bool" where
  "isValidRegularAlias name =
     (if name = ''winslayer'' then True
      else if name = ''galapagos'' then True
      else if length name \<noteq> 8 then False
      else list_all (\<lambda>c. in_range CHR ''a'' CHR ''z'' c \<or> in_range CHR ''0'' CHR ''9'' c \<or> c = CHR ''&'') name)"

text \<open>The first block of \<open>registerAlias\<close>: whether the name, or the other spelling of a special
  name, is already registered.\<close>

definition opposite_case :: "string \<Rightarrow> string" where
  "opposite_case name =
     (if name = ''winslayer'' then ''WINSLAYER''
      else if name = ''WINSLAYER'' then ''winslayer''
      else if name = ''LOUDMINING'' then []
      else if name = ''galapagos'' then ''GALAPAGOS''
      else if name = ''GALAPAGOS'' then ''galapagos''
      else [])"

definition alias_taken :: "string \<Rightarrow> AliasIndex \<Rightarrow> bool" where
  "alias_taken name s =
     (if name = ''winslayer'' \<or> name = ''WINSLAYER'' \<or> name = ''galapagos'' \<or> name = ''GALAPAGOS''
      then if om_has (m_aliases s) (opposite_case name) then True
           else om_has (m_aliases s) name
      else om_has (m_aliases s) name)"

definition registerAlias :: "AliasEntry \<Rightarrow> AliasIndex \<Rightarrow> bool \<times> AliasIndex" where
  "registerAlias entry s =
     (let addrHashHex = podToHex (ae_addressHash entry)
      in if alias_taken (ae_alias entry) s then (False, s)
         else if om_has (m_addrHashToAlias s) addrHashHex then (False, s)
         else if (if ae_aliasType entry = 0 then \<not> isValidElderfierAlias (ae_alias entry)
                  else if ae_aliasType entry = 1 then \<not> isValidRegularAlias (ae_alias entry)
                  else True) then (False, s)
         else (True, s\<lparr>m_aliases := om_put (ae_alias entry) entry (m_aliases s),
                       m_addrHashToAlias := om_put addrHashHex (ae_alias entry) (m_addrHashToAlias s)\<rparr>))"

definition voidAlias :: "string \<Rightarrow> AliasIndex \<Rightarrow> bool \<times> AliasIndex" where
  "voidAlias ownerAddress s =
     (let addrHashHex = address_key ownerAddress
      in (case om_find (m_addrHashToAlias s) addrHashHex of
            None \<Rightarrow> (False, s)
          | Some aliasName \<Rightarrow>
            (True, s\<lparr>m_aliases := om_erase aliasName (m_aliases s),
                     m_addrHashToAlias := om_erase addrHashHex (m_addrHashToAlias s)\<rparr>)))"

definition aliasExists :: "string \<Rightarrow> AliasIndex \<Rightarrow> bool" where
  "aliasExists name s = om_has (m_aliases s) name"

definition addressHasAlias :: "string \<Rightarrow> AliasIndex \<Rightarrow> bool" where
  "addressHasAlias address s = om_has (m_addrHashToAlias s) (address_key address)"

definition getAliasByName :: "string \<Rightarrow> AliasIndex \<Rightarrow> AliasEntry option" where
  "getAliasByName name s = om_find (m_aliases s) name"

definition getAliasByAddress :: "string \<Rightarrow> AliasIndex \<Rightarrow> AliasEntry option" where
  "getAliasByAddress address s =
     (case om_find (m_addrHashToAlias s) (address_key address) of None \<Rightarrow> None
      | Some name \<Rightarrow> om_find (m_aliases s) name)"

definition getAllAliases :: "AliasIndex \<Rightarrow> AliasEntry list" where
  "getAllAliases s = om_values (m_aliases s)"

definition alias_count :: "AliasIndex \<Rightarrow> nat" where
  "alias_count s = length (m_aliases s)"

text \<open>The lookup of \<open>getAliasByAddress\<close> once the address is hashed.\<close>

definition alias_by_key :: "string \<Rightarrow> AliasIndex \<Rightarrow> AliasEntry option" where
  "alias_by_key k s =
     (case om_find (m_addrHashToAlias s) k of None \<Rightarrow> None | Some name \<Rightarrow> om_find (m_aliases s) name)"

text \<open>The registries the operations can produce.\<close>

inductive alias_reachable :: "AliasIndex \<Rightarrow> bool" where
  alias_init: "alias_reachable AliasIndex_new"
| alias_register: "alias_reachable s \<Longrightarrow> alias_reachable (snd (registerAlias entry s))"
| alias_void: "alias_reachable s \<Longrightarrow> alias_reachable (snd (voidAlias address s))"

text \<open>The names of the developer fund that have no entry of their own in the reverse map.\<close>

definition shared_names :: "string set" where
  "shared_names = {''fuegoxfg'', ''FUEGODEV'', ''fuegodev''}"

definition valid_entry :: "AliasEntry \<Rightarrow> bool" where
  "valid_entry e \<longleftrightarrow>
     (ae_aliasType e = 0 \<and> isValidElderfierAlias (ae_alias e)) \<or>
     (ae_aliasType e = 1 \<and> isValidRegularAlias (ae_alias e))"

definition alias_inv :: "AliasIndex \<Rightarrow> bool" where
  "alias_inv s \<longleftrightarrow> om_inv (m_aliases s) \<and> om_inv (m_addrHashToAlias s) \<and>
     (\<forall>n e. om_find (m_aliases s) n = Some e \<longrightarrow>
        ae_alias e = n \<and> valid_entry e \<and>
        (n \<notin> shared_names \<longrightarrow> om_find (m_addrHashToAlias s) (podToHex (ae_addressHash e)) = Some n)) \<and>
     (\<forall>h n. om_find (m_addrHashToAlias s) h = Some n \<longrightarrow>
        n \<notin> shared_names \<and> (\<exists>e. om_find (m_aliases s) n = Some e \<and> podToHex (ae_addressHash e) = h)) \<and>
     (\<forall>n \<in> shared_names. om_has (m_aliases s) n) \<and>
     \<not> (om_has (m_aliases s) ''winslayer'' \<and> om_has (m_aliases s) ''WINSLAYER'') \<and>
     \<not> (om_has (m_aliases s) ''galapagos'' \<and> om_has (m_aliases s) ''GALAPAGOS'')"

text \<open>An ordinary entry.\<close>

definition fan_entry :: AliasEntry where
  "fan_entry =
     \<lparr>ae_alias = ''fuegofan'', ae_ownerAddress = [], ae_aliasHash = cn_fast_hash (str_bytes ''fuegofan''),
      ae_addressHash = cn_fast_hash (str_bytes ''x''), ae_aliasType = 1, ae_registeredBlock = 7\<rparr>"

section \<open>The invariant\<close>

lemma valid_names:
  "isValidElderfierAlias ''FUEGOXFG''" "isValidRegularAlias ''fuegoxfg''"
  "isValidElderfierAlias ''FUEGODEV''" "isValidRegularAlias ''fuegodev''"
  by code_simp+

lemma alias_inv_new: "alias_inv AliasIndex_new"
  unfolding alias_inv_def AliasIndex_new_def reserveDevTeamAliases_def reserved_aliases_def
    reserve_alias_def reserved_entry_def shared_names_def
  by (auto simp: Let_def valid_names valid_entry_def om_has_def om_find_def om_inv_def split: if_splits)

text \<open>What a successful registration checked and did.\<close>

lemma registerAlias_success:
  assumes "registerAlias entry s = (True, s')"
  shows "s' = s\<lparr>m_aliases := om_put (ae_alias entry) entry (m_aliases s),
      m_addrHashToAlias := om_put (podToHex (ae_addressHash entry)) (ae_alias entry) (m_addrHashToAlias s)\<rparr>"
    and "om_find (m_aliases s) (ae_alias entry) = None"
    and "om_find (m_addrHashToAlias s) (podToHex (ae_addressHash entry)) = None"
    and "valid_entry entry"
    and "ae_alias entry = ''winslayer'' \<Longrightarrow> om_find (m_aliases s) ''WINSLAYER'' = None"
    and "ae_alias entry = ''WINSLAYER'' \<Longrightarrow> om_find (m_aliases s) ''winslayer'' = None"
    and "ae_alias entry = ''galapagos'' \<Longrightarrow> om_find (m_aliases s) ''GALAPAGOS'' = None"
    and "ae_alias entry = ''GALAPAGOS'' \<Longrightarrow> om_find (m_aliases s) ''galapagos'' = None"
proof -
  have nt: "\<not> alias_taken (ae_alias entry) s"
    using assms by (simp add: registerAlias_def Let_def split: if_splits)
  show "s' = s\<lparr>m_aliases := om_put (ae_alias entry) entry (m_aliases s),
      m_addrHashToAlias := om_put (podToHex (ae_addressHash entry)) (ae_alias entry) (m_addrHashToAlias s)\<rparr>"
    and "om_find (m_addrHashToAlias s) (podToHex (ae_addressHash entry)) = None"
    and "valid_entry entry"
    using assms by (auto simp: registerAlias_def Let_def om_has_def valid_entry_def split: if_splits)
  show "om_find (m_aliases s) (ae_alias entry) = None"
    using nt unfolding alias_taken_def om_has_def by presburger
  show "ae_alias entry = ''winslayer'' \<Longrightarrow> om_find (m_aliases s) ''WINSLAYER'' = None"
    and "ae_alias entry = ''WINSLAYER'' \<Longrightarrow> om_find (m_aliases s) ''winslayer'' = None"
    and "ae_alias entry = ''galapagos'' \<Longrightarrow> om_find (m_aliases s) ''GALAPAGOS'' = None"
    and "ae_alias entry = ''GALAPAGOS'' \<Longrightarrow> om_find (m_aliases s) ''galapagos'' = None"
    using nt by (simp_all add: alias_taken_def om_has_def opposite_case_def split: if_splits)
qed

lemma registerAlias_failure: "registerAlias entry s = (False, s') \<Longrightarrow> s' = s"
  by (auto simp: registerAlias_def Let_def split: if_splits)

lemma alias_invD:
  assumes "alias_inv s"
  shows "om_inv (m_aliases s)" "om_inv (m_addrHashToAlias s)"
    and "om_find (m_aliases s) n = Some e \<Longrightarrow> ae_alias e = n"
    and "om_find (m_aliases s) n = Some e \<Longrightarrow> valid_entry e"
    and "om_find (m_aliases s) n = Some e \<Longrightarrow> n \<notin> shared_names \<Longrightarrow>
      om_find (m_addrHashToAlias s) (podToHex (ae_addressHash e)) = Some n"
    and "om_find (m_addrHashToAlias s) h = Some n \<Longrightarrow> n \<notin> shared_names"
    and "om_find (m_addrHashToAlias s) h = Some n \<Longrightarrow>
      \<exists>e. om_find (m_aliases s) n = Some e \<and> podToHex (ae_addressHash e) = h"
    and "n \<in> shared_names \<Longrightarrow> om_find (m_aliases s) n \<noteq> None"
    and "om_find (m_aliases s) ''winslayer'' = None \<or> om_find (m_aliases s) ''WINSLAYER'' = None"
    and "om_find (m_aliases s) ''galapagos'' = None \<or> om_find (m_aliases s) ''GALAPAGOS'' = None"
  using assms by (simp_all add: alias_inv_def om_has_def)

lemma alias_invI:
  assumes "om_inv (m_aliases s)" "om_inv (m_addrHashToAlias s)"
    and "\<And>n e. om_find (m_aliases s) n = Some e \<Longrightarrow> ae_alias e = n \<and> valid_entry e"
    and "\<And>n e. om_find (m_aliases s) n = Some e \<Longrightarrow> n \<notin> shared_names \<Longrightarrow>
      om_find (m_addrHashToAlias s) (podToHex (ae_addressHash e)) = Some n"
    and "\<And>h n. om_find (m_addrHashToAlias s) h = Some n \<Longrightarrow>
      n \<notin> shared_names \<and> (\<exists>e. om_find (m_aliases s) n = Some e \<and> podToHex (ae_addressHash e) = h)"
    and "\<And>n. n \<in> shared_names \<Longrightarrow> om_find (m_aliases s) n \<noteq> None"
    and "om_find (m_aliases s) ''winslayer'' = None \<or> om_find (m_aliases s) ''WINSLAYER'' = None"
    and "om_find (m_aliases s) ''galapagos'' = None \<or> om_find (m_aliases s) ''GALAPAGOS'' = None"
  shows "alias_inv s"
  unfolding alias_inv_def om_has_def using assms by simp

lemma alias_inv_register:
  assumes "alias_inv s"
  shows "alias_inv (snd (registerAlias entry s))"
proof (cases "registerAlias entry s")
  case (Pair ok s')
  show ?thesis
  proof (cases ok)
    case False
    then show ?thesis using assms registerAlias_failure Pair by fastforce
  next
    case True
    then have "registerAlias entry s = (True, s')" using Pair by simp
    note r = registerAlias_success [OF this] and d = alias_invD [OF assms]
    have nsh: "ae_alias entry \<notin> shared_names" using d(8) r(2) by blast
    have "alias_inv s'"
    proof (rule alias_invI)
      fix n e assume "om_find (m_aliases s') n = Some e" "n \<notin> shared_names"
      then show "om_find (m_addrHashToAlias s') (podToHex (ae_addressHash e)) = Some n"
        using d(1,2) d(5) [of n e] r(1,3) by (auto split: if_splits)
    next
      fix h n assume "om_find (m_addrHashToAlias s') h = Some n"
      then show "n \<notin> shared_names \<and>
          (\<exists>e. om_find (m_aliases s') n = Some e \<and> podToHex (ae_addressHash e) = h)"
        using d(1,2) d(6,7) [of h n] r(1,2) nsh by (auto split: if_splits)
    next
      fix n e assume "om_find (m_aliases s') n = Some e"
      then show "ae_alias e = n \<and> valid_entry e"
        using d(1) d(3,4) [of n e] r(1,4) by (auto split: if_splits)
    next
      fix n assume "n \<in> shared_names"
      then show "om_find (m_aliases s') n \<noteq> None" using d(1) d(8) [of n] r(1) by simp
    next
      show "om_find (m_aliases s') ''winslayer'' = None \<or> om_find (m_aliases s') ''WINSLAYER'' = None"
        using d(1,9) r(5,6)
        by (cases "ae_alias entry = ''winslayer''"; cases "ae_alias entry = ''WINSLAYER''") (auto simp: r(1))
      show "om_find (m_aliases s') ''galapagos'' = None \<or> om_find (m_aliases s') ''GALAPAGOS'' = None"
        using d(1,10) r(7,8)
        by (cases "ae_alias entry = ''galapagos''"; cases "ae_alias entry = ''GALAPAGOS''") (auto simp: r(1))
    qed (use r(1) d(1,2) in simp_all)
    then show ?thesis using Pair by simp
  qed
qed

lemma alias_inv_void:
  assumes "alias_inv s"
  shows "alias_inv (snd (voidAlias address s))"
proof (cases "om_find (m_addrHashToAlias s) (address_key address)")
  case None
  then show ?thesis using assms by (simp add: voidAlias_def Let_def)
next
  case (Some n0)
  note d = alias_invD [OF assms]
  obtain e0 where e0: "om_find (m_aliases s) n0 = Some e0" "podToHex (ae_addressHash e0) = address_key address"
    using d(7) [OF Some] by blast
  let ?s' = "s\<lparr>m_aliases := om_erase n0 (m_aliases s),
      m_addrHashToAlias := om_erase (address_key address) (m_addrHashToAlias s)\<rparr>"
  have "alias_inv ?s'"
  proof (rule alias_invI)
    fix n e assume "om_find (m_aliases ?s') n = Some e" "n \<notin> shared_names"
    then show "om_find (m_addrHashToAlias ?s') (podToHex (ae_addressHash e)) = Some n"
      using d(5) [of n e] Some by (auto split: if_splits)
  next
    fix h n assume "om_find (m_addrHashToAlias ?s') h = Some n"
    then show "n \<notin> shared_names \<and>
        (\<exists>e. om_find (m_aliases ?s') n = Some e \<and> podToHex (ae_addressHash e) = h)"
      using d(6,7) [of h n] e0 by (auto split: if_splits)
  next
    fix n e assume "om_find (m_aliases ?s') n = Some e"
    then show "ae_alias e = n \<and> valid_entry e" using d(3,4) [of n e] by (auto split: if_splits)
  next
    fix n assume "n \<in> shared_names"
    then show "om_find (m_aliases ?s') n \<noteq> None" using d(8) [of n] d(6) [OF Some] by auto
  qed (use d(1,2,9,10) in auto)
  then show ?thesis using Some by (simp add: voidAlias_def Let_def)
qed

lemma alias_reachable_inv: "alias_reachable s \<Longrightarrow> alias_inv s"
  by (induction rule: alias_reachable.induct) (simp_all add: alias_inv_new alias_inv_register alias_inv_void)

section \<open>The contract other components use\<close>

text \<open>
  What a client of the registry relies on, over its state \<open>'s\<close>: a registration that succeeds can be
  looked up by the owner's address, a voided address has no alias and can register again, and other
  owners' aliases are not touched.
\<close>

locale alias_registry =
  fixes inv :: "'s \<Rightarrow> bool"
    and register :: "AliasEntry \<Rightarrow> 's \<Rightarrow> bool \<times> 's"
    and void :: "string \<Rightarrow> 's \<Rightarrow> bool \<times> 's"
    and by_key :: "string \<Rightarrow> 's \<Rightarrow> AliasEntry option"
  assumes inv_register: "inv s \<Longrightarrow> inv (snd (register e s))"
    and inv_void: "inv s \<Longrightarrow> inv (snd (void a s))"
    and by_key_register: "inv s \<Longrightarrow> register e s = (True, s') \<Longrightarrow>
      by_key k s' = (if k = podToHex (ae_addressHash e) then Some e else by_key k s)"
    and register_failure: "register e s = (False, s') \<Longrightarrow> s' = s"
    and by_key_void: "inv s \<Longrightarrow> void a s = (ok, s') \<Longrightarrow>
      by_key k s' = (if k = address_key a then None else by_key k s)"
begin

lemma void_after_register:
  assumes "inv s" "register e s = (True, s1)" "podToHex (ae_addressHash e) = address_key a"
    and "void a s1 = (ok, s2)"
  shows "by_key k s2 = (if k = address_key a then None else by_key k s)"
proof -
  have "inv s1" using inv_register [OF assms(1), of e] assms(2) by simp
  from by_key_void [OF this assms(4)] by_key_register [OF assms(1,2)] show ?thesis
    using assms(3) by simp
qed

lemma other_keys_untouched:
  assumes "inv s" "k \<noteq> podToHex (ae_addressHash e)"
  shows "by_key k (snd (register e s)) = by_key k s"
proof (cases "register e s")
  case (Pair ok s')
  then show ?thesis using assms by_key_register [of s e s' k] register_failure [of e s s'] by (cases ok) simp_all
qed

end

lemma getAliasByAddress_key: "getAliasByAddress a s = alias_by_key (address_key a) s"
  by (simp add: getAliasByAddress_def alias_by_key_def)

lemma alias_by_key_register:
  assumes "alias_inv s" "registerAlias e s = (True, s')"
  shows "alias_by_key k s' = (if k = podToHex (ae_addressHash e) then Some e else alias_by_key k s)"
proof -
  note r = registerAlias_success [OF assms(2)] and d = alias_invD [OF assms(1)]
  have "om_find (m_addrHashToAlias s) k = Some n \<Longrightarrow> n \<noteq> ae_alias e" for n using d(7) [of k n] r(2) by auto
  then show ?thesis using d(1,2) r(1) by (auto simp: alias_by_key_def split: option.splits)
qed

lemma alias_by_key_void:
  assumes "alias_inv s" "voidAlias a s = (ok, s')"
  shows "alias_by_key k s' = (if k = address_key a then None else alias_by_key k s)"
proof -
  note d = alias_invD [OF assms(1)]
  have "om_find (m_addrHashToAlias s) k = Some n \<Longrightarrow> om_find (m_addrHashToAlias s) (address_key a) = Some n
      \<Longrightarrow> k = address_key a" for n
    using d(7) [of k n] d(7) [of "address_key a" n] by auto
  then show ?thesis using assms(2)
    by (auto simp: alias_by_key_def voidAlias_def Let_def split: option.splits)
qed

interpretation registry: alias_registry alias_inv registerAlias voidAlias alias_by_key
  by unfold_locales
    (use alias_inv_register alias_inv_void alias_by_key_register alias_by_key_void
      registerAlias_failure in blast)+

section \<open>Properties\<close>

text \<open>
  In every registry the operations can produce, an address owns at most one alias (the reserved
  names apart), the reverse lookup by address finds it, every stored name is well formed for its
  type, and the two spellings of a special name are never both registered.
\<close>

theorem alias_registry_consistent:
  assumes "alias_reachable s"
  shows "(getAliasByName n s = Some e \<and> n \<notin> shared_names \<and> ae_addressHash e = cn_fast_hash (str_bytes a)
            \<longrightarrow> getAliasByAddress a s = Some e)
    \<and> (getAliasByName n s = Some e \<longrightarrow> ae_alias e = n \<and> valid_entry e)
    \<and> \<not> (aliasExists ''winslayer'' s \<and> aliasExists ''WINSLAYER'' s)
    \<and> \<not> (aliasExists ''galapagos'' s \<and> aliasExists ''GALAPAGOS'' s)"
proof -
  note d = alias_invD [OF alias_reachable_inv [OF assms]]
  have "getAliasByAddress a s = Some e"
    if "om_find (m_aliases s) n = Some e" "n \<notin> shared_names" "ae_addressHash e = cn_fast_hash (str_bytes a)"
    using d(5) [OF that(1,2)] that by (simp add: getAliasByAddress_def address_key_def)
  then show ?thesis using d(3,4) [of n e] d(9,10)
    by (auto simp: getAliasByName_def aliasExists_def om_has_def)
qed

theorem alias_registry_consistent_witness:
  "getAliasByAddress FUEGO_DEV_FUND_ADDRESS AliasIndex_new = Some (reserved_entry (''FUEGOXFG'', 0))"
proof -
  have "getAliasByName ''FUEGOXFG'' AliasIndex_new = Some (reserved_entry (''FUEGOXFG'', 0))"
    by (simp add: getAliasByName_def AliasIndex_new_def reserveDevTeamAliases_def reserved_aliases_def
        reserve_alias_def om_find_def Let_def reserved_entry_def)
  then show ?thesis
    using alias_registry_consistent [OF alias_init, of "''FUEGOXFG''" "reserved_entry (''FUEGOXFG'', 0)"
        FUEGO_DEV_FUND_ADDRESS]
    by (simp add: shared_names_def reserved_entry_def)
qed

text \<open>
  Voiding an address after it registered an alias frees the address and leaves every other
  owner's alias as it was before the registration.
\<close>

theorem register_then_void:
  assumes "alias_reachable s" "registerAlias e s = (True, s1)"
    and "ae_addressHash e = cn_fast_hash (str_bytes a)" "voidAlias a s1 = (ok, s2)"
  shows "ok \<and> getAliasByAddress b s2 = (if address_key b = address_key a then None else getAliasByAddress b s)"
proof -
  have k: "podToHex (ae_addressHash e) = address_key a" using assms(3) by (simp add: address_key_def)
  have inv: "alias_inv s" by (rule alias_reachable_inv [OF assms(1)])
  have "om_find (m_addrHashToAlias s1) (address_key a) = Some (ae_alias e)"
    using registerAlias_success(1) [OF assms(2)] alias_invD(2) [OF inv] k by simp
  then have ok using assms(4) by (simp add: voidAlias_def Let_def)
  then show ?thesis
    using registry.void_after_register [OF inv assms(2) k assms(4)]
    by (simp add: getAliasByAddress_key)
qed

theorem register_then_void_witness:
  "\<exists>s s1 ok s2. registerAlias fan_entry s = (True, s1) \<and> voidAlias ''x'' s1 = (ok, s2) \<and>
     ok \<and> getAliasByAddress ''x'' s2 = None"
proof -
  let ?s = "snd (voidAlias FUEGO_DEV_FUND_ADDRESS AliasIndex_new)"
  have s: "alias_reachable ?s" by (intro alias_reachable.intros)
  have "fst (registerAlias fan_entry ?s)"
    by (simp add: registerAlias_def voidAlias_def AliasIndex_new_def reserveDevTeamAliases_def
        reserved_aliases_def reserve_alias_def reserved_entry_def om_find_def om_has_def om_erase_def Let_def fan_entry_def
        alias_taken_def address_key_def isValidRegularAlias_def in_range_def)
  then obtain s1 where r: "registerAlias fan_entry ?s = (True, s1)" by (metis prod.collapse)
  obtain ok s2 where v: "voidAlias ''x'' s1 = (ok, s2)" by (metis prod.collapse)
  have "ok \<and> getAliasByAddress ''x'' s2 = None"
    using register_then_void [OF s r _ v, of "''x''"] by (simp add: fan_entry_def)
  then show ?thesis using r v by blast
qed

end
