(* ===== verification/Merkle_Tree.thy ===== *)
theory Merkle_Tree
  imports Keccak
begin

text \<open>
  The Merkle tree of \<open>src/src/CryptoNoteCore/CommitmentIndex.cpp\<close> (\<open>computeMerkleRootInternal\<close>,
  \<open>getMerkleProof\<close>, \<open>getLeafIndex\<close>) over a list of leaf hashes: pairs are hashed with
  \<open>cn_fast_hash\<close>, an odd last node is hashed with itself. A proof is checked by folding its hashes
  into the leaf along the bits of the leaf index (\<open>fold_proof\<close>). Proofs of the code are accepted,
  and an accepted proof pins down the leaf unless the hash function collides on one of the blocks
  that were actually hashed.
\<close>

section \<open>Definitions\<close>

definition hash_pair :: "hash \<Rightarrow> hash \<Rightarrow> hash" where
  "hash_pair l r = cn_fast_hash (l @ r)"

fun next_level :: "hash list \<Rightarrow> hash list" where
  "next_level [] = []"
| "next_level [x] = [hash_pair x x]"
| "next_level (x # y # rest) = hash_pair x y # next_level rest"

lemma length_next_level: "length (next_level level) = (length level + 1) div 2"
  by (induction level rule: next_level.induct) simp_all

function merkle_loop :: "hash list \<Rightarrow> hash" where
  "merkle_loop level = (if 1 < length level then merkle_loop (next_level level) else level ! 0)"
  by pat_completeness auto
termination
  by (relation "measure length") (auto simp: length_next_level)

declare merkle_loop.simps [simp del]

definition computeMerkleRootInternal :: "hash list \<Rightarrow> hash" where
  "computeMerkleRootInternal m_merkle_leaves =
     (if m_merkle_leaves = [] then null_pod else merkle_loop m_merkle_leaves)"

text \<open>The position of the first leaf equal to the commitment; \<open>None\<close> is \<open>SIZE_MAX\<close>.\<close>

fun find_leaf :: "hash \<Rightarrow> hash list \<Rightarrow> nat option" where
  "find_leaf c [] = None"
| "find_leaf c (x # xs) = (if x = c then Some 0 else map_option Suc (find_leaf c xs))"

definition sibling_idx :: "nat \<Rightarrow> nat \<Rightarrow> nat" where
  "sibling_idx n idx = (if idx mod 2 = 0 then (if idx + 1 < n then idx + 1 else idx) else idx - 1)"

function proof_loop :: "nat \<Rightarrow> hash list \<Rightarrow> hash list" where
  "proof_loop idx level =
     (if 1 < length level
      then level ! sibling_idx (length level) idx # proof_loop (idx div 2) (next_level level)
      else [])"
  by pat_completeness auto
termination
  by (relation "measure (\<lambda>(idx, level). length level)") (auto simp: length_next_level)

declare proof_loop.simps [simp del]

definition getMerkleProof :: "hash list \<Rightarrow> hash \<Rightarrow> hash list" where
  "getMerkleProof m_merkle_leaves commitment =
     (if m_merkle_leaves = [] then []
      else (case find_leaf commitment m_merkle_leaves of None \<Rightarrow> []
            | Some leaf_idx \<Rightarrow> proof_loop leaf_idx m_merkle_leaves))"

text \<open>The check of a proof, and the blocks it hashes.\<close>

fun fold_proof :: "hash \<Rightarrow> nat \<Rightarrow> hash list \<Rightarrow> hash" where
  "fold_proof h idx [] = h"
| "fold_proof h idx (s # proof) =
     fold_proof (if even idx then hash_pair h s else hash_pair s h) (idx div 2) proof"

fun path_blocks :: "hash \<Rightarrow> nat \<Rightarrow> hash list \<Rightarrow> bytes set" where
  "path_blocks h idx [] = {}"
| "path_blocks h idx (s # proof) =
     insert (if even idx then h @ s else s @ h)
       (path_blocks (if even idx then hash_pair h s else hash_pair s h) (idx div 2) proof)"

text \<open>The blocks hashed while the tree over a list of leaves is built.\<close>

fun level_blocks :: "hash list \<Rightarrow> bytes set" where
  "level_blocks [] = {}"
| "level_blocks [x] = {x @ x}"
| "level_blocks (x # y # rest) = insert (x @ y) (level_blocks rest)"

function tree_blocks :: "hash list \<Rightarrow> bytes set" where
  "tree_blocks level =
     (if 1 < length level then level_blocks level \<union> tree_blocks (next_level level) else {})"
  by pat_completeness auto
termination
  by (relation "measure length") (auto simp: length_next_level)

declare tree_blocks.simps [simp del]

section \<open>Levels\<close>

lemma next_level_nth:
  "k < length (next_level level) \<Longrightarrow>
   next_level level ! k = hash_pair (level ! (2 * k)) (level ! (if 2 * k + 1 < length level then 2 * k + 1 else 2 * k))"
proof (induction level arbitrary: k rule: next_level.induct)
  case (3 x y rest)
  then show ?case by (cases k) auto
qed simp_all

lemma level_blocks_nth:
  "2 * k < length level \<Longrightarrow>
   level ! (2 * k) @ level ! (if 2 * k + 1 < length level then 2 * k + 1 else 2 * k) \<in> level_blocks level"
proof (induction level arbitrary: k rule: next_level.induct)
  case (3 x y rest)
  show ?case
  proof (cases k)
    case (Suc j)
    then show ?thesis using 3(1) [of j] 3(2) by (auto split: if_splits)
  qed simp
qed simp_all

lemma length_hash_pair [simp]: "length (hash_pair l r) = 32"
  by (simp add: hash_pair_def)

lemma next_level_32: "h \<in> set (next_level level) \<Longrightarrow> length h = 32"
  by (induction level rule: next_level.induct) auto

text \<open>The parent of node \<open>idx\<close> is the hash of the node and its sibling, in the order of the index.\<close>

lemma parent_node:
  assumes "idx < length level" "1 < length level"
  shows "next_level level ! (idx div 2) =
    (if even idx then hash_pair (level ! idx) (level ! sibling_idx (length level) idx)
     else hash_pair (level ! sibling_idx (length level) idx) (level ! idx))"
proof (cases "even idx")
  case True
  then obtain k where "idx = 2 * k" by blast
  then show ?thesis using assms
    by (subst next_level_nth) (auto simp: length_next_level sibling_idx_def)
next
  case False
  then obtain k where k: "idx = 2 * k + 1" by (metis oddE)
  then have "2 * k + 1 < length level" using assms by simp
  then show ?thesis using k
    by (subst next_level_nth) (auto simp: length_next_level sibling_idx_def)
qed

lemma sibling_in_range: "idx < n \<Longrightarrow> sibling_idx n idx < n"
  by (auto simp: sibling_idx_def)

lemma node_block:
  assumes "idx < length level" "1 < length level"
  shows "(if even idx then level ! idx @ level ! sibling_idx (length level) idx
    else level ! sibling_idx (length level) idx @ level ! idx) \<in> level_blocks level"
proof (cases "even idx")
  case True
  then obtain k where "idx = 2 * k" by blast
  then show ?thesis using assms level_blocks_nth [of k level] by (auto simp: sibling_idx_def)
next
  case False
  then obtain k where "idx = 2 * k + 1" by (metis oddE)
  then show ?thesis using assms level_blocks_nth [of k level] by (auto simp: sibling_idx_def)
qed

section \<open>Proofs of the code are accepted\<close>

lemma fold_proof_loop:
  assumes "idx < length level"
  shows "fold_proof (level ! idx) idx (proof_loop idx level) = merkle_loop level"
  using assms
proof (induction idx level rule: proof_loop.induct)
  case (1 idx level)
  show ?case
  proof (cases "1 < length level")
    case True
    have "idx div 2 < length (next_level level)" using 1(2) by (simp add: length_next_level)
    from 1(1) [OF True this]
    show ?thesis
      using parent_node [OF 1(2) True] True
      by (simp add: proof_loop.simps [of idx level] merkle_loop.simps [of level])
  next
    case False
    then have "idx = 0" using 1(2) by simp
    then show ?thesis using False
      by (simp add: proof_loop.simps [of 0 level] merkle_loop.simps [of level])
  qed
qed

lemma find_leaf_Some: "find_leaf c xs = Some i \<Longrightarrow> i < length xs \<and> xs ! i = c"
  by (induction xs arbitrary: i) (auto split: if_splits)

lemma find_leaf_None: "find_leaf c xs = None \<longleftrightarrow> c \<notin> set xs"
  by (induction xs) auto

lemma merkle_proof_accepted:
  assumes "find_leaf c leaves = Some i"
  shows "fold_proof c i (getMerkleProof leaves c) = computeMerkleRootInternal leaves"
proof -
  have i: "i < length leaves" "leaves ! i = c" using find_leaf_Some [OF assms] by simp_all
  then have "leaves \<noteq> []" by auto
  then show ?thesis
    using fold_proof_loop [OF i(1)] i assms
    by (simp add: getMerkleProof_def computeMerkleRootInternal_def)
qed

section \<open>Accepted proofs pin down the leaf\<close>

lemma fold_proof_leaf:
  assumes "idx < length level" "length p = length (proof_loop idx level)"
    and "fold_proof h idx p = merkle_loop level"
    and "inj_on cn_fast_hash (tree_blocks level \<union> path_blocks h idx p)"
    and "length h = 32" "\<forall>x \<in> set level. length x = 32" "\<forall>x \<in> set p. length x = 32"
  shows "h = level ! idx"
  using assms
proof (induction idx level arbitrary: h p rule: proof_loop.induct)
  case (1 idx level)
  show ?case
  proof (cases "1 < length level")
    case False
    then have "idx = 0" "p = []"
      using 1(2,3) by (simp_all add: proof_loop.simps [of idx level])
    then show ?thesis using False 1(4) by (simp add: merkle_loop.simps [of level])
  next
    case True
    then obtain s q where p: "p = s # q"
      using 1(3) by (cases p) (simp_all add: proof_loop.simps [of idx level])
    let ?sib = "level ! sibling_idx (length level) idx"
    let ?blk = "if even idx then h @ s else s @ h"
    let ?node = "if even idx then level ! idx @ ?sib else ?sib @ level ! idx"
    have node: "next_level level ! (idx div 2) = cn_fast_hash ?node"
      using parent_node [OF 1(2) True] by (simp add: hash_pair_def)
    have cmb: "(if even idx then hash_pair h s else hash_pair s h) = cn_fast_hash ?blk"
      by (simp add: hash_pair_def)
    have "cn_fast_hash ?blk = next_level level ! (idx div 2)"
    proof (rule 1(1) [OF True])
      show "idx div 2 < length (next_level level)" using 1(2) by (simp add: length_next_level)
      show "length q = length (proof_loop (idx div 2) (next_level level))"
        using 1(3) True p by (simp add: proof_loop.simps [of idx level])
      show "fold_proof (cn_fast_hash ?blk) (idx div 2) q = merkle_loop (next_level level)"
        using 1(4) True unfolding p fold_proof.simps cmb by (simp add: merkle_loop.simps [of level])
      show "inj_on cn_fast_hash (tree_blocks (next_level level) \<union> path_blocks (cn_fast_hash ?blk) (idx div 2) q)"
        using 1(5) True unfolding p path_blocks.simps cmb
        by (auto simp: tree_blocks.simps [of level] simp del: inj_on_insert elim!: inj_on_subset)
    qed (use 1(6-8) p next_level_32 in \<open>auto simp: if_distrib\<close>)
    then have eq: "cn_fast_hash ?blk = cn_fast_hash ?node" using node by simp
    have "?node \<in> level_blocks level" by (rule node_block [OF 1(2) True])
    then have "?node \<in> tree_blocks level" using True by (simp add: tree_blocks.simps [of level])
    moreover have "?blk \<in> path_blocks h idx p" by (simp add: p)
    ultimately have "?blk = ?node" by (intro inj_onD [OF 1(5) eq] UnI2 UnI1)
    moreover have "length (level ! idx) = 32" "length ?sib = 32"
      using 1(2,7) sibling_in_range [OF 1(2)] by simp_all
    ultimately show ?thesis using 1(6,8) p by (auto split: if_splits)
  qed
qed

section \<open>Properties\<close>

text \<open>
  C12: the proof \<open>getMerkleProof\<close> returns for a commitment in the tree is accepted: folding it into the
  commitment at its leaf index gives the Merkle root of the tree.
\<close>

theorem merkle_proof_complete:
  assumes "c \<in> set leaves"
  shows "\<exists>i. find_leaf c leaves = Some i \<and> i < length leaves \<and> leaves ! i = c \<and>
    fold_proof c i (getMerkleProof leaves c) = computeMerkleRootInternal leaves"
proof -
  obtain i where "find_leaf c leaves = Some i" using assms find_leaf_None [of c leaves] by fastforce
  then show ?thesis using merkle_proof_accepted find_leaf_Some by blast
qed

theorem merkle_proof_complete_witness:
  "\<exists>i. find_leaf [3] [[1], [2], [3]] = Some i \<and> i < 3 \<and>
    fold_proof [3] i (getMerkleProof [[1], [2], [3]] [3]) = computeMerkleRootInternal [[1], [2], [3]]"
  using merkle_proof_complete [of "[3]" "[[1], [2], [3]]"] by auto

text \<open>
  C15: soundness. If a proof of the right length is accepted for a 32-byte hash at a leaf position, that
  hash is the leaf, provided \<open>cn_fast_hash\<close> does not collide on the blocks hashed to build the tree
  and to check the proof.
\<close>

theorem merkle_proof_sound:
  assumes "i < length leaves" "length p = length (proof_loop i leaves)"
    and "fold_proof c i p = computeMerkleRootInternal leaves"
    and "inj_on cn_fast_hash (tree_blocks leaves \<union> path_blocks c i p)"
    and "length c = 32" "\<forall>x \<in> set leaves. length x = 32" "\<forall>x \<in> set p. length x = 32"
  shows "c = leaves ! i"
proof (rule fold_proof_leaf [OF assms(1,2) _ assms(4-7)])
  have "leaves \<noteq> []" using assms(1) by auto
  then show "fold_proof c i p = merkle_loop leaves"
    using assms(3) by (simp add: computeMerkleRootInternal_def)
qed

theorem merkle_proof_sound_witness:
  "fold_proof (replicate 32 7) 1 [replicate 32 5]
     = computeMerkleRootInternal [replicate 32 5, replicate 32 7] \<and>
   replicate 32 (7 :: u8) = [replicate 32 5, replicate 32 7] ! 1"
proof -
  let ?l = "[replicate 32 5, replicate 32 7] :: hash list"
  have f: "fold_proof (replicate 32 7) 1 [replicate 32 5] = computeMerkleRootInternal ?l"
    by (simp add: computeMerkleRootInternal_def merkle_loop.simps)
  have "inj_on cn_fast_hash (tree_blocks ?l \<union> path_blocks (replicate 32 7) 1 [replicate 32 5])"
    by (simp add: tree_blocks.simps)
  then have "replicate 32 7 = ?l ! 1"
    by (intro merkle_proof_sound [OF _ _ f]) (simp_all add: proof_loop.simps)
  then show ?thesis using f by blast
qed

end
