(* ===== verification/Commitment_Data.thy ===== *)
theory Commitment_Data
  imports Alias_Index Merkle_Tree
begin

text \<open>
  The data of the commitment index (\<open>src/src/CryptoNoteCore/CommitmentIndex.h\<close>): the entries,
  events, reports and notices it stores, the Elderfier registrations, and the members of the class
  \<open>CommitmentIndex\<close> as one record. The field names are those of the source with a short prefix for
  the structure they belong to.
\<close>

section \<open>Data\<close>

datatype CommitmentType = HEAT | COLD | ELDERFIER_STAKING

record CommitmentEntry =
  ce_commitment :: hash
  ce_txHash :: hash
  ce_blockHeight :: u32
  ce_amount :: u64
  ce_term :: u32
  ce_type :: CommitmentType
  ce_targetChainId :: u32
  ce_isLegacyMigration :: bool
  ce_senderAddress :: string
  ce_ceremonyAlias :: string
  ce_signingPubKey :: public_key
  ce_isSlashed :: bool

record CachedElderfierSignature =
  cs_merkle_root :: hash
  cs_signature :: signature
  cs_elderfier_id :: u8
  cs_block_height :: u64
  cs_timestamp :: u64
  cs_received_block_height :: u64
  cs_is_valid :: bool
  cs_sig_algorithm :: u8
  cs_pq_signature :: bytes
  cs_pq_public_key :: bytes

record DoubleSignEvent =
  ds_elderfier_id :: u8
  ds_root_a :: hash
  ds_root_b :: hash
  ds_block_height :: u64
  ds_detected_at_block :: u64
  ds_ceremony_alias :: string

record EFierActivity =
  ea_elderfier_id :: u8
  ea_address :: string
  ea_ceremonyAlias :: string
  ea_signedThisEpoch :: bool
  ea_signaturesSubmitted :: u64
  ea_feesEarned :: u64
  ea_isSlashed :: bool
  ea_isUnstaking :: bool
  ea_consecutiveMissedEpochs :: u32

record EpochReport =
  er_epochNumber :: u64
  er_epochStartBlock :: u64
  er_epochEndBlock :: u64
  er_generatedAtBlock :: u64
  er_efierActivity :: "EFierActivity list"
  er_signingEfierIds :: "u8 list"
  er_missingEfierIds :: "u8 list"
  er_doubleSignEvents :: "DoubleSignEvent list"
  er_totalFeesDistributed :: u64
  er_activeEfierCount :: u64
  er_participatingEfierCount :: u64
  er_swapFeesCollected :: u64
  er_totalCdLockedAtStart :: u64
  er_feeRateFixedPoint :: u64
  er_slash_advisory :: "string list"

datatype ElderfierStatus = VOID | ACTIVE | UNSTAKING

record ElderfierRegistration =
  reg_address :: string
  reg_ceremony_alias :: string
  reg_elderfier_id :: u8
  reg_signing_pubkey :: public_key
  reg_status :: ElderfierStatus
  reg_unstaking_start_block :: u32
  reg_unstaking_review_window :: u32

definition isInReviewWindow :: "ElderfierRegistration \<Rightarrow> u32 \<Rightarrow> bool" where
  "isInReviewWindow reg currentBlock =
     (if reg_status reg \<noteq> UNSTAKING then False
      else currentBlock < reg_unstaking_start_block reg + reg_unstaking_review_window reg)"

definition canCompleteUnstaking :: "ElderfierRegistration \<Rightarrow> u32 \<Rightarrow> bool" where
  "canCompleteUnstaking reg currentBlock =
     (if reg_status reg \<noteq> UNSTAKING then False
      else reg_unstaking_start_block reg + reg_unstaking_review_window reg \<le> currentBlock)"

record UnstakingNotice =
  un_elderfier_id :: u8
  un_ceremony_alias :: string
  un_unstaking_start_block :: u32
  un_review_window_blocks :: u32
  un_total_epochs_active :: u64
  un_epochs_participated :: u64
  un_epochs_missed :: u64
  un_consecutive_missed :: u32
  un_double_sign_count :: u32
  un_total_fees_earned :: u64
  un_broadcast_height :: u64
  un_received_at :: u64

record FullReviewRequest =
  fr_target_efid :: u8
  fr_requester_efid :: u8
  fr_reason :: string
  fr_evidence_summary :: string
  fr_requester_sig :: signature
  fr_requester_pubkey :: public_key
  fr_broadcast_height :: u64
  fr_received_at :: u64

record ElderfierSignatureBundle =
  sb_elderfier_id :: u8
  sb_signing_pubkey :: public_key
  sb_signature :: signature
  sb_block_height :: u64
  sb_timestamp :: u64

record PendingElderfierStake =
  ps_deposit_count :: u32
  ps_total_amount :: u64
  ps_signing_pubkey :: public_key
  ps_alias :: string

record SlashProposal =
  sp_votingEfids :: "u8 list"
  sp_reason :: string
  sp_firstVoteBlock :: u64
  sp_executed :: bool

text \<open>The members of the class. \<open>m_voidRegistrations\<close> is a \<open>std::set\<close>, here the list of its
  elements without repetition (\<open>List.insert\<close>), like \<open>sp_votingEfids\<close>. \<open>m_testnet\<close> stands for
  \<open>m_currency.isTestnet()\<close>.\<close>

record CommitmentIndex =
  m_pendingElderfierStakes :: "(string, PendingElderfierStake) omap"
  m_epochFeeRates :: "u64 list"
  m_signatures :: "(u8 \<times> string, CachedElderfierSignature) omap"
  m_root_first_seen_block :: "(string, u64) omap"
  m_current_merkle_root :: hash
  m_current_block_height :: u64
  m_elderfier_ids :: "u8 list"
  m_elderfierAddresses :: "(u8, string) omap"
  m_blockBankingFees :: "(u64, u64) omap"
  m_elderfierRegistrations :: "(string, ElderfierRegistration) omap"
  m_voidRegistrations :: "(string \<times> u8) list"
  m_aliasIndex :: "AliasIndex option"
  m_commitments :: "(string, CommitmentEntry) omap"
  m_merkle_leaves :: "hash list"
  m_heightIndex :: "(u32, string list) omap"
  m_heat_count :: u64
  m_cold_count :: u64
  m_elderfier_stake_count :: u64
  m_testnet :: bool
  m_doubleSignEvents :: "DoubleSignEvent list"
  m_epochReports :: "EpochReport list"
  m_consecutiveMissedEpochs :: "(u8, u32) omap"
  m_txHashToCommitHash :: "(string, string) omap"
  m_unstakingNotices :: "(u8, UnstakingNotice) omap"
  m_fullReviewRequests :: "(u8 \<times> u8, FullReviewRequest) omap"
  m_slashProposals :: "(string, SlashProposal) omap"

text \<open>The constructor. \<open>m_current_merkle_root\<close> has no initialiser: its first value \<open>root0\<close> is
  arbitrary.\<close>

definition CommitmentIndex_new :: "bool \<Rightarrow> hash \<Rightarrow> CommitmentIndex" where
  "CommitmentIndex_new testnet root0 =
     \<lparr>m_pendingElderfierStakes = [], m_epochFeeRates = [], m_signatures = [],
      m_root_first_seen_block = [], m_current_merkle_root = root0, m_current_block_height = 0,
      m_elderfier_ids = [], m_elderfierAddresses = [], m_blockBankingFees = [],
      m_elderfierRegistrations = [], m_voidRegistrations = [], m_aliasIndex = None,
      m_commitments = [], m_merkle_leaves = [], m_heightIndex = [], m_heat_count = 0,
      m_cold_count = 0, m_elderfier_stake_count = 0, m_testnet = testnet, m_doubleSignEvents = [],
      m_epochReports = [], m_consecutiveMissedEpochs = [], m_txHashToCommitHash = [],
      m_unstakingNotices = [], m_fullReviewRequests = [], m_slashProposals = []\<rparr>"

definition ELDERKING_TOTAL_DEPOSITS :: u32 where
  "ELDERKING_TOTAL_DEPOSITS = 5 * 4"

definition ELDERKING_CEREMONY_AMOUNT :: u64 where
  "ELDERKING_CEREMONY_AMOUNT = 5 * (8000000 + 80000000 + 800000000 + 8000000000)"

definition TESTIFIER_TOTAL_DEPOSITS :: u32 where
  "TESTIFIER_TOTAL_DEPOSITS = 5 * 4"

definition TESTIFIER_CEREMONY_AMOUNT :: u64 where
  "TESTIFIER_CEREMONY_AMOUNT = 5 * (800000 + 8000000 + 80000000 + 800000000)"

definition ELDERFIER_STAKING_REVIEW_WINDOW :: u32 where
  "ELDERFIER_STAKING_REVIEW_WINDOW = 1000"

end
