(* ===== verification/Commitment_Index.thy ===== *)
theory Commitment_Index
  imports Commitment_Data
begin

text \<open>
  The methods of the commitment index of \<open>src/src/CryptoNoteCore/CommitmentIndex.cpp\<close>: the
  commitments of burn, term and staking deposits with their Merkle leaves and height index, the
  registration life cycle of Elderfiers, the cache of Elderfier signatures, slash votes, epoch
  reports and review notices. Every method is one function that takes and returns the record of
  the members (the mutex makes each method one step). \<open>Crypto::check_signature\<close> and the clock are
  arguments of the methods that use them; the pointer to the alias registry is an optional
  component of the state.
\<close>

section \<open>Registration of Elderfiers\<close>

definition isElderfierRegistrationDeposit :: "CommitmentEntry \<Rightarrow> bool" where
  "isElderfierRegistrationDeposit entry \<longleftrightarrow> ce_type entry = ELDERFIER_STAKING"

definition getWalletAddressFromTx :: "hash \<Rightarrow> CommitmentIndex \<Rightarrow> string" where
  "getWalletAddressFromTx txHash s =
     (case List.find (\<lambda>e. podToHex (ce_txHash e) = podToHex txHash \<and> ce_senderAddress e \<noteq> [])
             (om_values (m_commitments s)) of
        None \<Rightarrow> [] | Some e \<Rightarrow> ce_senderAddress e)"

definition getActiveElderfierCount :: "CommitmentIndex \<Rightarrow> nat" where
  "getActiveElderfierCount s =
     length (filter (\<lambda>r. reg_status r = ACTIVE) (om_values (m_elderfierRegistrations s)))"

text \<open>\<open>while (used_ids.count(efid) > 0 && efid < 255) efid++\<close>.\<close>

function next_efid :: "u8 list \<Rightarrow> u8 \<Rightarrow> u8" where
  "next_efid used_ids efid =
     (if efid \<in> set used_ids \<and> efid < 255 then next_efid used_ids (efid + 1) else efid)"
  by pat_completeness auto
termination
proof (relation "measure (\<lambda>(used, efid). 255 - unat efid)", goal_cases)
  case 1
  show ?case by simp
next
  case (2 used efid)
  then have "unat efid < 255" by (simp add: word_less_nat_alt)
  then show ?case by (simp add: unat_word_ariths)
qed

declare next_efid.simps [simp del]

definition ceremony_alias_entry :: "string \<Rightarrow> string \<Rightarrow> CommitmentIndex \<Rightarrow> AliasEntry" where
  "ceremony_alias_entry wallet name s =
     \<lparr>ae_alias = name, ae_ownerAddress = [], ae_aliasHash = cn_fast_hash (str_bytes name),
      ae_addressHash = cn_fast_hash (str_bytes wallet), ae_aliasType = 0,
      ae_registeredBlock = ucast (m_current_block_height s)\<rparr>"

definition new_registration :: "string \<Rightarrow> public_key \<Rightarrow> string \<Rightarrow> u8 \<Rightarrow> ElderfierRegistration" where
  "new_registration wallet pubkey name efid =
     \<lparr>reg_address = wallet, reg_ceremony_alias = name, reg_elderfier_id = efid,
      reg_signing_pubkey = pubkey, reg_status = ACTIVE,
      reg_unstaking_start_block = 0, reg_unstaking_review_window = 0\<rparr>"

definition tryRegisterElderfier ::
    "string \<Rightarrow> public_key \<Rightarrow> string \<Rightarrow> CommitmentIndex \<Rightarrow> bool \<times> CommitmentIndex" where
  "tryRegisterElderfier wallet pubkey name s =
     (if om_has (m_elderfierRegistrations s) wallet then (False, s)
      else if list_ex (\<lambda>vr. fst vr = wallet) (m_voidRegistrations s) then (False, s)
      else if 8 \<le> getActiveElderfierCount s then (False, s)
      else
        let efid = next_efid (m_elderfier_ids s) 0
        in if efid \<in> set (m_elderfier_ids s) then (False, s)
           else
             let reg = new_registration wallet pubkey name efid;
                 s1 = s\<lparr>m_elderfierRegistrations := om_put wallet reg (m_elderfierRegistrations s),
                        m_elderfier_ids := m_elderfier_ids s @ [efid],
                        m_elderfierAddresses := om_put efid wallet (m_elderfierAddresses s)\<rparr>
             in (case m_aliasIndex s1 of
                   None \<Rightarrow> (True, s1)
                 | Some aliases \<Rightarrow>
                   if name \<noteq> [] \<and> (length name = 8 \<or> name = ''GALAPAGOS'' \<or> name = ''WINSLAYER'' \<or> name = ''LOUDMINING'')
                   then (True, s1\<lparr>m_aliasIndex := Some (snd (registerAlias (ceremony_alias_entry wallet name s1) aliases))\<rparr>)
                   else (True, s1)))"

section \<open>Adding commitments\<close>

definition count_type :: "(u64 \<Rightarrow> u64) \<Rightarrow> CommitmentType \<Rightarrow> CommitmentIndex \<Rightarrow> CommitmentIndex" where
  "count_type f t s =
     (case t of
        HEAT \<Rightarrow> s\<lparr>m_heat_count := f (m_heat_count s)\<rparr>
      | COLD \<Rightarrow> s\<lparr>m_cold_count := f (m_cold_count s)\<rparr>
      | ELDERFIER_STAKING \<Rightarrow> s\<lparr>m_elderfier_stake_count := f (m_elderfier_stake_count s)\<rparr>)"

text \<open>\<open>m_heightIndex[height].push_back(commitHex)\<close>.\<close>

definition push_height :: "u32 \<Rightarrow> string \<Rightarrow> (u32, string list) omap \<Rightarrow> (u32, string list) omap" where
  "push_height height commitHex idx =
     om_put height ((case om_find idx height of None \<Rightarrow> [] | Some hs \<Rightarrow> hs) @ [commitHex]) idx"

text \<open>The part of \<open>addCommitment\<close> that stores the entry and its derived data.\<close>

definition store_commitment :: "CommitmentEntry \<Rightarrow> CommitmentIndex \<Rightarrow> CommitmentIndex" where
  "store_commitment entry s =
     (let commitHex = podToHex (ce_commitment entry);
          s1 = s\<lparr>m_commitments := om_put commitHex entry (m_commitments s),
                 m_merkle_leaves := m_merkle_leaves s @ [ce_commitment entry],
                 m_heightIndex := push_height (ce_blockHeight entry) commitHex (m_heightIndex s),
                 m_txHashToCommitHash := om_put (podToHex (ce_txHash entry)) commitHex (m_txHashToCommitHash s)\<rparr>;
          s2 = count_type (\<lambda>n. n + 1) (ce_type entry) s1;
          s3 = (if m_current_block_height s2 < ucast (ce_blockHeight entry)
                then s2\<lparr>m_current_block_height := ucast (ce_blockHeight entry)\<rparr> else s2)
      in s3\<lparr>m_current_merkle_root := computeMerkleRootInternal (m_merkle_leaves s3)\<rparr>)"

definition REGISTRATION_AMOUNT :: "CommitmentIndex \<Rightarrow> u64" where
  "REGISTRATION_AMOUNT s = (if m_testnet s then TESTIFIER_CEREMONY_AMOUNT else ELDERKING_CEREMONY_AMOUNT)"

definition REGISTRATION_COUNT :: "CommitmentIndex \<Rightarrow> u32" where
  "REGISTRATION_COUNT s = (if m_testnet s then TESTIFIER_TOTAL_DEPOSITS else ELDERKING_TOTAL_DEPOSITS)"

definition PendingElderfierStake_new :: PendingElderfierStake where
  "PendingElderfierStake_new =
     \<lparr>ps_deposit_count = 0, ps_total_amount = 0, ps_signing_pubkey = null_pod, ps_alias = []\<rparr>"

definition pending_after :: "CommitmentEntry \<Rightarrow> PendingElderfierStake \<Rightarrow> PendingElderfierStake" where
  "pending_after entry p =
     (let p1 = p\<lparr>ps_deposit_count := ps_deposit_count p + 1,
                 ps_total_amount := ps_total_amount p + ce_amount entry\<rparr>;
          p2 = (if ce_ceremonyAlias entry \<noteq> [] \<and> ps_alias p1 = []
                then p1\<lparr>ps_alias := ce_ceremonyAlias entry\<rparr> else p1)
      in if ce_signingPubKey entry \<noteq> null_pod then p2\<lparr>ps_signing_pubkey := ce_signingPubKey entry\<rparr> else p2)"

definition track_stake :: "CommitmentEntry \<Rightarrow> CommitmentIndex \<Rightarrow> CommitmentIndex" where
  "track_stake entry s =
     (let wallet = ce_senderAddress entry
      in if wallet = [] then s
         else
           let pending = pending_after entry
                 (case om_find (m_pendingElderfierStakes s) wallet of
                    None \<Rightarrow> PendingElderfierStake_new | Some p \<Rightarrow> p);
               s1 = s\<lparr>m_pendingElderfierStakes := om_put wallet pending (m_pendingElderfierStakes s)\<rparr>
           in if REGISTRATION_COUNT s \<le> ps_deposit_count pending \<and>
                 REGISTRATION_AMOUNT s \<le> ps_total_amount pending
              then
                let s2 = snd (tryRegisterElderfier wallet (ps_signing_pubkey pending) (ps_alias pending) s1)
                in s2\<lparr>m_pendingElderfierStakes := om_erase wallet (m_pendingElderfierStakes s2)\<rparr>
              else s1)"

definition addCommitment :: "CommitmentEntry \<Rightarrow> CommitmentIndex \<Rightarrow> CommitmentIndex" where
  "addCommitment entry s =
     (if om_has (m_commitments s) (podToHex (ce_commitment entry)) then s
      else
        let s1 = store_commitment entry s
        in if isElderfierRegistrationDeposit entry then track_stake entry s1 else s1)"

section \<open>Rollback, clearing and loading\<close>

definition remove_commitment :: "string \<Rightarrow> CommitmentIndex \<times> nat \<Rightarrow> CommitmentIndex \<times> nat" where
  "remove_commitment commitHex sr =
     (case sr of (s, removed) \<Rightarrow>
       (case om_find (m_commitments s) commitHex of
          None \<Rightarrow> (s, removed)
        | Some e \<Rightarrow>
          ((count_type (\<lambda>n. n - 1) (ce_type e) s)\<lparr>m_commitments := om_erase commitHex (m_commitments s)\<rparr>,
           removed + 1)))"

definition rollbackToHeight :: "u32 \<Rightarrow> CommitmentIndex \<Rightarrow> nat \<times> CommitmentIndex" where
  "rollbackToHeight h s =
     (let doomed = concat (om_values (om_above h (m_heightIndex s)));
          (s1, removed) = fold remove_commitment doomed (s, 0);
          kept = om_upto h (m_heightIndex s);
          leaves = List.map_filter (\<lambda>c. map_option ce_commitment (om_find (m_commitments s1) c))
                     (concat (om_values kept));
          height = (if kept = [] then 0 else ucast (fst (last kept)))
      in (removed, s1\<lparr>m_heightIndex := kept, m_merkle_leaves := leaves, m_current_block_height := height,
                      m_current_merkle_root := computeMerkleRootInternal leaves\<rparr>))"

definition clear :: "CommitmentIndex \<Rightarrow> CommitmentIndex" where
  "clear s = s\<lparr>m_commitments := [], m_merkle_leaves := [], m_heightIndex := [], m_heat_count := 0,
     m_cold_count := 0, m_elderfier_stake_count := 0, m_signatures := [], m_root_first_seen_block := [],
     m_pendingElderfierStakes := [], m_elderfier_ids := [], m_elderfierRegistrations := [],
     m_voidRegistrations := [], m_current_merkle_root := null_pod, m_current_block_height := 0\<rparr>"

text \<open>What \<open>serialize\<close> writes, and what it restores and rebuilds on load.\<close>

record CommitmentSnapshot =
  sn_commitments :: "(string, CommitmentEntry) omap"
  sn_elderfierRegistrations :: "(string, ElderfierRegistration) omap"
  sn_elderfierAddresses :: "(u8, string) omap"
  sn_epochReports :: "EpochReport list"
  sn_epochFeeRates :: "u64 list"

definition save_snapshot :: "CommitmentIndex \<Rightarrow> CommitmentSnapshot" where
  "save_snapshot s = \<lparr>sn_commitments = m_commitments s, sn_elderfierRegistrations = m_elderfierRegistrations s,
     sn_elderfierAddresses = m_elderfierAddresses s, sn_epochReports = m_epochReports s,
     sn_epochFeeRates = m_epochFeeRates s\<rparr>"

definition reindex_entry :: "string \<times> CommitmentEntry \<Rightarrow> CommitmentIndex \<Rightarrow> CommitmentIndex" where
  "reindex_entry kv s =
     (let entry = snd kv;
          s1 = s\<lparr>m_merkle_leaves := m_merkle_leaves s @ [ce_commitment entry],
                 m_heightIndex := push_height (ce_blockHeight entry) (fst kv) (m_heightIndex s),
                 m_txHashToCommitHash := om_put (podToHex (ce_txHash entry)) (fst kv) (m_txHashToCommitHash s)\<rparr>;
          s2 = count_type (\<lambda>n. n + 1) (ce_type entry) s1
      in if m_current_block_height s2 < ucast (ce_blockHeight entry)
         then s2\<lparr>m_current_block_height := ucast (ce_blockHeight entry)\<rparr> else s2)"

definition load_snapshot :: "CommitmentSnapshot \<Rightarrow> CommitmentIndex \<Rightarrow> CommitmentIndex" where
  "load_snapshot sn s =
     (let s1 = s\<lparr>m_commitments := sn_commitments sn, m_elderfierRegistrations := sn_elderfierRegistrations sn,
                 m_elderfierAddresses := sn_elderfierAddresses sn, m_epochReports := sn_epochReports sn,
                 m_epochFeeRates := sn_epochFeeRates sn,
                 m_merkle_leaves := [], m_heightIndex := [], m_txHashToCommitHash := [],
                 m_heat_count := 0, m_cold_count := 0, m_elderfier_stake_count := 0,
                 m_current_block_height := 0\<rparr>;
          s2 = fold reindex_entry (m_commitments s1) s1;
          s3 = s2\<lparr>m_elderfier_ids := map reg_elderfier_id (om_values (m_elderfierRegistrations s2))\<rparr>
      in s3\<lparr>m_current_merkle_root := computeMerkleRootInternal (m_merkle_leaves s3)\<rparr>)"

section \<open>Queries\<close>

definition computeMerkleRoot :: "CommitmentIndex \<Rightarrow> hash" where
  "computeMerkleRoot s = m_current_merkle_root s"

definition getLeafIndex :: "hash \<Rightarrow> CommitmentIndex \<Rightarrow> nat option" where
  "getLeafIndex commitment s = find_leaf commitment (m_merkle_leaves s)"

definition highestBlock :: "CommitmentIndex \<Rightarrow> u32" where
  "highestBlock s = ucast (m_current_block_height s)"

definition CommitmentEntry_new :: CommitmentEntry where
  "CommitmentEntry_new =
     \<lparr>ce_commitment = null_pod, ce_txHash = null_pod, ce_blockHeight = 0, ce_amount = 0, ce_term = 0,
      ce_type = HEAT, ce_targetChainId = 0, ce_isLegacyMigration = False, ce_senderAddress = [],
      ce_ceremonyAlias = [], ce_signingPubKey = null_pod, ce_isSlashed = False\<rparr>"

definition getByCommitment :: "hash \<Rightarrow> CommitmentIndex \<Rightarrow> CommitmentEntry" where
  "getByCommitment commitment s =
     (case om_find (m_commitments s) (podToHex commitment) of Some e \<Rightarrow> e | None \<Rightarrow> CommitmentEntry_new)"

definition hasCommitment :: "hash \<Rightarrow> CommitmentIndex \<Rightarrow> bool" where
  "hasCommitment commitment s = om_has (m_commitments s) (podToHex commitment)"

definition commitment_count :: "CommitmentIndex \<Rightarrow> nat" where
  "commitment_count s = length (m_commitments s)"

definition heatCount :: "CommitmentIndex \<Rightarrow> u64" where
  "heatCount s = m_heat_count s"

definition coldCount :: "CommitmentIndex \<Rightarrow> u64" where
  "coldCount s = m_cold_count s"

definition getCommitmentEntryByTxHash :: "hash \<Rightarrow> CommitmentIndex \<Rightarrow> CommitmentEntry option" where
  "getCommitmentEntryByTxHash txHash s =
     (case om_find (m_txHashToCommitHash s) (podToHex txHash) of None \<Rightarrow> None
      | Some c \<Rightarrow> om_find (m_commitments s) c)"

text \<open>The first registration, in the order of the map, with a given identifier.\<close>

definition reg_by_id :: "(ElderfierRegistration \<Rightarrow> bool) \<Rightarrow> u8 \<Rightarrow> CommitmentIndex \<Rightarrow> ElderfierRegistration option" where
  "reg_by_id P efid s =
     List.find (\<lambda>r. reg_elderfier_id r = efid \<and> P r) (om_values (m_elderfierRegistrations s))"

definition getElderfierSigningPubkey :: "u8 \<Rightarrow> CommitmentIndex \<Rightarrow> bool \<times> public_key option" where
  "getElderfierSigningPubkey efid s =
     (case reg_by_id (\<lambda>r. reg_status r = ACTIVE) efid s of
        None \<Rightarrow> (False, None)
      | Some r \<Rightarrow> (reg_signing_pubkey r \<noteq> null_pod, Some (reg_signing_pubkey r)))"

definition getElderfierBySigningPubkey :: "public_key \<Rightarrow> CommitmentIndex \<Rightarrow> ElderfierRegistration option" where
  "getElderfierBySigningPubkey pubkey s =
     List.find (\<lambda>r. reg_signing_pubkey r = pubkey) (om_values (m_elderfierRegistrations s))"

section \<open>Signature cache\<close>

definition count_valid :: "CommitmentIndex \<Rightarrow> nat" where
  "count_valid s =
     length (filter (\<lambda>kv. snd (fst kv) = podToHex (m_current_merkle_root s) \<and> cs_is_valid (snd kv)) (m_signatures s))"

definition push_double_sign :: "DoubleSignEvent \<Rightarrow> DoubleSignEvent list \<Rightarrow> DoubleSignEvent list" where
  "push_double_sign event evs =
     (let evs' = evs @ [event] in if 10000 < length evs' then tl evs' else evs')"

definition recordDoubleSign :: "DoubleSignEvent \<Rightarrow> CommitmentIndex \<Rightarrow> CommitmentIndex" where
  "recordDoubleSign event s = s\<lparr>m_doubleSignEvents := push_double_sign event (m_doubleSignEvents s)\<rparr>"

text \<open>The verification step of \<open>addSignatureToCache\<close>; \<open>check_signature\<close> is \<open>Crypto::check_signature\<close>.\<close>

definition verify_cached :: "(hash \<Rightarrow> public_key \<Rightarrow> signature \<Rightarrow> bool) \<Rightarrow> CachedElderfierSignature \<Rightarrow>
    CommitmentIndex \<Rightarrow> bool" where
  "verify_cached check_signature sig s =
     (if cs_sig_algorithm sig = 0
      then (case reg_by_id (\<lambda>r. reg_status r = ACTIVE) (cs_elderfier_id sig) s of
              None \<Rightarrow> False
            | Some r \<Rightarrow>
              if reg_signing_pubkey r \<noteq> null_pod
              then check_signature (cs_merkle_root sig) (reg_signing_pubkey r) (cs_signature sig)
              else False)
      else False)"

text \<open>The cached signature that conflicts with a new one: same signer and height, other root.\<close>

definition conflicting :: "CachedElderfierSignature \<Rightarrow> (u8 \<times> string) \<times> CachedElderfierSignature \<Rightarrow> bool" where
  "conflicting sig kv \<longleftrightarrow>
     fst (fst kv) = cs_elderfier_id sig \<and> snd (fst kv) \<noteq> podToHex (cs_merkle_root sig) \<and>
     cs_block_height (snd kv) = cs_block_height sig \<and> cs_is_valid (snd kv)"

definition addSignatureToCache :: "(hash \<Rightarrow> public_key \<Rightarrow> signature \<Rightarrow> bool) \<Rightarrow> CachedElderfierSignature \<Rightarrow>
    CommitmentIndex \<Rightarrow> CommitmentIndex" where
  "addSignatureToCache check_signature sig s =
     (let verified_sig = sig\<lparr>cs_is_valid := verify_cached check_signature sig s\<rparr>;
          root_hex = podToHex (cs_merkle_root sig);
          s1 = (if cs_is_valid verified_sig
                then (case List.find (conflicting sig) (m_signatures s) of
                        None \<Rightarrow> s
                      | Some kv \<Rightarrow>
                        recordDoubleSign \<lparr>ds_elderfier_id = cs_elderfier_id sig,
                          ds_root_a = cs_merkle_root (snd kv), ds_root_b = cs_merkle_root sig,
                          ds_block_height = cs_block_height sig,
                          ds_detected_at_block = cs_received_block_height sig,
                          ds_ceremony_alias = []\<rparr> s)
                else s);
          s2 = s1\<lparr>m_signatures := om_put (cs_elderfier_id sig, root_hex) verified_sig (m_signatures s1)\<rparr>
      in if om_has (m_root_first_seen_block s2) root_hex then s2
         else s2\<lparr>m_root_first_seen_block :=
                   om_put root_hex (cs_received_block_height sig) (m_root_first_seen_block s2)\<rparr>)"

definition getConsensusPercentageForCurrentRoot :: "CommitmentIndex \<Rightarrow> u64" where
  "getConsensusPercentageForCurrentRoot s =
     (if m_elderfier_ids s = [] then 0
      else of_nat (count_valid s) * 100 div of_nat (length (m_elderfier_ids s)))"

definition checkAndFlushThreshold :: "CommitmentIndex \<Rightarrow> CommitmentIndex" where
  "checkAndFlushThreshold s =
     (if m_elderfier_ids s = [] then s
      else
        let consensus_pct = of_nat (count_valid s) * 100 div of_nat (length (m_elderfier_ids s)) :: u64
        in if 69 \<le> consensus_pct
           then
             let to_remove = map fst (filter (\<lambda>kv. snd (fst kv) \<noteq> podToHex (m_current_merkle_root s)) (m_signatures s))
             in s\<lparr>m_signatures := fold om_erase to_remove (m_signatures s)\<rparr>
           else s)"

definition updateCurrentMerkleRoot :: "hash \<Rightarrow> CommitmentIndex \<Rightarrow> CommitmentIndex" where
  "updateCurrentMerkleRoot new_root s =
     (let s1 = s\<lparr>m_current_merkle_root := new_root, m_current_block_height := 0\<rparr>;
          new_root_hex = podToHex new_root
      in if om_has (m_root_first_seen_block s1) new_root_hex then s1
         else s1\<lparr>m_root_first_seen_block := om_put new_root_hex 0 (m_root_first_seen_block s1)\<rparr>)"

text \<open>The signatures of the current root, the first of each signer in the order of the map.\<close>

fun first_of_each :: "u8 list \<Rightarrow> ((u8 \<times> string) \<times> CachedElderfierSignature) list \<Rightarrow>
    ((u8 \<times> string) \<times> CachedElderfierSignature) list" where
  "first_of_each seen [] = []"
| "first_of_each seen (kv # rest) =
     (if fst (fst kv) \<in> set seen then first_of_each seen rest
      else kv # first_of_each (fst (fst kv) # seen) rest)"

definition current_valid :: "CommitmentIndex \<Rightarrow> ((u8 \<times> string) \<times> CachedElderfierSignature) list" where
  "current_valid s =
     filter (\<lambda>kv. snd (fst kv) = podToHex (m_current_merkle_root s) \<and> cs_is_valid (snd kv)) (m_signatures s)"

definition getSignaturesForCurrentRoot :: "CommitmentIndex \<Rightarrow> ElderfierSignatureBundle list" where
  "getSignaturesForCurrentRoot s =
     map (\<lambda>kv. \<lparr>sb_elderfier_id = fst (fst kv),
            sb_signing_pubkey = (case reg_by_id (\<lambda>r. reg_status r = ACTIVE) (fst (fst kv)) s of
                                   None \<Rightarrow> null_pod | Some r \<Rightarrow> reg_signing_pubkey r),
            sb_signature = cs_signature (snd kv), sb_block_height = cs_block_height (snd kv),
            sb_timestamp = cs_timestamp (snd kv)\<rparr>)
       (first_of_each [] (current_valid s))"

definition getSignedElderfierIds :: "CommitmentIndex \<Rightarrow> u8 list" where
  "getSignedElderfierIds s = map (fst \<circ> fst) (first_of_each [] (current_valid s))"

definition getPendingElderfierIds :: "CommitmentIndex \<Rightarrow> u8 list" where
  "getPendingElderfierIds s =
     filter (\<lambda>efid. efid \<notin> set (map (fst \<circ> fst) (current_valid s))) (m_elderfier_ids s)"

section \<open>Life cycle of a registration\<close>

definition registerElderfierAddress :: "u8 \<Rightarrow> string \<Rightarrow> CommitmentIndex \<Rightarrow> CommitmentIndex" where
  "registerElderfierAddress efid address s =
     s\<lparr>m_elderfierAddresses := om_put efid address (m_elderfierAddresses s)\<rparr>"

definition isAddressRegisteredAsElderfier :: "string \<Rightarrow> u8 \<Rightarrow> CommitmentIndex \<Rightarrow> bool" where
  "isAddressRegisteredAsElderfier address efid s =
     (case om_find (m_elderfierRegistrations s) address of None \<Rightarrow> False
      | Some r \<Rightarrow> reg_elderfier_id r = efid \<and> reg_status r = ACTIVE)"

definition canAddressRegisterNewElderfier :: "string \<Rightarrow> CommitmentIndex \<Rightarrow> bool" where
  "canAddressRegisterNewElderfier address s =
     (if om_has (m_elderfierRegistrations s) address then False
      else \<not> list_ex (\<lambda>vr. fst vr = address) (m_voidRegistrations s))"

definition initiateElderfierUnstaking :: "string \<Rightarrow> u8 \<Rightarrow> u32 \<Rightarrow> u32 \<Rightarrow> CommitmentIndex \<Rightarrow>
    bool \<times> CommitmentIndex" where
  "initiateElderfierUnstaking address efid currentBlock reviewWindow s =
     (case om_find (m_elderfierRegistrations s) address of None \<Rightarrow> (False, s)
      | Some r \<Rightarrow>
        if reg_elderfier_id r \<noteq> efid then (False, s)
        else if reg_status r \<noteq> ACTIVE then (False, s)
        else (True, s\<lparr>m_elderfierRegistrations :=
               om_put address (r\<lparr>reg_status := UNSTAKING, reg_unstaking_start_block := currentBlock,
                                 reg_unstaking_review_window := reviewWindow\<rparr>)
                 (m_elderfierRegistrations s)\<rparr>))"

definition completeElderfierUnstaking :: "string \<Rightarrow> u8 \<Rightarrow> u32 \<Rightarrow> CommitmentIndex \<Rightarrow> bool \<times> CommitmentIndex" where
  "completeElderfierUnstaking address efid currentBlock s =
     (case om_find (m_elderfierRegistrations s) address of None \<Rightarrow> (False, s)
      | Some r \<Rightarrow>
        if reg_elderfier_id r \<noteq> efid then (False, s)
        else if \<not> canCompleteUnstaking r currentBlock then (False, s)
        else (True, s\<lparr>m_voidRegistrations := List.insert (address, efid) (m_voidRegistrations s),
                      m_elderfier_ids := remove1 efid (m_elderfier_ids s),
                      m_aliasIndex := map_option (\<lambda>aliases. snd (voidAlias address aliases)) (m_aliasIndex s),
                      m_elderfierRegistrations := om_erase address (m_elderfierRegistrations s)\<rparr>))"

definition getElderfierStatus :: "string \<Rightarrow> u8 \<Rightarrow> CommitmentIndex \<Rightarrow> ElderfierStatus" where
  "getElderfierStatus address efid s =
     (case om_find (m_elderfierRegistrations s) address of
        Some r \<Rightarrow> if reg_elderfier_id r = efid then reg_status r else VOID
      | None \<Rightarrow> VOID)"

definition isElderfierInReviewWindow :: "string \<Rightarrow> u8 \<Rightarrow> u32 \<Rightarrow> CommitmentIndex \<Rightarrow> bool" where
  "isElderfierInReviewWindow address efid currentBlock s =
     (case om_find (m_elderfierRegistrations s) address of None \<Rightarrow> False
      | Some r \<Rightarrow> if reg_elderfier_id r \<noteq> efid then False else isInReviewWindow r currentBlock)"

definition isAddressBlacklisted :: "string \<Rightarrow> u8 \<Rightarrow> CommitmentIndex \<Rightarrow> bool" where
  "isAddressBlacklisted address efid s = ((address, efid) \<in> set (m_voidRegistrations s))"

definition getElderfierRegistrationsByAddress :: "string \<Rightarrow> CommitmentIndex \<Rightarrow> ElderfierRegistration list" where
  "getElderfierRegistrationsByAddress address s =
     (case om_find (m_elderfierRegistrations s) address of None \<Rightarrow> [] | Some r \<Rightarrow> [r])"

section \<open>Slashing\<close>

text \<open>Whether the voter is the owner of the deposit: the first registration whose signing key is the
  deposit's decides.\<close>

definition voter_is_accused :: "string \<Rightarrow> u8 \<Rightarrow> CommitmentIndex \<Rightarrow> bool" where
  "voter_is_accused key efid s =
     (case om_find (m_txHashToCommitHash s) key of None \<Rightarrow> False
      | Some c \<Rightarrow>
        (case om_find (m_commitments s) c of None \<Rightarrow> False
         | Some entry \<Rightarrow>
           (case List.find (\<lambda>r. reg_signing_pubkey r = ce_signingPubKey entry)
                   (om_values (m_elderfierRegistrations s)) of
              None \<Rightarrow> False | Some r \<Rightarrow> reg_elderfier_id r = efid)))"

definition SlashProposal_new :: SlashProposal where
  "SlashProposal_new = \<lparr>sp_votingEfids = [], sp_reason = [], sp_firstVoteBlock = 0, sp_executed = False\<rparr>"

definition addSlashVote :: "hash \<Rightarrow> u8 \<Rightarrow> string \<Rightarrow> u64 \<Rightarrow> u8 \<Rightarrow> CommitmentIndex \<Rightarrow> bool \<times> CommitmentIndex" where
  "addSlashVote depositTxHash efid reason blockHeight requiredThresholdPct s =
     (let key = podToHex depositTxHash;
          found = om_find (m_slashProposals s) key
      in if (case found of None \<Rightarrow> False | Some p \<Rightarrow> sp_executed p) then (False, s)
         else if voter_is_accused key efid s then (False, s)
         else
           let p = (case found of None \<Rightarrow> SlashProposal_new | Some p \<Rightarrow> p);
               p1 = (if sp_firstVoteBlock p = 0 then p\<lparr>sp_firstVoteBlock := blockHeight\<rparr> else p);
               p2 = p1\<lparr>sp_votingEfids := List.insert efid (sp_votingEfids p1), sp_reason := reason\<rparr>;
               s1 = s\<lparr>m_slashProposals := om_put key p2 (m_slashProposals s)\<rparr>;
               activeCount = getActiveElderfierCount s1
           in if activeCount = 0 then (False, s1)
              else
                let pct = of_nat (length (sp_votingEfids p2)) * 100 div of_nat activeCount :: u64
                in (ucast requiredThresholdPct \<le> pct, s1))"

definition getSlashVoteCount :: "hash \<Rightarrow> CommitmentIndex \<Rightarrow> nat" where
  "getSlashVoteCount depositTxHash s =
     (case om_find (m_slashProposals s) (podToHex depositTxHash) of None \<Rightarrow> 0
      | Some p \<Rightarrow> length (sp_votingEfids p))"

definition markSlashProposalExecuted :: "hash \<Rightarrow> CommitmentIndex \<Rightarrow> CommitmentIndex" where
  "markSlashProposalExecuted depositTxHash s =
     (let key = podToHex depositTxHash
      in (case om_find (m_slashProposals s) key of None \<Rightarrow> s
          | Some p \<Rightarrow> s\<lparr>m_slashProposals := om_put key (p\<lparr>sp_executed := True\<rparr>) (m_slashProposals s)\<rparr>))"

definition markCommitmentSlashed :: "hash \<Rightarrow> CommitmentIndex \<Rightarrow> bool \<times> CommitmentIndex" where
  "markCommitmentSlashed depositTxHash s =
     (case om_find (m_txHashToCommitHash s) (podToHex depositTxHash) of None \<Rightarrow> (False, s)
      | Some c \<Rightarrow>
        (case om_find (m_commitments s) c of None \<Rightarrow> (False, s)
         | Some e \<Rightarrow> (True, s\<lparr>m_commitments := om_put c (e\<lparr>ce_isSlashed := True\<rparr>) (m_commitments s)\<rparr>)))"

definition isCommitmentSlashed :: "string \<Rightarrow> CommitmentIndex \<Rightarrow> bool" where
  "isCommitmentSlashed commitHashHex s =
     (case om_find (m_commitments s) commitHashHex of None \<Rightarrow> False | Some e \<Rightarrow> ce_isSlashed e)"

section \<open>Fees, epochs and review requests\<close>

definition addBlockBankingFee :: "u64 \<Rightarrow> u64 \<Rightarrow> CommitmentIndex \<Rightarrow> CommitmentIndex" where
  "addBlockBankingFee height fee s = s\<lparr>m_blockBankingFees := om_put height fee (m_blockBankingFees s)\<rparr>"

definition getBlockBankingFee :: "u64 \<Rightarrow> CommitmentIndex \<Rightarrow> u64" where
  "getBlockBankingFee height s = (case om_find (m_blockBankingFees s) height of Some f \<Rightarrow> f | None \<Rightarrow> 0)"

text \<open>\<open>resize(epochNumber + 1, 0)\<close> and assignment; the sum does not wrap for a vector that fits into
  memory.\<close>

definition recordEpochFeeRate :: "u64 \<Rightarrow> u64 \<Rightarrow> CommitmentIndex \<Rightarrow> CommitmentIndex" where
  "recordEpochFeeRate epochNumber feeRate s =
     (let n = unat epochNumber;
          rates = (if length (m_epochFeeRates s) \<le> n
                   then m_epochFeeRates s @ replicate (n + 1 - length (m_epochFeeRates s)) 0
                   else m_epochFeeRates s)
      in s\<lparr>m_epochFeeRates := rates[n := feeRate]\<rparr>)"

definition getEpochFeeRate :: "u64 \<Rightarrow> CommitmentIndex \<Rightarrow> u64" where
  "getEpochFeeRate epochNumber s =
     (if length (m_epochFeeRates s) \<le> unat epochNumber then 0 else m_epochFeeRates s ! unat epochNumber)"

definition getEpochCount :: "CommitmentIndex \<Rightarrow> nat" where
  "getEpochCount s = length (m_epochFeeRates s)"

definition bump_missed :: "u8 \<Rightarrow> (u8, u32) omap \<Rightarrow> (u8, u32) omap" where
  "bump_missed efid m = om_put efid ((case om_find m efid of None \<Rightarrow> 0 | Some n \<Rightarrow> n) + 1) m"

definition storeEpochReport :: "EpochReport \<Rightarrow> CommitmentIndex \<Rightarrow> CommitmentIndex" where
  "storeEpochReport report s =
     (let missed = fold (\<lambda>efid. om_put efid 0) (er_signingEfierIds report)
                     (fold bump_missed (er_missingEfierIds report) (m_consecutiveMissedEpochs s));
          reports = m_epochReports s @ [report]
      in s\<lparr>m_consecutiveMissedEpochs := missed,
           m_epochReports := (if 10 < length reports then tl reports else reports)\<rparr>)"

definition getEpochReport :: "u64 \<Rightarrow> CommitmentIndex \<Rightarrow> EpochReport option" where
  "getEpochReport epochNumber s = List.find (\<lambda>r. er_epochNumber r = epochNumber) (rev (m_epochReports s))"

definition getLatestEpochReport :: "CommitmentIndex \<Rightarrow> EpochReport option" where
  "getLatestEpochReport s = (if m_epochReports s = [] then None else Some (last (m_epochReports s)))"

definition addUnstakingNotice :: "UnstakingNotice \<Rightarrow> CommitmentIndex \<Rightarrow> CommitmentIndex" where
  "addUnstakingNotice notice s =
     s\<lparr>m_unstakingNotices := om_put (un_elderfier_id notice) notice (m_unstakingNotices s)\<rparr>"

definition getUnstakingNotices :: "CommitmentIndex \<Rightarrow> UnstakingNotice list" where
  "getUnstakingNotices s = om_values (m_unstakingNotices s)"

definition validReasons :: "string list" where
  "validReasons = [''double_sign'', ''missed_epochs'', ''invalid_sig'', ''duty_abuse'']"

definition addFullReviewRequest :: "FullReviewRequest \<Rightarrow> CommitmentIndex \<Rightarrow> CommitmentIndex" where
  "addFullReviewRequest req s =
     (if fr_reason req \<notin> set validReasons then s
      else if reg_by_id (\<lambda>r. reg_status r = ACTIVE) (fr_requester_efid req) s = None then s
      else if fr_requester_efid req = fr_target_efid req then s
      else s\<lparr>m_fullReviewRequests :=
               om_put (fr_target_efid req, fr_requester_efid req) req (m_fullReviewRequests s)\<rparr>)"

definition getFullReviewRequests :: "u8 \<Rightarrow> CommitmentIndex \<Rightarrow> FullReviewRequest list" where
  "getFullReviewRequests target_efid s =
     map snd (filter (\<lambda>kv. fst (fst kv) = target_efid) (m_fullReviewRequests s))"

section \<open>Epoch reports and notices\<close>

definition key_matches :: "u8 \<Rightarrow> CommitmentEntry \<Rightarrow> CommitmentIndex \<Rightarrow> bool" where
  "key_matches efid e s =
     list_ex (\<lambda>r. reg_elderfier_id r = efid \<and> ce_signingPubKey e = reg_signing_pubkey r)
       (om_values (m_elderfierRegistrations s))"

definition epoch_signers :: "u64 \<Rightarrow> u64 \<Rightarrow> CommitmentIndex \<Rightarrow> u8 list" where
  "epoch_signers startBlock endBlock s =
     (let timed = map (fst \<circ> fst) (filter (\<lambda>kv. cs_is_valid (snd kv) \<and>
                    startBlock \<le> cs_received_block_height (snd kv) \<and>
                    cs_received_block_height (snd kv) \<le> endBlock) (m_signatures s));
          current = (if m_current_merkle_root s \<noteq> null_pod
                     then map (fst \<circ> fst) (filter (\<lambda>kv. cs_is_valid (snd kv) \<and>
                            snd (fst kv) = podToHex (m_current_merkle_root s)) (m_signatures s))
                     else [])
      in sort (remdups (timed @ current)))"

definition report_efids :: "CommitmentIndex \<Rightarrow> u8 list" where
  "report_efids s =
     sort (remdups (map reg_elderfier_id
       (filter (\<lambda>r. reg_status r = ACTIVE \<or> reg_status r = UNSTAKING) (om_values (m_elderfierRegistrations s)))))"

definition epoch_fees :: "u64 \<Rightarrow> u64 \<Rightarrow> CommitmentIndex \<Rightarrow> u64" where
  "epoch_fees startBlock endBlock s =
     sum_list (map snd (filter (\<lambda>kv. startBlock \<le> fst kv \<and> fst kv \<le> endBlock) (m_blockBankingFees s)))"

definition efier_activity :: "u64 \<Rightarrow> u64 \<Rightarrow> CommitmentIndex \<Rightarrow> u8 \<Rightarrow> EFierActivity" where
  "efier_activity startBlock endBlock s efid =
     (let signed = efid \<in> set (epoch_signers startBlock endBlock s);
          owner = List.find (\<lambda>kv. reg_elderfier_id (snd kv) = efid) (m_elderfierRegistrations s)
      in \<lparr>ea_elderfier_id = efid,
          ea_address = (case owner of None \<Rightarrow> [] | Some kv \<Rightarrow> fst kv),
          ea_ceremonyAlias =
            (case List.find (\<lambda>e. ce_type e = ELDERFIER_STAKING \<and> ce_ceremonyAlias e \<noteq> [] \<and> key_matches efid e s)
                    (om_values (m_commitments s)) of
               None \<Rightarrow> [] | Some e \<Rightarrow> ce_ceremonyAlias e),
          ea_signedThisEpoch = signed,
          ea_signaturesSubmitted = of_nat (length (filter (\<lambda>kv. fst (fst kv) = efid \<and> cs_is_valid (snd kv)) (m_signatures s))),
          ea_feesEarned =
            (if signed then epoch_fees startBlock endBlock s div of_nat (length (report_efids s)) else 0),
          ea_isSlashed =
            list_ex (\<lambda>e. ce_type e = ELDERFIER_STAKING \<and> ce_isSlashed e \<and> key_matches efid e s)
              (om_values (m_commitments s)),
          ea_isUnstaking = (case owner of None \<Rightarrow> False | Some kv \<Rightarrow> reg_status (snd kv) = UNSTAKING),
          ea_consecutiveMissedEpochs =
            (case om_find (m_consecutiveMissedEpochs s) efid of None \<Rightarrow> 0 | Some n \<Rightarrow> n)\<rparr>)"

definition generateEpochReport :: "u64 \<Rightarrow> u64 \<Rightarrow> u64 \<Rightarrow> u64 \<Rightarrow> CommitmentIndex \<Rightarrow> EpochReport" where
  "generateEpochReport epochNumber startBlock endBlock generatedAtBlock s =
     (let signers = epoch_signers startBlock endBlock s;
          efids = report_efids s;
          activity = map (efier_activity startBlock endBlock s) efids;
          events = filter (\<lambda>ev. startBlock \<le> ds_detected_at_block ev \<and> ds_detected_at_block ev \<le> endBlock)
                     (m_doubleSignEvents s);
          inactive = map (\<lambda>a. ''INACTIVE:'' @ to_string (unat (ea_elderfier_id a)) @ '':'' @
                            to_string (unat (ea_consecutiveMissedEpochs a)) @ ''_epochs_missed'')
                       (filter (\<lambda>a. \<not> ea_signedThisEpoch a \<and> \<not> ea_isSlashed a \<and>
                                     3 \<le> ea_consecutiveMissedEpochs a) activity);
          double = map (\<lambda>ev. ''DOUBLE_SIGN:'' @ to_string (unat (ds_elderfier_id ev)) @ '':height='' @
                          to_string (unat (ds_block_height ev))) events
      in \<lparr>er_epochNumber = epochNumber, er_epochStartBlock = startBlock, er_epochEndBlock = endBlock,
          er_generatedAtBlock = generatedAtBlock, er_efierActivity = activity,
          er_signingEfierIds = filter (\<lambda>efid. efid \<in> set signers) efids,
          er_missingEfierIds = filter (\<lambda>efid. efid \<notin> set signers) efids,
          er_doubleSignEvents = events,
          er_totalFeesDistributed = (if efids = [] then 0 else epoch_fees startBlock endBlock s),
          er_activeEfierCount = of_nat (length efids),
          er_participatingEfierCount = of_nat (length signers),
          er_swapFeesCollected = 0, er_totalCdLockedAtStart = 0, er_feeRateFixedPoint = 0,
          er_slash_advisory = inactive @ double\<rparr>)"

text \<open>The tally of \<open>buildUnstakingNotice\<close> over the stored reports: (participated, missed, streak,
  fees).\<close>

definition tally_report :: "u8 \<Rightarrow> EpochReport \<Rightarrow> u64 \<times> u64 \<times> u32 \<times> u64 \<Rightarrow> u64 \<times> u64 \<times> u32 \<times> u64" where
  "tally_report efid report t =
     (case t of (participated, missed, streak, fees) \<Rightarrow>
       let a = List.find (\<lambda>a. ea_elderfier_id a = efid) (er_efierActivity report);
           fees' = fees + (case a of None \<Rightarrow> 0 | Some x \<Rightarrow> ea_feesEarned x)
       in if (case a of None \<Rightarrow> False | Some x \<Rightarrow> ea_signedThisEpoch x)
          then (participated + 1, missed, 0, fees')
          else (participated, missed + 1, streak + 1, fees'))"

definition buildUnstakingNotice :: "u64 \<Rightarrow> u8 \<Rightarrow> u32 \<Rightarrow> CommitmentIndex \<Rightarrow> UnstakingNotice option" where
  "buildUnstakingNotice now efid currentBlock s =
     (case reg_by_id (\<lambda>r. True) efid s of
        None \<Rightarrow> None
      | Some reg \<Rightarrow>
        let name = (case List.find (\<lambda>e. ce_type e = ELDERFIER_STAKING \<and> key_matches efid e s)
                            (om_values (m_commitments s)) of
                      None \<Rightarrow> [] | Some e \<Rightarrow> ce_ceremonyAlias e);
            (participated, missed, streak, fees) = fold (tally_report efid) (m_epochReports s) (0, 0, 0, 0)
        in Some \<lparr>un_elderfier_id = efid, un_ceremony_alias = name, un_unstaking_start_block = currentBlock,
             un_review_window_blocks = (if 0 < reg_unstaking_review_window reg then reg_unstaking_review_window reg
                                        else ELDERFIER_STAKING_REVIEW_WINDOW),
             un_total_epochs_active = of_nat (length (m_epochReports s)),
             un_epochs_participated = participated, un_epochs_missed = missed,
             un_consecutive_missed =
               (case om_find (m_consecutiveMissedEpochs s) efid of None \<Rightarrow> streak | Some n \<Rightarrow> n),
             un_double_sign_count =
               of_nat (length (filter (\<lambda>ds. ds_elderfier_id ds = efid) (m_doubleSignEvents s))),
             un_total_fees_earned = fees, un_broadcast_height = ucast currentBlock, un_received_at = now\<rparr>)"

section \<open>Runs of the index\<close>

text \<open>
  The steps of a run: one call of a method that changes the state, with any arguments.
  \<open>step_alias\<close> covers \<open>setAliasIndex\<close> and the registrations the blockchain makes directly on the
  shared alias registry.
\<close>

inductive ci_step :: "(hash \<Rightarrow> public_key \<Rightarrow> signature \<Rightarrow> bool) \<Rightarrow> CommitmentIndex \<Rightarrow> CommitmentIndex \<Rightarrow> bool"
  for cs where
  step_add: "ci_step cs s (addCommitment e s)"
| step_signature: "ci_step cs s (addSignatureToCache cs sig s)"
| step_flush: "ci_step cs s (checkAndFlushThreshold s)"
| step_root: "ci_step cs s (updateCurrentMerkleRoot r s)"
| step_address: "ci_step cs s (registerElderfierAddress efid a s)"
| step_initiate: "ci_step cs s (snd (initiateElderfierUnstaking a efid b w s))"
| step_complete: "ci_step cs s (snd (completeElderfierUnstaking a efid b s))"
| step_rollback: "ci_step cs s (snd (rollbackToHeight h s))"
| step_vote: "ci_step cs s (snd (addSlashVote d efid reason b t s))"
| step_executed: "ci_step cs s (markSlashProposalExecuted d s)"
| step_slashed: "ci_step cs s (snd (markCommitmentSlashed d s))"
| step_double_sign: "ci_step cs s (recordDoubleSign ev s)"
| step_fee: "ci_step cs s (addBlockBankingFee height fee s)"
| step_rate: "ci_step cs s (recordEpochFeeRate n rate s)"
| step_report: "ci_step cs s (storeEpochReport report s)"
| step_notice: "ci_step cs s (addUnstakingNotice notice s)"
| step_review: "ci_step cs s (addFullReviewRequest req s)"
| step_alias: "alias_reachable aliases \<Longrightarrow> ci_step cs s (s\<lparr>m_aliasIndex := Some aliases\<rparr>)"

text \<open>The states of all runs: from a new index, by steps, \<open>clear\<close>, or by loading what a run saved into
  a new index.\<close>

inductive ci_reachable :: "(hash \<Rightarrow> public_key \<Rightarrow> signature \<Rightarrow> bool) \<Rightarrow> CommitmentIndex \<Rightarrow> bool"
  for cs where
  ci_new: "ci_reachable cs (CommitmentIndex_new testnet root0)"
| ci_next: "ci_reachable cs s \<Longrightarrow> ci_step cs s t \<Longrightarrow> ci_reachable cs t"
| ci_clear: "ci_reachable cs s \<Longrightarrow> ci_reachable cs (clear s)"
| ci_reload: "ci_reachable cs s \<Longrightarrow>
    ci_reachable cs (load_snapshot (save_snapshot s) (CommitmentIndex_new testnet root0))"

end
