(* ===== verification/Commitment_Store.thy ===== *)
theory Commitment_Store
  imports Commitment_Index "HOL-Library.Multiset"
begin

text \<open>
  The stored commitments of the commitment index. \<open>store_inv\<close> relates the five members that hold
  them: the entries are keyed by the text of their commitment, the Merkle leaves and the height
  index list every entry exactly once, and the counters count the entries of each type. Every
  method keeps it; a rollback keeps exactly the entries up to the given height.
\<close>

section \<open>Definitions\<close>

definition entries_of :: "CommitmentType \<Rightarrow> CommitmentIndex \<Rightarrow> (string \<times> CommitmentEntry) list" where
  "entries_of t s = filter (\<lambda>kv. ce_type (snd kv) = t) (m_commitments s)"

definition counts_ok :: "CommitmentIndex \<Rightarrow> bool" where
  "counts_ok s \<longleftrightarrow>
     m_heat_count s = of_nat (length (entries_of HEAT s)) \<and>
     m_cold_count s = of_nat (length (entries_of COLD s)) \<and>
     m_elderfier_stake_count s = of_nat (length (entries_of ELDERFIER_STAKING s))"

definition index_keys :: "(u32, string list) omap \<Rightarrow> string list" where
  "index_keys idx = concat (om_values idx)"

definition store_inv :: "CommitmentIndex \<Rightarrow> bool" where
  "store_inv s \<longleftrightarrow>
     om_inv (m_commitments s) \<and> om_inv (m_heightIndex s) \<and>
     (\<forall>k e. om_find (m_commitments s) k = Some e \<longrightarrow> podToHex (ce_commitment e) = k) \<and>
     mset (map podToHex (m_merkle_leaves s)) = mset (map fst (m_commitments s)) \<and>
     mset (index_keys (m_heightIndex s)) = mset (map fst (m_commitments s)) \<and>
     (\<forall>h cs c. om_find (m_heightIndex s) h = Some cs \<longrightarrow> c \<in> set cs \<longrightarrow>
        (\<exists>e. om_find (m_commitments s) c = Some e \<and> ce_blockHeight e = h)) \<and>
     counts_ok s"

text \<open>The leaves are in the order of the height index.\<close>

definition height_ordered :: "CommitmentIndex \<Rightarrow> bool" where
  "height_ordered s \<longleftrightarrow> map podToHex (m_merkle_leaves s) = index_keys (m_heightIndex s)"

text \<open>The leaves are in this order and the reported root is theirs. A rollback establishes it, and commitments added
  in the order of their blocks keep it; reading a stored index does not, since the leaves then come in the order of the
  keys.\<close>

definition in_block_order :: "CommitmentIndex \<Rightarrow> bool" where
  "in_block_order s \<longleftrightarrow> height_ordered s \<and> computeMerkleRoot s = computeMerkleRootInternal (m_merkle_leaves s)"

text \<open>Methods that do not touch the stored commitments.\<close>

definition same_store :: "CommitmentIndex \<Rightarrow> CommitmentIndex \<Rightarrow> bool" where
  "same_store t s \<longleftrightarrow> m_commitments t = m_commitments s \<and> m_merkle_leaves t = m_merkle_leaves s \<and>
     m_heightIndex t = m_heightIndex s \<and> m_heat_count t = m_heat_count s \<and>
     m_cold_count t = m_cold_count s \<and> m_elderfier_stake_count t = m_elderfier_stake_count s"

text \<open>A burn commitment at height 7.\<close>

definition sample_entry :: CommitmentEntry where
  "sample_entry = CommitmentEntry_new\<lparr>ce_commitment := replicate 32 1, ce_blockHeight := 7, ce_amount := 8000000\<rparr>"

definition later_entry :: CommitmentEntry where
  "later_entry = sample_entry\<lparr>ce_commitment := replicate 32 2, ce_blockHeight := 9\<rparr>"

abbreviation accept_all :: "hash \<Rightarrow> public_key \<Rightarrow> signature \<Rightarrow> bool" where
  "accept_all \<equiv> \<lambda>_ _ _. True"

abbreviation fresh_index :: CommitmentIndex where
  "fresh_index \<equiv> CommitmentIndex_new False null_pod"

section \<open>Ordered maps as multisets\<close>

lemma mset_om_put_fresh: "om_inv m \<Longrightarrow> om_find m k = None \<Longrightarrow> mset (om_put k v m) = add_mset (k, v) (mset m)"
  unfolding om_find_def om_inv_def
  by (induction k v m rule: om_put.induct) (auto split: if_splits)

lemma mset_om_put_present:
  "om_inv m \<Longrightarrow> om_find m k = Some w \<Longrightarrow> add_mset (k, w) (mset (om_put k v m)) = add_mset (k, v) (mset m)"
  unfolding om_find_def om_inv_def
proof (induction k v m rule: om_put.induct)
  case (2 k v j u m)
  show ?case
  proof (cases "k < j")
    case True
    then have "map_of m k = None" using 2(2) True by (auto simp: map_of_eq_None_iff)
    then show ?thesis using 2(3) True by (auto split: if_splits)
  qed (use 2 in \<open>auto simp: add_mset_commute split: if_splits\<close>)
qed simp

lemma mset_om_erase: "om_inv m \<Longrightarrow> om_find m k = Some v \<Longrightarrow> add_mset (k, v) (mset (om_erase k m)) = mset m"
proof (induction m)
  case (Cons kv m)
  then show ?case
  proof (cases "fst kv = k")
    case True
    then have "om_erase k m = m"
      using Cons.prems(1) unfolding om_inv_def om_erase_def by (intro filter_True) auto
    then show ?thesis using True Cons.prems by (cases kv) (auto simp: om_erase_def om_find_def)
  qed (auto simp: om_erase_def om_find_def om_inv_def)
qed (simp add: om_find_def)

lemma om_find_mem: "om_find m k = Some v \<Longrightarrow> (k, v) \<in> set m"
  by (simp add: om_find_def map_of_SomeD)

lemma om_find_iff_mem: "om_inv m \<Longrightarrow> om_find m k = Some v \<longleftrightarrow> (k, v) \<in> set m"
  by (simp add: om_find_def om_distinct)

lemma om_find_None_iff: "om_find m k = None \<longleftrightarrow> k \<notin> set (map fst m)"
  by (simp add: om_find_def map_of_eq_None_iff)

section \<open>The counters\<close>

lemma size_filter_mset_mset: "size (filter_mset P (mset xs)) = length (filter P xs)"
  by (simp flip: mset_filter)

lemma length_filter_put:
  assumes "om_inv m" "om_find m k = None"
  shows "length (filter P (om_put k e m)) = length (filter P m) + (if P (k, e) then 1 else 0)"
  using arg_cong [OF mset_om_put_fresh [OF assms, of e], of "\<lambda>M. size (filter_mset P M)"]
  by (simp add: size_filter_mset_mset)

lemma length_filter_erase:
  assumes "om_inv m" "om_find m k = Some e"
  shows "length (filter P m) = length (filter P (om_erase k m)) + (if P (k, e) then 1 else 0)"
  using arg_cong [OF mset_om_erase [OF assms], of "\<lambda>M. size (filter_mset P M)"]
  by (simp add: size_filter_mset_mset split: if_splits)

lemma counts_add:
  assumes "counts_ok s" "om_inv (m_commitments s)" "om_find (m_commitments s) k = None"
  shows "counts_ok ((count_type (\<lambda>n. n + 1) (ce_type e) s)\<lparr>m_commitments := om_put k e (m_commitments s)\<rparr>)"
  using assms(1) length_filter_put [OF assms(2,3)]
  by (cases "ce_type e") (simp_all add: counts_ok_def entries_of_def count_type_def)

lemma counts_remove:
  assumes "counts_ok s" "om_inv (m_commitments s)" "om_find (m_commitments s) k = Some e"
  shows "counts_ok ((count_type (\<lambda>n. n - 1) (ce_type e) s)\<lparr>m_commitments := om_erase k (m_commitments s)\<rparr>)"
  using assms(1) length_filter_erase [OF assms(2,3)]
  by (cases "ce_type e") (simp_all add: counts_ok_def entries_of_def count_type_def)

section \<open>Adding an entry\<close>

lemma counts_okI:
  assumes "counts_ok t" "m_commitments s = m_commitments t" "m_heat_count s = m_heat_count t"
    "m_cold_count s = m_cold_count t" "m_elderfier_stake_count s = m_elderfier_stake_count t"
  shows "counts_ok s"
  using assms by (simp add: counts_ok_def entries_of_def)

lemma mset_index_keys: "mset (index_keys idx) = (\<Sum>kv \<in># mset idx. mset (snd kv))"
  by (induction idx) (simp_all add: index_keys_def om_values_def)

lemma index_keys_push:
  assumes "om_inv idx"
  shows "mset (index_keys (push_height h c idx)) = add_mset c (mset (index_keys idx))"
proof (cases "om_find idx h")
  case None
  then show ?thesis
    by (simp add: push_height_def mset_index_keys mset_om_put_fresh [OF assms None])
next
  case (Some cs)
  let ?f = "\<lambda>M. (\<Sum>kv \<in># M. mset (snd kv))"
  have "mset cs + ?f (mset (om_put h (cs @ [c]) idx)) = mset (cs @ [c]) + ?f (mset idx)"
    using arg_cong [OF mset_om_put_present [OF assms Some, of "cs @ [c]"], of ?f] by simp
  then show ?thesis using Some by (simp add: push_height_def mset_index_keys)
qed

lemma store_invD:
  assumes "store_inv s"
  shows "om_inv (m_commitments s)" "om_inv (m_heightIndex s)" "counts_ok s"
    and "om_find (m_commitments s) k = Some e \<Longrightarrow> podToHex (ce_commitment e) = k"
    and "mset (map podToHex (m_merkle_leaves s)) = mset (map fst (m_commitments s))"
    and "mset (index_keys (m_heightIndex s)) = mset (map fst (m_commitments s))"
    and "om_find (m_heightIndex s) h = Some cs \<Longrightarrow> c \<in> set cs \<Longrightarrow>
      \<exists>e. om_find (m_commitments s) c = Some e \<and> ce_blockHeight e = h"
  using assms unfolding store_inv_def by (simp_all only:)

lemma om_inv_push [simp]: "om_inv idx \<Longrightarrow> om_inv (push_height h c idx)"
  by (simp add: push_height_def)

lemma om_find_push:
  "om_inv idx \<Longrightarrow> om_find (push_height h c idx) j =
     (if j = h then Some ((case om_find idx h of None \<Rightarrow> [] | Some cs \<Rightarrow> cs) @ [c]) else om_find idx j)"
  by (simp add: push_height_def)

lemma store_commitment_fields [simp]:
  "m_commitments (store_commitment e s) = om_put (podToHex (ce_commitment e)) e (m_commitments s)"
  "m_merkle_leaves (store_commitment e s) = m_merkle_leaves s @ [ce_commitment e]"
  "m_heightIndex (store_commitment e s) = push_height (ce_blockHeight e) (podToHex (ce_commitment e)) (m_heightIndex s)"
  "m_current_merkle_root (store_commitment e s) = computeMerkleRootInternal (m_merkle_leaves s @ [ce_commitment e])"
  "m_elderfierRegistrations (store_commitment e s) = m_elderfierRegistrations s"
  "m_elderfier_ids (store_commitment e s) = m_elderfier_ids s"
  "m_voidRegistrations (store_commitment e s) = m_voidRegistrations s"
  "m_aliasIndex (store_commitment e s) = m_aliasIndex s"
  "m_pendingElderfierStakes (store_commitment e s) = m_pendingElderfierStakes s"
  "m_testnet (store_commitment e s) = m_testnet s"
  by (simp_all add: store_commitment_def Let_def count_type_def split: CommitmentType.splits)

lemma store_inv_store_commitment:
  assumes "store_inv s" "om_find (m_commitments s) (podToHex (ce_commitment e)) = None"
  shows "store_inv (store_commitment e s)"
proof -
  let ?k = "podToHex (ce_commitment e)" and ?s' = "store_commitment e s"
  note i = store_invD [OF assms(1)]
  have keys: "mset (map fst (om_put ?k e (m_commitments s))) = add_mset ?k (mset (map fst (m_commitments s)))"
    using arg_cong [OF mset_om_put_fresh [OF i(1) assms(2), of e], of "image_mset fst"] by simp
  have "counts_ok ?s'"
    by (rule counts_okI [OF counts_add [OF i(3,1) assms(2), of e]])
      (simp_all add: store_commitment_def Let_def count_type_def split: CommitmentType.splits)
  moreover have "\<exists>e'. om_find (m_commitments ?s') c = Some e' \<and> ce_blockHeight e' = h"
    if new: "om_find (m_heightIndex ?s') h = Some cs" "c \<in> set cs" for h cs c
  proof (cases "c = ?k")
    case True
    have "om_find (m_heightIndex s) j = Some ds \<Longrightarrow> ?k \<in> set ds \<Longrightarrow> False" for j ds
      using i(7) [of j ds ?k] assms(2) by simp
    then show ?thesis using new True i(1,2) by (auto simp: om_find_push split: if_splits option.splits)
  next
    case False
    then obtain ds where "om_find (m_heightIndex s) h = Some ds" "c \<in> set ds"
      using new i(2) by (auto simp: om_find_push split: if_splits option.splits)
    then show ?thesis using i(7) [of h ds c] False i(1) by simp
  qed
  ultimately show ?thesis
    using i(1,2,4-6) keys index_keys_push [OF i(2)] by (simp add: store_inv_def)
qed

section \<open>Rollback\<close>

lemma fold_remove_commitment:
  assumes "om_inv (m_commitments s)" "counts_ok s" "fold remove_commitment cs (s, n) = (s', n')"
  shows "m_commitments s' = fold om_erase cs (m_commitments s) \<and> counts_ok s' \<and>
    n' + length (m_commitments s') = n + length (m_commitments s) \<and> m_heightIndex s' = m_heightIndex s"
  using assms
proof (induction cs arbitrary: s n)
  case (Cons c cs)
  show ?case
  proof (cases "om_find (m_commitments s) c")
    case None
    then have "remove_commitment c (s, n) = (s, n)" by (simp add: remove_commitment_def)
    then have "fold remove_commitment cs (s, n) = (s', n')" using Cons.prems(3) by simp
    from Cons.IH [OF Cons.prems(1,2) this] show ?thesis
      using om.erase_absent [OF Cons.prems(1) None] by auto
  next
    case (Some e)
    let ?s1 = "(count_type (\<lambda>n. n - 1) (ce_type e) s)\<lparr>m_commitments := om_erase c (m_commitments s)\<rparr>"
    have "remove_commitment c (s, n) = (?s1, n + 1)" using Some by (simp add: remove_commitment_def)
    then have "fold remove_commitment cs (?s1, n + 1) = (s', n')" using Cons.prems(3) by simp
    moreover have "length (m_commitments s) = length (om_erase c (m_commitments s)) + 1"
      using length_filter_erase [OF Cons.prems(1) Some, of "\<lambda>_. True"] by simp
    moreover have "m_heightIndex ?s1 = m_heightIndex s"
      by (simp add: count_type_def split: CommitmentType.splits)
    ultimately show ?thesis
      using Cons.IH [of ?s1 "n + 1"] counts_remove [OF Cons.prems(2,1) Some] Cons.prems(1) by auto
  qed
qed simp

lemma fold_om_erase: "fold om_erase cs m = filter (\<lambda>kv. fst kv \<notin> set cs) m"
proof (induction cs arbitrary: m)
  case (Cons c cs)
  have "fold om_erase (c # cs) m = filter (\<lambda>kv. fst kv \<notin> set cs) (om_erase c m)"
    using Cons.IH by simp
  also have "\<dots> = filter (\<lambda>kv. fst kv \<notin> set (c # cs)) m"
    unfolding om_erase_def filter_filter by (rule filter_cong) auto
  finally show ?case .
qed simp

lemma om_find_filter:
  "om_inv m \<Longrightarrow> om_find (filter P m) k = (case om_find m k of None \<Rightarrow> None | Some v \<Rightarrow> if P (k, v) then Some v else None)"
proof (cases "om_find m k")
  case None
  then have "om_find (filter P m) k = None" by (auto simp: om_find_None_iff)
  then show ?thesis using None by simp
next
  case (Some v)
  assume inv: "om_inv m"
  have "om_find (filter P m) k = Some w \<longleftrightarrow> w = v \<and> P (k, v)" for w
    using om_find_iff_mem [OF om_inv_filter [OF inv], of P k w] om_find_iff_mem [OF inv, of k w] Some by auto
  then show ?thesis using Some by (cases "om_find (filter P m) k"; cases "P (k, v)") auto
qed

text \<open>The keys the index lists above a height are those of the entries above it.\<close>

lemma index_split:
  "mset (index_keys idx) = mset (index_keys (om_upto h idx)) + mset (index_keys (om_above h idx))"
proof -
  have "mset idx = mset (om_upto h idx) + mset (om_above h idx)"
    unfolding om_upto_def om_above_def mset_filter
    by (subst multiset_partition [of _ "\<lambda>e. fst e \<le> h"]) (simp add: not_le)
  then show ?thesis unfolding mset_index_keys by simp
qed

lemma index_height:
  assumes "store_inv s" "om_find (m_commitments s) c = Some e"
  shows "c \<in> set (index_keys (om_above h (m_heightIndex s))) \<longleftrightarrow> h < ce_blockHeight e"
proof -
  note i = store_invD [OF assms(1)]
  have mem: "om_find (m_heightIndex s) j = Some cs" if "(j, cs) \<in> set (m_heightIndex s)" for j cs
    using that i(2) by (simp add: om_find_iff_mem)
  have at: "ce_blockHeight e = j" if "(j, cs) \<in> set (m_heightIndex s)" "c \<in> set cs" for j cs
    using i(7) [OF mem [OF that(1)] that(2)] assms(2) by auto
  have up: "h < ce_blockHeight e" if "c \<in> set (index_keys (om_above h (m_heightIndex s)))"
    using that at by (auto simp: index_keys_def om_values_def om_above_def)
  have lo: "ce_blockHeight e \<le> h" if "c \<in> set (index_keys (om_upto h (m_heightIndex s)))"
    using that at by (auto simp: index_keys_def om_values_def om_upto_def)
  have "c \<in> set (index_keys (m_heightIndex s))"
    using arg_cong [OF i(6), of set_mset] om_find_mem [OF assms(2)] by force
  then have "c \<in> set (index_keys (om_upto h (m_heightIndex s))) \<or> c \<in> set (index_keys (om_above h (m_heightIndex s)))"
    using arg_cong [OF index_split [of "m_heightIndex s" h], of set_mset] by simp
  then show ?thesis using up lo by (meson leD)
qed

lemma map_filter_total: "\<forall>x \<in> set xs. f x \<noteq> None \<Longrightarrow> List.map_filter f xs = map (the \<circ> f) xs"
  by (induction xs) (auto simp: List.map_filter_simps split: option.splits)

lemma upto_keys:
  assumes "store_inv s" "c \<in> set (index_keys (om_upto h (m_heightIndex s)))"
  shows "\<exists>e. om_find (m_commitments s) c = Some e \<and> ce_blockHeight e \<le> h"
proof -
  note i = store_invD [OF assms(1)]
  obtain j cs where j: "(j, cs) \<in> set (m_heightIndex s)" "j \<le> h" "c \<in> set cs"
    using assms(2) by (auto simp: index_keys_def om_values_def om_upto_def)
  then have "om_find (m_heightIndex s) j = Some cs" using i(2) by (simp add: om_find_iff_mem)
  from i(7) [OF this j(3)] j(2) show ?thesis by auto
qed

lemma kept_iff:
  assumes "store_inv s"
  shows "c \<in> set (index_keys (om_upto h (m_heightIndex s))) \<longleftrightarrow>
    (\<exists>e. (c, e) \<in> set (m_commitments s) \<and> ce_blockHeight e \<le> h)"
proof -
  note i = store_invD [OF assms]
  have "c \<in> set (index_keys (om_upto h (m_heightIndex s)))"
    if e: "(c, e) \<in> set (m_commitments s)" "ce_blockHeight e \<le> h" for e
  proof -
    have f: "om_find (m_commitments s) c = Some e" using e(1) i(1) by (simp add: om_find_iff_mem)
    have "c \<in> set (index_keys (m_heightIndex s))" using arg_cong [OF i(6), of set_mset] e(1) by force
    moreover have "c \<notin> set (index_keys (om_above h (m_heightIndex s)))"
      using index_height [OF assms f, of h] e(2) by simp
    ultimately show ?thesis using arg_cong [OF index_split [of "m_heightIndex s" h], of set_mset] by simp
  qed
  then show ?thesis using upto_keys [OF assms, of c h] om_find_mem by fastforce
qed

lemma distinct_index_upto: "distinct (index_keys idx) \<Longrightarrow> distinct (index_keys (om_upto h idx))"
  by (induction idx) (auto simp: index_keys_def om_values_def om_upto_def)

lemma rollback_spec:
  assumes inv: "store_inv s" and rb: "rollbackToHeight h s = (n, s')"
  shows "m_commitments s' = filter (\<lambda>kv. ce_blockHeight (snd kv) \<le> h) (m_commitments s)"
    and "m_heightIndex s' = om_upto h (m_heightIndex s)"
    and "map podToHex (m_merkle_leaves s') = index_keys (om_upto h (m_heightIndex s))"
    and "m_current_merkle_root s' = computeMerkleRootInternal (m_merkle_leaves s')"
    and "counts_ok s'"
    and "n + length (m_commitments s') = length (m_commitments s)"
proof -
  note i = store_invD [OF inv]
  let ?doomed = "index_keys (om_above h (m_heightIndex s))" and ?kept = "om_upto h (m_heightIndex s)"
  obtain s1 k where f: "fold remove_commitment ?doomed (s, 0) = (s1, k)" by fastforce
  note fr = fold_remove_commitment [OF i(1,3) f]
  have s': "s' = s1\<lparr>m_heightIndex := ?kept,
      m_merkle_leaves := List.map_filter (\<lambda>c. map_option ce_commitment (om_find (m_commitments s1) c)) (index_keys ?kept),
      m_current_block_height := (if ?kept = [] then 0 else ucast (fst (last ?kept))),
      m_current_merkle_root := computeMerkleRootInternal (List.map_filter
        (\<lambda>c. map_option ce_commitment (om_find (m_commitments s1) c)) (index_keys ?kept))\<rparr>"
    and n: "n = k"
    using rb f by (auto simp: rollbackToHeight_def index_keys_def Let_def)
  have "kv \<in> set (m_commitments s) \<Longrightarrow> fst kv \<notin> set ?doomed \<longleftrightarrow> ce_blockHeight (snd kv) \<le> h" for kv
    using index_height [OF inv, of "fst kv" "snd kv" h] om_find_iff_mem [OF i(1), of "fst kv" "snd kv"]
    by (simp add: not_less)
  then have c1: "m_commitments s1 = filter (\<lambda>kv. ce_blockHeight (snd kv) \<le> h) (m_commitments s)"
    using fr by (auto simp: fold_om_erase intro!: filter_cong)
  then show "m_commitments s' = filter (\<lambda>kv. ce_blockHeight (snd kv) \<le> h) (m_commitments s)" by (simp add: s')
  show "m_heightIndex s' = ?kept" "m_current_merkle_root s' = computeMerkleRootInternal (m_merkle_leaves s')"
    by (simp_all add: s')
  show "counts_ok s'" by (rule counts_okI [of s1]) (use fr in \<open>simp_all add: s'\<close>)
  show "n + length (m_commitments s') = length (m_commitments s)" using fr n by (auto simp: s')
  have found: "\<exists>e. om_find (m_commitments s1) c = Some e \<and> podToHex (ce_commitment e) = c"
    if kept: "c \<in> set (index_keys ?kept)" for c
    using upto_keys [OF inv kept] i(1,4) by (auto simp: c1 om_find_filter)
  then have "m_merkle_leaves s' = map (\<lambda>c. ce_commitment (the (om_find (m_commitments s1) c))) (index_keys ?kept)"
    by (subst s', simp, subst map_filter_total) force+
  moreover have "podToHex (ce_commitment (the (om_find (m_commitments s1) c))) = c"
    if kept: "c \<in> set (index_keys ?kept)" for c
    using found [OF kept] by auto
  ultimately show "map podToHex (m_merkle_leaves s') = index_keys ?kept"
    by (simp add: map_idI)
qed

lemma store_inv_rollback:
  assumes inv: "store_inv s"
  shows "store_inv (snd (rollbackToHeight h s))" and "height_ordered (snd (rollbackToHeight h s))"
proof -
  note i = store_invD [OF inv]
  obtain n s' where rb: "rollbackToHeight h s = (n, s')" by fastforce
  note r = rollback_spec [OF inv rb]
  let ?kept = "om_upto h (m_heightIndex s)"
  have i': "om_inv (m_commitments s')" "om_inv ?kept"
    using i(1,2) by (simp_all add: r(1) om_upto_def om_inv_filter)
  have keys: "mset (index_keys ?kept) = mset (map fst (m_commitments s'))"
  proof -
    have "distinct (index_keys (m_heightIndex s))"
      using mset_eq_imp_distinct_iff [OF i(6)] om_distinct [OF i(1)] by simp
    then have d: "distinct (index_keys ?kept)" by (rule distinct_index_upto)
    have "set (index_keys ?kept) = set (map fst (m_commitments s'))"
      using kept_iff [OF inv] by (force simp: r(1))
    then show ?thesis using set_eq_iff_mset_eq_distinct [OF d om_distinct [OF i'(1)]] by blast
  qed
  have "\<exists>e. om_find (m_commitments s') c = Some e \<and> ce_blockHeight e = j"
    if up: "om_find ?kept j = Some cs" "c \<in> set cs" for j cs c
  proof -
    have "om_find (m_heightIndex s) j = Some cs" "j \<le> h"
      using up(1) i(2) by (auto simp: om_upto_def om_find_filter split: option.splits if_splits)
    with i(7) [of j cs c] up(2) show ?thesis using i(1) by (auto simp: r(1) om_find_filter)
  qed
  moreover have "podToHex (ce_commitment e) = k" if "om_find (m_commitments s') k = Some e" for k e
    using that i(1) i(4) [of k e] by (auto simp: r(1) om_find_filter split: option.splits if_splits)
  ultimately have "store_inv s'"
    unfolding store_inv_def r(2,3) using i' keys r(5) by blast
  then show "store_inv (snd (rollbackToHeight h s))" by (simp add: rb)
  show "height_ordered (snd (rollbackToHeight h s))" by (simp add: rb height_ordered_def r(2,3))
qed

section \<open>The other methods\<close>

lemma store_inv_same: "same_store t s \<Longrightarrow> store_inv s \<Longrightarrow> store_inv t"
  unfolding same_store_def store_inv_def counts_ok_def entries_of_def by simp

lemma same_store_register: "same_store (snd (tryRegisterElderfier w k n s)) s"
  by (simp add: tryRegisterElderfier_def same_store_def Let_def split: option.splits)

lemma same_store_trans: "same_store t s \<Longrightarrow> same_store u t \<Longrightarrow> same_store u s"
  by (simp add: same_store_def)

lemma same_store_track: "same_store (track_stake e s) s"
proof -
  have "same_store (t\<lparr>m_pendingElderfierStakes := p\<rparr>) s" if "same_store t s" for t p
    using that by (simp add: same_store_def)
  moreover have "same_store (snd (tryRegisterElderfier w k n (s\<lparr>m_pendingElderfierStakes := p\<rparr>))) s" for w k n p
    by (rule same_store_trans [OF _ same_store_register]) (simp add: same_store_def)
  moreover have "same_store s s" by (simp add: same_store_def)
  ultimately show ?thesis by (simp add: track_stake_def Let_def)
qed

lemma store_inv_add:
  assumes "store_inv s"
  shows "store_inv (addCommitment e s)"
proof (cases "om_has (m_commitments s) (podToHex (ce_commitment e))")
  case True
  then show ?thesis using assms by (simp add: addCommitment_def)
next
  case False
  then have "store_inv (store_commitment e s)"
    using assms by (intro store_inv_store_commitment) (simp_all add: om_has_def)
  then show ?thesis
    using False store_inv_same [OF same_store_track] by (simp add: addCommitment_def Let_def)
qed

lemma same_store_signature: "same_store (addSignatureToCache cs sig s) s"
  by (simp add: addSignatureToCache_def recordDoubleSign_def same_store_def Let_def split: option.splits)

lemma same_store_flush: "same_store (checkAndFlushThreshold s) s"
  by (simp add: checkAndFlushThreshold_def same_store_def Let_def)

lemma same_store_root: "same_store (updateCurrentMerkleRoot r s) s"
  by (simp add: updateCurrentMerkleRoot_def same_store_def Let_def)

lemma same_store_unstaking:
  "same_store (snd (initiateElderfierUnstaking a i b w s)) s"
  "same_store (snd (completeElderfierUnstaking a i b s)) s"
  by (simp_all add: initiateElderfierUnstaking_def completeElderfierUnstaking_def same_store_def split: option.splits)

lemma same_store_vote:
  "same_store (snd (addSlashVote d i r b t s)) s" "same_store (markSlashProposalExecuted d s) s"
  by (simp_all add: addSlashVote_def markSlashProposalExecuted_def same_store_def Let_def split: option.splits)

lemma same_store_simple:
  "same_store (registerElderfierAddress i a s) s" "same_store (recordDoubleSign ev s) s"
  "same_store (addBlockBankingFee h f s) s" "same_store (recordEpochFeeRate n r s) s"
  "same_store (storeEpochReport rep s) s" "same_store (addUnstakingNotice un s) s"
  "same_store (addFullReviewRequest rq s) s" "same_store (s\<lparr>m_aliasIndex := al\<rparr>) s"
  by (simp_all add: registerElderfierAddress_def recordDoubleSign_def addBlockBankingFee_def
      recordEpochFeeRate_def storeEpochReport_def addUnstakingNotice_def addFullReviewRequest_def
      same_store_def Let_def)

text \<open>Slashing changes one flag of one entry.\<close>

lemma store_inv_slashed:
  assumes "store_inv s"
  shows "store_inv (snd (markCommitmentSlashed d s))"
proof (cases "om_find (m_txHashToCommitHash s) (podToHex d)")
  case (Some c)
  note i = store_invD [OF assms]
  show ?thesis
  proof (cases "om_find (m_commitments s) c")
    case (Some e)
    let ?e = "e\<lparr>ce_isSlashed := True\<rparr>" and ?m = "om_put c (e\<lparr>ce_isSlashed := True\<rparr>) (m_commitments s)"
    have m: "add_mset (c, e) (mset ?m) = add_mset (c, ?e) (mset (m_commitments s))"
      by (rule mset_om_put_present [OF i(1) Some])
    have keys: "mset (map fst ?m) = mset (map fst (m_commitments s))"
      using arg_cong [OF m, of "image_mset fst"] by simp
    have "length (filter (\<lambda>kv. ce_type (snd kv) = t) ?m) = length (filter (\<lambda>kv. ce_type (snd kv) = t) (m_commitments s))" for t
      using arg_cong [OF m, of "\<lambda>M. size (filter_mset (\<lambda>kv. ce_type (snd kv) = t) M)"]
      by (simp add: size_filter_mset_mset split: if_splits)
    then have "counts_ok (s\<lparr>m_commitments := ?m\<rparr>)" using i(3) by (simp add: counts_ok_def entries_of_def)
    moreover have "\<exists>e'. om_find ?m c' = Some e' \<and> ce_blockHeight e' = h"
      if "om_find (m_heightIndex s) h = Some cs" "c' \<in> set cs" for h cs c'
      using i(7) [OF that] i(1) Some by auto
    ultimately have "store_inv (s\<lparr>m_commitments := ?m\<rparr>)"
      unfolding store_inv_def using i(1,2,4,5,6) keys Some i(4) [OF Some] by simp
    then show ?thesis using \<open>om_find (m_txHashToCommitHash s) (podToHex d) = Some c\<close> Some
      by (simp add: markCommitmentSlashed_def)
  qed (use assms Some in \<open>simp add: markCommitmentSlashed_def\<close>)
qed (use assms in \<open>simp add: markCommitmentSlashed_def\<close>)

lemma store_inv_clear: "store_inv (clear s)"
  by (simp add: store_inv_def clear_def counts_ok_def entries_of_def index_keys_def om_values_def om_find_def)

lemma store_inv_new: "store_inv (CommitmentIndex_new tn r)"
  by (simp add: store_inv_def CommitmentIndex_new_def counts_ok_def entries_of_def index_keys_def
      om_values_def om_find_def)

section \<open>Loading\<close>

lemma find_fold_put:
  "om_inv P \<Longrightarrow> om_find (fold (\<lambda>kv. om_put (fst kv) (snd kv)) kvs P) k
     = (case map_of (rev kvs) k of Some v \<Rightarrow> Some v | None \<Rightarrow> om_find P k)"
  by (induction kvs arbitrary: P) (auto simp: map_add_def split: option.splits)

lemma inv_fold_put: "om_inv P \<Longrightarrow> om_inv (fold (\<lambda>kv. om_put (fst kv) (snd kv)) kvs P)"
  by (induction kvs arbitrary: P) simp_all

lemma fold_put_self: "om_inv m \<Longrightarrow> fold (\<lambda>kv. om_put (fst kv) (snd kv)) m [] = m"
proof (rule om_ext)
  assume m: "om_inv m"
  show "om_find (fold (\<lambda>kv. om_put (fst kv) (snd kv)) m []) k = om_find m k" for k
    using map_of_inject_set [of "rev m" m] om_distinct [OF m]
    by (subst find_fold_put) (simp_all add: om_find_def rev_map [symmetric] split: option.splits)
qed (simp_all add: inv_fold_put)

lemma reindex_as_store:
  assumes "podToHex (ce_commitment e) = k"
  shows "same_store ((reindex_entry (k, e) t)\<lparr>m_commitments := om_put k e P\<rparr>)
    (store_commitment e (t\<lparr>m_commitments := P\<rparr>))"
  using assms
  by (cases "ce_type e") (simp_all add: same_store_def reindex_entry_def store_commitment_def count_type_def Let_def)

lemma store_inv_reindex:
  assumes "store_inv (t\<lparr>m_commitments := P\<rparr>)" "distinct (map fst kvs)"
    and "\<forall>kv \<in> set kvs. podToHex (ce_commitment (snd kv)) = fst kv \<and> om_find P (fst kv) = None"
  shows "store_inv ((fold reindex_entry kvs t)\<lparr>m_commitments := fold (\<lambda>kv. om_put (fst kv) (snd kv)) kvs P\<rparr>)"
  using assms
proof (induction kvs arbitrary: t P)
  case (Cons kv kvs)
  obtain k e where kv: "kv = (k, e)" by (cases kv)
  have k: "podToHex (ce_commitment e) = k" "om_find P k = None" using Cons.prems(3) kv by auto
  have "om_inv P" using store_invD(1) [OF Cons.prems(1)] by simp
  have fresh: "\<forall>kv' \<in> set kvs. fst kv' \<noteq> k" using Cons.prems(2) kv by force
  have "store_inv (store_commitment e (t\<lparr>m_commitments := P\<rparr>))"
    using store_inv_store_commitment [OF Cons.prems(1)] k by simp
  then have "store_inv ((reindex_entry kv t)\<lparr>m_commitments := om_put k e P\<rparr>)"
    using store_inv_same [OF reindex_as_store [OF k(1)]] kv by simp
  then have "store_inv ((fold reindex_entry kvs (reindex_entry kv t))
      \<lparr>m_commitments := fold (\<lambda>kv. om_put (fst kv) (snd kv)) kvs (om_put k e P)\<rparr>)"
    using Cons.prems(2,3) kv \<open>om_inv P\<close> fresh by (intro Cons.IH) simp_all
  then show ?case by (simp add: kv)
qed simp

lemma reindex_frame:
  "m_commitments (fold reindex_entry kvs t) = m_commitments t"
  "m_elderfierRegistrations (fold reindex_entry kvs t) = m_elderfierRegistrations t"
  "m_voidRegistrations (fold reindex_entry kvs t) = m_voidRegistrations t"
proof -
  have "m_commitments (reindex_entry kv t) = m_commitments t \<and>
      m_elderfierRegistrations (reindex_entry kv t) = m_elderfierRegistrations t \<and>
      m_voidRegistrations (reindex_entry kv t) = m_voidRegistrations t" for kv t
    by (cases "ce_type (snd kv)") (simp_all add: reindex_entry_def count_type_def Let_def)
  then have "m_commitments (fold reindex_entry kvs t) = m_commitments t \<and>
      m_elderfierRegistrations (fold reindex_entry kvs t) = m_elderfierRegistrations t \<and>
      m_voidRegistrations (fold reindex_entry kvs t) = m_voidRegistrations t"
    by (induction kvs arbitrary: t) simp_all
  then show "m_commitments (fold reindex_entry kvs t) = m_commitments t"
    "m_elderfierRegistrations (fold reindex_entry kvs t) = m_elderfierRegistrations t"
    "m_voidRegistrations (fold reindex_entry kvs t) = m_voidRegistrations t" by simp_all
qed

lemma store_inv_load:
  assumes "om_inv (sn_commitments sn)"
    and "\<And>k e. om_find (sn_commitments sn) k = Some e \<Longrightarrow> podToHex (ce_commitment e) = k"
  shows "store_inv (load_snapshot sn s)"
proof -
  define s1 where "s1 = s\<lparr>m_commitments := sn_commitments sn, m_elderfierRegistrations := sn_elderfierRegistrations sn,
     m_elderfierAddresses := sn_elderfierAddresses sn, m_epochReports := sn_epochReports sn,
     m_epochFeeRates := sn_epochFeeRates sn, m_merkle_leaves := [], m_heightIndex := [], m_txHashToCommitHash := [],
     m_heat_count := 0, m_cold_count := 0, m_elderfier_stake_count := 0, m_current_block_height := 0\<rparr>"
  let ?m = "sn_commitments sn"
  have c1: "m_commitments s1 = ?m" by (simp add: s1_def)
  have "store_inv (s1\<lparr>m_commitments := []\<rparr>)"
    by (simp add: s1_def store_inv_def counts_ok_def entries_of_def index_keys_def om_values_def om_find_def)
  then have "store_inv ((fold reindex_entry ?m s1)\<lparr>m_commitments := fold (\<lambda>kv. om_put (fst kv) (snd kv)) ?m []\<rparr>)"
    using assms om_distinct [OF assms(1)]
    by (intro store_inv_reindex) (auto simp: om_find_iff_mem om_find_def [of "[]"])
  then have "store_inv ((fold reindex_entry ?m s1)\<lparr>m_commitments := ?m\<rparr>)"
    by (simp add: fold_put_self [OF assms(1)])
  moreover have "same_store (load_snapshot sn s) ((fold reindex_entry ?m s1)\<lparr>m_commitments := ?m\<rparr>)"
    by (simp add: load_snapshot_def Let_def s1_def [symmetric] c1 reindex_frame same_store_def)
  ultimately show ?thesis by (rule store_inv_same [rotated])
qed

section \<open>Every run keeps the store consistent\<close>

lemma store_inv_step: "ci_step cs s t \<Longrightarrow> store_inv s \<Longrightarrow> store_inv t"
  by (induction rule: ci_step.induct)
    (auto intro: store_inv_add store_inv_rollback store_inv_slashed
      store_inv_same [OF same_store_signature] store_inv_same [OF same_store_flush]
      store_inv_same [OF same_store_root] store_inv_same [OF same_store_unstaking(1)]
      store_inv_same [OF same_store_unstaking(2)] store_inv_same [OF same_store_vote(1)]
      store_inv_same [OF same_store_vote(2)] same_store_simple [THEN store_inv_same])

lemma store_inv_reachable: "ci_reachable cs s \<Longrightarrow> store_inv s"
proof (induction rule: ci_reachable.induct)
  case (ci_reload s testnet root0)
  then show ?case by (intro store_inv_load) (auto simp: save_snapshot_def dest: store_invD)
qed (auto intro: store_inv_new store_inv_step store_inv_clear)

section \<open>Undoing blocks\<close>

lemma add_cases:
  obtains "om_find (m_commitments s) (podToHex (ce_commitment e)) \<noteq> None"
      "m_commitments (addCommitment e s) = m_commitments s" "m_heightIndex (addCommitment e s) = m_heightIndex s"
      "m_merkle_leaves (addCommitment e s) = m_merkle_leaves s"
    | "om_find (m_commitments s) (podToHex (ce_commitment e)) = None"
      "m_commitments (addCommitment e s) = om_put (podToHex (ce_commitment e)) e (m_commitments s)"
      "m_heightIndex (addCommitment e s) = push_height (ce_blockHeight e) (podToHex (ce_commitment e)) (m_heightIndex s)"
      "m_merkle_leaves (addCommitment e s) = m_merkle_leaves s @ [ce_commitment e]"
  using same_store_track [of e "store_commitment e s"]
  by (cases "om_has (m_commitments s) (podToHex (ce_commitment e))")
    (auto simp: addCommitment_def Let_def same_store_def om_has_def)

lemma filter_om_put: "\<not> P (k, v) \<Longrightarrow> om_find m k = None \<Longrightarrow> filter P (om_put k v m) = filter P m"
  unfolding om_find_def by (induction k v m rule: om_put.induct) (auto split: if_splits)

lemma upto_push: "om_inv idx \<Longrightarrow> h < j \<Longrightarrow> om_upto h (push_height j c idx) = om_upto h idx"
proof -
  have "filter (\<lambda>e. fst e \<le> h) (om_put j v idx) = filter (\<lambda>e. fst e \<le> h) idx" if "h < j" for v
    using that by (induction j v idx rule: om_put.induct) auto
  then show "om_inv idx \<Longrightarrow> h < j \<Longrightarrow> om_upto h (push_height j c idx) = om_upto h idx"
    by (simp add: om_upto_def push_height_def)
qed

lemma add_above:
  assumes "store_inv s" "h < ce_blockHeight e"
  shows "filter (\<lambda>kv. ce_blockHeight (snd kv) \<le> h) (m_commitments (addCommitment e s))
       = filter (\<lambda>kv. ce_blockHeight (snd kv) \<le> h) (m_commitments s)"
    and "om_upto h (m_heightIndex (addCommitment e s)) = om_upto h (m_heightIndex s)"
  using assms store_invD(2) [OF assms(1)]
  by (cases e s rule: add_cases; simp add: filter_om_put upto_push)+

lemma fold_add_above:
  assumes "store_inv s" "\<forall>e \<in> set es. h < ce_blockHeight e"
  shows "store_inv (fold addCommitment es s) \<and>
    filter (\<lambda>kv. ce_blockHeight (snd kv) \<le> h) (m_commitments (fold addCommitment es s))
      = filter (\<lambda>kv. ce_blockHeight (snd kv) \<le> h) (m_commitments s) \<and>
    om_upto h (m_heightIndex (fold addCommitment es s)) = om_upto h (m_heightIndex s)"
  using assms by (induction es arbitrary: s) (simp_all add: add_above store_inv_add)

lemma indexed_heights:
  assumes "store_inv s" "(k, e) \<in> set (m_commitments s)"
  shows "ce_blockHeight e \<in> set (map fst (m_heightIndex s))"
proof -
  note i = store_invD [OF assms(1)]
  have f: "om_find (m_commitments s) k = Some e" using assms(2) i(1) by (simp add: om_find_iff_mem)
  have "k \<in> set (index_keys (m_heightIndex s))" using arg_cong [OF i(6), of set_mset] assms(2) by force
  then obtain j cs where j: "(j, cs) \<in> set (m_heightIndex s)" "k \<in> set cs"
    by (auto simp: index_keys_def om_values_def)
  then have "om_find (m_heightIndex s) j = Some cs" using i(2) by (simp add: om_find_iff_mem)
  from i(7) [OF this j(2)] f j(1) show ?thesis by force
qed

lemma inj_podToHex: "inj podToHex"
  by (simp add: inj_def)

lemma has_iff_leaf:
  assumes "store_inv s"
  shows "hasCommitment c s \<longleftrightarrow> c \<in> set (m_merkle_leaves s)"
proof -
  have "podToHex c \<in> set (map fst (m_commitments s)) \<longleftrightarrow> c \<in> set (m_merkle_leaves s)"
    using arg_cong [OF store_invD(5) [OF assms], of set_mset]
    by (metis inj_image_mem_iff inj_podToHex set_map set_mset_mset)
  then show ?thesis by (simp add: hasCommitment_def om_has_def om_find_None_iff)
qed

lemma track_stake_root: "m_current_merkle_root (track_stake e s) = m_current_merkle_root s"
  by (simp add: track_stake_def tryRegisterElderfier_def Let_def split: option.splits)

lemma add_root:
  assumes "\<not> hasCommitment (ce_commitment e) s"
  shows "computeMerkleRoot (addCommitment e s) = computeMerkleRootInternal (m_merkle_leaves (addCommitment e s))"
  using assms same_store_track [of e "store_commitment e s"]
  by (simp add: addCommitment_def hasCommitment_def computeMerkleRoot_def track_stake_root same_store_def Let_def)

lemma index_keys_push_last:
  assumes "om_inv idx" "\<forall>j \<in> set (map fst idx). j \<le> h"
  shows "index_keys (push_height h c idx) = index_keys idx @ [c]"
proof -
  have "index_keys (om_put h ((case om_find idx h of None \<Rightarrow> [] | Some hs \<Rightarrow> hs) @ [c]) idx) = index_keys idx @ [c]"
    using assms
  proof (induction idx)
    case (Cons x idx)
    then show ?case
      by (cases idx; cases x) (auto simp: index_keys_def om_values_def om_find_def om_inv_def split: option.splits if_splits)
  qed (simp add: index_keys_def om_values_def om_find_def)
  then show ?thesis by (simp add: push_height_def)
qed

lemma in_block_order_add:
  assumes "store_inv s" "height_ordered s" "\<forall>j \<in> set (map fst (m_heightIndex s)). j \<le> ce_blockHeight e"
    and "\<not> hasCommitment (ce_commitment e) s"
  shows "in_block_order (addCommitment e s)"
proof (cases e s rule: add_cases)
  case 1
  then show ?thesis using assms(4) by (simp add: hasCommitment_def om_has_def)
next
  case 2
  then show ?thesis
    using assms(2) add_root [OF assms(4)] index_keys_push_last [OF store_invD(2) [OF assms(1)] assms(3)]
    by (simp add: in_block_order_def height_ordered_def)
qed

lemma in_block_order_rollback:
  assumes "store_inv s"
  shows "in_block_order (snd (rollbackToHeight h s))"
  using store_inv_rollback(2) [OF assms] rollback_spec(4) [OF assms prod.collapse [symmetric]]
  by (simp add: in_block_order_def computeMerkleRoot_def)

text \<open>The commitments of the block that is popped are not above its height: a rollback to the height of
  an entry keeps the entry.\<close>

lemma rollback_keeps_own_height:
  assumes "store_inv s" "\<not> hasCommitment (ce_commitment e) s"
  shows "hasCommitment (ce_commitment e) (snd (rollbackToHeight (ce_blockHeight e) (addCommitment e s)))"
proof -
  obtain n s' where rb: "rollbackToHeight (ce_blockHeight e) (addCommitment e s) = (n, s')" by fastforce
  note inv = store_inv_add [OF assms(1), of e]
  have "om_find (m_commitments (addCommitment e s)) (podToHex (ce_commitment e)) = Some e"
    using assms store_invD(1) [OF assms(1)]
    by (cases e s rule: add_cases) (simp_all add: hasCommitment_def om_has_def)
  then show ?thesis
    using rollback_spec(1) [OF inv rb] store_invD(1) [OF inv]
    by (simp add: rb hasCommitment_def om_has_def om_find_filter)
qed

lemma leaves_load:
  "m_merkle_leaves (load_snapshot sn s) = map ce_commitment (om_values (sn_commitments sn))"
proof -
  have "m_merkle_leaves (fold reindex_entry kvs t) = m_merkle_leaves t @ map ce_commitment (om_values kvs)" for kvs t
  proof (induction kvs arbitrary: t)
    case (Cons kv kvs)
    have "m_merkle_leaves (reindex_entry kv t) = m_merkle_leaves t @ [ce_commitment (snd kv)]"
      by (cases "ce_type (snd kv)") (simp_all add: reindex_entry_def count_type_def Let_def)
    then show ?case using Cons.IH by (simp add: om_values_def)
  qed (simp add: om_values_def)
  then show ?thesis by (simp add: load_snapshot_def Let_def)
qed

lemma sample_reachable: "ci_reachable accept_all (addCommitment sample_entry fresh_index)"
  by (rule ci_next [OF ci_new step_add])

section \<open>Properties\<close>

text \<open>
  C18: in every state a run can reach, the Merkle leaves are exactly the stored commitments, each once;
  looking a commitment up returns the entry it was stored with; the counters count the entries of
  each type.
\<close>

theorem commitment_store_consistent:
  assumes "ci_reachable cs s"
  shows "distinct (m_merkle_leaves s) \<and> length (m_merkle_leaves s) = commitment_count s \<and>
    (hasCommitment c s \<longleftrightarrow> c \<in> set (m_merkle_leaves s)) \<and>
    (hasCommitment c s \<longrightarrow> ce_commitment (getByCommitment c s) = c) \<and>
    heatCount s = of_nat (length (entries_of HEAT s)) \<and> coldCount s = of_nat (length (entries_of COLD s))"
proof -
  note i = store_invD [OF store_inv_reachable [OF assms]]
  have "distinct (map podToHex (m_merkle_leaves s))"
    using mset_eq_imp_distinct_iff [OF i(5)] om_distinct [OF i(1)] by simp
  then have "distinct (m_merkle_leaves s)" by (simp add: distinct_map)
  moreover have "length (m_merkle_leaves s) = commitment_count s"
    using arg_cong [OF i(5), of size] by (simp add: commitment_count_def)
  moreover have "hasCommitment c s \<Longrightarrow> ce_commitment (getByCommitment c s) = c"
    using i(4) [of "podToHex c"] by (auto simp: hasCommitment_def om_has_def getByCommitment_def)
  ultimately show ?thesis
    using i(3) has_iff_leaf [OF store_inv_reachable [OF assms]]
    by (auto simp: counts_ok_def heatCount_def coldCount_def)
qed

theorem commitment_store_consistent_witness:
  "hasCommitment (replicate 32 1) (addCommitment sample_entry fresh_index) \<longleftrightarrow>
   replicate 32 1 \<in> set (m_merkle_leaves (addCommitment sample_entry fresh_index))"
  using commitment_store_consistent [OF sample_reachable, of "replicate 32 1"] by blast

text \<open>
  C20: a rollback keeps exactly the commitments up to the given height, reports how many it removed and
  leaves the Merkle root of the remaining leaves.
\<close>

theorem rollback_exact:
  assumes "ci_reachable cs s" "rollbackToHeight h s = (n, s')"
  shows "(hasCommitment c s' \<longleftrightarrow> hasCommitment c s \<and> ce_blockHeight (getByCommitment c s) \<le> h) \<and>
    n + commitment_count s' = commitment_count s \<and>
    computeMerkleRoot s' = computeMerkleRootInternal (m_merkle_leaves s')"
proof -
  note inv = store_inv_reachable [OF assms(1)]
  note r = rollback_spec [OF inv assms(2)]
  have "hasCommitment c s' \<longleftrightarrow> hasCommitment c s \<and> ce_blockHeight (getByCommitment c s) \<le> h"
    using store_invD(1) [OF inv]
    by (auto simp: hasCommitment_def om_has_def getByCommitment_def r(1) om_find_filter split: option.splits)
  then show ?thesis using r(4,6) by (simp add: commitment_count_def computeMerkleRoot_def)
qed

theorem rollback_exact_witness:
  "hasCommitment (replicate 32 1) (snd (rollbackToHeight 5 (addCommitment sample_entry fresh_index))) \<longleftrightarrow>
   hasCommitment (replicate 32 1) (addCommitment sample_entry fresh_index) \<and>
   ce_blockHeight (getByCommitment (replicate 32 1) (addCommitment sample_entry fresh_index)) \<le> 5"
  using rollback_exact [OF sample_reachable prod.collapse [symmetric], of "replicate 32 1" 5] by blast

text \<open>
  C1: rolling back to a height undoes the commitments of all later blocks. From a reachable index whose leaves are in block
  order and whose root is that of the leaves, as it is after a rollback and while commitments are added block by block,
  with no commitment above the height, any commitments of later blocks that are added are removed again: the entries, the
  leaves in their order, the height index and the root that is reported are those of the state before. An index that was
  read from a file does not start in block order.
\<close>

theorem rollback_undoes_blocks:
  assumes "ci_reachable cs s" "in_block_order s" "\<forall>j \<in> set (map fst (m_heightIndex s)). j \<le> h"
    and "\<forall>e \<in> set es. h < ce_blockHeight e" "rollbackToHeight h (fold addCommitment es s) = (n, s')"
  shows "m_commitments s' = m_commitments s \<and> m_merkle_leaves s' = m_merkle_leaves s \<and>
    m_heightIndex s' = m_heightIndex s \<and> computeMerkleRoot s' = computeMerkleRoot s"
proof -
  note inv = store_inv_reachable [OF assms(1)]
  note f = fold_add_above [OF inv assms(4)]
  note r = rollback_spec [OF conjunct1 [OF f] assms(5)]
  have "filter (\<lambda>kv. ce_blockHeight (snd kv) \<le> h) (m_commitments s) = m_commitments s"
    using assms(3) indexed_heights [OF inv] by (intro filter_True) (metis prod.collapse)
  then have c: "m_commitments s' = m_commitments s" using r(1) f by simp
  have "om_upto h (m_heightIndex s) = m_heightIndex s"
    unfolding om_upto_def using assms(3) by (intro filter_True) auto
  then have idx: "m_heightIndex s' = m_heightIndex s" and "map podToHex (m_merkle_leaves s') = index_keys (m_heightIndex s)"
    using r(2,3) f by simp_all
  then have "map podToHex (m_merkle_leaves s') = map podToHex (m_merkle_leaves s)"
    using assms(2) by (simp add: in_block_order_def height_ordered_def)
  then have "m_merkle_leaves s' = m_merkle_leaves s" using inj_podToHex by (simp add: inj_map_eq_map)
  then show ?thesis using c idx r(4) assms(2) by (simp add: in_block_order_def computeMerkleRoot_def)
qed

theorem rollback_undoes_blocks_witness:
  "computeMerkleRoot (snd (rollbackToHeight 7 (fold addCommitment [later_entry] (addCommitment sample_entry fresh_index))))
     = computeMerkleRoot (addCommitment sample_entry fresh_index) \<and>
   m_merkle_leaves (addCommitment sample_entry fresh_index) = [replicate 32 1]"
proof -
  let ?s = "addCommitment sample_entry fresh_index" and ?es = "[later_entry]"
  have new: "m_heightIndex ?s = [(7, [podToHex (replicate 32 1)])]" "m_merkle_leaves ?s = [replicate 32 1]"
    by (cases sample_entry fresh_index rule: add_cases;
      simp add: sample_entry_def CommitmentIndex_new_def CommitmentEntry_new_def om_find_def push_height_def)+
  have "\<not> hasCommitment (ce_commitment sample_entry) fresh_index"
    by (simp add: hasCommitment_def CommitmentIndex_new_def om_has_def om_find_def)
  then have order: "in_block_order ?s"
    using add_root new by (simp add: in_block_order_def height_ordered_def index_keys_def om_values_def)
  have heights: "\<forall>j \<in> set (map fst (m_heightIndex ?s)). j \<le> 7" by (simp add: new)
  have later: "\<forall>e \<in> set ?es. 7 < ce_blockHeight e" by (simp add: later_entry_def sample_entry_def word_less_nat_alt)
  show ?thesis
    using rollback_undoes_blocks [OF sample_reachable order heights later prod.collapse [symmetric]] new by blast
qed

text \<open>
  C28: after a commitment was added, the index can prove every commitment it holds: the leaf index and
  the proof it returns fold to the root it reports.
\<close>

theorem stored_commitments_provable:
  assumes "ci_reachable cs s" "\<not> hasCommitment (ce_commitment e) s" "s' = addCommitment e s"
    and "hasCommitment c s'"
  shows "\<exists>i. getLeafIndex c s' = Some i \<and>
    fold_proof c i (getMerkleProof (m_merkle_leaves s') c) = computeMerkleRoot s'"
proof -
  have "store_inv s'" using store_inv_add [OF store_inv_reachable [OF assms(1)]] assms(3) by simp
  then have "c \<in> set (m_merkle_leaves s')" using has_iff_leaf assms(4) by blast
  then obtain i where "find_leaf c (m_merkle_leaves s') = Some i"
    using find_leaf_None [of c "m_merkle_leaves s'"] by fastforce
  then show ?thesis
    using merkle_proof_accepted add_root [OF assms(2)] assms(3) by (auto simp: getLeafIndex_def)
qed

theorem stored_commitments_provable_witness:
  "\<exists>i. getLeafIndex (replicate 32 1) (addCommitment sample_entry fresh_index) = Some i \<and>
     fold_proof (replicate 32 1) i
       (getMerkleProof (m_merkle_leaves (addCommitment sample_entry fresh_index)) (replicate 32 1))
     = computeMerkleRoot (addCommitment sample_entry fresh_index)"
proof -
  have new: "\<not> hasCommitment (ce_commitment sample_entry) fresh_index"
    by (simp add: hasCommitment_def CommitmentIndex_new_def om_has_def om_find_def)
  have "hasCommitment (replicate 32 1) (addCommitment sample_entry fresh_index)"
    by (cases sample_entry fresh_index rule: add_cases)
      (simp_all add: hasCommitment_def om_has_def sample_entry_def CommitmentIndex_new_def om_find_def)
  then show ?thesis
    using stored_commitments_provable [OF ci_new [of accept_all] new refl] by blast
qed

end
