(* ===== verification/Elderfier_Registry.thy ===== *)
theory Elderfier_Registry
  imports Commitment_Store
begin

text \<open>
  Registration, unstaking, signatures and slash votes of Elderfiers in the commitment index.
  \<open>reg_inv\<close> holds in every run: at most eight active registrations, one registration per identifier,
  the identifier list is that of the registrations, and a voided address has no registration. A
  voided address stays so in the rest of the run. Cached signatures marked valid were verified
  under a registered key, conflicting ones are recorded, and a slash needs the quorum.
\<close>

section \<open>Definitions\<close>

definition registered_ids :: "CommitmentIndex \<Rightarrow> u8 list" where
  "registered_ids s = map reg_elderfier_id (om_values (m_elderfierRegistrations s))"

definition reg_inv :: "CommitmentIndex \<Rightarrow> bool" where
  "reg_inv s \<longleftrightarrow> om_inv (m_elderfierRegistrations s) \<and> distinct (m_elderfier_ids s) \<and>
     mset (m_elderfier_ids s) = mset (registered_ids s) \<and> getActiveElderfierCount s \<le> 8 \<and>
     (\<forall>a r. om_find (m_elderfierRegistrations s) a = Some r \<longrightarrow> reg_address r = a \<and> reg_status r \<noteq> VOID) \<and>
     (\<forall>a efid. (a, efid) \<in> set (m_voidRegistrations s) \<longrightarrow> om_find (m_elderfierRegistrations s) a = None)"

text \<open>Methods that do not touch the registrations.\<close>

definition same_registry :: "CommitmentIndex \<Rightarrow> CommitmentIndex \<Rightarrow> bool" where
  "same_registry t s \<longleftrightarrow> m_elderfierRegistrations t = m_elderfierRegistrations s \<and>
     m_elderfier_ids t = m_elderfier_ids s \<and> m_voidRegistrations t = m_voidRegistrations s"

text \<open>What the signature cache holds.\<close>

definition sig_inv :: "(hash \<Rightarrow> public_key \<Rightarrow> signature \<Rightarrow> bool) \<Rightarrow> CommitmentIndex \<Rightarrow> bool" where
  "sig_inv cs s \<longleftrightarrow> om_inv (m_signatures s) \<and>
     (\<forall>k v. om_find (m_signatures s) k = Some v \<longrightarrow>
        k = (cs_elderfier_id v, podToHex (cs_merkle_root v)) \<and>
        (cs_is_valid v \<longrightarrow> (\<exists>pk. pk \<noteq> null_pod \<and> cs (cs_merkle_root v) pk (cs_signature v))))"

text \<open>The voters of a slash proposal form a set.\<close>

definition votes_ok :: "CommitmentIndex \<Rightarrow> bool" where
  "votes_ok s \<longleftrightarrow> om_inv (m_slashProposals s) \<and>
     (\<forall>k p. om_find (m_slashProposals s) k = Some p \<longrightarrow> distinct (sp_votingEfids p))"

text \<open>The staking deposits of a sample run.\<close>

definition stake :: "nat \<Rightarrow> CommitmentEntry" where
  "stake k = CommitmentEntry_new\<lparr>ce_commitment := [of_nat k], ce_type := ELDERFIER_STAKING,
     ce_amount := 44440000000, ce_senderAddress := ''W'', ce_signingPubKey := [1]\<rparr>"

definition stakes :: "nat \<Rightarrow> CommitmentIndex" where
  "stakes n = fold addCommitment (map stake [0..<n]) fresh_index"

definition sample_sig :: "u8 \<Rightarrow> CachedElderfierSignature" where
  "sample_sig root = \<lparr>cs_merkle_root = [root], cs_signature = [], cs_elderfier_id = 0, cs_block_height = 100,
     cs_timestamp = 0, cs_received_block_height = 101, cs_is_valid = False, cs_sig_algorithm = 0,
     cs_pq_signature = [], cs_pq_public_key = []\<rparr>"

section \<open>Frame\<close>

lemma reg_inv_same: "same_registry t s \<Longrightarrow> reg_inv s \<Longrightarrow> reg_inv t"
  unfolding same_registry_def reg_inv_def registered_ids_def getActiveElderfierCount_def by simp

lemma same_registry_store: "same_registry (store_commitment e s) s"
  by (simp add: same_registry_def)

lemma same_registry_remove: "same_registry (fst (fold remove_commitment cs (s, n))) s"
proof -
  have step: "same_registry (fst (remove_commitment c (t, m))) t" for c t m
    by (simp add: remove_commitment_def same_registry_def count_type_def split: option.splits CommitmentType.splits)
  show ?thesis
  proof (induction cs arbitrary: s n)
    case (Cons c cs)
    show ?case using Cons.IH [of "fst (remove_commitment c (s, n))" "snd (remove_commitment c (s, n))"]
        step [of c s n] by (simp add: same_registry_def)
  qed (simp add: same_registry_def)
qed

lemma same_registry_rollback: "same_registry (snd (rollbackToHeight h s)) s"
  using same_registry_remove [of "concat (om_values (om_above h (m_heightIndex s)))" s 0]
  by (auto simp: rollbackToHeight_def same_registry_def Let_def split: prod.splits)

lemma same_registry_other:
  "same_registry (addSignatureToCache cs sig s) s" "same_registry (checkAndFlushThreshold s) s"
  "same_registry (updateCurrentMerkleRoot r s) s" "same_registry (registerElderfierAddress i a s) s"
  "same_registry (snd (addSlashVote d i rs b t s)) s" "same_registry (markSlashProposalExecuted d s) s"
  "same_registry (snd (markCommitmentSlashed d s)) s" "same_registry (recordDoubleSign ev s) s"
  "same_registry (addBlockBankingFee h f s) s" "same_registry (recordEpochFeeRate n ra s) s"
  "same_registry (storeEpochReport rep s) s" "same_registry (addUnstakingNotice un s) s"
  "same_registry (addFullReviewRequest rq s) s" "same_registry (s\<lparr>m_aliasIndex := al\<rparr>) s"
  by (simp_all add: same_registry_def addSignatureToCache_def recordDoubleSign_def checkAndFlushThreshold_def
      updateCurrentMerkleRoot_def registerElderfierAddress_def addSlashVote_def markSlashProposalExecuted_def
      markCommitmentSlashed_def addBlockBankingFee_def recordEpochFeeRate_def storeEpochReport_def
      addUnstakingNotice_def addFullReviewRequest_def Let_def split: option.splits)

section \<open>Registration\<close>

lemma reg_invD:
  assumes "reg_inv s"
  shows "om_inv (m_elderfierRegistrations s)" "distinct (m_elderfier_ids s)"
    and "mset (m_elderfier_ids s) = mset (registered_ids s)" "getActiveElderfierCount s \<le> 8"
    and "om_find (m_elderfierRegistrations s) a = Some r \<Longrightarrow> reg_address r = a"
    and "om_find (m_elderfierRegistrations s) a = Some r \<Longrightarrow> reg_status r \<noteq> VOID"
    and "(a, efid) \<in> set (m_voidRegistrations s) \<Longrightarrow> om_find (m_elderfierRegistrations s) a = None"
  using assms unfolding reg_inv_def by (simp_all only:) blast

text \<open>What a successful registration does.\<close>

lemma tryRegister_success:
  assumes "tryRegisterElderfier w k n s = (True, s')"
  defines "r \<equiv> new_registration w k n (next_efid (m_elderfier_ids s) 0)"
  shows "reg_address r = w" "reg_status r = ACTIVE" "reg_elderfier_id r \<notin> set (m_elderfier_ids s)"
    and "om_find (m_elderfierRegistrations s) w = None" "w \<notin> fst ` set (m_voidRegistrations s)"
    and "getActiveElderfierCount s < 8" "m_voidRegistrations s' = m_voidRegistrations s"
    and "m_elderfierRegistrations s' = om_put w r (m_elderfierRegistrations s)"
    and "m_elderfier_ids s' = m_elderfier_ids s @ [reg_elderfier_id r]"
proof -
  show "reg_address r = w" "reg_status r = ACTIVE" by (simp_all add: r_def new_registration_def)
  show "reg_elderfier_id r \<notin> set (m_elderfier_ids s)"
    and "om_find (m_elderfierRegistrations s) w = None" "w \<notin> fst ` set (m_voidRegistrations s)"
    and "getActiveElderfierCount s < 8" "m_voidRegistrations s' = m_voidRegistrations s"
    and "m_elderfierRegistrations s' = om_put w r (m_elderfierRegistrations s)"
    and "m_elderfier_ids s' = m_elderfier_ids s @ [reg_elderfier_id r]"
    using assms(1)
    by (auto simp: r_def new_registration_def tryRegisterElderfier_def Let_def om_has_def list_ex_iff not_le
        split: if_splits option.splits)
qed

lemma tryRegister_failure: "tryRegisterElderfier w k n s = (False, s') \<Longrightarrow> s' = s"
  by (auto simp: tryRegisterElderfier_def Let_def split: if_splits option.splits)

lemma reg_inv_register:
  assumes "reg_inv s"
  shows "reg_inv (snd (tryRegisterElderfier w k n s))"
proof (cases "tryRegisterElderfier w k n s")
  case (Pair ok s')
  note d = reg_invD [OF assms]
  show ?thesis
  proof (cases ok)
    case False
    then show ?thesis using assms Pair tryRegister_failure by fastforce
  next
    case True
    then have "tryRegisterElderfier w k n s = (True, s')" using Pair by simp
    note r = tryRegister_success [OF this]
    let ?r = "new_registration w k n (next_efid (m_elderfier_ids s) 0)"
    note m = mset_om_put_fresh [OF d(1) r(4), of ?r]
    have "mset (registered_ids s') = add_mset (reg_elderfier_id ?r) (mset (registered_ids s))"
      using arg_cong [OF m, of "image_mset (reg_elderfier_id \<circ> snd)"]
      by (simp add: registered_ids_def om_values_def r(8) image_mset.comp)
    moreover have "getActiveElderfierCount s' = getActiveElderfierCount s + 1"
      using arg_cong [OF m, of "\<lambda>M. size (filter_mset (\<lambda>r. reg_status r = ACTIVE) (image_mset snd M))"] r(2)
      by (simp add: getActiveElderfierCount_def om_values_def r(8) size_filter_mset_mset flip: mset_map)
    moreover have "om_find (m_elderfierRegistrations s') a = None" if "(a, efid) \<in> set (m_voidRegistrations s')" for a efid
      using that d(1,7) r(5,7,8) by (force simp: image_iff)
    ultimately have "reg_inv s'"
      using d(1-6) r by (simp add: reg_inv_def) 
    then show ?thesis using Pair by simp
  qed
qed

lemma reg_inv_track:
  assumes "reg_inv s"
  shows "reg_inv (track_stake e s)"
proof -
  have "reg_inv (t\<lparr>m_pendingElderfierStakes := p\<rparr>)" if "reg_inv t" for t p
    by (rule reg_inv_same [OF _ that]) (simp add: same_registry_def)
  then show ?thesis using assms by (simp add: track_stake_def Let_def reg_inv_register)
qed

lemma reg_inv_add: "reg_inv s \<Longrightarrow> reg_inv (addCommitment e s)"
  using reg_inv_same [OF same_registry_store, of s e] reg_inv_track
  by (simp add: addCommitment_def Let_def)

section \<open>Unstaking\<close>

lemma reg_inv_initiate:
  assumes "reg_inv s"
  shows "reg_inv (snd (initiateElderfierUnstaking a efid b w s))"
proof (cases "fst (initiateElderfierUnstaking a efid b w s)")
  case False
  then show ?thesis using assms
    by (auto simp: initiateElderfierUnstaking_def split: option.splits if_splits)
next
  case True
  note d = reg_invD [OF assms]
  from True obtain r where r: "om_find (m_elderfierRegistrations s) a = Some r" "reg_status r = ACTIVE"
    by (auto simp: initiateElderfierUnstaking_def split: option.splits if_splits)
  let ?r = "r\<lparr>reg_status := UNSTAKING, reg_unstaking_start_block := b, reg_unstaking_review_window := w\<rparr>"
  let ?s = "s\<lparr>m_elderfierRegistrations := om_put a ?r (m_elderfierRegistrations s)\<rparr>"
  note m = mset_om_put_present [OF d(1) r(1), of ?r]
  have "mset (registered_ids ?s) = mset (registered_ids s)"
    using arg_cong [OF m, of "image_mset (reg_elderfier_id \<circ> snd)"]
    by (simp add: registered_ids_def om_values_def image_mset.comp)
  moreover have "getActiveElderfierCount ?s \<le> getActiveElderfierCount s"
    using arg_cong [OF m, of "\<lambda>M. size (filter_mset (\<lambda>r. reg_status r = ACTIVE) (image_mset snd M))"] r(2)
    by (simp add: getActiveElderfierCount_def om_values_def size_filter_mset_mset flip: mset_map)
  ultimately have "reg_inv ?s"
    using d(1-4) d(5,6,7) r by (auto simp: reg_inv_def)
  moreover have "snd (initiateElderfierUnstaking a efid b w s) = ?s"
    using True r by (auto simp: initiateElderfierUnstaking_def split: if_splits)
  ultimately show ?thesis by simp
qed

lemma reg_inv_complete:
  assumes "reg_inv s"
  shows "reg_inv (snd (completeElderfierUnstaking a efid b s))"
proof (cases "fst (completeElderfierUnstaking a efid b s)")
  case False
  then show ?thesis using assms
    by (auto simp: completeElderfierUnstaking_def split: option.splits if_splits)
next
  case True
  note d = reg_invD [OF assms]
  from True obtain r where r: "om_find (m_elderfierRegistrations s) a = Some r" "reg_elderfier_id r = efid"
    by (auto simp: completeElderfierUnstaking_def split: option.splits if_splits)
  let ?s = "snd (completeElderfierUnstaking a efid b s)"
  have f: "m_elderfierRegistrations ?s = om_erase a (m_elderfierRegistrations s)"
    "m_elderfier_ids ?s = remove1 efid (m_elderfier_ids s)"
    "m_voidRegistrations ?s = List.insert (a, efid) (m_voidRegistrations s)"
    using True r by (auto simp: completeElderfierUnstaking_def split: if_splits)
  note m = mset_om_erase [OF d(1) r(1)]
  have ids: "add_mset efid (mset (registered_ids ?s)) = mset (registered_ids s)"
    using arg_cong [OF m, of "image_mset (reg_elderfier_id \<circ> snd)"] r(2)
    by (simp add: registered_ids_def om_values_def image_mset.comp f(1))
  then have "mset (m_elderfier_ids ?s) = mset (registered_ids ?s)"
    using d(3) by (simp add: f(2) flip: ids)
  moreover have "getActiveElderfierCount ?s \<le> getActiveElderfierCount s"
    using arg_cong [OF m, of "\<lambda>M. size (filter_mset (\<lambda>r. reg_status r = ACTIVE) (image_mset snd M))"]
    by (simp add: getActiveElderfierCount_def om_values_def f(1) size_filter_mset_mset flip: mset_map split: if_splits)
  ultimately show ?thesis
    using d(1,2,4) d(5,6,7) f by (auto simp: reg_inv_def)
qed

section \<open>Every run keeps the registry consistent\<close>

lemma reg_inv_step: "ci_step cs s t \<Longrightarrow> reg_inv s \<Longrightarrow> reg_inv t"
  by (induction rule: ci_step.induct)
    (auto intro: reg_inv_add reg_inv_initiate reg_inv_complete reg_inv_same [OF same_registry_rollback]
      same_registry_other [THEN reg_inv_same])

lemma reg_inv_empty:
  assumes "m_elderfierRegistrations s = []" "m_elderfier_ids s = []" "m_voidRegistrations s = []"
  shows "reg_inv s"
  using assms by (simp add: reg_inv_def registered_ids_def getActiveElderfierCount_def om_values_def om_find_def)

lemma load_registry:
  "m_elderfierRegistrations (load_snapshot sn s) = sn_elderfierRegistrations sn"
  "m_elderfier_ids (load_snapshot sn s) = map reg_elderfier_id (om_values (sn_elderfierRegistrations sn))"
  "m_voidRegistrations (load_snapshot sn s) = m_voidRegistrations s"
  by (simp_all add: load_snapshot_def Let_def reindex_frame)

lemma reg_inv_reload:
  assumes "reg_inv s"
  shows "reg_inv (load_snapshot (save_snapshot s) (CommitmentIndex_new tn r))"
proof -
  note d = reg_invD [OF assms]
  have "distinct (registered_ids s)" using mset_eq_imp_distinct_iff [OF d(3)] d(2) by simp
  then show ?thesis using d(1,4) d(5,6)
    by (simp add: reg_inv_def load_registry save_snapshot_def registered_ids_def getActiveElderfierCount_def
        CommitmentIndex_new_def)
qed

lemma reg_inv_new: "reg_inv (CommitmentIndex_new tn r)" and reg_inv_clear: "reg_inv (clear s)"
  by (simp_all add: reg_inv_empty CommitmentIndex_new_def clear_def)

lemma reg_inv_reachable: "ci_reachable cs s \<Longrightarrow> reg_inv s"
  by (induction rule: ci_reachable.induct)
    (auto intro: reg_inv_step reg_inv_reload reg_inv_new reg_inv_clear)

lemma void_step:
  assumes "ci_step cs s t"
  shows "set (m_voidRegistrations s) \<subseteq> set (m_voidRegistrations t)"
  using assms
proof (induction rule: ci_step.induct)
  case (step_add s e)
  have "m_voidRegistrations (track_stake e t) = m_voidRegistrations t" for t
    by (simp add: track_stake_def tryRegisterElderfier_def Let_def split: option.splits)
  then show ?case by (simp add: addCommitment_def Let_def)
next
  case (step_rollback s h)
  then show ?case using same_registry_rollback [of h s] by (simp add: same_registry_def)
next
  case (step_complete s a efid b)
  then show ?case by (auto simp: completeElderfierUnstaking_def split: option.splits)
next
  case (step_initiate s a efid b w)
  then show ?case by (simp add: initiateElderfierUnstaking_def split: option.splits)
qed (insert same_registry_other, simp_all add: same_registry_def)

lemma void_steps: "(ci_step cs)\<^sup>*\<^sup>* s t \<Longrightarrow> set (m_voidRegistrations s) \<subseteq> set (m_voidRegistrations t)"
  by (induction rule: rtranclp_induct) (auto dest: void_step)

lemma reachable_steps: "(ci_step cs)\<^sup>*\<^sup>* s t \<Longrightarrow> ci_reachable cs s \<Longrightarrow> ci_reachable cs t"
  by (induction rule: rtranclp_induct) (auto intro: ci_next)

section \<open>Signatures\<close>

lemma remove_votes_signatures:
  "m_signatures (fst (fold remove_commitment cs (s, n))) = m_signatures s \<and>
   m_slashProposals (fst (fold remove_commitment cs (s, n))) = m_slashProposals s"
proof -
  have step: "m_signatures (fst (remove_commitment c (t, m))) = m_signatures t \<and>
      m_slashProposals (fst (remove_commitment c (t, m))) = m_slashProposals t" for c t m
    by (simp add: remove_commitment_def count_type_def split: option.splits CommitmentType.splits)
  show ?thesis
  proof (induction cs arbitrary: s n)
    case (Cons c cs)
    show ?case using Cons.IH [of "fst (remove_commitment c (s, n))" "snd (remove_commitment c (s, n))"]
        step [of c s n] by simp
  qed simp
qed

lemma add_votes_signatures:
  "m_signatures (addCommitment e s) = m_signatures s" "m_slashProposals (addCommitment e s) = m_slashProposals s"
proof -
  let ?same = "\<lambda>t u. m_signatures t = m_signatures u \<and> m_slashProposals t = m_slashProposals u"
  have "?same (store_commitment e s) s"
    by (cases "ce_type e") (simp_all add: store_commitment_def count_type_def Let_def)
  moreover have "?same (snd (tryRegisterElderfier w k n t)) t" for w k n t
    by (simp add: tryRegisterElderfier_def Let_def split: option.splits)
  then have "?same (track_stake e t) t" for t by (simp add: track_stake_def Let_def)
  ultimately show "m_signatures (addCommitment e s) = m_signatures s"
    "m_slashProposals (addCommitment e s) = m_slashProposals s" by (simp_all add: addCommitment_def Let_def)
qed

lemma rollback_votes_signatures:
  "m_signatures (snd (rollbackToHeight h s)) = m_signatures s"
  "m_slashProposals (snd (rollbackToHeight h s)) = m_slashProposals s"
  using remove_votes_signatures [of "concat (om_values (om_above h (m_heightIndex s)))" s 0]
  by (auto simp: rollbackToHeight_def Let_def split: prod.splits)

lemma same_signatures:
  "m_signatures (updateCurrentMerkleRoot r s) = m_signatures s"
  "m_signatures (registerElderfierAddress i a s) = m_signatures s"
  "m_signatures (snd (initiateElderfierUnstaking a i b w s)) = m_signatures s"
  "m_signatures (snd (completeElderfierUnstaking a i b s)) = m_signatures s"
  "m_signatures (snd (addSlashVote d i rs b8 t8 s)) = m_signatures s"
  "m_signatures (markSlashProposalExecuted d s) = m_signatures s"
  "m_signatures (snd (markCommitmentSlashed d s)) = m_signatures s"
  "m_signatures (recordDoubleSign ev s) = m_signatures s"
  "m_signatures (addBlockBankingFee hh f s) = m_signatures s"
  "m_signatures (recordEpochFeeRate n ra s) = m_signatures s"
  "m_signatures (storeEpochReport rep s) = m_signatures s"
  "m_signatures (addUnstakingNotice un s) = m_signatures s"
  "m_signatures (addFullReviewRequest rq s) = m_signatures s"
  by (simp_all add: updateCurrentMerkleRoot_def registerElderfierAddress_def initiateElderfierUnstaking_def
      completeElderfierUnstaking_def addSlashVote_def markSlashProposalExecuted_def
      markCommitmentSlashed_def recordDoubleSign_def addBlockBankingFee_def recordEpochFeeRate_def
      storeEpochReport_def addUnstakingNotice_def addFullReviewRequest_def Let_def
      split: option.splits)

lemma addSignature_signatures:
  "m_signatures (addSignatureToCache cs sig s)
   = om_put (cs_elderfier_id sig, podToHex (cs_merkle_root sig))
       (sig\<lparr>cs_is_valid := verify_cached cs sig s\<rparr>) (m_signatures s)"
  by (simp add: addSignatureToCache_def recordDoubleSign_def Let_def split: option.splits)

lemma verify_cached_key:
  "verify_cached cs sig s \<Longrightarrow> \<exists>pk. pk \<noteq> null_pod \<and> cs (cs_merkle_root sig) pk (cs_signature sig)"
  by (auto simp: verify_cached_def split: if_splits option.splits)

lemma flush_signatures: "sig_inv cs s \<Longrightarrow> sig_inv cs (checkAndFlushThreshold s)"
  by (auto simp: sig_inv_def checkAndFlushThreshold_def Let_def om.inv_fold_erase om.find_fold_erase split: if_splits)

lemma sig_inv_step: "ci_step cs s t \<Longrightarrow> sig_inv cs s \<Longrightarrow> sig_inv cs t"
proof (induction rule: ci_step.induct)
  case (step_signature s sig)
  then show ?case using verify_cached_key [of cs sig s] by (auto simp: sig_inv_def addSignature_signatures)
next
  case (step_flush s)
  then show ?case by (rule flush_signatures)
qed (simp_all add: sig_inv_def same_signatures add_votes_signatures rollback_votes_signatures)

lemma sig_inv_empty: "m_signatures s = [] \<Longrightarrow> sig_inv cs s"
  by (simp add: sig_inv_def om_find_def)

lemma reload_votes_signatures:
  "m_signatures (load_snapshot sn s) = m_signatures s" "m_slashProposals (load_snapshot sn s) = m_slashProposals s"
proof -
  let ?same = "\<lambda>t u. m_signatures t = m_signatures u \<and> m_slashProposals t = m_slashProposals u"
  have "?same (reindex_entry kv t) t" for kv t
    by (cases "ce_type (snd kv)") (simp_all add: reindex_entry_def count_type_def Let_def)
  then have "?same (fold reindex_entry kvs t) t" for kvs t by (induction kvs arbitrary: t) simp_all
  then show "m_signatures (load_snapshot sn s) = m_signatures s"
    "m_slashProposals (load_snapshot sn s) = m_slashProposals s" by (simp_all add: load_snapshot_def Let_def)
qed

lemma sig_inv_reachable: "ci_reachable cs s \<Longrightarrow> sig_inv cs s"
  by (induction rule: ci_reachable.induct)
    (auto intro: sig_inv_step sig_inv_empty simp: reload_votes_signatures CommitmentIndex_new_def clear_def)

lemma first_of_each_ids:
  "distinct (map (fst \<circ> fst) (first_of_each seen kvs)) \<and>
   set (map (fst \<circ> fst) (first_of_each seen kvs)) \<inter> set seen = {} \<and>
   set (first_of_each seen kvs) \<subseteq> set kvs"
  by (induction seen kvs rule: first_of_each.induct) auto

lemma sig_inv_member:
  assumes "sig_inv cs s" "((i, h), v) \<in> set (m_signatures s)"
  shows "i = cs_elderfier_id v" "h = podToHex (cs_merkle_root v)"
    "cs_is_valid v \<Longrightarrow> \<exists>pk. pk \<noteq> null_pod \<and> cs (cs_merkle_root v) pk (cs_signature v)"
proof -
  have "om_find (m_signatures s) (i, h) = Some v" using assms by (simp add: sig_inv_def om_find_def om_distinct)
  then show "i = cs_elderfier_id v" "h = podToHex (cs_merkle_root v)"
    "cs_is_valid v \<Longrightarrow> \<exists>pk. pk \<noteq> null_pod \<and> cs (cs_merkle_root v) pk (cs_signature v)"
    using assms(1) unfolding sig_inv_def by blast+
qed

lemma addSignatureToCache_events:
  "m_doubleSignEvents (addSignatureToCache cs sig s) =
     (if verify_cached cs sig s
      then (case List.find (conflicting sig) (m_signatures s) of None \<Rightarrow> m_doubleSignEvents s
            | Some kv \<Rightarrow> push_double_sign \<lparr>ds_elderfier_id = cs_elderfier_id sig,
                ds_root_a = cs_merkle_root (snd kv), ds_root_b = cs_merkle_root sig,
                ds_block_height = cs_block_height sig, ds_detected_at_block = cs_received_block_height sig,
                ds_ceremony_alias = []\<rparr> (m_doubleSignEvents s))
      else m_doubleSignEvents s)"
  by (simp add: addSignatureToCache_def recordDoubleSign_def Let_def split: option.split)

section \<open>Slash votes\<close>

lemma u8_list_length: "distinct (xs :: u8 list) \<Longrightarrow> length xs \<le> 256"
proof -
  assume "distinct xs"
  then have "length xs = card (set xs)" by (simp add: distinct_card)
  also have "\<dots> \<le> card (UNIV :: u8 set)" by (intro card_mono) simp_all
  also have "\<dots> = 256" by (simp add: card_word)
  finally show ?thesis .
qed

text \<open>The percentage test on small counts is the exact comparison.\<close>

lemma percent_test:
  assumes "v \<le> 256" "0 < n" "n \<le> 256"
  shows "(ucast (t :: u8) \<le> (of_nat v * 100 div of_nat n :: u64)) \<longleftrightarrow> unat t * n \<le> v * 100"
proof -
  have "unat (of_nat v :: u64) = v" "unat (of_nat n :: u64) = n"
    using assms by (simp_all add: unat_of_nat take_bit_nat_eq_self)
  moreover from this have "unat (of_nat v * 100 :: u64) = v * 100"
    using assms by (subst unat_mult_no_wrap) simp_all
  ultimately have "unat (of_nat v * 100 div of_nat n :: u64) = v * 100 div n" by (simp add: unat_div_distrib)
  then show ?thesis using assms(2) by (simp add: word_le_nat_alt less_eq_div_iff_mult_less_eq)
qed

lemma votes_ok_vote: "votes_ok s \<Longrightarrow> votes_ok (snd (addSlashVote d i r b t s))"
  by (auto simp: votes_ok_def addSlashVote_def SlashProposal_new_def Let_def split: option.splits if_splits)

lemma votes_ok_executed: "votes_ok s \<Longrightarrow> votes_ok (markSlashProposalExecuted d s)"
  by (auto simp: votes_ok_def markSlashProposalExecuted_def Let_def split: option.splits)

lemma same_votes:
  "m_slashProposals (addSignatureToCache cs sig s) = m_slashProposals s"
  "m_slashProposals (checkAndFlushThreshold s) = m_slashProposals s"
  "m_slashProposals (updateCurrentMerkleRoot r s) = m_slashProposals s"
  "m_slashProposals (registerElderfierAddress i a s) = m_slashProposals s"
  "m_slashProposals (snd (initiateElderfierUnstaking a i b w s)) = m_slashProposals s"
  "m_slashProposals (snd (completeElderfierUnstaking a i b s)) = m_slashProposals s"
  "m_slashProposals (snd (markCommitmentSlashed d s)) = m_slashProposals s"
  "m_slashProposals (recordDoubleSign ev s) = m_slashProposals s"
  "m_slashProposals (addBlockBankingFee hh f s) = m_slashProposals s"
  "m_slashProposals (recordEpochFeeRate n ra s) = m_slashProposals s"
  "m_slashProposals (storeEpochReport rep s) = m_slashProposals s"
  "m_slashProposals (addUnstakingNotice un s) = m_slashProposals s"
  "m_slashProposals (addFullReviewRequest rq s) = m_slashProposals s"
  by (simp_all add: addSignatureToCache_def checkAndFlushThreshold_def updateCurrentMerkleRoot_def
      registerElderfierAddress_def initiateElderfierUnstaking_def completeElderfierUnstaking_def
      markCommitmentSlashed_def recordDoubleSign_def addBlockBankingFee_def recordEpochFeeRate_def
      storeEpochReport_def addUnstakingNotice_def addFullReviewRequest_def Let_def split: option.splits)

lemma votes_ok_step: "ci_step cs s t \<Longrightarrow> votes_ok s \<Longrightarrow> votes_ok t"
proof (induction rule: ci_step.induct)
  case (step_vote s d efid reason b t)
  then show ?case by (rule votes_ok_vote)
next
  case (step_executed s d)
  then show ?case by (rule votes_ok_executed)
qed (simp_all add: votes_ok_def same_votes add_votes_signatures rollback_votes_signatures)

lemma votes_ok_reachable: "ci_reachable cs s \<Longrightarrow> votes_ok s"
proof (induction rule: ci_reachable.induct)
  case (ci_next s t)
  then show ?case by (blast intro: votes_ok_step)
qed (simp_all add: votes_ok_def reload_votes_signatures CommitmentIndex_new_def clear_def om_find_def)

section \<open>A sample run\<close>

text \<open>Twenty staking deposits of one wallet register it under identifier 0; it then unstakes.\<close>

lemma store_commitment_caches [simp]:
  "m_signatures (store_commitment e s) = m_signatures s"
  "m_slashProposals (store_commitment e s) = m_slashProposals s"
  "m_doubleSignEvents (store_commitment e s) = m_doubleSignEvents s"
  "m_elderfierAddresses (store_commitment e s) = m_elderfierAddresses s"
  by (simp_all add: store_commitment_def Let_def count_type_def split: CommitmentType.splits)

lemma sample_key [simp]: "[1] \<noteq> null_pod" "null_pod \<noteq> [1]"
proof -
  have "length null_pod = 32" by (simp add: null_pod_def)
  then show "[1] \<noteq> null_pod" "null_pod \<noteq> [1]" by (metis One_nat_def length_Cons list.size(3) numeral_eq_one_iff semiring_norm(85))+
qed

lemma stakes_Suc: "stakes (Suc n) = addCommitment (stake n) (stakes n)"
  by (simp add: stakes_def)

lemma stakes_reachable: "ci_reachable accept_all (stakes n)"
proof (induction n)
  case 0
  show ?case using ci_new [of accept_all False null_pod] by (simp add: stakes_def)
next
  case (Suc n)
  show ?case unfolding stakes_Suc by (rule ci_next [OF Suc step_add])
qed

lemma stakes_add:
  assumes "n < 256" "m_merkle_leaves (stakes n) = map (\<lambda>k. [of_nat k]) [0..<n]"
  shows "stakes (Suc n) = track_stake (stake n) (store_commitment (stake n) (stakes n))"
proof -
  have "(of_nat n :: u8) \<noteq> of_nat k" if "k < n" for k
    using that assms(1) by (simp add: word_unat_eq_iff unat_of_nat take_bit_nat_eq_self)
  then have "[of_nat n] \<notin> set (m_merkle_leaves (stakes n))" unfolding assms(2) by (metis (no_types, lifting) atLeastLessThan_iff imageE list.inject list.set_map set_upt)
  then have "\<not> hasCommitment [of_nat n] (stakes n)"
    using has_iff_leaf [OF store_inv_reachable [OF stakes_reachable]] by blast
  then show ?thesis
    by (simp add: stakes_Suc addCommitment_def hasCommitment_def stake_def isElderfierRegistrationDeposit_def
        CommitmentEntry_new_def Let_def)
qed

lemma stakes_state:
  assumes "n \<le> 19"
  shows "m_merkle_leaves (stakes n) = map (\<lambda>k. [of_nat k]) [0..<n] \<and>
    m_pendingElderfierStakes (stakes n) = (if n = 0 then [] else
      [(''W'', \<lparr>ps_deposit_count = of_nat n, ps_total_amount = of_nat n * 44440000000, ps_signing_pubkey = [1], ps_alias = []\<rparr>)]) \<and>
    m_elderfierRegistrations (stakes n) = [] \<and> m_elderfier_ids (stakes n) = [] \<and>
    m_voidRegistrations (stakes n) = [] \<and> m_aliasIndex (stakes n) = None \<and> \<not> m_testnet (stakes n) \<and>
    m_signatures (stakes n) = [] \<and> m_slashProposals (stakes n) = [] \<and> m_doubleSignEvents (stakes n) = [] \<and> m_elderfierAddresses (stakes n) = []"
  using assms
proof (induction n)
  case 0
  show ?case by (simp add: stakes_def CommitmentIndex_new_def)
next
  case (Suc n)
  have "unat (1 + of_nat n :: u32) = Suc n"
    using Suc.prems unat_of_nat [of "Suc n", where ?'a = 32] by (simp add: take_bit_nat_eq_self)
  then have c: "\<not> (20 :: u32) \<le> 1 + of_nat n" using Suc.prems by (simp add: word_le_nat_alt)
  have "stakes (Suc n) = track_stake (stake n) (store_commitment (stake n) (stakes n))"
    using Suc by (intro stakes_add) simp_all
  moreover have "(case om_find (m_pendingElderfierStakes (stakes n)) ''W'' of
      None \<Rightarrow> PendingElderfierStake_new | Some p \<Rightarrow> p) =
    \<lparr>ps_deposit_count = of_nat n, ps_total_amount = of_nat n * 44440000000,
     ps_signing_pubkey = (if n = 0 then null_pod else [1]), ps_alias = []\<rparr>"
    "om_put ''W'' q (m_pendingElderfierStakes (stakes n)) = [(''W'', q)]" for q
    using Suc by (simp_all add: PendingElderfierStake_new_def om_find_def)
  ultimately show ?case using Suc c
    by (simp add: track_stake_def stake_def CommitmentEntry_new_def pending_after_def
        REGISTRATION_COUNT_def ELDERKING_TOTAL_DEPOSITS_def Let_def algebra_simps)
qed

lemma stakes_registered:
  "m_elderfierRegistrations (stakes 20) = [(''W'', new_registration ''W'' [1] [] 0)]"
  "m_signatures (stakes 20) = []" "m_slashProposals (stakes 20) = []" "m_doubleSignEvents (stakes 20) = []"
    "m_elderfierAddresses (stakes 20) = [(0, ''W'')]"
proof -
  note st = stakes_state [of 19]
  have "stakes (Suc 19) = track_stake (stake 19) (store_commitment (stake 19) (stakes 19))"
    using st by (intro stakes_add) simp_all
  moreover have "next_efid [] 0 = 0" by (simp add: next_efid.simps)
  ultimately show "m_elderfierRegistrations (stakes 20) = [(''W'', new_registration ''W'' [1] [] 0)]"
    "m_signatures (stakes 20) = []" "m_slashProposals (stakes 20) = []" "m_doubleSignEvents (stakes 20) = []"
    "m_elderfierAddresses (stakes 20) = [(0, ''W'')]" using st
    by (simp_all add: track_stake_def stake_def CommitmentEntry_new_def pending_after_def
        REGISTRATION_COUNT_def REGISTRATION_AMOUNT_def ELDERKING_TOTAL_DEPOSITS_def ELDERKING_CEREMONY_AMOUNT_def
        tryRegisterElderfier_def getActiveElderfierCount_def om_values_def om_has_def om_find_def Let_def)
qed

lemma void_example:
  "\<exists>s. ci_reachable accept_all s \<and> isAddressBlacklisted ''W'' 0 s"
proof -
  obtain r where r: "om_find (m_elderfierRegistrations (stakes 20)) ''W'' = Some r" "reg_elderfier_id r = 0" "reg_status r = ACTIVE"
    by (simp add: stakes_registered om_find_def new_registration_def)
  let ?s1 = "snd (initiateElderfierUnstaking ''W'' 0 1 1 (stakes 20))"
  let ?s2 = "snd (completeElderfierUnstaking ''W'' 0 9 ?s1)"
  have "ci_reachable accept_all ?s2"
    by (rule ci_next [OF ci_next [OF stakes_reachable step_initiate] step_complete])
  moreover have "om_inv (m_elderfierRegistrations (stakes 20))"
    using reg_invD(1) [OF reg_inv_reachable [OF stakes_reachable]] .
  then have "isAddressBlacklisted ''W'' 0 ?s2"
    using r by (simp add: initiateElderfierUnstaking_def completeElderfierUnstaking_def canCompleteUnstaking_def
        isAddressBlacklisted_def)
  ultimately show ?thesis by blast
qed

section \<open>Properties\<close>

text \<open>
  C8: in every state a run can reach, at most eight Elderfiers are active, no identifier is given to two
  registrations, the identifier list is that of the registrations, and no voided address is
  registered.
\<close>

theorem elderfier_registry_sound:
  assumes "ci_reachable cs s"
  shows "getActiveElderfierCount s \<le> 8 \<and> distinct (registered_ids s) \<and>
    set (m_elderfier_ids s) = set (registered_ids s) \<and>
    (isAddressBlacklisted a efid s \<longrightarrow> \<not> om_has (m_elderfierRegistrations s) a)"
proof -
  note d = reg_invD [OF reg_inv_reachable [OF assms]]
  have "distinct (registered_ids s)" using mset_eq_imp_distinct_iff [OF d(3)] d(2) by simp
  then show ?thesis using d(4,7) arg_cong [OF d(3), of set_mset]
    by (auto simp: isAddressBlacklisted_def om_has_def)
qed

theorem elderfier_registry_sound_witness:
  "getActiveElderfierCount (addCommitment sample_entry fresh_index) \<le> 8"
  using elderfier_registry_sound [OF sample_reachable] by blast

text \<open>
  Voiding is permanent. Once an address is voided, no sequence of calls in the rest of the run gives
  it a registration again: it stays voided, may not register and has status \<open>VOID\<close>.
\<close>

theorem void_is_permanent:
  assumes "ci_reachable cs s" "isAddressBlacklisted a efid s" "(ci_step cs)\<^sup>*\<^sup>* s t"
  shows "isAddressBlacklisted a efid t \<and> \<not> canAddressRegisterNewElderfier a t \<and> getElderfierStatus a j t = VOID"
proof -
  have v: "(a, efid) \<in> set (m_voidRegistrations t)"
    using void_steps [OF assms(3)] assms(2) by (auto simp: isAddressBlacklisted_def)
  have "om_find (m_elderfierRegistrations t) a = None"
    using reg_invD(7) [OF reg_inv_reachable [OF reachable_steps [OF assms(3,1)]] v] .
  then show ?thesis using v
    by (auto simp: isAddressBlacklisted_def canAddressRegisterNewElderfier_def
        getElderfierStatus_def om_has_def list_ex_iff intro!: bexI [of _ "(a, efid)"])
qed

theorem void_is_permanent_witness:
  "\<exists>s. isAddressBlacklisted ''W'' 0 s \<and> (ci_step accept_all)\<^sup>*\<^sup>* s (checkAndFlushThreshold s) \<and>
     \<not> canAddressRegisterNewElderfier ''W'' (checkAndFlushThreshold s)"
proof -
  obtain s where s: "ci_reachable accept_all s" "isAddressBlacklisted ''W'' 0 s" using void_example by blast
  have st: "(ci_step accept_all)\<^sup>*\<^sup>* s (checkAndFlushThreshold s)" by (rule r_into_rtranclp [of "ci_step accept_all", OF step_flush])
  from void_is_permanent [OF s st] s(2) st show ?thesis by blast
qed

text \<open>
  Unstaking respects the review window. If an Elderfier initiates unstaking at block \<open>b\<close> with window
  \<open>w\<close>, completing it succeeds exactly from block \<open>b + w\<close> on, and then voids the address.
\<close>

theorem unstaking_review_window:
  assumes "initiateElderfierUnstaking a efid b w s = (True, s1)" "om_inv (m_elderfierRegistrations s)"
    and "unat b + unat w < 4294967296"
    and "completeElderfierUnstaking a efid c s1 = (ok, s2)"
  shows "(ok \<longleftrightarrow> unat b + unat w \<le> unat c) \<and> (ok \<longrightarrow> isAddressBlacklisted a efid s2 \<and> getElderfierStatus a efid s2 = VOID)"
proof -
  obtain r where r: "reg_elderfier_id r = efid"
    "m_elderfierRegistrations s1 = om_put a (r\<lparr>reg_status := UNSTAKING, reg_unstaking_start_block := b,
       reg_unstaking_review_window := w\<rparr>) (m_elderfierRegistrations s)"
    using assms(1) by (auto simp: initiateElderfierUnstaking_def split: option.splits if_splits)
  have "unat (b + w) = unat b + unat w" using assms(3) by (simp add: unat_word_ariths)
  then have "b + w \<le> c \<longleftrightarrow> unat b + unat w \<le> unat c" by (simp add: word_le_nat_alt)
  then show ?thesis using assms(2,4) r
    by (auto simp: completeElderfierUnstaking_def canCompleteUnstaking_def isAddressBlacklisted_def
        getElderfierStatus_def split: if_splits)
qed

theorem unstaking_review_window_witness:
  "\<exists>s1 s2. initiateElderfierUnstaking ''W'' 0 100 1000 (stakes 20) = (True, s1) \<and>
     completeElderfierUnstaking ''W'' 0 1100 s1 = (True, s2) \<and> getElderfierStatus ''W'' 0 s2 = VOID"
proof -
  obtain r where r: "om_find (m_elderfierRegistrations (stakes 20)) ''W'' = Some r" "reg_elderfier_id r = 0" "reg_status r = ACTIVE"
    by (simp add: stakes_registered om_find_def new_registration_def)
  then obtain s1 where i: "initiateElderfierUnstaking ''W'' 0 100 1000 (stakes 20) = (True, s1)"
    by (simp add: initiateElderfierUnstaking_def)
  obtain ok s2 where c: "completeElderfierUnstaking ''W'' 0 1100 s1 = (ok, s2)" by fastforce
  have "om_inv (m_elderfierRegistrations (stakes 20))"
    using reg_invD(1) [OF reg_inv_reachable [OF stakes_reachable]] .
  then show ?thesis using unstaking_review_window [OF i _ _ c] i c by auto
qed

text \<open>
  The signers reported for the current root are genuine. In every reachable state each identifier is
  reported once, and each is backed by a cached signature of exactly the current root that verified under
  a non-null key.
\<close>

theorem signed_ids_genuine:
  assumes "ci_reachable cs s"
  shows "distinct (getSignedElderfierIds s) \<and>
    (\<forall>efid \<in> set (getSignedElderfierIds s). \<exists>sig pk. ((efid, podToHex (m_current_merkle_root s)), sig) \<in> set (m_signatures s) \<and>
       cs_elderfier_id sig = efid \<and> cs_merkle_root sig = m_current_merkle_root s \<and>
       pk \<noteq> null_pod \<and> cs (m_current_merkle_root s) pk (cs_signature sig))"
proof (intro conjI ballI)
  note f = first_of_each_ids [of "[]" "current_valid s"]
  show "distinct (getSignedElderfierIds s)" using f by (simp add: getSignedElderfierIds_def)
  fix efid assume "efid \<in> set (getSignedElderfierIds s)"
  then obtain h v where kv: "((efid, h), v) \<in> set (current_valid s)"
    using f by (force simp: getSignedElderfierIds_def)
  then have m: "((efid, h), v) \<in> set (m_signatures s)" and v: "h = podToHex (m_current_merkle_root s)" "cs_is_valid v"
    by (auto simp: current_valid_def)
  from sig_inv_member [OF sig_inv_reachable [OF assms] m]
  have "efid = cs_elderfier_id v" "h = podToHex (cs_merkle_root v)"
    "\<exists>pk. pk \<noteq> null_pod \<and> cs (cs_merkle_root v) pk (cs_signature v)" using v(2) by simp_all
  then show "\<exists>sig pk. ((efid, podToHex (m_current_merkle_root s)), sig) \<in> set (m_signatures s) \<and>
       cs_elderfier_id sig = efid \<and> cs_merkle_root sig = m_current_merkle_root s \<and>
       pk \<noteq> null_pod \<and> cs (m_current_merkle_root s) pk (cs_signature sig)"
    using v(1) m by (intro exI [of _ v]) auto
qed

theorem signed_ids_genuine_witness:
  "getSignedElderfierIds (updateCurrentMerkleRoot [7] (addSignatureToCache accept_all (sample_sig 7) (stakes 20))) = [0] \<and>
   (\<exists>sig. ((0, podToHex [7]), sig) \<in> set (m_signatures (updateCurrentMerkleRoot [7]
      (addSignatureToCache accept_all (sample_sig 7) (stakes 20)))) \<and> cs_merkle_root sig = [7])"
proof -
  let ?s = "updateCurrentMerkleRoot [7] (addSignatureToCache accept_all (sample_sig 7) (stakes 20))"
  have g: "getSignedElderfierIds ?s = [0]"
    by (simp add: updateCurrentMerkleRoot_def addSignatureToCache_def sample_sig_def stakes_registered verify_cached_def
        reg_by_id_def om_values_def new_registration_def getSignedElderfierIds_def current_valid_def Let_def)
  have r: "ci_reachable accept_all ?s"
    by (rule ci_next [OF ci_next [OF stakes_reachable step_signature] step_root])
  have "m_current_merkle_root ?s = [7]" by (simp add: updateCurrentMerkleRoot_def Let_def)
  then show ?thesis using signed_ids_genuine [OF r] g by auto
qed

text \<open>
  Double signing is detected, and nobody is accused without two signatures. A signature that verifies
  is recorded as a double sign exactly when the cache holds a valid signature of the same Elderfier at the
  same height for another root, and the recorded event names both roots.
\<close>

theorem double_sign_detected:
  assumes "ci_reachable cs s" "length (m_doubleSignEvents s) < 10000"
  shows "(if verify_cached cs sig s \<and>
        (\<exists>v. ((cs_elderfier_id sig, podToHex (cs_merkle_root v)), v) \<in> set (m_signatures s) \<and> cs_is_valid v \<and>
             cs_block_height v = cs_block_height sig \<and> cs_merkle_root v \<noteq> cs_merkle_root sig)
     then \<exists>ev. m_doubleSignEvents (addSignatureToCache cs sig s) = m_doubleSignEvents s @ [ev] \<and>
        ds_elderfier_id ev = cs_elderfier_id sig \<and> ds_root_b ev = cs_merkle_root sig \<and> ds_root_a ev \<noteq> ds_root_b ev \<and>
        (\<exists>v pk. ((cs_elderfier_id sig, podToHex (ds_root_a ev)), v) \<in> set (m_signatures s) \<and>
           pk \<noteq> null_pod \<and> cs (ds_root_a ev) pk (cs_signature v))
     else m_doubleSignEvents (addSignatureToCache cs sig s) = m_doubleSignEvents s)"
proof -
  note key = sig_inv_member [OF sig_inv_reachable [OF assms(1)]]
  have c: "(\<exists>kv \<in> set (m_signatures s). conflicting sig kv) \<longleftrightarrow>
      (\<exists>v. ((cs_elderfier_id sig, podToHex (cs_merkle_root v)), v) \<in> set (m_signatures s) \<and> cs_is_valid v \<and>
             cs_block_height v = cs_block_height sig \<and> cs_merkle_root v \<noteq> cs_merkle_root sig)"
    (is "?L \<longleftrightarrow> ?R")
  proof
    assume ?L
    then obtain i h v where "((i, h), v) \<in> set (m_signatures s)" "conflicting sig ((i, h), v)" by auto
    then show ?R using key(1,2) [of i h v] by (auto simp: conflicting_def)
  next
    assume ?R
    then obtain v where "((cs_elderfier_id sig, podToHex (cs_merkle_root v)), v) \<in> set (m_signatures s)" "cs_is_valid v"
      "cs_block_height v = cs_block_height sig" "cs_merkle_root v \<noteq> cs_merkle_root sig" by blast
    then show ?L by (intro bexI [of _ "((cs_elderfier_id sig, podToHex (cs_merkle_root v)), v)"]) (simp_all add: conflicting_def)
  qed
  show ?thesis
  proof (cases "List.find (conflicting sig) (m_signatures s)")
    case None
    then have "\<not> (\<exists>kv \<in> set (m_signatures s). conflicting sig kv)" by (auto simp: find_None_iff)
    then show ?thesis unfolding c [symmetric] using None
      by (simp only: simp_thms if_False addSignatureToCache_events option.case if_cancel)
  next
    case (Some kv)
    then have kv: "kv \<in> set (m_signatures s)" "conflicting sig kv" by (auto simp: find_Some_iff)
    obtain i h v where "kv = ((i, h), v)" by (cases kv) auto
    then have "((cs_elderfier_id sig, podToHex (cs_merkle_root v)), v) \<in> set (m_signatures s)" "snd kv = v"
      "cs_merkle_root v \<noteq> cs_merkle_root sig" "\<exists>pk. pk \<noteq> null_pod \<and> cs (cs_merkle_root v) pk (cs_signature v)"
      using kv key [of i h v] by (auto simp: conflicting_def)
    moreover have "\<exists>kv \<in> set (m_signatures s). conflicting sig kv" using kv by blast
    ultimately show ?thesis unfolding c [symmetric]
      using Some assms(2) by (auto simp: addSignatureToCache_events push_double_sign_def)
  qed
qed

theorem double_sign_detected_witness:
  "m_doubleSignEvents (addSignatureToCache accept_all (sample_sig 8)
     (addSignatureToCache accept_all (sample_sig 7) (stakes 20))) \<noteq> []"
proof -
  let ?s = "addSignatureToCache accept_all (sample_sig 7) (stakes 20)"
  have r: "ci_reachable accept_all ?s" by (rule ci_next [OF stakes_reachable step_signature])
  have e: "m_doubleSignEvents (stakes 20) = []" by (rule stakes_registered)
  have "m_doubleSignEvents ?s = []" "m_signatures ?s = [((0, podToHex [7]), (sample_sig 7)\<lparr>cs_is_valid := True\<rparr>)]"
    "verify_cached accept_all (sample_sig 8) ?s"
    by (simp_all add: addSignatureToCache_def sample_sig_def stakes_registered verify_cached_def
        reg_by_id_def om_values_def new_registration_def Let_def)
  then show ?thesis using double_sign_detected [OF r, of "sample_sig 8"]
    by (auto simp: sample_sig_def split: if_splits)
qed

lemma vote_reaches_quorum:
  assumes "ci_reachable cs s" "addSlashVote d efid reason b t s = (True, s')"
  shows "unat t * getActiveElderfierCount s' \<le> 100 * getSlashVoteCount d s' \<and> 0 < getActiveElderfierCount s' \<and>
    \<not> voter_is_accused (podToHex d) efid s \<and>
    (\<exists>p. om_find (m_slashProposals s') (podToHex d) = Some p \<and> efid \<in> set (sp_votingEfids p) \<and>
         distinct (sp_votingEfids p) \<and> \<not> sp_executed p)"
proof -
  have inv: "votes_ok s'"
    using votes_ok_vote [OF votes_ok_reachable [OF assms(1)], of d efid reason b t] assms(2) by simp
  have o: "om_inv (m_slashProposals s)" using votes_ok_reachable [OF assms(1)] by (simp add: votes_ok_def)
  have "m_elderfierRegistrations s' = m_elderfierRegistrations s"
    using assms(2) by (auto simp: addSlashVote_def Let_def split: if_splits option.splits)
  then have a: "getActiveElderfierCount s' \<le> 8" "getActiveElderfierCount s' = getActiveElderfierCount s"
    using reg_invD [OF reg_inv_reachable [OF assms(1)]] by (simp_all add: getActiveElderfierCount_def)
  obtain p where p: "om_find (m_slashProposals s') (podToHex d) = Some p" "efid \<in> set (sp_votingEfids p)"
      "\<not> sp_executed p" "\<not> voter_is_accused (podToHex d) efid s" "getActiveElderfierCount s' \<noteq> 0"
      "ucast t \<le> (of_nat (length (sp_votingEfids p)) * 100 div of_nat (getActiveElderfierCount s') :: u64)"
    using assms(2) o
    by (auto simp: addSlashVote_def getActiveElderfierCount_def SlashProposal_new_def Let_def split: if_splits option.splits)
  then have "distinct (sp_votingEfids p)" using inv by (auto simp: votes_ok_def)
  moreover from this have "unat t * getActiveElderfierCount s' \<le> length (sp_votingEfids p) * 100"
    using p(5,6) a by (subst percent_test [symmetric]) (simp_all add: u8_list_length)
  ultimately show ?thesis using p by (simp add: getSlashVoteCount_def)
qed

text \<open>
  A slash quorum is a real quorum. When a vote reports that the threshold is met, the proposal was not
  executed yet, the voter is not the accused, the vote is counted, and the distinct voters make up at least
  the required percentage of the active Elderfiers.
\<close>

theorem slash_vote_quorum:
  assumes "ci_reachable cs s" "addSlashVote d efid reason b t s = (True, s')"
  shows "unat t * getActiveElderfierCount s' \<le> 100 * getSlashVoteCount d s' \<and> 0 < getActiveElderfierCount s' \<and>
    \<not> voter_is_accused (podToHex d) efid s \<and>
    (\<exists>p. om_find (m_slashProposals s') (podToHex d) = Some p \<and> efid \<in> set (sp_votingEfids p) \<and>
         distinct (sp_votingEfids p) \<and> \<not> sp_executed p)"
  using vote_reaches_quorum [OF assms] .

theorem slash_vote_quorum_witness:
  "\<exists>s'. addSlashVote [9] 3 ''downtime'' 500 75 (stakes 20) = (True, s') \<and> getSlashVoteCount [9] s' = 1 \<and>
     unat (75 :: u8) * getActiveElderfierCount s' \<le> 100"
proof -
  have "\<not> voter_is_accused (podToHex [9]) 3 (stakes 20)"
    by (simp add: voter_is_accused_def stakes_registered om_values_def new_registration_def split: option.splits)
  then obtain s' where s': "addSlashVote [9] 3 ''downtime'' 500 75 (stakes 20) = (True, s')" "getSlashVoteCount [9] s' = 1"
    by (simp add: addSlashVote_def stakes_registered getActiveElderfierCount_def om_values_def new_registration_def
        SlashProposal_new_def getSlashVoteCount_def om_find_def Let_def)
  show ?thesis using slash_vote_quorum [OF stakes_reachable s'(1)] s' by (intro exI [of _ s']) simp
qed

end
