(* ===== verification/Efier_Rewards.thy ===== *)
theory Efier_Rewards
  imports Elderfier_Registry "HOL-Library.Multiset"
begin

text \<open>
  The distribution of the banking fees of a block to the active Elderfiers:
  \<open>CommitmentIndex::computePerBlockEfierRewards\<close> of \<open>src/src/CryptoNoteCore/CommitmentIndex.cpp\<close>. The
  function that parses an address string (\<open>Currency::parseAccountAddressString\<close>, which checks that the
  keys are curve points) is the argument \<open>parse\<close>; \<open>dust\<close> is \<open>Currency::defaultDustThreshold()\<close>.

  The shares are equal up to one atomic unit, add up to the whole fee and are never below the dust
  threshold; the shuffle seeded by the previous block's hash only permutes them.
\<close>

section \<open>Definitions\<close>

text \<open>The active registrations with an address that parses, as pairs of identifier and address.\<close>

definition active_efiers :: "(string \<Rightarrow> 'addr option) \<Rightarrow> CommitmentIndex \<Rightarrow> (u8 \<times> 'addr) list" where
  "active_efiers parse s =
     List.map_filter
       (\<lambda>reg. if reg_status reg \<noteq> ACTIVE then None
              else (case om_find (m_elderfierAddresses s) (reg_elderfier_id reg) of
                      None \<Rightarrow> None
                    | Some str \<Rightarrow> map_option (\<lambda>addr. (reg_elderfier_id reg, addr)) (parse str)))
       (om_values (m_elderfierRegistrations s))"

text \<open>The loop that pushes the shares, from index \<open>i\<close> on.\<close>

fun push_shares :: "u64 \<Rightarrow> u64 \<Rightarrow> nat \<Rightarrow> (u8 \<times> 'addr) list \<Rightarrow> ('addr \<times> u64) list" where
  "push_shares perEfier remainder i [] = []"
| "push_shares perEfier remainder i (e # es) =
     (let share = perEfier + (if of_nat i < remainder then 1 else 0)
      in if 0 < share then (snd e, share) # push_shares perEfier remainder (Suc i) es
         else push_shares perEfier remainder (Suc i) es)"

text \<open>\<open>std::memcpy(&r, rng.data, sizeof(r))\<close> on a little-endian machine.\<close>

definition first_u64 :: "hash \<Rightarrow> u64" where
  "first_u64 h = of_nat (horner_sum unat 256 (take 8 h))"

definition swap_at :: "nat \<Rightarrow> nat \<Rightarrow> 'a list \<Rightarrow> 'a list" where
  "swap_at i j xs = xs[i := xs ! j, j := xs ! i]"

text \<open>The Fisher-Yates loop; \<open>i\<close> counts down to 1.\<close>

fun shuffle :: "nat \<Rightarrow> hash \<Rightarrow> 'a list \<Rightarrow> 'a list" where
  "shuffle 0 rng rewards = rewards"
| "shuffle (Suc i) rng rewards =
     (let j = unat (first_u64 rng mod of_nat (Suc i + 1))
      in shuffle i (cn_fast_hash rng) (swap_at (Suc i) j rewards))"

definition computePerBlockEfierRewards ::
    "(string \<Rightarrow> 'addr option) \<Rightarrow> u64 \<Rightarrow> u64 \<Rightarrow> hash \<Rightarrow> CommitmentIndex \<Rightarrow> ('addr \<times> u64) list" where
  "computePerBlockEfierRewards parse dust bankingFees previousBlockHash s =
     (if bankingFees = 0 then []
      else
        let activeEfiers = active_efiers parse s
        in if activeEfiers = [] then []
           else
             let efiers = sort_key fst activeEfiers;
                 n = of_nat (length efiers);
                 perEfier = bankingFees div n;
                 remainder = bankingFees mod n
             in if perEfier < dust then []
                else
                  let rewards = push_shares perEfier remainder 0 efiers
                  in if 1 < length rewards
                     then shuffle (length rewards - 1) (cn_fast_hash previousBlockHash) rewards
                     else rewards)"

text \<open>Adding the extra unit to a share cannot wrap.\<close>

definition no_share_wrap :: "u64 \<Rightarrow> u64 \<Rightarrow> bool" where
  "no_share_wrap per r \<longleftrightarrow> 0 < per \<and> (r = 0 \<or> unat per < 18446744073709551615)"

section \<open>The shuffle\<close>

lemma mset_swap_at: "i < length xs \<Longrightarrow> j < length xs \<Longrightarrow> mset (swap_at i j xs) = mset xs"
  unfolding swap_at_def by (rule mset_swap)

lemma shuffle_index:
  assumes "i < 4294967296"
  shows "unat (first_u64 rng mod of_nat (Suc i)) < Suc i"
proof -
  have "unat (of_nat (Suc i) :: u64) = Suc i" using assms by (simp only: unat_of_nat) (simp add: take_bit_nat_eq_self)
  then show ?thesis by (simp add: unat_mod_distrib del: of_nat_Suc)
qed

lemma mset_shuffle:
  "i < length xs \<Longrightarrow> length xs < 4294967296 \<Longrightarrow> mset (shuffle i rng xs) = mset xs"
proof (induction i rng xs rule: shuffle.induct)
  case (2 i rng xs)
  let ?j = "unat (first_u64 rng mod of_nat (Suc i + 1))"
  have j: "?j < Suc (Suc i)" using 2(2,3) shuffle_index [of "Suc i" rng] by (simp del: of_nat_Suc)
  have "mset (shuffle i (cn_fast_hash rng) (swap_at (Suc i) ?j xs)) = mset (swap_at (Suc i) ?j xs)"
    using 2(2,3) by (intro 2(1)) (simp_all add: swap_at_def)
  also have "\<dots> = mset xs" using 2(2) j by (intro mset_swap_at) simp_all
  finally show ?case by (simp only: shuffle.simps Let_def)
qed simp

lemma sum_list_perm:
  fixes f :: "'a \<Rightarrow> nat"
  assumes "mset xs = mset ys"
  shows "sum_list (map f xs) = sum_list (map f ys)"
  using arg_cong [OF assms, of "image_mset f"] by (simp add: sum_mset_sum_list flip: mset_map) (metis sum_mset_sum_list)

section \<open>The shares\<close>

lemma share_value:
  assumes "no_share_wrap per r" "i < 4294967296"
  shows "unat (per + (if of_nat i < r then 1 else 0)) = unat per + (if i < unat r then 1 else 0)"
    "0 < per + (if of_nat i < r then 1 else 0)"
proof -
  have "unat (of_nat i :: u64) = i" using assms(2) by (simp add: unat_of_nat take_bit_nat_eq_self)
  then have c: "of_nat i < r \<longleftrightarrow> i < unat r" by (simp add: word_less_nat_alt)
  have "unat (per + 1) = unat per + 1" if "i < unat r"
    using assms(1) that unat_add_no_wrap [of per 1] by (auto simp: no_share_wrap_def)
  then show v: "unat (per + (if of_nat i < r then 1 else 0)) = unat per + (if i < unat r then 1 else 0)"
    using c by simp
  have "0 < unat per" using assms(1) by (simp add: no_share_wrap_def word_less_nat_alt)
  then show "0 < per + (if of_nat i < r then 1 else 0)"
    using v by (metis add_gr_0 unat_0 word_less_nat_alt)
qed

lemma push_shares_spec:
  assumes "no_share_wrap per r" "i + length es < 4294967296"
  shows "map fst (push_shares per r i es) = map snd es \<and>
    (\<forall>e \<in> set (push_shares per r i es). unat (snd e) \<in> {unat per, unat per + 1}) \<and>
    sum_list (map (\<lambda>r. unat (snd r)) (push_shares per r i es)) =
      length es * unat per + (min (unat r) (i + length es) - min (unat r) i)"
  using assms(2)
proof (induction es arbitrary: i)
  case (Cons e es)
  have "i < 4294967296" using Cons.prems by simp
  note sv = share_value [OF assms(1) this]
  note ih = Cons.IH [of "Suc i"]
  have ih: "map fst (push_shares per r (Suc i) es) = map snd es"
    "\<forall>e \<in> set (push_shares per r (Suc i) es). unat (snd e) \<in> {unat per, unat per + 1}"
    "sum_list (map (\<lambda>r. unat (snd r)) (push_shares per r (Suc i) es)) =
      length es * unat per + (min (unat r) (Suc i + length es) - min (unat r) (Suc i))"
    using ih Cons.prems by simp_all
  have p: "push_shares per r i (e # es) =
      (snd e, per + (if of_nat i < r then 1 else 0)) # push_shares per r (Suc i) es"
    using sv(2) by (simp only: push_shares.simps Let_def if_True)
  show ?case unfolding p using ih sv(1) by (auto simp: min_def)
qed simp

lemma length_map_filter_le:
  "(\<And>x. f x \<noteq> None \<Longrightarrow> P x) \<Longrightarrow> length (List.map_filter f xs) \<le> length (filter P xs)"
  by (induction xs) (auto simp: map_filter_simps split: option.split)

lemma active_efiers_length: "length (active_efiers parse s) \<le> getActiveElderfierCount s"
  unfolding active_efiers_def getActiveElderfierCount_def
  by (rule length_map_filter_le) (simp split: if_splits)

text \<open>The shares of a list of Elderfiers whose equal share is not dust.\<close>

lemma share_units:
  fixes fees dust :: u64
  assumes "length es \<le> 8" "es \<noteq> []"
  defines "n \<equiv> of_nat (length es) :: u64"
  shows "unat (fees div n) = unat fees div length es" "unat (fees mod n) = unat fees mod length es"
proof -
  have "unat n = length es" using assms(1) by (simp add: n_def unat_of_nat take_bit_nat_eq_self)
  then show "unat (fees div n) = unat fees div length es" "unat (fees mod n) = unat fees mod length es"
    by (simp_all add: unat_div_distrib unat_mod_distrib)
qed

lemma share_fits:
  fixes fees :: u64
  assumes "es \<noteq> []" "unat fees mod length es \<noteq> 0"
  shows "unat fees div length es < 18446744073709551615"
proof -
  have "length es \<noteq> 1" using assms(2) by auto
  then have "2 \<le> length es" using assms(1) by (cases es) (auto simp: Suc_le_eq)
  then have "unat fees div length es \<le> unat fees div 2" by (rule div_le_mono2 [rotated]) simp
  then show ?thesis using unat_u64_le [of fees] by linarith
qed

lemma shares_spec:
  fixes fees dust :: u64
  assumes "length es \<le> 8" "es \<noteq> []" "unat dust \<le> unat fees div length es" "0 < dust"
  defines "sh \<equiv> push_shares (fees div of_nat (length es)) (fees mod of_nat (length es)) 0 (sort_key fst es)"
  shows "mset (map fst sh) = mset (map snd es)" "sum_list (map (\<lambda>r. unat (snd r)) sh) = unat fees"
    "\<forall>r \<in> set sh. unat (snd r) \<in> {unat fees div length es, unat fees div length es + 1}" "length sh = length es"
proof -
  note per = share_units [OF assms(1,2), of fees]
  have w: "no_share_wrap (fees div of_nat (length es)) (fees mod of_nat (length es))"
    using assms(3,4) share_fits [OF assms(2), of fees]
    by (auto simp: no_share_wrap_def word_less_nat_alt per simp flip: unat_eq_0)
  have sp: "map fst sh = map snd (sort_key fst es)"
    "\<forall>e \<in> set sh. unat (snd e) \<in> {unat fees div length es, unat fees div length es + 1}"
    "sum_list (map (\<lambda>r. unat (snd r)) sh) = length es * (unat fees div length es) + min (unat fees mod length es) (length es)"
    using push_shares_spec [OF w, of 0 "sort_key fst es"] assms(1) by (simp_all add: per sh_def)
  show "mset (map fst sh) = mset (map snd es)" using arg_cong [OF sp(1), of mset] by simp
  show "sum_list (map (\<lambda>r. unat (snd r)) sh) = unat fees" using sp(3) assms(2) by (simp add: min_absorb1 less_imp_le)
  show "\<forall>r \<in> set sh. unat (snd r) \<in> {unat fees div length es, unat fees div length es + 1}" by (rule sp(2))
  show "length sh = length es" using sp(1) by (metis length_map length_sort)
qed

lemma rewards_split:
  fixes parse :: "string \<Rightarrow> 'addr option" and fees dust :: u64 and prev :: hash
  assumes "ci_reachable cs s" "0 < dust"
  defines "es \<equiv> active_efiers parse s"
    and "rewards \<equiv> computePerBlockEfierRewards parse dust fees prev s"
  shows "if es \<noteq> [] \<and> unat dust \<le> unat fees div length es
     then mset (map fst rewards) = mset (map snd es) \<and>
       sum_list (map (\<lambda>r. unat (snd r)) rewards) = unat fees \<and>
       (\<forall>r \<in> set rewards. unat (snd r) \<in> {unat fees div length es, unat fees div length es + 1} \<and> dust \<le> snd r)
     else rewards = []"
proof (cases "es = [] \<or> fees = 0")
  case True
  then show ?thesis using assms(2)
    by (auto simp: rewards_def computePerBlockEfierRewards_def es_def Let_def word_less_nat_alt)
next
  case False
  let ?n = "of_nat (length es) :: u64" and ?per = "unat fees div length es"
  let ?sh = "push_shares (fees div ?n) (fees mod ?n) 0 (sort_key fst es)"
  have l: "length es \<le> 8" unfolding es_def
    using active_efiers_length reg_invD(4) [OF reg_inv_reachable [OF assms(1)]] by (rule order_trans)
  have d: "fees div ?n < dust \<longleftrightarrow> \<not> unat dust \<le> ?per"
    using share_units(1) [OF l] False by (simp add: word_less_nat_alt not_le)
  have r: "rewards = (if fees div ?n < dust then [] else
      if 1 < length ?sh then shuffle (length ?sh - 1) (cn_fast_hash prev) ?sh else ?sh)"
    using False by (simp add: rewards_def computePerBlockEfierRewards_def es_def Let_def)
  show ?thesis
  proof (cases "unat dust \<le> ?per")
    case True
    note sp = shares_spec [OF l _ True assms(2)]
    have m: "mset rewards = mset ?sh"
      using r d True False l mset_shuffle [of "length ?sh - 1" ?sh] sp(4) by simp
    have "sum_list (map (\<lambda>r. unat (snd r)) rewards) = unat fees" using sum_list_perm [OF m] sp(2) False by simp
    moreover have "mset (map fst rewards) = mset (map snd es)" using sp(1) m False by simp
    moreover have "set rewards = set ?sh" using m by (metis set_mset_mset)
    ultimately show ?thesis using True False sp(3) by (auto simp: word_le_nat_alt)
  qed (use r d in simp)
qed

section \<open>Properties\<close>

text \<open>
  The banking fees of a block are split fairly and completely. In every reachable state, when the
  call pays anything at all, it pays each active Elderfier with a valid address exactly once, the shares
  add up to the fee, differ by at most one atomic unit and are not dust; and it pays whenever there is an
  active Elderfier and an equal share is not dust.
\<close>

theorem efier_rewards_split:
  fixes parse :: "string \<Rightarrow> 'addr option" and fees dust :: u64 and prev :: hash
  assumes "ci_reachable cs s" "0 < dust"
  defines "es \<equiv> active_efiers parse s"
    and "rewards \<equiv> computePerBlockEfierRewards parse dust fees prev s"
  shows "if es \<noteq> [] \<and> unat dust \<le> unat fees div length es
     then mset (map fst rewards) = mset (map snd es) \<and>
       sum_list (map (\<lambda>r. unat (snd r)) rewards) = unat fees \<and>
       (\<forall>r \<in> set rewards. unat (snd r) \<in> {unat fees div length es, unat fees div length es + 1} \<and> dust \<le> snd r)
     else rewards = []"
  using rewards_split [OF assms(1,2)] unfolding es_def rewards_def .

theorem efier_rewards_split_witness:
  "computePerBlockEfierRewards Some 1000 8000 null_pod (stakes 20) = [(''W'', 8000)] \<and>
   sum_list (map (\<lambda>r. unat (snd r)) (computePerBlockEfierRewards Some 1000 8000 null_pod (stakes 20))) = 8000"
proof -
  have a: "active_efiers Some (stakes 20) = [(0, ''W'')]"
    by (simp add: active_efiers_def stakes_registered om_values_def new_registration_def om_find_def map_filter_simps)
  show ?thesis
    using efier_rewards_split [OF stakes_reachable [of 20], of 1000 Some 8000 null_pod] a
    by (simp add: computePerBlockEfierRewards_def)
qed

end
