(* ===== verification/Money_Amounts.thy ===== *)
theory Money_Amounts
  imports Fuego_Prelude "HOL-Library.Multiset"
begin

text \<open>
  Amounts of money: their decomposition into outputs and their text form.

  \<^item> \<open>decompose_amount_into_digits\<close>, \<open>decompose_amount_uniform\<close> of
    \<open>src/src/CryptoNoteCore/CryptoNoteFormatUtils.h\<close>, \<open>decomposeAmount\<close> of \<open>CryptoNoteTools.cpp\<close>,
    \<open>is_valid_decomposed_amount\<close> of \<open>CryptoNoteFormatUtils.cpp\<close> and \<open>PRETTY_AMOUNTS\<close> of \<open>Currency.cpp\<close>;
  \<^item> \<open>formatAmount\<close> and \<open>parseAmount\<close> of \<open>Currency.cpp\<close>.

  The two callbacks of \<open>decompose_amount_into_digits\<close> are the two constructors of its result list, in
  the order the calls are made. Decomposition loses nothing and yields round amounts; parsing is exact
  on decimal fractions and inverts formatting.
\<close>

section \<open>Decomposition into decimal digits\<close>

datatype decomposed = Chunk (part: u64) | Dust (part: u64)

text \<open>The loop, with the amount left, the order of the digit, the dust so far and the flag that the dust
  was handed out.\<close>

function digits_loop :: "u64 \<Rightarrow> u64 \<Rightarrow> u64 \<Rightarrow> bool \<Rightarrow> u64 \<Rightarrow> decomposed list" where
  "digits_loop amount order dust is_dust_handled dust_threshold =
     (if amount = 0 then (if \<not> is_dust_handled \<and> dust \<noteq> 0 then [Dust dust] else [])
      else
        let chunk = (amount mod 10) * order;
            amount' = amount div 10;
            order' = order * 10
        in if dust + chunk \<le> dust_threshold
           then digits_loop amount' order' (dust + chunk) is_dust_handled dust_threshold
           else
             (if \<not> is_dust_handled \<and> dust \<noteq> 0 then [Dust dust] else []) @
             (if chunk \<noteq> 0 then [Chunk chunk] else []) @
             digits_loop amount' order' dust (is_dust_handled \<or> dust \<noteq> 0) dust_threshold)"
  by pat_completeness auto
termination
  by (relation "measure (\<lambda>(amount, _). unat amount)")
    (auto simp: unat_div_distrib intro!: div_less_dividend simp flip: unat_gt_0)

declare digits_loop.simps [simp del]

definition decompose_amount_into_digits :: "u64 \<Rightarrow> u64 \<Rightarrow> decomposed list" where
  "decompose_amount_into_digits amount dust_threshold =
     (if amount = 0 then [] else digits_loop amount 1 0 False dust_threshold)"

definition decomposeAmount :: "u64 \<Rightarrow> u64 \<Rightarrow> u64 list" where
  "decomposeAmount amount dustThreshold = map part (decompose_amount_into_digits amount dustThreshold)"

section \<open>Uniform decomposition\<close>

definition tiers :: "u64 list" where
  "tiers = [10000000, 1000000, 100000, 10000, 1000]"

text \<open>The inner loop pushes the tier as often as it fits; it returns the pushed part and the rest. No
  tier is 0; the guard on it makes the recursion total.\<close>

function push_tier :: "u64 \<Rightarrow> u64 \<Rightarrow> u64 list \<times> u64" where
  "push_tier tier amount =
     (if tier \<noteq> 0 \<and> tier \<le> amount
      then (case push_tier tier (amount - tier) of (out, rest) \<Rightarrow> (tier # out, rest))
      else ([], amount))"
  by pat_completeness auto
termination
  by (relation "measure (\<lambda>(_, amount). unat amount)") (auto simp: unat_sub word_le_nat_alt intro!: diff_less simp flip: unat_eq_0)

declare push_tier.simps [simp del]

fun push_tiers :: "u64 list \<Rightarrow> u64 \<Rightarrow> u64 \<Rightarrow> u64 list \<times> u64" where
  "push_tiers [] dust_threshold amount = ([], amount)"
| "push_tiers (tier # ts) dust_threshold amount =
     (if tier < dust_threshold then ([], amount)
      else
        (case push_tier tier amount of (out, amount') \<Rightarrow>
           (case push_tiers ts dust_threshold amount' of (out', rest) \<Rightarrow> (out @ out', rest))))"

definition decompose_amount_uniform :: "u64 \<Rightarrow> u64 \<Rightarrow> u64 list" where
  "decompose_amount_uniform amount dust_threshold =
     (if amount = 0 then []
      else
        (case push_tiers tiers dust_threshold amount of (out, rest) \<Rightarrow>
           if 0 < rest
           then (if out \<noteq> [] then butlast out @ [last out + rest] else [rest])
           else out))"

section \<open>Round amounts\<close>

definition PRETTY_AMOUNTS :: "u64 list" where
  "PRETTY_AMOUNTS =
   [1, 2, 3, 4, 5, 6, 7, 8, 9, 10, 20, 30, 40, 50, 60, 70, 80, 90, 100, 200, 300, 400, 500, 600, 700, 800,
    900, 1000, 2000, 3000, 4000, 5000, 6000, 7000, 8000, 9000, 10000, 20000, 30000, 40000, 50000, 60000,
    70000, 80000, 90000, 100000, 200000, 300000, 400000, 500000, 600000, 700000, 800000, 900000, 1000000,
    2000000, 3000000, 4000000, 5000000, 6000000, 7000000, 8000000, 9000000, 10000000, 20000000, 30000000,
    40000000, 50000000, 60000000, 70000000, 80000000, 90000000, 100000000, 200000000, 300000000, 400000000,
    500000000, 600000000, 700000000, 800000000, 900000000, 1000000000, 2000000000, 3000000000, 4000000000,
    5000000000, 6000000000, 7000000000, 8000000000, 9000000000, 10000000000, 20000000000, 30000000000,
    40000000000, 50000000000, 60000000000, 70000000000, 80000000000, 90000000000, 100000000000,
    200000000000, 300000000000, 400000000000, 500000000000, 600000000000, 700000000000, 800000000000,
    900000000000, 1000000000000, 2000000000000, 3000000000000, 4000000000000, 5000000000000, 6000000000000,
    7000000000000, 8000000000000, 9000000000000, 10000000000000, 20000000000000, 30000000000000,
    40000000000000, 50000000000000, 60000000000000, 70000000000000, 80000000000000, 90000000000000,
    100000000000000, 200000000000000, 300000000000000, 400000000000000, 500000000000000, 600000000000000,
    700000000000000, 800000000000000, 900000000000000, 1000000000000000, 2000000000000000,
    3000000000000000, 4000000000000000, 5000000000000000, 6000000000000000, 7000000000000000,
    8000000000000000, 9000000000000000, 10000000000000000, 20000000000000000, 30000000000000000,
    40000000000000000, 50000000000000000, 60000000000000000, 70000000000000000, 80000000000000000,
    90000000000000000, 100000000000000000, 200000000000000000, 300000000000000000, 400000000000000000,
    500000000000000000, 600000000000000000, 700000000000000000, 800000000000000000, 900000000000000000,
    1000000000000000000, 2000000000000000000, 3000000000000000000, 4000000000000000000,
    5000000000000000000, 6000000000000000000, 7000000000000000000, 8000000000000000000,
    9000000000000000000, 10000000000000000000]"

text \<open>\<open>std::lower_bound\<close> on a sorted vector: the index of the first element that is not less.\<close>

definition lower_bound_index :: "u64 list \<Rightarrow> u64 \<Rightarrow> nat" where
  "lower_bound_index xs amount = length (takeWhile (\<lambda>x. x < amount) xs)"

definition is_valid_decomposed_amount :: "u64 \<Rightarrow> bool" where
  "is_valid_decomposed_amount amount =
     (let it = lower_bound_index PRETTY_AMOUNTS amount
      in if it = length PRETTY_AMOUNTS \<or> amount \<noteq> PRETTY_AMOUNTS ! it then False else True)"

section \<open>Text form\<close>

definition formatAmount :: "nat \<Rightarrow> u64 \<Rightarrow> string" where
  "formatAmount numberOfDecimalPlaces amount =
     (let s = to_string (unat amount);
          s1 = (if length s < numberOfDecimalPlaces + 1
                then replicate (numberOfDecimalPlaces + 1 - length s) CHR ''0'' @ s else s);
          p = length s1 - numberOfDecimalPlaces
      in take p s1 @ ''.'' @ drop p s1)"

definition formatAmount_int64 :: "nat \<Rightarrow> int \<Rightarrow> string" where
  "formatAmount_int64 numberOfDecimalPlaces amount =
     (let s = formatAmount numberOfDecimalPlaces (of_int \<bar>amount\<bar>)
      in if amount < 0 then ''-'' @ s else s)"

text \<open>\<open>boost::algorithm::trim\<close> and \<open>isdigit\<close> in the classic locale.\<close>

definition is_space :: "char \<Rightarrow> bool" where
  "is_space c \<longleftrightarrow> of_char c \<in> {9, 10, 11, 12, 13, 32 :: nat}"

definition trim :: "string \<Rightarrow> string" where
  "trim s = rev (dropWhile is_space (rev (dropWhile is_space s)))"

definition is_digit :: "char \<Rightarrow> bool" where
  "is_digit c \<longleftrightarrow> 48 \<le> (of_char c :: nat) \<and> (of_char c :: nat) \<le> 57"

definition digits_value :: "string \<Rightarrow> nat" where
  "digits_value s = foldl (\<lambda>v c. v * 10 + (of_char c - 48)) 0 s"

text \<open>\<open>Common::fromString<uint64_t>\<close> on a string of digits: the stream fails on overflow.\<close>

definition fromString_u64 :: "string \<Rightarrow> u64 option" where
  "fromString_u64 s = (if digits_value s < 18446744073709551616 then Some (of_nat (digits_value s)) else None)"

text \<open>The loop that drops zeros beyond the last decimal place; the size of the fraction goes along.\<close>

function drop_zeros :: "nat \<Rightarrow> string \<Rightarrow> nat \<Rightarrow> string \<times> nat" where
  "drop_zeros numberOfDecimalPlaces strAmount fractionSize =
     (if numberOfDecimalPlaces < fractionSize \<and> strAmount \<noteq> [] \<and> last strAmount = CHR ''0''
      then drop_zeros numberOfDecimalPlaces (butlast strAmount) (fractionSize - 1)
      else (strAmount, fractionSize))"
  by pat_completeness auto
termination by (relation "measure (\<lambda>(_, _, n). n)") auto

declare drop_zeros.simps [simp del]

definition parseAmount :: "nat \<Rightarrow> string \<Rightarrow> u64 option" where
  "parseAmount numberOfDecimalPlaces str =
     (let strAmount = trim str;
          pointIndex = length (takeWhile (\<lambda>c. c \<noteq> CHR ''.'') strAmount);
          (strAmount, fractionSize) =
            (if pointIndex < length strAmount
             then drop_zeros numberOfDecimalPlaces strAmount (length strAmount - pointIndex - 1)
             else (strAmount, 0))
      in if numberOfDecimalPlaces < fractionSize then None
         else
           let strAmount = (if pointIndex < length strAmount
                            then take pointIndex strAmount @ drop (Suc pointIndex) strAmount else strAmount)
           in if strAmount = [] then None
              else if \<not> list_all is_digit strAmount then None
              else
                let strAmount = (if fractionSize < numberOfDecimalPlaces
                                 then strAmount @ replicate (numberOfDecimalPlaces - fractionSize) CHR ''0''
                                 else strAmount)
                in fromString_u64 strAmount)"

text \<open>The state of the digit loop at the digit of order \<open>10 ^ k\<close>: nothing has wrapped.\<close>

definition digit_state :: "nat \<Rightarrow> u64 \<Rightarrow> u64 \<Rightarrow> u64 \<Rightarrow> bool" where
  "digit_state k a order d \<longleftrightarrow> (a \<noteq> 0 \<longrightarrow> unat order = 10 ^ k) \<and>
     unat d + unat a * 10 ^ k < 18446744073709551616 \<and> unat d < 10 ^ k"

definition is_digit_amount :: "u64 \<Rightarrow> bool" where
  "is_digit_amount a \<longleftrightarrow> (\<exists>m k. 1 \<le> m \<and> m \<le> 9 \<and> unat a = m * 10 ^ k)"

section \<open>The digit loop\<close>

lemma digits_step:
  assumes "digit_state k a order d" "a \<noteq> 0"
  defines "chunk \<equiv> (a mod 10) * order"
  shows "unat chunk = unat a mod 10 * 10 ^ k" "unat (d + chunk) = unat d + unat chunk"
    and "digit_state (Suc k) (a div 10) (order * 10) (d + chunk)"
    and "digit_state (Suc k) (a div 10) (order * 10) d"
    and "unat a * 10 ^ k = unat chunk + unat (a div 10) * 10 ^ Suc k"
proof -
  have o: "unat order = 10 ^ k" and b: "unat d + unat a * 10 ^ k < 18446744073709551616" "unat d < 10 ^ k"
    using assms by (auto simp: digit_state_def)
  have split: "unat a * 10 ^ k = unat a mod 10 * 10 ^ k + unat a div 10 * 10 ^ Suc k"
  proof -
    have "unat a * 10 ^ k = (unat a mod 10 + unat a div 10 * 10) * 10 ^ k" by simp
    then show ?thesis by (simp only: add_mult_distrib power_Suc mult.assoc)
  qed
  show c: "unat chunk = unat a mod 10 * 10 ^ k"
    unfolding chunk_def using b split by (subst unat_mult_no_wrap) (simp_all add: unat_mod_distrib o)
  show e: "unat (d + chunk) = unat d + unat chunk"
    using b split by (subst unat_add_no_wrap) (simp_all add: c)
  have "unat a mod 10 \<le> 9" by simp
  then have "unat a mod 10 * 10 ^ k \<le> 9 * 10 ^ k" by (rule mult_le_mono1)
  then have l: "unat d + unat chunk < 10 ^ Suc k" using b unfolding c power_Suc by linarith
  have q: "unat (a div 10) = unat a div 10" by (simp add: unat_div_distrib)
  have r: "unat (order * 10) = 10 ^ Suc k" if "a div 10 \<noteq> 0"
  proof -
    have "1 \<le> unat a div 10" using that q by (metis One_nat_def Suc_leI unat_gt_0 unsigned_0)
    then have "10 ^ Suc k \<le> unat a div 10 * 10 ^ Suc k" by simp
    then have "10 ^ k * 10 < (18446744073709551616 :: nat)" using b split unfolding power_Suc by linarith
    then show ?thesis by (subst unat_mult_no_wrap) (simp_all add: o)
  qed
  show "digit_state (Suc k) (a div 10) (order * 10) (d + chunk)"
    using r l b split by (simp add: digit_state_def e c q)
  show "digit_state (Suc k) (a div 10) (order * 10) d"
    using r l b split by (simp add: digit_state_def q)
  show "unat a * 10 ^ k = unat chunk + unat (a div 10) * 10 ^ Suc k" using split by (simp add: c q)
qed

lemma digits_loop_unfold:
  "digits_loop 0 order d h t = (if \<not> h \<and> d \<noteq> 0 then [Dust d] else [])"
  "a \<noteq> 0 \<Longrightarrow> d + (a mod 10) * order \<le> t \<Longrightarrow>
   digits_loop a order d h t = digits_loop (a div 10) (order * 10) (d + (a mod 10) * order) h t"
  "a \<noteq> 0 \<Longrightarrow> \<not> d + (a mod 10) * order \<le> t \<Longrightarrow>
   digits_loop a order d h t =
     (if \<not> h \<and> d \<noteq> 0 then [Dust d] else []) @
     (if (a mod 10) * order \<noteq> 0 then [Chunk ((a mod 10) * order)] else []) @
     digits_loop (a div 10) (order * 10) d (h \<or> d \<noteq> 0) t"
  by (simp_all add: digits_loop.simps Let_def)

lemma digits_loop_induct [case_names stop below above]:
  fixes a order d t :: u64
  assumes "\<And>order d h. P 0 order d h"
    and "\<And>a order d h. a \<noteq> 0 \<Longrightarrow> d + (a mod 10) * order \<le> t \<Longrightarrow>
      P (a div 10) (order * 10) (d + (a mod 10) * order) h \<Longrightarrow> P a order d h"
    and "\<And>a order d h. a \<noteq> 0 \<Longrightarrow> \<not> d + (a mod 10) * order \<le> t \<Longrightarrow>
      P (a div 10) (order * 10) d (h \<or> d \<noteq> 0) \<Longrightarrow> P a order d h"
  shows "P a order d h"
proof (induction "unat a" arbitrary: a order d h rule: less_induct)
  case less
  have "unat (a div 10) < unat a" if "a \<noteq> 0"
    using that by (simp add: unat_div_distrib div_less_dividend unat_gt_0)
  then show ?case using assms less by (cases "a = 0") blast+
qed

text \<open>A digit at order \<open>10 ^ k\<close> is 0 or at least \<open>10 ^ k\<close>.\<close>

lemma digit_chunk:
  assumes "digit_state k a order d" "a \<noteq> 0" "(a mod 10) * order \<noteq> 0"
  shows "10 ^ k \<le> unat ((a mod 10) * order)" "is_digit_amount ((a mod 10) * order)"
    "unat ((a mod 10) * order) < 10 ^ Suc k"
proof -
  note c = digits_step(1) [OF assms(1,2)]
  have "unat ((a mod 10) * order) \<noteq> 0" using assms(3) by (simp add: unat_eq_0)
  then have "1 \<le> unat a mod 10" unfolding c by (cases "unat a mod 10") simp_all
  moreover have "unat a mod 10 \<le> 9" by simp
  ultimately show "is_digit_amount ((a mod 10) * order)" "10 ^ k \<le> unat ((a mod 10) * order)"
    unfolding is_digit_amount_def c by (blast, simp)
  show "unat ((a mod 10) * order) < 10 ^ Suc k" unfolding c by simp
qed

text \<open>Past the threshold only chunks follow, and they are at least of the current order.\<close>

lemma digits_loop_chunks:
  "digit_state k a order d \<Longrightarrow> h \<or> d = 0 \<Longrightarrow> unat t < 10 ^ k \<Longrightarrow>
   e \<in> set (digits_loop a order d h t) \<Longrightarrow> (\<exists>c. e = Chunk c) \<and> 10 ^ k \<le> unat (part e)"
proof (induction a order d h arbitrary: k rule: digits_loop_induct [where t = t])
  case (stop order d h)
  then show ?case by (auto simp: digits_loop_unfold split: if_splits)
next
  case (below a order d h)
  have "(a mod 10) * order = 0"
    using digit_chunk(1) [OF below(4,1)] digits_step(2) [OF below(4,1)] below(2,6) by (auto simp: word_le_nat_alt)
  then show ?case
    using below(3) [of "Suc k"] digits_step(3) [OF below(4,1)] below by (fastforce simp: digits_loop_unfold)
next
  case (above a order d h)
  have "e \<in> set (digits_loop (a div 10) (order * 10) d (h \<or> d \<noteq> 0) t) \<Longrightarrow> (\<exists>c. e = Chunk c) \<and> 10 ^ Suc k \<le> unat (part e)"
    using above(3) [OF digits_step(4) [OF above(4,1)]] above(6) by simp
  moreover have "(10 :: nat) ^ k \<le> 10 ^ Suc k" by simp
  ultimately show ?case
    using above(5,7) digit_chunk(1) [OF above(4,1)]
    by (auto simp: digits_loop_unfold(3) [OF above(1,2)] split: if_splits)
qed

text \<open>The parts add up, apart from dust that was handed out before.\<close>

lemma digits_loop_sum:
  "digit_state k a order d \<Longrightarrow> h \<Longrightarrow> unat t < 10 ^ k \<Longrightarrow>
   sum_list (map (\<lambda>e. unat (part e)) (digits_loop a order d h t)) = unat a * 10 ^ k"
  "digit_state k a order d \<Longrightarrow> \<not> h \<Longrightarrow>
   sum_list (map (\<lambda>e. unat (part e)) (digits_loop a order d h t)) = unat d + unat a * 10 ^ k"
proof (induction a order d h arbitrary: k rule: digits_loop_induct [where t = t])
  case (stop order d h)
  { case 1 then show ?case by (simp add: digits_loop_unfold) }
  { case 2 then show ?case by (simp add: digits_loop_unfold) }
next
  case (below a order d h)
  { case 1
    have "(a mod 10) * order = 0"
      using digit_chunk(1) [OF 1(1) below(1)] digits_step(2) [OF 1(1) below(1)] below(2) 1(3) by (auto simp: word_le_nat_alt)
    then show ?case
      using below(3) [OF digits_step(3) [OF 1(1) below(1)]] digits_step(5) [OF 1(1) below(1)] below(1,2) 1
      by (simp add: digits_loop_unfold) }
  { case 2
    then show ?case
      using below(4) [OF digits_step(3) [OF 2(1) below(1)]] digits_step(2,5) [OF 2(1) below(1)] below(1,2)
      by (simp add: digits_loop_unfold) }
next
  case (above a order d h)
  have t: "unat t < 10 ^ Suc k" if "digit_state k a order d" for k
    using digits_step(3) [OF that above(1)] above(2) by (auto simp: digit_state_def word_le_nat_alt)
  { case 1
    then show ?case
      using above(3) [OF digits_step(4) [OF 1(1) above(1)] _ t] digits_step(5) [OF 1(1) above(1)] above(1,2)
      by (simp add: digits_loop_unfold) }
  { case 2
    then show ?case
      using above(3) [OF digits_step(4) [OF 2(1) above(1)] _ t [OF 2(1)]] above(4) [OF digits_step(4) [OF 2(1) above(1)]]
        digits_step(5) [OF 2(1) above(1)] above(1,2)
      by (simp add: digits_loop_unfold) }
qed

text \<open>The parts are strictly increasing, chunks are single digits, dust is within the threshold.\<close>

lemma digits_loop_sorted:
  "digit_state k a order d \<Longrightarrow> sorted_wrt (<) (map part (digits_loop a order d h t))"
proof (induction a order d h arbitrary: k rule: digits_loop_induct [where t = t])
  case (stop order d h)
  then show ?case by (simp add: digits_loop_unfold)
next
  case (below a order d h)
  then show ?case using digits_step(3) [OF below(4,1)] by (simp add: digits_loop_unfold)
next
  case (above a order d h)
  let ?rest = "digits_loop (a div 10) (order * 10) d (h \<or> d \<noteq> 0) t" and ?c = "(a mod 10) * order"
  note st = digits_step [OF above(4,1)]
  have d: "unat d < 10 ^ k" using above(4) by (simp add: digit_state_def)
  have "unat t < 10 ^ Suc k" using st(3) above(2) by (auto simp: digit_state_def word_le_nat_alt)
  then have r: "10 ^ Suc k \<le> unat (part e)" if "e \<in> set ?rest" for e
    using digits_loop_chunks [OF st(4) _ _ that] by blast
  have "(10 :: nat) ^ k \<le> 10 ^ Suc k" by simp
  then have "d < part e" if "e \<in> set ?rest" for e
    unfolding word_less_nat_alt using r [OF that] d by linarith
  moreover have "d < ?c" if "?c \<noteq> 0"
    unfolding word_less_nat_alt using digit_chunk(1) [OF above(4,1) that] d by linarith
  moreover have "?c < part e" if "?c \<noteq> 0" "e \<in> set ?rest" for e
    unfolding word_less_nat_alt using digit_chunk(3) [OF above(4,1) that(1)] r [OF that(2)] by linarith
  moreover have "sorted_wrt (<) (map part ?rest)" using above(3) [OF st(4)] .
  ultimately show ?case by (auto simp: digits_loop_unfold(3) [OF above(1,2)])
qed

lemma digits_loop_parts:
  "digit_state k a order d \<Longrightarrow> d \<le> t \<Longrightarrow> e \<in> set (digits_loop a order d h t) \<Longrightarrow>
   (case e of Chunk c \<Rightarrow> is_digit_amount c | Dust x \<Rightarrow> x \<noteq> 0 \<and> x \<le> t)"
proof (induction a order d h arbitrary: k rule: digits_loop_induct [where t = t])
  case (above a order d h)
  then show ?case
    using above(3) [OF digits_step(4) [OF above(4,1)]] digit_chunk(2) [OF above(4,1)]
    by (auto simp: digits_loop_unfold(3) [OF above(1,2)] split: if_splits)
next
  case (below a order d h)
  then show ?case using below(3) [OF digits_step(3) [OF below(4,1)]] by (simp add: digits_loop_unfold)
qed (auto simp: digits_loop_unfold split: if_splits)

lemma digits_loop_tl:
  "digit_state k a order d \<Longrightarrow> e \<in> set (tl (digits_loop a order d h t)) \<Longrightarrow> \<exists>c. e = Chunk c"
proof (induction a order d h arbitrary: k rule: digits_loop_induct [where t = t])
  case (above a order d h)
  let ?rest = "digits_loop (a div 10) (order * 10) d (h \<or> d \<noteq> 0) t"
  note st = digits_step [OF above(4,1)]
  have "unat t < 10 ^ Suc k" using st(3) above(2) by (auto simp: digit_state_def word_le_nat_alt)
  then have r: "\<exists>c. e = Chunk c" if "e \<in> set ?rest" for e
    using digits_loop_chunks [OF st(4) _ _ that] by blast
  then have "\<exists>c. e = Chunk c" if "e \<in> set (tl ?rest)" for e using that by (cases ?rest) auto
  then show ?case using above(5) r by (auto simp: digits_loop_unfold(3) [OF above(1,2)] split: if_splits)
next
  case (below a order d h)
  then show ?case using below(3) [OF digits_step(3) [OF below(4,1)]] by (simp add: digits_loop_unfold)
qed (auto simp: digits_loop_unfold split: if_splits)

lemma digit_state_start: "digit_state 0 a 1 0"
  by (simp add: digit_state_def)

lemma decompose_digits_loop: "decompose_amount_into_digits a t = digits_loop a 1 0 False t"
  by (simp add: decompose_amount_into_digits_def digits_loop_unfold)

lemma decomposeAmount_sum: "sum_list (map unat (decomposeAmount a t)) = unat a"
  using digits_loop_sum(2) [OF digit_state_start, of False a t]
  by (simp add: decomposeAmount_def decompose_digits_loop comp_def)

lemma decomposeAmount_sorted: "sorted_wrt (<) (decomposeAmount a t)"
  using digits_loop_sorted [OF digit_state_start] by (simp add: decomposeAmount_def decompose_digits_loop)

section \<open>Uniform decomposition\<close>

lemma push_tier_spec:
  "push_tier tier amount = (out, rest) \<Longrightarrow>
   set out \<subseteq> {tier} \<and> sum_list (map unat out) + unat rest = unat amount \<and> (tier \<noteq> 0 \<longrightarrow> rest < tier)"
proof (induction tier amount arbitrary: out rest rule: push_tier.induct)
  case (1 tier amount)
  show ?case
  proof (cases "tier \<noteq> 0 \<and> tier \<le> amount")
    case True
    obtain out' rest' where p: "push_tier tier (amount - tier) = (out', rest')" by fastforce
    then have "out = tier # out'" "rest = rest'" using 1(2) True by (simp_all add: push_tier.simps [of tier amount])
    moreover have "unat (amount - tier) = unat amount - unat tier" "unat tier \<le> unat amount"
      using True by (simp_all add: unat_sub word_le_nat_alt)
    ultimately show ?thesis using 1(1) [OF True p] by auto
  next
    case False
    then show ?thesis using 1(2) by (auto simp: push_tier.simps [of tier amount])
  qed
qed

lemma push_tiers_spec:
  "push_tiers ts t amount = (out, rest) \<Longrightarrow>
   set out \<subseteq> {x \<in> set ts. t \<le> x} \<and> sum_list (map unat out) + unat rest = unat amount"
proof (induction ts t amount arbitrary: out rest rule: push_tiers.induct)
  case (2 tier ts t amount)
  obtain o1 a1 where p: "push_tier tier amount = (o1, a1)" by fastforce
  obtain o2 r2 where q: "push_tiers ts t a1 = (o2, r2)" by fastforce
  show ?case
  proof (cases "tier < t")
    case False
    then have "out = o1 @ o2" "rest = r2" using 2(2) p q by simp_all
    then show ?thesis using 2(1) [OF False p [symmetric] q] push_tier_spec [OF p] False
      by (auto simp: not_less)
  qed (use 2(2) in auto)
qed simp

lemma sum_list_add_last:
  fixes xs :: "u64 list"
  assumes "xs \<noteq> []" "sum_list (map unat xs) + unat r < 18446744073709551616"
  shows "sum_list (map unat (butlast xs @ [last xs + r])) = sum_list (map unat xs) + unat r"
proof -
  obtain ys y where "xs = ys @ [y]" using assms(1) by (cases xs rule: rev_cases) auto
  then show ?thesis using assms(2) by (simp add: unat_add_no_wrap)
qed

lemma decompose_uniform_sum: "sum_list (map unat (decompose_amount_uniform a t)) = unat a"
proof (cases "push_tiers tiers t a")
  case (Pair out rest)
  note p = push_tiers_spec [OF Pair]
  then show ?thesis using Pair unat_u64_bound [of a] sum_list_add_last [of out rest]
    by (auto simp: decompose_amount_uniform_def word_less_nat_alt unat_eq_0 simp del: unat_u64_bound)
qed

section \<open>Round amounts\<close>

lemma pretty_amounts_value:
  "map unat PRETTY_AMOUNTS = map (\<lambda>i. (i mod 9 + 1) * 10 ^ (i div 9)) [0..<172]"
  by (simp add: PRETTY_AMOUNTS_def upt_rec)

lemma length_pretty: "length PRETTY_AMOUNTS = 172"
  using arg_cong [OF pretty_amounts_value, of length] by simp

lemma pretty_nth:
  assumes "i < 172"
  shows "unat (PRETTY_AMOUNTS ! i) = (i mod 9 + 1) * 10 ^ (i div 9)"
  using arg_cong [OF pretty_amounts_value, of "\<lambda>xs. xs ! i"] assms by (simp add: length_pretty)

lemma pretty_sorted: "sorted_wrt (<) PRETTY_AMOUNTS"
proof -
  have "successively (<) (map unat PRETTY_AMOUNTS)" by (simp add: PRETTY_AMOUNTS_def)
  then have "sorted_wrt (<) (map unat PRETTY_AMOUNTS)" by (simp add: successively_conv_sorted_wrt)
  then show ?thesis unfolding sorted_wrt_map word_less_nat_alt by (rule sorted_wrt_mono_rel [rotated])
qed

lemma lower_bound_nth:
  assumes "sorted_wrt (<) xs" "i < length xs"
  shows "lower_bound_index xs (xs ! i) = i"
proof -
  have "takeWhile (\<lambda>x. x < xs ! i) xs = take i xs"
    using assms by (intro takeWhile_eq_take_P_nth) (auto simp: sorted_wrt_iff_nth_less)
  then show ?thesis using assms(2) by (simp add: lower_bound_index_def)
qed

lemma lower_bound_mem:
  assumes "sorted_wrt (<) xs"
  shows "lower_bound_index xs a \<noteq> length xs \<and> a = xs ! lower_bound_index xs a \<longleftrightarrow> a \<in> set xs"
proof
  assume "lower_bound_index xs a \<noteq> length xs \<and> a = xs ! lower_bound_index xs a"
  moreover have "lower_bound_index xs a \<le> length xs" by (simp add: lower_bound_index_def length_takeWhile_le)
  ultimately show "a \<in> set xs" by (metis le_neq_implies_less nth_mem)
next
  assume "a \<in> set xs"
  then obtain i where "i < length xs" "a = xs ! i" by (auto simp: in_set_conv_nth)
  then show "lower_bound_index xs a \<noteq> length xs \<and> a = xs ! lower_bound_index xs a"
    using lower_bound_nth [OF assms, of i] by simp
qed

text \<open>A digit followed by zeros has one position in the table, its power of ten a ninth of it.\<close>

lemma pretty_position:
  assumes "1 \<le> m" "m \<le> 9" "unat a = m * 10 ^ k"
  shows "lower_bound_index PRETTY_AMOUNTS a = 9 * k + (m - 1)" "9 * k + (m - 1) < 172"
    "PRETTY_AMOUNTS ! (9 * k + (m - 1)) = a"
proof -
  let ?i = "9 * k + (m - 1)"
  have lt: "m * 10 ^ k < 18446744073709551616" using assms(3) unat_u64_bound [of a] by simp
  have k: "k \<le> 19"
  proof (rule ccontr)
    assume "\<not> k \<le> 19"
    then have "(10 :: nat) ^ 20 \<le> 10 ^ k" by (intro power_increasing) simp_all
    moreover have "(10 :: nat) ^ k \<le> m * 10 ^ k" using assms(1) by simp
    ultimately show False using lt by simp
  qed
  moreover have "m = 1" if "k = 19" using lt assms(1) that by (cases m) auto
  ultimately show i: "?i < 172" using assms(1,2) by (cases "k = 19") auto
  have "?i div 9 = k" "?i mod 9 + 1 = m" using assms(1,2) by (cases m; simp)+
  then have "unat (PRETTY_AMOUNTS ! ?i) = unat a" unfolding pretty_nth [OF i] assms(3) by (simp only:)
  then show e: "PRETTY_AMOUNTS ! ?i = a" by (simp add: word_unat_eq_iff)
  show "lower_bound_index PRETTY_AMOUNTS a = ?i"
    using lower_bound_nth [OF pretty_sorted, of ?i] i e by (simp add: length_pretty)
qed

lemma pretty_iff: "a \<in> set PRETTY_AMOUNTS \<longleftrightarrow> is_digit_amount a"
proof
  assume "a \<in> set PRETTY_AMOUNTS"
  then obtain i where "i < 172" "a = PRETTY_AMOUNTS ! i" by (auto simp: in_set_conv_nth length_pretty)
  then have "unat a = (i mod 9 + 1) * 10 ^ (i div 9)" by (simp add: pretty_nth)
  moreover have "i mod 9 + 1 \<le> 9" by (simp add: Suc_le_eq)
  ultimately show "is_digit_amount a" unfolding is_digit_amount_def by (metis le_add2)
next
  assume "is_digit_amount a"
  then obtain m k where "1 \<le> m" "m \<le> 9" "unat a = m * 10 ^ k" unfolding is_digit_amount_def by blast
  note p = pretty_position [OF this]
  then show "a \<in> set PRETTY_AMOUNTS" by (metis length_pretty nth_mem)
qed

lemma valid_decomposed_iff: "is_valid_decomposed_amount a \<longleftrightarrow> is_digit_amount a"
  using lower_bound_mem [OF pretty_sorted, of a] by (auto simp: is_valid_decomposed_amount_def Let_def pretty_iff)

section \<open>Decimal text\<close>

lemma digits_value_foldl:
  "foldl (\<lambda>v c. v * 10 + (of_char c - 48)) a s = a * 10 ^ length s + digits_value s"
  by (induction s rule: rev_induct) (simp_all add: digits_value_def algebra_simps)

lemma digits_value_append: "digits_value (xs @ ys) = digits_value xs * 10 ^ length ys + digits_value ys"
  using digits_value_foldl [of "digits_value xs" ys] by (simp add: digits_value_def)

lemma digits_value_Nil [simp]: "digits_value [] = 0"
  by (simp add: digits_value_def)

lemma digits_value_snoc: "digits_value (s @ [c]) = digits_value s * 10 + (of_char c - 48)"
  by (simp add: digits_value_def)

lemma digits_value_zeros [simp]: "digits_value (replicate n CHR ''0'') = 0"
  by (induction n) (simp_all add: digits_value_def)

lemma digit_char: "d < 10 \<Longrightarrow> of_char (char_of (48 + d :: nat)) = (48 + d :: nat)"
    "d < 10 \<Longrightarrow> is_digit (char_of (48 + d :: nat))"
  by (simp_all add: is_digit_def)

lemma to_string_digits: "list_all is_digit (to_string n) \<and> to_string n \<noteq> [] \<and> digits_value (to_string n) = n"
proof (induction n rule: to_string.induct)
  case (1 n)
  show ?case
  proof (cases "n < 10")
    case True
    then show ?thesis by (subst (1 2 3) to_string.simps) (simp add: is_digit_def digits_value_def)
  next
    case False
    then show ?thesis using 1 digit_char [of "n mod 10"]
      by (subst (1 2 3) to_string.simps) (simp add: digits_value_snoc)
  qed
qed

lemma digit_not_space: "is_digit c \<Longrightarrow> \<not> is_space c"
  by (auto simp: is_digit_def is_space_def)

lemma digit_not_point: "is_digit c \<Longrightarrow> c \<noteq> CHR ''.''"
  by (auto simp: is_digit_def)

lemma trim_no_space: "list_all (\<lambda>c. \<not> is_space c) s \<Longrightarrow> trim s = s"
proof -
  have "dropWhile is_space t = t" if "list_all (\<lambda>c. \<not> is_space c) t" for t using that by (cases t) simp_all
  moreover assume "list_all (\<lambda>c. \<not> is_space c) s"
  ultimately show ?thesis by (simp add: trim_def)
qed

lemma drop_zeros_spec:
  "\<exists>fp' z. drop_zeros dp (p @ fp) (length fp) = (p @ fp', length fp') \<and> fp = fp' @ replicate z CHR ''0'' \<and>
     (length fp' \<le> dp \<or> last fp' \<noteq> CHR ''0'') \<and> (z = 0 \<or> dp \<le> length fp')"
proof (induction fp rule: rev_induct)
  case Nil
  then show ?case by (intro exI [of _ "[]"] exI [of _ 0]) (simp add: drop_zeros.simps)
next
  case (snoc c fp)
  show ?case
  proof (cases "dp < Suc (length fp) \<and> c = CHR ''0''")
    case True
    then have "drop_zeros dp (p @ fp @ [c]) (length (fp @ [c])) = drop_zeros dp (p @ fp) (length fp)"
      by (subst drop_zeros.simps) (simp add: butlast_append)
    moreover obtain fp' z where "drop_zeros dp (p @ fp) (length fp) = (p @ fp', length fp')"
      "fp = fp' @ replicate z CHR ''0''" "length fp' \<le> dp \<or> last fp' \<noteq> CHR ''0''"
      "z = 0 \<or> dp \<le> length fp'" using snoc by blast
    ultimately show ?thesis using True
      by (intro exI [of _ fp'] exI [of _ "Suc z"]) (auto simp: replicate_append_same)
  next
    case False
    then show ?thesis by (intro exI [of _ "fp @ [c]"] exI [of _ 0]) (auto simp: drop_zeros.simps [of dp])
  qed
qed

lemma pow10_split:
  fixes N :: nat
  assumes "l \<le> dp"
  shows "10 ^ (l + z) dvd N * 10 ^ z * 10 ^ dp" "N * 10 ^ z * 10 ^ dp div 10 ^ (l + z) = N * 10 ^ (dp - l)"
proof -
  have "N * 10 ^ z * 10 ^ dp = N * 10 ^ (dp - l) * 10 ^ (l + z)"
    using assms by (simp add: algebra_simps flip: power_add)
  then show "10 ^ (l + z) dvd N * 10 ^ z * 10 ^ dp" "N * 10 ^ z * 10 ^ dp div 10 ^ (l + z) = N * 10 ^ (dp - l)"
    by (simp_all only: dvd_triv_right) simp
qed

lemma pow10_not_dvd:
  fixes N :: nat
  assumes "dp < l" "\<not> 10 dvd N"
  shows "\<not> 10 ^ (l + z) dvd N * 10 ^ z * 10 ^ dp"
proof
  assume "10 ^ (l + z) dvd N * 10 ^ z * 10 ^ dp"
  then have "10 ^ (z + dp) * 10 ^ (l - dp) dvd 10 ^ (z + dp) * N"
    using assms(1) by (simp add: algebra_simps flip: power_add)
  then have "10 ^ (l - dp) dvd N" by simp
  then have "10 dvd N" using assms(1) by (meson dvd_power dvd_trans zero_less_diff)
  then show False using assms(2) by blast
qed

lemma parse_unfold:
  assumes "trim s = s" "s = ip @ CHR ''.'' # fp" "takeWhile (\<lambda>c. c \<noteq> CHR ''.'') s = ip"
    and "drop_zeros dp s (length fp) = (ip @ CHR ''.'' # fp', length fp')"
  shows "parseAmount dp s =
    (if dp < length fp' \<or> ip @ fp' = [] \<or> \<not> list_all is_digit (ip @ fp') then None
     else fromString_u64 (ip @ fp' @ replicate (dp - length fp') CHR ''0''))"
proof -
  have l: "length ip < length s" "length s - length ip - 1 = length fp" using assms(2) by simp_all
  show ?thesis unfolding parseAmount_def assms(1,3) Let_def
    using l assms(4) by auto
qed

text \<open>The value of a decimal fraction, in units of \<open>10 ^ - dp\<close>, if it is a number of them that fits.\<close>

lemma parse_fraction:
  assumes "list_all is_digit ip" "list_all is_digit fp" "ip \<noteq> [] \<or> fp \<noteq> [] \<and> 0 < dp"
  defines "N \<equiv> digits_value (ip @ fp) * 10 ^ dp"
  shows "parseAmount dp (ip @ ''.'' @ fp) =
    (if 10 ^ length fp dvd N \<and> N div 10 ^ length fp < 18446744073709551616
     then Some (of_nat (N div 10 ^ length fp)) else None)"
proof -
  let ?s = "ip @ CHR ''.'' # fp"
  have "list_all (\<lambda>c. \<not> is_space c) ?s"
    using assms(1,2) by (auto simp: list_all_iff digit_not_space) (simp add: is_space_def)
  then have t: "trim ?s = ?s" by (rule trim_no_space)
  have p: "takeWhile (\<lambda>c. c \<noteq> CHR ''.'') ?s = ip"
    using assms(1) digit_not_point by (auto simp: list_all_iff takeWhile_append2)
  obtain fp' z where d: "drop_zeros dp ?s (length fp) = (ip @ CHR ''.'' # fp', length fp')"
    "fp = fp' @ replicate z CHR ''0''" "length fp' \<le> dp \<or> last fp' \<noteq> CHR ''0''"
    "z = 0 \<or> dp \<le> length fp'"
    using drop_zeros_spec [of dp "ip @ ''.''" fp, unfolded append_assoc append_Cons append_Nil] by blast
  note u = parse_unfold [OF t refl p d(1)]
  have dg: "list_all is_digit (ip @ fp')" using assms(1,2) d(2) by simp
  have N: "N = digits_value (ip @ fp') * 10 ^ z * 10 ^ dp"
    by (simp add: N_def d(2) digits_value_append flip: append_assoc)
  show ?thesis
  proof (cases "length fp' \<le> dp")
    case True
    have "ip @ fp' \<noteq> []" using assms(3) d(2,4) by auto
    then have "parseAmount dp ?s = fromString_u64 (ip @ fp' @ replicate (dp - length fp') CHR ''0'')"
      unfolding u using True dg by auto
    moreover have "digits_value (ip @ fp' @ replicate (dp - length fp') CHR ''0'') =
        digits_value (ip @ fp') * 10 ^ (dp - length fp')"
      by (simp add: digits_value_append flip: append_assoc)
    ultimately show ?thesis
      using pow10_split [OF True, where N = "digits_value (ip @ fp')" and z = z] by (simp add: fromString_u64_def N d(2))
  next
    case False
    then have "last fp' \<noteq> CHR ''0''" "fp' \<noteq> []" using d(3) by auto
    then obtain q c where q: "fp' = q @ [c]" "c \<noteq> CHR ''0''" by (cases fp' rule: rev_cases) auto
    have "(of_char c :: nat) \<noteq> 48" using q(2) of_char_eq_iff [of c "CHR ''0''", where ?'a = nat] by simp
    then have "0 < (of_char c - 48 :: nat)" "(of_char c - 48 :: nat) < 10"
      using dg q(1) by (auto simp: is_digit_def)
    moreover have "digits_value (ip @ fp') = digits_value (ip @ q) * 10 + (of_char c - 48)"
      using digits_value_snoc [of "ip @ q" c] by (simp add: q(1))
    then have "digits_value (ip @ fp') mod 10 = (of_char c - 48) mod 10" by (simp only: mod_mult_self3)
    ultimately have "digits_value (ip @ fp') mod 10 \<noteq> 0" by (simp only: mod_less)
    then have "\<not> 10 dvd digits_value (ip @ fp')" by (simp add: dvd_eq_mod_eq_0)
    then show ?thesis
      using pow10_not_dvd [of dp "length fp'" "digits_value (ip @ fp')" z] False u
      by (simp add: N d(2))
  qed
qed

lemma format_split:
  "\<exists>ip fp. formatAmount dp a = ip @ ''.'' @ fp \<and> length fp = dp \<and> ip \<noteq> [] \<and> list_all is_digit ip \<and>
     list_all is_digit fp \<and> digits_value (ip @ fp) = unat a"
proof -
  let ?s = "to_string (unat a)"
  let ?s1 = "if length ?s < dp + 1 then replicate (dp + 1 - length ?s) CHR ''0'' @ ?s else ?s"
  let ?p = "length ?s1 - dp"
  note t = to_string_digits [of "unat a"]
  have l: "dp < length ?s1" by simp
  have v: "digits_value ?s1 = unat a" using t by (simp add: digits_value_append)
  have "list_all is_digit ?s1" using t by (simp add: list_all_iff is_digit_def)
  then have "list_all is_digit (take ?p ?s1)" "list_all is_digit (drop ?p ?s1)"
    by (auto simp: list_all_iff dest: in_set_takeD in_set_dropD)
  moreover have "take ?p ?s1 \<noteq> []" "length (drop ?p ?s1) = dp" using l by (simp_all only: take_eq_Nil length_drop) auto
  moreover have "digits_value (take ?p ?s1 @ drop ?p ?s1) = unat a" by (simp only: append_take_drop_id v)
  ultimately show ?thesis unfolding formatAmount_def Let_def by blast
qed

section \<open>Properties\<close>

text \<open>
  The decomposition of an amount into outputs is exact and canonical. The parts add up to the amount,
  are strictly increasing, at most the first is dust (and then within the threshold), and all the others
  are a single digit followed by zeros, hence valid decomposed amounts.
\<close>

theorem decomposition_canonical:
  "sum_list (map unat (decomposeAmount amount threshold)) = unat amount \<and>
   sorted_wrt (<) (decomposeAmount amount threshold) \<and>
   list_all (\<lambda>e. case e of Chunk c \<Rightarrow> is_valid_decomposed_amount c | Dust d \<Rightarrow> 0 < d \<and> d \<le> threshold)
     (decompose_amount_into_digits amount threshold) \<and>
   list_all (\<lambda>e. case e of Chunk c \<Rightarrow> True | Dust d \<Rightarrow> False) (tl (decompose_amount_into_digits amount threshold))"
proof -
  note parts = digits_loop_parts [OF digit_state_start, where h = False and a = amount and t = threshold]
    and rest = digits_loop_tl [OF digit_state_start, where h = False and a = amount and t = threshold]
  have "list_all (\<lambda>e. case e of Chunk c \<Rightarrow> is_valid_decomposed_amount c | Dust d \<Rightarrow> 0 < d \<and> d \<le> threshold)
      (decompose_amount_into_digits amount threshold)"
    using parts by (force simp: list_all_iff decompose_digits_loop valid_decomposed_iff word_gt_0 split: decomposed.splits)
  moreover have "list_all (\<lambda>e. case e of Chunk c \<Rightarrow> True | Dust d \<Rightarrow> False) (tl (decompose_amount_into_digits amount threshold))"
    using rest by (force simp: list_all_iff decompose_digits_loop split: decomposed.splits)
  ultimately show ?thesis using decomposeAmount_sum decomposeAmount_sorted by blast
qed

text \<open>
  Parsing an amount is exact. A decimal fraction parses exactly when it is a whole number of atomic
  units that fits 64 bits, and then to that number: no rounding, no silent overflow.
\<close>

theorem parseAmount_exact:
  assumes "list_all is_digit ip" "list_all is_digit fp" "ip \<noteq> [] \<or> fp \<noteq> [] \<and> 0 < dp"
  shows "parseAmount dp (ip @ ''.'' @ fp) =
    (let N = digits_value (ip @ fp) * 10 ^ dp
     in if 10 ^ length fp dvd N \<and> N div 10 ^ length fp < 2 ^ 64 then Some (of_nat (N div 10 ^ length fp)) else None)"
  using parse_fraction [OF assms] by (simp add: Let_def)

theorem parseAmount_exact_witness:
  "parseAmount 7 (''12'' @ ''.'' @ ''50'') = Some 125000000 \<and> parseAmount 7 ([] @ ''.'' @ ''00000001'') = None"
  using parseAmount_exact [of "''12''" "''50''" 7] parseAmount_exact [of "[]" "''00000001''" 7]
  by (simp add: is_digit_def digits_value_def)

text \<open>
  Text is a faithful form of amounts: parsing what \<open>formatAmount\<close> prints gives the amount back, for
  every amount and every number of decimal places.
\<close>

theorem parse_formatAmount: "parseAmount dp (formatAmount dp amount) = Some amount"
proof -
  obtain ip fp where f: "formatAmount dp amount = ip @ ''.'' @ fp" "length fp = dp" "ip \<noteq> []"
    "list_all is_digit ip" "list_all is_digit fp" "digits_value (ip @ fp) = unat amount"
    using format_split by blast
  show ?thesis using parse_fraction [OF f(4,5), of dp] f unat_u64_bound [of amount] by (simp del: unat_u64_bound)
qed

end
