(* ===== verification/Transactions.thy ===== *)
theory Transactions
  imports Fuego_Prelude "HOL-Library.Multiset"
begin

text \<open>
  Transactions and blocks as data (\<open>src/include/CryptoNote.h\<close>) and the stateless checks on them
  (\<open>src/src/CryptoNoteCore/CryptoNoteFormatUtils.cpp\<close>, \<open>CryptoNoteTools.cpp\<close>, \<open>CryptoNoteBasicImpl.cpp\<close>):
  the sums of input and output amounts, the overflow checks, the checks of input and output types, the
  conversion of ring member indices between absolute and relative form, and the scan for outputs of an
  account. The elliptic-curve functions they call are arguments: \<open>check_key\<close>,
  \<open>generate_key_derivation\<close> and \<open>derive_public_key\<close>, the last two with their success flag.

  The overflow checks hold exactly when the true sums fit 64 bits; index conversion loses nothing.
\<close>

section \<open>Data\<close>

type_synonym key_image = bytes
type_synonym secret_key = bytes

datatype TransactionInput =
    BaseInput (blockIndex: u32)
  | KeyInput u64 "u32 list" key_image
  | MultisignatureInput u64 u8 u32 u32
  | TransactionInputCommitmentSpend u64 "u32 list" key_image u64
  | TransactionInputCommitmentTransfer u64 "u32 list" key_image u32
  | TransactionInputUnified "u32 list" key_image bytes bytes

datatype TransactionOutputTarget =
    KeyOutput public_key
  | MultisignatureOutput "public_key list" u8 u32
  | TransactionOutputCommitment public_key u32 bytes bytes
  | TransactionOutputUnified public_key u32 bytes bytes

record TransactionOutput =
  out_amount :: u64
  out_target :: TransactionOutputTarget

record TransactionPrefix =
  tx_version :: u8
  tx_unlockTime :: u64
  tx_inputs :: "TransactionInput list"
  tx_outputs :: "TransactionOutput list"
  tx_extra :: bytes

record Transaction = TransactionPrefix +
  tx_signatures :: "signature list list"

record ParentBlock =
  pb_majorVersion :: u8
  pb_minorVersion :: u8
  pb_previousBlockHash :: hash
  pb_transactionCount :: "16 word"
  pb_baseTransactionBranch :: "hash list"
  pb_baseTransaction :: Transaction
  pb_blockchainBranch :: "hash list"

record BlockHeader =
  bl_majorVersion :: u8
  bl_minorVersion :: u8
  bl_nonce :: u32
  bl_timestamp :: u64
  bl_previousBlockHash :: hash

record Block = BlockHeader +
  bl_parentBlock :: ParentBlock
  bl_baseTransaction :: Transaction
  bl_transactionHashes :: "hash list"

record AccountPublicAddress =
  ad_spendPublicKey :: public_key
  ad_viewPublicKey :: public_key

record AccountKeys =
  ak_address :: AccountPublicAddress
  ak_spendSecretKey :: secret_key
  ak_viewSecretKey :: secret_key

record KeyPair =
  kp_publicKey :: public_key
  kp_secretKey :: secret_key

section \<open>Amounts\<close>

text \<open>The amount of an input in \<open>get_inputs_money_amount\<close> and \<open>check_inputs_overflow\<close>.\<close>

fun input_amount :: "TransactionInput \<Rightarrow> u64" where
  "input_amount (KeyInput amount _ _) = amount"
| "input_amount (MultisignatureInput amount _ _ _) = amount"
| "input_amount (TransactionInputCommitmentSpend amount _ _ _) = amount"
| "input_amount (TransactionInputCommitmentTransfer amount _ _ _) = amount"
| "input_amount (BaseInput _) = 0"
| "input_amount (TransactionInputUnified _ _ _ _) = 0"

definition get_inputs_money_amount :: "'a TransactionPrefix_scheme \<Rightarrow> u64" where
  "get_inputs_money_amount tx = foldl (\<lambda>money i. money + input_amount i) 0 (tx_inputs tx)"

definition get_outs_money_amount :: "'a TransactionPrefix_scheme \<Rightarrow> u64" where
  "get_outs_money_amount tx = foldl (\<lambda>amount o'. amount + out_amount o') 0 (tx_outputs tx)"

text \<open>The loop of both overflow checks.\<close>

fun overflow_loop :: "u64 \<Rightarrow> u64 list \<Rightarrow> bool" where
  "overflow_loop money [] = True"
| "overflow_loop money (amount # rest) =
     (if amount + money < money then False else overflow_loop (money + amount) rest)"

definition check_inputs_overflow :: "'a TransactionPrefix_scheme \<Rightarrow> bool" where
  "check_inputs_overflow tx = overflow_loop 0 (map input_amount (tx_inputs tx))"

definition check_outs_overflow :: "'a TransactionPrefix_scheme \<Rightarrow> bool" where
  "check_outs_overflow tx = overflow_loop 0 (map out_amount (tx_outputs tx))"

definition check_money_overflow :: "'a TransactionPrefix_scheme \<Rightarrow> bool" where
  "check_money_overflow tx \<longleftrightarrow> check_inputs_overflow tx \<and> check_outs_overflow tx"

text \<open>\<open>getInputsAmounts\<close> lists the amounts of key and multisignature inputs only.\<close>

fun listed_amount :: "TransactionInput \<Rightarrow> u64 option" where
  "listed_amount (KeyInput amount _ _) = Some amount"
| "listed_amount (MultisignatureInput amount _ _ _) = Some amount"
| "listed_amount _ = None"

definition getInputsAmounts :: "'a TransactionPrefix_scheme \<Rightarrow> u64 list" where
  "getInputsAmounts tx = List.map_filter listed_amount (tx_inputs tx)"

definition getOutputAmount :: "'a TransactionPrefix_scheme \<Rightarrow> u64" where
  "getOutputAmount tx = foldl (\<lambda>amount o'. amount + out_amount o') 0 (tx_outputs tx)"

section \<open>Types of inputs and outputs\<close>

definition is_coinbase :: "'a TransactionPrefix_scheme \<Rightarrow> bool" where
  "is_coinbase tx \<longleftrightarrow> (case tx_inputs tx of [BaseInput _] \<Rightarrow> True | _ \<Rightarrow> False)"

definition get_block_height :: "'a Block_scheme \<Rightarrow> u32" where
  "get_block_height b =
     (case tx_inputs (bl_baseTransaction b) of [BaseInput i] \<Rightarrow> i | _ \<Rightarrow> 0)"

fun input_supported :: "u8 \<Rightarrow> TransactionInput \<Rightarrow> bool" where
  "input_supported version (MultisignatureInput _ _ _ _) \<longleftrightarrow> \<not> version < 2"
| "input_supported version (TransactionInputCommitmentSpend _ _ _ _) \<longleftrightarrow> \<not> version < 2"
| "input_supported version (TransactionInputCommitmentTransfer _ _ _ _) \<longleftrightarrow> \<not> version < 2"
| "input_supported version (KeyInput _ _ _) \<longleftrightarrow> True"
| "input_supported version (BaseInput _) \<longleftrightarrow> True"
| "input_supported version (TransactionInputUnified _ _ _ _) \<longleftrightarrow> False"

definition check_inputs_types_supported :: "'a TransactionPrefix_scheme \<Rightarrow> bool" where
  "check_inputs_types_supported tx = list_all (input_supported (tx_version tx)) (tx_inputs tx)"

text \<open>The body of the loop of \<open>check_outs_valid\<close>: the error message, if any.\<close>

definition output_error :: "(public_key \<Rightarrow> bool) \<Rightarrow> u8 \<Rightarrow> TransactionOutput \<Rightarrow> string option" where
  "output_error check_key version out =
     (case out_target out of
        KeyOutput key \<Rightarrow>
          if out_amount out = 0 then Some ''Zero amount ouput''
          else if \<not> check_key key then Some ''Output with invalid key''
          else None
      | MultisignatureOutput keys requiredSignatureCount _ \<Rightarrow>
          if version < 2 then Some ''Transaction contains multisignature output but its version is less than 2''
          else if length keys < unat requiredSignatureCount
            then Some ''Multisignature output with invalid required signature count''
          else if \<not> list_all check_key keys then Some ''Multisignature output with invalid public key''
          else None
      | TransactionOutputCommitment commitKey _ _ _ \<Rightarrow>
          if version < 2 then Some ''Transaction contains commitment output but its version is less than 2''
          else if \<not> check_key commitKey then Some ''Commitment output with invalid commit key''
          else None
      | TransactionOutputUnified _ _ _ _ \<Rightarrow> Some ''Output with invalid type'')"

fun outputs_error :: "(public_key \<Rightarrow> bool) \<Rightarrow> u8 \<Rightarrow> TransactionOutput list \<Rightarrow> string option" where
  "outputs_error check_key version [] = None"
| "outputs_error check_key version (out # outs) =
     (case output_error check_key version out of
        Some e \<Rightarrow> Some e | None \<Rightarrow> outputs_error check_key version outs)"

definition check_outs_valid :: "(public_key \<Rightarrow> bool) \<Rightarrow> 'a TransactionPrefix_scheme \<Rightarrow> string + unit" where
  "check_outs_valid check_key tx =
     (case outputs_error check_key (tx_version tx) (tx_outputs tx) of Some e \<Rightarrow> Inl e | None \<Rightarrow> Inr ())"

text \<open>The loop of \<open>checkMultisignatureInputsDiff\<close>, with the set of outputs used so far.\<close>

fun diff_loop :: "(u64 \<times> u32) list \<Rightarrow> TransactionInput list \<Rightarrow> bool" where
  "diff_loop inputsUsage [] = True"
| "diff_loop inputsUsage (inp # rest) =
     (case inp of
        MultisignatureInput amount _ outputIndex _ \<Rightarrow>
          if (amount, outputIndex) \<in> set inputsUsage then False
          else diff_loop ((amount, outputIndex) # inputsUsage) rest
      | _ \<Rightarrow> diff_loop inputsUsage rest)"

definition checkMultisignatureInputsDiff :: "'a TransactionPrefix_scheme \<Rightarrow> bool" where
  "checkMultisignatureInputsDiff tx = diff_loop [] (tx_inputs tx)"

section \<open>Ring member indices\<close>

fun absolute_loop :: "u32 \<Rightarrow> u32 list \<Rightarrow> u32 list" where
  "absolute_loop prev [] = []"
| "absolute_loop prev (x # xs) = (x + prev) # absolute_loop (x + prev) xs"

fun relative_output_offsets_to_absolute :: "u32 list \<Rightarrow> u32 list" where
  "relative_output_offsets_to_absolute [] = []"
| "relative_output_offsets_to_absolute (x # xs) = x # absolute_loop x xs"

fun relative_loop :: "u32 \<Rightarrow> u32 list \<Rightarrow> u32 list" where
  "relative_loop prev [] = []"
| "relative_loop prev (x # xs) = (x - prev) # relative_loop x xs"

definition absolute_output_offsets_to_relative :: "u32 list \<Rightarrow> u32 list" where
  "absolute_output_offsets_to_relative off =
     (if off = [] then off
      else (case sort off of [] \<Rightarrow> [] | x # xs \<Rightarrow> x # relative_loop x xs))"

section \<open>Outputs of an account\<close>

definition is_out_to_acc :: "(bytes \<Rightarrow> nat \<Rightarrow> public_key \<Rightarrow> bool \<times> public_key) \<Rightarrow>
    AccountKeys \<Rightarrow> public_key \<Rightarrow> bytes \<Rightarrow> nat \<Rightarrow> bool" where
  "is_out_to_acc derive_public_key acc out_key derivation keyIndex \<longleftrightarrow>
     snd (derive_public_key derivation keyIndex (ad_spendPublicKey (ak_address acc))) = out_key"

fun lookup_loop :: "(bytes \<Rightarrow> nat \<Rightarrow> public_key \<Rightarrow> bool \<times> public_key) \<Rightarrow> AccountKeys \<Rightarrow> bytes \<Rightarrow>
    nat \<Rightarrow> nat \<Rightarrow> TransactionOutput list \<Rightarrow> nat list \<times> u64 \<Rightarrow> nat list \<times> u64" where
  "lookup_loop derive_public_key acc derivation keyIndex outputIndex [] (outs, money) = (outs, money)"
| "lookup_loop derive_public_key acc derivation keyIndex outputIndex (out # rest) (outs, money) =
     (case out_target out of
        KeyOutput key \<Rightarrow>
          lookup_loop derive_public_key acc derivation (keyIndex + 1) (outputIndex + 1) rest
            (if is_out_to_acc derive_public_key acc key derivation keyIndex
             then (outs @ [outputIndex], money + out_amount out) else (outs, money))
      | MultisignatureOutput keys _ _ \<Rightarrow>
          lookup_loop derive_public_key acc derivation (keyIndex + length keys) (outputIndex + 1) rest (outs, money)
      | _ \<Rightarrow> lookup_loop derive_public_key acc derivation keyIndex (outputIndex + 1) rest (outs, money))"

definition lookup_acc_outs :: "(public_key \<Rightarrow> secret_key \<Rightarrow> bool \<times> bytes) \<Rightarrow>
    (bytes \<Rightarrow> nat \<Rightarrow> public_key \<Rightarrow> bool \<times> public_key) \<Rightarrow>
    AccountKeys \<Rightarrow> 'a TransactionPrefix_scheme \<Rightarrow> public_key \<Rightarrow> nat list \<times> u64" where
  "lookup_acc_outs generate_key_derivation derive_public_key acc tx tx_pub_key =
     lookup_loop derive_public_key acc (snd (generate_key_derivation tx_pub_key (ak_viewSecretKey acc)))
       0 0 (tx_outputs tx) ([], 0)"

section \<open>Sums\<close>

lemma unat_add_if: "unat (a + b :: u64) = (if unat a + unat b < 18446744073709551616 then unat a + unat b
   else unat a + unat b - 18446744073709551616)"
  using unat_u64_bound [of a] unat_u64_bound [of b] by (simp add: unat_word_ariths mod_if del: unat_u64_bound)

lemma overflow_loop_iff:
  "overflow_loop money xs \<longleftrightarrow> unat money + sum_list (map unat xs) < 18446744073709551616"
proof (induction xs arbitrary: money)
  case (Cons a xs)
  have "a + money < money \<longleftrightarrow> \<not> unat a + unat money < 18446744073709551616"
    using unat_u64_bound [of a] by (auto simp: word_less_nat_alt unat_add_if simp del: unat_u64_bound)
  then show ?case using Cons [of "money + a"] by (auto simp: unat_add_no_wrap)
qed simp

lemma foldl_add_of_nat:
  fixes f :: "'a \<Rightarrow> u64"
  shows "foldl (\<lambda>acc x. acc + f x) a xs = a + of_nat (sum_list (map (\<lambda>x. unat (f x)) xs))"
  by (induction xs arbitrary: a) (simp_all add: algebra_simps)

lemma foldl_add_exact:
  fixes f :: "'a \<Rightarrow> u64"
  assumes "sum_list (map (\<lambda>x. unat (f x)) xs) < 18446744073709551616"
  shows "unat (foldl (\<lambda>acc x. acc + f x) 0 xs) = sum_list (map (\<lambda>x. unat (f x)) xs)"
  using assms by (simp add: foldl_add_of_nat unat_of_nat take_bit_nat_eq_self)

section \<open>Indices\<close>

lemma absolute_relative_loop: "absolute_loop prev (relative_loop prev xs) = xs"
  by (induction xs arbitrary: prev) simp_all

lemma relative_absolute_loop: "relative_loop prev (absolute_loop prev xs) = xs"
  by (induction xs arbitrary: prev) simp_all

lemma absolute_loop_sorted:
  "unat prev + sum_list (map unat xs) < 4294967296 \<Longrightarrow> sorted (prev # absolute_loop prev xs)"
proof (induction xs arbitrary: prev)
  case (Cons x xs)
  have s: "unat (x + prev) = unat x + unat prev" using Cons.prems by (simp add: unat_word_ariths)
  then have "sorted ((x + prev) # absolute_loop (x + prev) xs)" using Cons by simp
  moreover have "prev \<le> x + prev" using s by (simp add: word_le_nat_alt)
  ultimately show ?case by auto
qed simp

lemma diff_loop_iff:
  "diff_loop used xs \<longleftrightarrow> distinct (List.map_filter
     (\<lambda>i. case i of MultisignatureInput a _ o' _ \<Rightarrow> Some (a, o') | _ \<Rightarrow> None) xs) \<and>
   set used \<inter> set (List.map_filter
     (\<lambda>i. case i of MultisignatureInput a _ o' _ \<Rightarrow> Some (a, o') | _ \<Rightarrow> None) xs) = {}"
  by (induction used xs rule: diff_loop.induct) (auto simp: map_filter_simps split: TransactionInput.splits)

section \<open>Properties\<close>

text \<open>
  C36: the overflow check is exact. \<open>check_money_overflow\<close> accepts a transaction exactly when neither the
  true sum of its inputs nor that of its outputs exceeds 64 bits, and then the computed sums are the true
  ones.
\<close>

theorem check_money_overflow_exact:
  "(check_money_overflow tx \<longleftrightarrow>
      sum_list (map (\<lambda>i. unat (input_amount i)) (tx_inputs tx)) < 2 ^ 64 \<and>
      sum_list (map (\<lambda>o'. unat (out_amount o')) (tx_outputs tx)) < 2 ^ 64) \<and>
   (\<not> check_money_overflow tx \<or>
      unat (get_inputs_money_amount tx) = sum_list (map (\<lambda>i. unat (input_amount i)) (tx_inputs tx)) \<and>
      unat (get_outs_money_amount tx) = sum_list (map (\<lambda>o'. unat (out_amount o')) (tx_outputs tx)))"
  using foldl_add_exact [of input_amount "tx_inputs tx"] foldl_add_exact [of out_amount "tx_outputs tx"]
  by (auto simp: check_money_overflow_def check_inputs_overflow_def check_outs_overflow_def overflow_loop_iff
      get_inputs_money_amount_def get_outs_money_amount_def comp_def)

theorem check_money_overflow_exact_witness:
  "check_money_overflow \<lparr>tx_version = 1, tx_unlockTime = 0, tx_inputs = [KeyInput 5 [] [], KeyInput 7 [] []],
     tx_outputs = [\<lparr>out_amount = 11, out_target = KeyOutput []\<rparr>], tx_extra = []\<rparr>"
  using check_money_overflow_exact [of "\<lparr>tx_version = 1, tx_unlockTime = 0,
     tx_inputs = [KeyInput 5 [] [], KeyInput 7 [] []],
     tx_outputs = [\<lparr>out_amount = 11, out_target = KeyOutput []\<rparr>], tx_extra = []\<rparr>"] by simp

text \<open>
  Ring indices survive their encoding. Turning a list of absolute indices into relative offsets and
  back gives the sorted list, and turning relative offsets whose sum fits 32 bits into absolute indices
  and back gives the offsets.
\<close>

theorem output_offsets_roundtrip:
  "relative_output_offsets_to_absolute (absolute_output_offsets_to_relative off) = sort off \<and>
   (sum_list (map unat rel) < 2 ^ 32 \<longrightarrow>
     absolute_output_offsets_to_relative (relative_output_offsets_to_absolute rel) = rel)"
proof
  show "relative_output_offsets_to_absolute (absolute_output_offsets_to_relative off) = sort off"
    by (cases "sort off") (auto simp: absolute_output_offsets_to_relative_def absolute_relative_loop)
  show "sum_list (map unat rel) < 2 ^ 32 \<longrightarrow>
     absolute_output_offsets_to_relative (relative_output_offsets_to_absolute rel) = rel"
  proof (cases rel)
    case (Cons x xs)
    have "sort (x # absolute_loop x xs) = x # absolute_loop x xs" if "sum_list (map unat rel) < 2 ^ 32"
      using absolute_loop_sorted [of x xs] that Cons by (intro sorted_sort_id) simp
    then show ?thesis unfolding Cons
      by (intro impI) (simp only: absolute_output_offsets_to_relative_def relative_output_offsets_to_absolute.simps
          relative_absolute_loop list.case list.distinct if_False)
  qed (simp add: absolute_output_offsets_to_relative_def)
qed

theorem output_offsets_roundtrip_witness:
  "relative_output_offsets_to_absolute (absolute_output_offsets_to_relative [9, 4, 30]) = [4, 9, 30] \<and>
   absolute_output_offsets_to_relative (relative_output_offsets_to_absolute [4, 5, 21]) = [4, 5, 21]"
  using output_offsets_roundtrip [of "[9, 4, 30]" "[4, 5, 21]"] by simp

end
