(* ===== verification/Fuego_Config.thy ===== *)
theory Fuego_Config
  imports Fuego_Prelude
begin

text \<open>
  The constants of \<open>src/src/CryptoNoteConfig.h\<close> that the consensus rules and the currency builder use,
  with the types they are declared with (\<open>unsigned\<close> is 32 bits, \<open>size_t\<close> 64). The collection
  \<open>config\<close> holds their equations.
\<close>

named_theorems config "the equations of the configuration constants"

definition DIFFICULTY_TARGET :: u64 where [config]:
  "DIFFICULTY_TARGET = 480"

definition CRYPTONOTE_MAX_BLOCK_NUMBER :: u64 where [config]:
  "CRYPTONOTE_MAX_BLOCK_NUMBER = 500000000"

definition CRYPTONOTE_MAX_BLOCK_BLOB_SIZE :: u64 where [config]:
  "CRYPTONOTE_MAX_BLOCK_BLOB_SIZE = 8000000"

definition CRYPTONOTE_MAX_TX_SIZE :: u64 where [config]:
  "CRYPTONOTE_MAX_TX_SIZE = 1000000000"

definition CRYPTONOTE_PUBLIC_ADDRESS_BASE58_PREFIX :: u64 where [config]:
  "CRYPTONOTE_PUBLIC_ADDRESS_BASE58_PREFIX = 1753191"

definition CRYPTONOTE_SUBADDRESS_BASE58_PREFIX :: u64 where [config]:
  "CRYPTONOTE_SUBADDRESS_BASE58_PREFIX = CRYPTONOTE_PUBLIC_ADDRESS_BASE58_PREFIX"

definition CRYPTONOTE_MINED_MONEY_UNLOCK_WINDOW :: u64 where [config]:
  "CRYPTONOTE_MINED_MONEY_UNLOCK_WINDOW = 60"

definition CRYPTONOTE_MINED_MONEY_UNLOCK_WINDOW_TESTNET :: u64 where [config]:
  "CRYPTONOTE_MINED_MONEY_UNLOCK_WINDOW_TESTNET = 0"

definition DIFFICULTY_TARGET_DRGL :: u64 where [config]:
  "DIFFICULTY_TARGET_DRGL = 81"

definition EMISSION_SPEED_FACTOR :: u32 where [config]:
  "EMISSION_SPEED_FACTOR = 18"

definition EMISSION_SPEED_FACTOR_FANGO :: u32 where [config]:
  "EMISSION_SPEED_FACTOR_FANGO = 19"

definition EMISSION_SPEED_FACTOR_FUEGO :: u32 where [config]:
  "EMISSION_SPEED_FACTOR_FUEGO = 20"

definition CRYPTONOTE_BLOCK_FUTURE_TIME_LIMIT :: u64 where [config]:
  "CRYPTONOTE_BLOCK_FUTURE_TIME_LIMIT = 60 * 60 * 2"

definition CRYPTONOTE_BLOCK_FUTURE_TIME_LIMIT_V1 :: u64 where [config]:
  "CRYPTONOTE_BLOCK_FUTURE_TIME_LIMIT_V1 = DIFFICULTY_TARGET_DRGL * 6"

definition CRYPTONOTE_BLOCK_FUTURE_TIME_LIMIT_V2 :: u64 where [config]:
  "CRYPTONOTE_BLOCK_FUTURE_TIME_LIMIT_V2 = DIFFICULTY_TARGET * 2"

definition BLOCKCHAIN_TIMESTAMP_CHECK_WINDOW :: u64 where [config]:
  "BLOCKCHAIN_TIMESTAMP_CHECK_WINDOW = 60"

definition BLOCKCHAIN_TIMESTAMP_CHECK_WINDOW_V1 :: u64 where [config]:
  "BLOCKCHAIN_TIMESTAMP_CHECK_WINDOW_V1 = 11"

definition MONEY_SUPPLY :: u64 where [config]:
  "MONEY_SUPPLY = 80000088000008"

definition MINIMUM_FEE_V1 :: u64 where [config]:
  "MINIMUM_FEE_V1 = 800000"

definition MINIMUM_FEE_V2 :: u64 where [config]:
  "MINIMUM_FEE_V2 = 80000"

definition MINIMUM_FEE_8KH :: u64 where [config]:
  "MINIMUM_FEE_8KH = 8000"

definition MINIMUM_FEE :: u64 where [config]:
  "MINIMUM_FEE = MINIMUM_FEE_8KH"

definition DEFAULT_DUST_THRESHOLD :: u64 where [config]:
  "DEFAULT_DUST_THRESHOLD = 1000"

definition CRYPTONOTE_COIN_VERSION :: u64 where [config]:
  "CRYPTONOTE_COIN_VERSION = 1"

definition CRYPTONOTE_DISPLAY_DECIMAL_POINT :: u64 where [config]:
  "CRYPTONOTE_DISPLAY_DECIMAL_POINT = 7"

definition CRYPTONOTE_REWARD_BLOCKS_WINDOW :: u64 where [config]:
  "CRYPTONOTE_REWARD_BLOCKS_WINDOW = 100"

definition CRYPTONOTE_BLOCK_GRANTED_FULL_REWARD_ZONE :: u64 where [config]:
  "CRYPTONOTE_BLOCK_GRANTED_FULL_REWARD_ZONE = 430080"

definition CRYPTONOTE_BLOCK_GRANTED_FULL_REWARD_ZONE_V2 :: u64 where [config]:
  "CRYPTONOTE_BLOCK_GRANTED_FULL_REWARD_ZONE_V2 = 430080"

definition CRYPTONOTE_BLOCK_GRANTED_FULL_REWARD_ZONE_V1 :: u64 where [config]:
  "CRYPTONOTE_BLOCK_GRANTED_FULL_REWARD_ZONE_V1 = 20000"

definition CRYPTONOTE_BLOCK_GRANTED_FULL_REWARD_ZONE_CURRENT :: u64 where [config]:
  "CRYPTONOTE_BLOCK_GRANTED_FULL_REWARD_ZONE_CURRENT = CRYPTONOTE_BLOCK_GRANTED_FULL_REWARD_ZONE"

definition CRYPTONOTE_COINBASE_BLOB_RESERVED_SIZE :: u64 where [config]:
  "CRYPTONOTE_COINBASE_BLOB_RESERVED_SIZE = 600"

definition EXPECTED_NUMBER_OF_BLOCKS_PER_DAY :: u64 where [config]:
  "EXPECTED_NUMBER_OF_BLOCKS_PER_DAY = 24 * 60 * 60 div DIFFICULTY_TARGET"

definition DIFFICULTY_CUT :: u64 where [config]:
  "DIFFICULTY_CUT = 60"

definition DIFFICULTY_LAG :: u64 where [config]:
  "DIFFICULTY_LAG = 15"

definition DIFFICULTY_WINDOW :: u64 where [config]:
  "DIFFICULTY_WINDOW = 1067"

definition DIFFICULTY_WINDOW_V2 :: u64 where [config]:
  "DIFFICULTY_WINDOW_V2 = 18"

definition DIFFICULTY_WINDOW_V3 :: u64 where [config]:
  "DIFFICULTY_WINDOW_V3 = 60"

definition DIFFICULTY_WINDOW_V4 :: u64 where [config]:
  "DIFFICULTY_WINDOW_V4 = 45"

definition MIN_TX_MIXIN_SIZE_V2 :: u64 where [config]:
  "MIN_TX_MIXIN_SIZE_V2 = 2"

definition MIN_TX_MIXIN_SIZE_V10 :: u64 where [config]:
  "MIN_TX_MIXIN_SIZE_V10 = 8"

definition MIN_TX_MIXIN_SIZE :: u64 where [config]:
  "MIN_TX_MIXIN_SIZE = MIN_TX_MIXIN_SIZE_V10"

definition MAX_TX_MIXIN_SIZE :: u64 where [config]:
  "MAX_TX_MIXIN_SIZE = 18"

definition AMOUNT_TIER_0 :: u64 where [config]:
  "AMOUNT_TIER_0 = 8000000"

definition AMOUNT_TIER_1 :: u64 where [config]:
  "AMOUNT_TIER_1 = 80000000"

definition AMOUNT_TIER_2 :: u64 where [config]:
  "AMOUNT_TIER_2 = 800000000"

definition AMOUNT_TIER_3 :: u64 where [config]:
  "AMOUNT_TIER_3 = 8000000000"

definition TEST_AMOUNT_TIER_0 :: u64 where [config]:
  "TEST_AMOUNT_TIER_0 = 800000"

definition TEST_AMOUNT_TIER_1 :: u64 where [config]:
  "TEST_AMOUNT_TIER_1 = 8000000"

definition TEST_AMOUNT_TIER_2 :: u64 where [config]:
  "TEST_AMOUNT_TIER_2 = 80000000"

definition TEST_AMOUNT_TIER_3 :: u64 where [config]:
  "TEST_AMOUNT_TIER_3 = 800000000"

definition EPOCH_DURATION_BLOCKS :: u64 where [config]:
  "EPOCH_DURATION_BLOCKS = 900"

definition TESTNET_EPOCH_DURATION_BLOCKS :: u64 where [config]:
  "TESTNET_EPOCH_DURATION_BLOCKS = 10"

definition FEE_POOL_RATE_PRECISION :: u64 where [config]:
  "FEE_POOL_RATE_PRECISION = 1000000"

definition DEPOSIT_MIN_AMOUNT :: u64 where [config]:
  "DEPOSIT_MIN_AMOUNT = AMOUNT_TIER_0"

definition BURN_DEPOSIT_MIN_AMOUNT :: u64 where [config]:
  "BURN_DEPOSIT_MIN_AMOUNT = AMOUNT_TIER_0"

definition COLD_MIN_TERM :: u32 where [config]:
  "COLD_MIN_TERM = 16000"

definition COLD_MAX_TERM :: u32 where [config]:
  "COLD_MAX_TERM = 65000"

definition TESTNET_COLD_MIN_TERM :: u32 where [config]:
  "TESTNET_COLD_MIN_TERM = 8"

definition TESTNET_COLD_MAX_TERM :: u32 where [config]:
  "TESTNET_COLD_MAX_TERM = 42"

definition DEPOSIT_TERM_FOREVER :: u32 where [config]:
  "DEPOSIT_TERM_FOREVER = - 1"

definition MULTIPLIER_FACTOR :: u64 where [config]:
  "MULTIPLIER_FACTOR = 100"

definition END_MULTIPLIER_BLOCK :: u32 where [config]:
  "END_MULTIPLIER_BLOCK = 50"

definition MAX_BLOCK_SIZE_INITIAL :: u64 where [config]:
  "MAX_BLOCK_SIZE_INITIAL = 800000"

definition MAX_BLOCK_SIZE_GROWTH_SPEED_NUMERATOR :: u64 where [config]:
  "MAX_BLOCK_SIZE_GROWTH_SPEED_NUMERATOR = 100 * 1024"

definition MAX_BLOCK_SIZE_GROWTH_SPEED_DENOMINATOR :: u64 where [config]:
  "MAX_BLOCK_SIZE_GROWTH_SPEED_DENOMINATOR = 365 * 24 * 60 * 60 div DIFFICULTY_TARGET"

definition CRYPTONOTE_LOCKED_TX_ALLOWED_DELTA_BLOCKS :: u64 where [config]:
  "CRYPTONOTE_LOCKED_TX_ALLOWED_DELTA_BLOCKS = 1"

definition CRYPTONOTE_LOCKED_TX_ALLOWED_DELTA_SECONDS :: u64 where [config]:
  "CRYPTONOTE_LOCKED_TX_ALLOWED_DELTA_SECONDS = DIFFICULTY_TARGET_DRGL * CRYPTONOTE_LOCKED_TX_ALLOWED_DELTA_BLOCKS"

definition CRYPTONOTE_LOCKED_TX_ALLOWED_DELTA_SECONDS_V2 :: u64 where [config]:
  "CRYPTONOTE_LOCKED_TX_ALLOWED_DELTA_SECONDS_V2 = DIFFICULTY_TARGET * CRYPTONOTE_LOCKED_TX_ALLOWED_DELTA_BLOCKS"

definition CRYPTONOTE_MAX_TX_SIZE_LIMIT :: u64 where [config]:
  "CRYPTONOTE_MAX_TX_SIZE_LIMIT = CRYPTONOTE_BLOCK_GRANTED_FULL_REWARD_ZONE_CURRENT - CRYPTONOTE_COINBASE_BLOB_RESERVED_SIZE"

definition CRYPTONOTE_MEMPOOL_TX_LIVETIME :: u64 where [config]:
  "CRYPTONOTE_MEMPOOL_TX_LIVETIME = 60 * 60 * 12"

definition CRYPTONOTE_MEMPOOL_TX_FROM_ALT_BLOCK_LIVETIME :: u64 where [config]:
  "CRYPTONOTE_MEMPOOL_TX_FROM_ALT_BLOCK_LIVETIME = 60 * 60 * 12"

definition CRYPTONOTE_NUMBER_OF_PERIODS_TO_FORGET_TX_DELETED_FROM_POOL :: u64 where [config]:
  "CRYPTONOTE_NUMBER_OF_PERIODS_TO_FORGET_TX_DELETED_FROM_POOL = 7"

definition FUSION_TX_MAX_SIZE :: u64 where [config]:
  "FUSION_TX_MAX_SIZE = CRYPTONOTE_BLOCK_GRANTED_FULL_REWARD_ZONE * 30 div 100"

definition FUSION_TX_MIN_INPUT_COUNT :: u64 where [config]:
  "FUSION_TX_MIN_INPUT_COUNT = 12"

definition FUSION_TX_MIN_IN_OUT_COUNT_RATIO :: u64 where [config]:
  "FUSION_TX_MIN_IN_OUT_COUNT_RATIO = 4"

definition UPGRADE_HEIGHT_V2 :: u32 where [config]:
  "UPGRADE_HEIGHT_V2 = 147958"

definition UPGRADE_HEIGHT_V3 :: u32 where [config]:
  "UPGRADE_HEIGHT_V3 = 154321"

definition UPGRADE_HEIGHT_V4 :: u32 where [config]:
  "UPGRADE_HEIGHT_V4 = 300000"

definition UPGRADE_HEIGHT_V5 :: u32 where [config]:
  "UPGRADE_HEIGHT_V5 = 324819"

definition UPGRADE_HEIGHT_V6 :: u32 where [config]:
  "UPGRADE_HEIGHT_V6 = 345678"

definition UPGRADE_HEIGHT_V7 :: u32 where [config]:
  "UPGRADE_HEIGHT_V7 = 657000"

definition UPGRADE_HEIGHT_V8 :: u32 where [config]:
  "UPGRADE_HEIGHT_V8 = 800000"

definition UPGRADE_HEIGHT_V9 :: u32 where [config]:
  "UPGRADE_HEIGHT_V9 = 826420"

definition UPGRADE_HEIGHT_V10 :: u32 where [config]:
  "UPGRADE_HEIGHT_V10 = 999999"

definition UPGRADE_VOTING_THRESHOLD :: u32 where [config]:
  "UPGRADE_VOTING_THRESHOLD = 90"

definition UPGRADE_VOTING_WINDOW :: u64 where [config]:
  "UPGRADE_VOTING_WINDOW = EXPECTED_NUMBER_OF_BLOCKS_PER_DAY"

definition UPGRADE_WINDOW :: u64 where [config]:
  "UPGRADE_WINDOW = EXPECTED_NUMBER_OF_BLOCKS_PER_DAY"

definition CRYPTONOTE_PUBLIC_ADDRESS_BASE58_PREFIX_TESTNET :: u64 where [config]:
  "CRYPTONOTE_PUBLIC_ADDRESS_BASE58_PREFIX_TESTNET = 1075740"

definition CRYPTONOTE_SUBADDRESS_BASE58_PREFIX_TESTNET :: u64 where [config]:
  "CRYPTONOTE_SUBADDRESS_BASE58_PREFIX_TESTNET = CRYPTONOTE_PUBLIC_ADDRESS_BASE58_PREFIX_TESTNET"

end
