(* ===== verification/Currency_Builder.thy ===== *)
theory Currency_Builder
  imports Fuego_Config Keccak
begin

text \<open>
  The parameters of the currency and how they are set: class \<open>Currency\<close> (its data members) and class
  \<open>CurrencyBuilder\<close> of \<open>src/src/CryptoNoteCore/Currency.h\<close> and \<open>Currency.cpp\<close>. The constructor of the
  builder leaves several members unset, so it is modelled as an update of the memory \<open>mem\<close> the object is
  built in; a setter that throws returns \<open>None\<close>. \<open>Currency::init\<close> takes the result of generating and
  hashing the genesis block as an argument.
\<close>

section \<open>The parameters\<close>

record Currency =
  cur_maxBlockHeight :: u64
  cur_maxBlockBlobSize :: u64
  cur_maxTxSize :: u64
  cur_publicAddressBase58Prefix :: u64
  cur_subAddressBase58Prefix :: u64
  cur_minedMoneyUnlockWindow :: u64
  cur_timestampCheckWindow :: u64
  cur_timestampCheckWindow_v1 :: u64
  cur_blockFutureTimeLimit :: u64
  cur_blockFutureTimeLimit_v1 :: u64
  cur_blockFutureTimeLimit_v2 :: u64
  cur_moneySupply :: u64
  cur_emissionSpeedFactor :: u32
  cur_emissionSpeedFactor_FANGO :: u32
  cur_emissionSpeedFactor_FUEGO :: u32
  cur_cryptonoteCoinVersion :: u64
  cur_rewardBlocksWindow :: u64
  cur_blockGrantedFullRewardZone :: u64
  cur_minerTxBlobReservedSize :: u64
  cur_numberOfDecimalPlaces :: u64
  cur_coin :: u64
  cur_minMixin :: u64
  cur_maxMixin :: u64
  cur_minimumFee :: u64
  cur_minimumFeeV1 :: u64
  cur_minimumFeeV2 :: u64
  cur_minimumFeeBanking :: u64
  cur_defaultDustThreshold :: u64
  cur_difficultyTarget :: u64
  cur_difficultyTarget_DRGL :: u64
  cur_difficultyWindow :: u64
  cur_difficultyLag :: u64
  cur_difficultyCut :: u64
  cur_depositMinAmount :: u64
  cur_depositMinTerm :: u32
  cur_depositMaxTerm :: u32
  cur_depositMinTotalRateFactor :: u64
  cur_depositMaxTotalRate :: u64
  cur_burnDepositMinAmount :: u64
  cur_burnDepositStandardAmount :: u64
  cur_burnDepositLargeAmount :: u64
  cur_depositTermForever :: u32
  cur_heatConversionRate :: u64
  cur_baseMoneySupply :: u64
  cur_ethereal_xfg :: u64
  cur_fuegoNetworkId :: u64
  cur_fuegoNetworkIdString :: string
  cur_maxBlockSizeInitial :: u64
  cur_maxBlockSizeGrowthSpeedNumerator :: u64
  cur_maxBlockSizeGrowthSpeedDenominator :: u64
  cur_lockedTxAllowedDeltaSeconds :: u64
  cur_lockedTxAllowedDeltaSeconds_v2 :: u64
  cur_lockedTxAllowedDeltaBlocks :: u64
  cur_mempoolTxLiveTime :: u64
  cur_mempoolTxFromAltBlockLiveTime :: u64
  cur_numberOfPeriodsToForgetTxDeletedFromPool :: u64
  cur_upgradeHeightV2 :: u32
  cur_upgradeHeightV3 :: u32
  cur_upgradeHeightV4 :: u32
  cur_upgradeHeightV5 :: u32
  cur_upgradeHeightV6 :: u32
  cur_upgradeHeightV7 :: u32
  cur_upgradeHeightV8 :: u32
  cur_upgradeHeightV9 :: u32
  cur_upgradeHeightV10 :: u32
  cur_upgradeVotingThreshold :: u32
  cur_upgradeVotingWindow :: u32
  cur_upgradeWindow :: u32
  cur_transactionMaxSize :: u64
  cur_fusionTxMaxSize :: u64
  cur_fusionTxMinInputCount :: u64
  cur_fusionTxMinInOutCountRatio :: u64
  cur_blocksFileName :: string
  cur_blocksCacheFileName :: string
  cur_blockIndexesFileName :: string
  cur_txPoolFileName :: string
  cur_blockchinIndicesFileName :: string
  cur_testnet :: bool
  cur_genesisBlockHash :: hash

section \<open>Setters that check their argument\<close>

definition set_emissionSpeedFactor :: "u32 \<Rightarrow> Currency \<Rightarrow> Currency option" where
  "set_emissionSpeedFactor val c =
     (if val \<le> 0 \<or> 8 * 8 < val then None else Some (c\<lparr>cur_emissionSpeedFactor := val\<rparr>))"

definition set_emissionSpeedFactor_FANGO :: "u32 \<Rightarrow> Currency \<Rightarrow> Currency option" where
  "set_emissionSpeedFactor_FANGO val c =
     (if val \<le> 0 \<or> 8 * 8 < val then None else Some (c\<lparr>cur_emissionSpeedFactor_FANGO := val\<rparr>))"

definition set_emissionSpeedFactor_FUEGO :: "u32 \<Rightarrow> Currency \<Rightarrow> Currency option" where
  "set_emissionSpeedFactor_FUEGO val c =
     (if val \<le> 0 \<or> 8 * 8 < val then None else Some (c\<lparr>cur_emissionSpeedFactor_FUEGO := val\<rparr>))"

definition set_numberOfDecimalPlaces :: "u64 \<Rightarrow> Currency \<Rightarrow> Currency" where
  "set_numberOfDecimalPlaces val c =
     c\<lparr>cur_numberOfDecimalPlaces := val, cur_coin := ((\<lambda>coin. coin * 10) ^^ unat val) 1\<rparr>"

definition set_difficultyWindow :: "u64 \<Rightarrow> Currency \<Rightarrow> Currency option" where
  "set_difficultyWindow val c = (if val < 2 then None else Some (c\<lparr>cur_difficultyWindow := val\<rparr>))"

definition set_upgradeVotingThreshold :: "u32 \<Rightarrow> Currency \<Rightarrow> Currency option" where
  "set_upgradeVotingThreshold val c =
     (if val \<le> 0 \<or> 100 < val then None else Some (c\<lparr>cur_upgradeVotingThreshold := val\<rparr>))"

definition set_upgradeWindow :: "u64 \<Rightarrow> Currency \<Rightarrow> Currency option" where
  "set_upgradeWindow val c = (if val \<le> 0 then None else Some (c\<lparr>cur_upgradeWindow := ucast val\<rparr>))"

definition set_testnet :: "bool \<Rightarrow> Currency \<Rightarrow> Currency" where
  "set_testnet val c =
     (if val
      then c\<lparr>cur_testnet := val,
             cur_publicAddressBase58Prefix := CRYPTONOTE_PUBLIC_ADDRESS_BASE58_PREFIX_TESTNET,
             cur_subAddressBase58Prefix := CRYPTONOTE_SUBADDRESS_BASE58_PREFIX_TESTNET,
             cur_depositMinTerm := TESTNET_COLD_MIN_TERM,
             cur_depositMaxTerm := TESTNET_COLD_MAX_TERM,
             cur_minedMoneyUnlockWindow := CRYPTONOTE_MINED_MONEY_UNLOCK_WINDOW_TESTNET\<rparr>
      else c\<lparr>cur_testnet := val,
             cur_depositMinTerm := COLD_MIN_TERM,
             cur_depositMaxTerm := COLD_MAX_TERM,
             cur_minedMoneyUnlockWindow := CRYPTONOTE_MINED_MONEY_UNLOCK_WINDOW\<rparr>)"

section \<open>The builder\<close>

text \<open>The network id: the first eight bytes, little-endian, of the Keccak hash of its decimal string.\<close>

definition network_id_hash :: "string \<Rightarrow> u64" where
  "network_id_hash networkIdStr = of_nat (horner_sum unat 256 (take 8 (keccak (str_bytes networkIdStr) 32)))"

text \<open>The members up to the deposit terms, in the order of the constructor.\<close>

definition builder_limits :: "Currency \<Rightarrow> Currency" where
  "builder_limits mem = set_numberOfDecimalPlaces CRYPTONOTE_DISPLAY_DECIMAL_POINT
     (mem\<lparr>cur_maxBlockHeight := CRYPTONOTE_MAX_BLOCK_NUMBER,
       cur_maxBlockBlobSize := CRYPTONOTE_MAX_BLOCK_BLOB_SIZE,
       cur_maxTxSize := CRYPTONOTE_MAX_TX_SIZE,
       cur_publicAddressBase58Prefix := CRYPTONOTE_PUBLIC_ADDRESS_BASE58_PREFIX,
       cur_subAddressBase58Prefix := CRYPTONOTE_SUBADDRESS_BASE58_PREFIX,
       cur_minedMoneyUnlockWindow := CRYPTONOTE_MINED_MONEY_UNLOCK_WINDOW,
       cur_timestampCheckWindow := BLOCKCHAIN_TIMESTAMP_CHECK_WINDOW,
       cur_timestampCheckWindow_v1 := BLOCKCHAIN_TIMESTAMP_CHECK_WINDOW_V1,
       cur_blockFutureTimeLimit := CRYPTONOTE_BLOCK_FUTURE_TIME_LIMIT,
       cur_blockFutureTimeLimit_v1 := CRYPTONOTE_BLOCK_FUTURE_TIME_LIMIT_V1,
       cur_blockFutureTimeLimit_v2 := CRYPTONOTE_BLOCK_FUTURE_TIME_LIMIT_V2,
       cur_moneySupply := MONEY_SUPPLY,
       cur_emissionSpeedFactor := EMISSION_SPEED_FACTOR,
       cur_emissionSpeedFactor_FANGO := EMISSION_SPEED_FACTOR_FANGO,
       cur_emissionSpeedFactor_FUEGO := EMISSION_SPEED_FACTOR_FUEGO,
       cur_cryptonoteCoinVersion := CRYPTONOTE_COIN_VERSION,
       cur_rewardBlocksWindow := CRYPTONOTE_REWARD_BLOCKS_WINDOW,
       cur_blockGrantedFullRewardZone := CRYPTONOTE_BLOCK_GRANTED_FULL_REWARD_ZONE,
       cur_minerTxBlobReservedSize := CRYPTONOTE_COINBASE_BLOB_RESERVED_SIZE,
       cur_minMixin := MIN_TX_MIXIN_SIZE,
       cur_maxMixin := MAX_TX_MIXIN_SIZE,
       cur_minimumFee := MINIMUM_FEE,
       cur_minimumFeeV1 := MINIMUM_FEE_V1,
       cur_minimumFeeV2 := MINIMUM_FEE_V2,
       cur_defaultDustThreshold := DEFAULT_DUST_THRESHOLD,
       cur_difficultyTarget := DIFFICULTY_TARGET,
       cur_difficultyTarget_DRGL := DIFFICULTY_TARGET_DRGL,
       cur_difficultyWindow := DIFFICULTY_WINDOW,
       cur_difficultyLag := DIFFICULTY_LAG,
       cur_difficultyCut := DIFFICULTY_CUT\<rparr>)"

text \<open>The deposit parameters and the network id; both read \<open>m_testnet\<close>.\<close>

definition builder_deposits :: "Currency \<Rightarrow> Currency" where
  "builder_deposits c =
     (let networkIdStr = (if cur_testnet c then ''740838354326331649518908687400750781456''
                          else ''93385046440755750514194170694064996624'')
      in c\<lparr>cur_depositMinAmount := DEPOSIT_MIN_AMOUNT,
           cur_depositMinTerm := (if cur_testnet c then TESTNET_COLD_MIN_TERM else COLD_MIN_TERM),
           cur_depositMaxTerm := (if cur_testnet c then TESTNET_COLD_MAX_TERM else COLD_MAX_TERM),
           cur_burnDepositMinAmount := BURN_DEPOSIT_MIN_AMOUNT,
           cur_depositTermForever := DEPOSIT_TERM_FOREVER,
           cur_heatConversionRate := 10000000,
           cur_baseMoneySupply := MONEY_SUPPLY,
           cur_fuegoNetworkIdString := networkIdStr,
           cur_fuegoNetworkId := network_id_hash networkIdStr\<rparr>)"

text \<open>The remaining members.\<close>

definition builder_heights :: "Currency \<Rightarrow> Currency" where
  "builder_heights c =
     c\<lparr>cur_maxBlockSizeInitial := MAX_BLOCK_SIZE_INITIAL,
       cur_maxBlockSizeGrowthSpeedNumerator := MAX_BLOCK_SIZE_GROWTH_SPEED_NUMERATOR,
       cur_maxBlockSizeGrowthSpeedDenominator := MAX_BLOCK_SIZE_GROWTH_SPEED_DENOMINATOR,
       cur_lockedTxAllowedDeltaSeconds := CRYPTONOTE_LOCKED_TX_ALLOWED_DELTA_SECONDS,
       cur_lockedTxAllowedDeltaSeconds_v2 := CRYPTONOTE_LOCKED_TX_ALLOWED_DELTA_SECONDS_V2,
       cur_lockedTxAllowedDeltaBlocks := CRYPTONOTE_LOCKED_TX_ALLOWED_DELTA_BLOCKS,
       cur_mempoolTxLiveTime := CRYPTONOTE_MEMPOOL_TX_LIVETIME,
       cur_mempoolTxFromAltBlockLiveTime := CRYPTONOTE_MEMPOOL_TX_FROM_ALT_BLOCK_LIVETIME,
       cur_numberOfPeriodsToForgetTxDeletedFromPool := CRYPTONOTE_NUMBER_OF_PERIODS_TO_FORGET_TX_DELETED_FROM_POOL,
       cur_upgradeHeightV2 := UPGRADE_HEIGHT_V2,
       cur_upgradeHeightV3 := UPGRADE_HEIGHT_V3,
       cur_upgradeHeightV4 := UPGRADE_HEIGHT_V4,
       cur_upgradeHeightV5 := UPGRADE_HEIGHT_V5,
       cur_upgradeHeightV6 := UPGRADE_HEIGHT_V6,
       cur_upgradeHeightV7 := UPGRADE_HEIGHT_V7,
       cur_upgradeHeightV8 := UPGRADE_HEIGHT_V8,
       cur_upgradeHeightV9 := UPGRADE_HEIGHT_V9,
       cur_upgradeHeightV10 := UPGRADE_HEIGHT_V10,
       cur_upgradeVotingThreshold := UPGRADE_VOTING_THRESHOLD,
       cur_upgradeVotingWindow := ucast UPGRADE_VOTING_WINDOW,
       cur_upgradeWindow := ucast UPGRADE_WINDOW,
       cur_transactionMaxSize := CRYPTONOTE_MAX_TX_SIZE_LIMIT,
       cur_fusionTxMaxSize := FUSION_TX_MAX_SIZE,
       cur_fusionTxMinInputCount := FUSION_TX_MIN_INPUT_COUNT,
       cur_fusionTxMinInOutCountRatio := FUSION_TX_MIN_IN_OUT_COUNT_RATIO,
       cur_blocksFileName := ''blocks.dat'',
       cur_blocksCacheFileName := ''blockscache.dat'',
       cur_blockIndexesFileName := ''blockindexes.dat'',
       cur_txPoolFileName := ''poolstate.bin'',
       cur_blockchinIndicesFileName := ''blockchainindices.dat''\<rparr>"

definition CurrencyBuilder_new :: "Currency \<Rightarrow> Currency" where
  "CurrencyBuilder_new mem = set_testnet False (builder_heights (builder_deposits (builder_limits mem)))"

text \<open>What \<open>init\<close> changes on the test network.\<close>

definition testnet_overrides :: "Currency \<Rightarrow> Currency" where
  "testnet_overrides c =
     c\<lparr>cur_upgradeHeightV2 := 2, cur_upgradeHeightV3 := 3, cur_upgradeHeightV4 := 4,
       cur_upgradeHeightV5 := 5, cur_upgradeHeightV6 := 6, cur_upgradeHeightV7 := 17,
       cur_upgradeHeightV8 := 18, cur_upgradeHeightV9 := 19, cur_upgradeHeightV10 := 20,
       cur_blocksFileName := ''testnet_'' @ cur_blocksFileName c,
       cur_blocksCacheFileName := ''tesnet_'' @ cur_blocksCacheFileName c,
       cur_blockIndexesFileName := ''testnet_'' @ cur_blockIndexesFileName c,
       cur_txPoolFileName := ''testnet_'' @ cur_txPoolFileName c,
       cur_blockchinIndicesFileName := ''testnet_'' @ cur_blockchinIndicesFileName c\<rparr>"

text \<open>\<open>genesis\<close> is the hash of the generated genesis block, if generating and hashing it succeeded.\<close>

definition Currency_init :: "(bool \<Rightarrow> hash option) \<Rightarrow> Currency \<Rightarrow> Currency option" where
  "Currency_init genesis c =
     (case genesis (cur_testnet c) of
        None \<Rightarrow> None
      | Some h \<Rightarrow>
        let c1 = c\<lparr>cur_genesisBlockHash := h\<rparr>
        in Some (if cur_testnet c1 then testnet_overrides c1 else c1))"

text \<open>The currency the daemon runs with: builder, testnet flag, \<open>init\<close>.\<close>

definition make_currency :: "Currency \<Rightarrow> bool \<Rightarrow> (bool \<Rightarrow> hash option) \<Rightarrow> Currency option" where
  "make_currency mem testnet genesis = Currency_init genesis (set_testnet testnet (CurrencyBuilder_new mem))"

end
