(* ===== verification/Currency_Rules.thy ===== *)
theory Currency_Rules
  imports Currency_Builder Int_Util Base58 Money_Amounts Transactions Commitment_Index
begin

text \<open>
  The consensus rules of class \<open>Currency\<close> (\<open>src/src/CryptoNoteCore/Currency.cpp\<close>, \<open>Currency.h\<close>,
  \<open>BankingFee.cpp\<close>) and the functions of \<open>CryptoNoteBasicImpl.cpp\<close> they use: the block version at a
  height, fees, mixins, the block reward with its size penalty and the re-emission of burned coins,
  deposit interest, transaction fees, fusion transactions, burn deposits and account addresses. The
  parameters of the currency are the record of theory \<open>Currency_Builder\<close>.

  Shown here: the size penalty is the exact quotient of 128-bit arithmetic; the emission never brings the
  coins in circulation above the supply; the version schedule of both networks is monotone; deposit
  interest is additive over time; account addresses survive printing and parsing.
\<close>

section \<open>Versioned parameters\<close>

definition timestampCheckWindow :: "u8 \<Rightarrow> Currency \<Rightarrow> u64" where
  "timestampCheckWindow blockMajorVersion c =
     (if 5 \<le> blockMajorVersion then cur_timestampCheckWindow_v1 c else cur_timestampCheckWindow c)"

definition blockFutureTimeLimit :: "u8 \<Rightarrow> Currency \<Rightarrow> u64" where
  "blockFutureTimeLimit blockMajorVersion c =
     (if 7 \<le> blockMajorVersion then cur_blockFutureTimeLimit_v2 c
      else if 5 \<le> blockMajorVersion then cur_blockFutureTimeLimit_v1 c
      else cur_blockFutureTimeLimit c)"

definition emissionSpeedFactor :: "u8 \<Rightarrow> Currency \<Rightarrow> u32" where
  "emissionSpeedFactor blockMajorVersion c =
     (if 9 \<le> blockMajorVersion then cur_emissionSpeedFactor_FUEGO c
      else if blockMajorVersion = 8 then cur_emissionSpeedFactor_FANGO c
      else cur_emissionSpeedFactor c)"

definition minMixin :: "u8 \<Rightarrow> Currency \<Rightarrow> u64" where
  "minMixin blockMajorVersion c =
     (if 10 \<le> blockMajorVersion then (if cur_testnet c then 0 else MIN_TX_MIXIN_SIZE_V10)
      else if 7 \<le> blockMajorVersion then MIN_TX_MIXIN_SIZE_V2
      else cur_minMixin c)"

definition targetRingSizes :: "u64 list" where
  "targetRingSizes = [18, 15, 12, 11, 10, 9, 8]"

definition calculateOptimalRingSize :: "u64 \<Rightarrow> u64 \<Rightarrow> u8 \<Rightarrow> Currency \<Rightarrow> u64" where
  "calculateOptimalRingSize amount availableOutputs blockMajorVersion c =
     (if blockMajorVersion < 10 then minMixin blockMajorVersion c
      else
        let minRingSize = minMixin blockMajorVersion c;
            maxRingSize = cur_maxMixin c
        in if availableOutputs < minRingSize then 0
           else (case List.find (\<lambda>targetSize. targetSize \<le> availableOutputs \<and> targetSize \<le> maxRingSize) targetRingSizes of
                   Some targetSize \<Rightarrow> targetSize
                 | None \<Rightarrow> minRingSize))"

definition difficultyTarget :: "u8 \<Rightarrow> Currency \<Rightarrow> u64" where
  "difficultyTarget blockMajorVersion c =
     (if blockMajorVersion \<le> 6 then cur_difficultyTarget_DRGL c else cur_difficultyTarget c)"

definition difficultyBlocksCountByBlockVersion :: "u8 \<Rightarrow> Currency \<Rightarrow> u64" where
  "difficultyBlocksCountByBlockVersion blockMajorVersion c =
     (if 10 \<le> blockMajorVersion then 40
      else if 7 \<le> blockMajorVersion then DIFFICULTY_WINDOW_V4 + 1
      else if 3 \<le> blockMajorVersion then DIFFICULTY_WINDOW_V3 + 1
      else if blockMajorVersion = 2 then DIFFICULTY_WINDOW_V2
      else cur_difficultyWindow c + cur_difficultyLag c)"

definition lockedTxAllowedDeltaSeconds :: "u8 \<Rightarrow> Currency \<Rightarrow> u64" where
  "lockedTxAllowedDeltaSeconds blockMajorVersion c =
     (if 7 \<le> blockMajorVersion then cur_lockedTxAllowedDeltaSeconds_v2 c else cur_lockedTxAllowedDeltaSeconds c)"

definition minNumberVotingBlocks :: "Currency \<Rightarrow> u32" where
  "minNumberVotingBlocks c = (cur_upgradeVotingWindow c * cur_upgradeVotingThreshold c + 99) div 100"

definition maxUpgradeDistance :: "Currency \<Rightarrow> u32" where
  "maxUpgradeDistance c = 7 * cur_upgradeWindow c"

definition calculateUpgradeHeight :: "u32 \<Rightarrow> Currency \<Rightarrow> u32" where
  "calculateUpgradeHeight voteCompleteHeight c = voteCompleteHeight + cur_upgradeWindow c"

definition blockGrantedFullRewardZoneByBlockVersion :: "u8 \<Rightarrow> Currency \<Rightarrow> u64" where
  "blockGrantedFullRewardZoneByBlockVersion blockMajorVersion c =
     (if 3 \<le> blockMajorVersion then cur_blockGrantedFullRewardZone c
      else if blockMajorVersion = 2 then CRYPTONOTE_BLOCK_GRANTED_FULL_REWARD_ZONE_V2
      else CRYPTONOTE_BLOCK_GRANTED_FULL_REWARD_ZONE_V1)"

definition upgradeHeight :: "u8 \<Rightarrow> Currency \<Rightarrow> u32" where
  "upgradeHeight majorVersion c =
     (if majorVersion = 2 then cur_upgradeHeightV2 c
      else if majorVersion = 3 then cur_upgradeHeightV3 c
      else if majorVersion = 4 then cur_upgradeHeightV4 c
      else if majorVersion = 5 then cur_upgradeHeightV5 c
      else if majorVersion = 6 then cur_upgradeHeightV6 c
      else if majorVersion = 7 then cur_upgradeHeightV7 c
      else if majorVersion = 8 then cur_upgradeHeightV8 c
      else if majorVersion = 9 then cur_upgradeHeightV9 c
      else if majorVersion = 10 then cur_upgradeHeightV10 c
      else - 1)"

definition blockMajorVersionAtHeight :: "u32 \<Rightarrow> Currency \<Rightarrow> u8" where
  "blockMajorVersionAtHeight height c =
     (if upgradeHeight 10 c \<le> height then 10
      else if upgradeHeight 9 c \<le> height then 9
      else if upgradeHeight 8 c \<le> height then 8
      else if upgradeHeight 7 c \<le> height then 7
      else if upgradeHeight 6 c \<le> height then 6
      else if upgradeHeight 5 c \<le> height then 5
      else if upgradeHeight 4 c \<le> height then 4
      else if upgradeHeight 3 c \<le> height then 3
      else if upgradeHeight 2 c \<le> height then 2
      else 1)"

definition minimumFee :: "u8 \<Rightarrow> Currency \<Rightarrow> u64" where
  "minimumFee blockMajorVersion c =
     (if 10 \<le> blockMajorVersion then MINIMUM_FEE_8KH
      else if 8 \<le> blockMajorVersion then MINIMUM_FEE_V2
      else if blockMajorVersion \<le> 7 then MINIMUM_FEE_V1
      else cur_minimumFee c)"

definition calculateBankingFee :: "u64 \<Rightarrow> u32 \<Rightarrow> Currency \<Rightarrow> u64" where
  "calculateBankingFee depositAmount activeEfierCount c =
     (if activeEfierCount = 0 then 0
      else
        let fee = (depositAmount * ucast activeEfierCount) div 1000
        in if fee = 0 \<and> 0 < depositAmount then cur_defaultDustThreshold c else fee)"

definition maxBlockCumulativeSize :: "u64 \<Rightarrow> Currency \<Rightarrow> u64" where
  "maxBlockCumulativeSize height c =
     cur_maxBlockSizeInitial c +
     (height * cur_maxBlockSizeGrowthSpeedNumerator c) div cur_maxBlockSizeGrowthSpeedDenominator c"

section \<open>Block reward\<close>

definition getPenalizedAmount :: "u64 \<Rightarrow> u64 \<Rightarrow> u64 \<Rightarrow> u8 \<Rightarrow> u64" where
  "getPenalizedAmount amount medianSize currentBlockSize blockMajorVersion =
     (if amount = 0 then 0
      else if currentBlockSize \<le> medianSize then amount
      else
        let (productLo, productHi) =
              (if 10 \<le> blockMajorVersion
               then mul128 amount ((2 * medianSize - currentBlockSize) * currentBlockSize)
               else mul128 amount (currentBlockSize * (2 * medianSize - currentBlockSize)));
            (_, hi1, lo1) = div128_32 productHi productLo (ucast medianSize);
            (_, penalizedAmountHi, penalizedAmountLo) = div128_32 hi1 lo1 (ucast medianSize)
        in penalizedAmountLo)"

definition syncEternalFlame :: "u64 \<Rightarrow> Currency \<Rightarrow> Currency" where
  "syncEternalFlame authoritativeTotal c = c\<lparr>cur_ethereal_xfg := min authoritativeTotal (cur_moneySupply c)\<rparr>"

text \<open>The reward before penalties: the coins not in circulation, shifted by the emission factor.\<close>

definition base_reward :: "u8 \<Rightarrow> u64 \<Rightarrow> u64 \<Rightarrow> Currency \<Rightarrow> u64" where
  "base_reward blockMajorVersion alreadyGeneratedCoins burnedCoinsOverride c =
     (let selectedEmissionSpeedFactor = unat (emissionSpeedFactor blockMajorVersion c);
          eternalFlame = (if burnedCoinsOverride \<noteq> - 1 then burnedCoinsOverride else cur_ethereal_xfg c)
      in if 10 \<le> blockMajorVersion \<and> 0 < eternalFlame
         then
           let Osavvirsak = (if eternalFlame < alreadyGeneratedCoins then alreadyGeneratedCoins - eternalFlame else 0)
           in drop_bit selectedEmissionSpeedFactor (cur_moneySupply c - Osavvirsak)
         else drop_bit selectedEmissionSpeedFactor (cur_moneySupply c - alreadyGeneratedCoins))"

text \<open>The coins in circulation as the reward formula counts them.\<close>

definition circulating :: "u8 \<Rightarrow> u64 \<Rightarrow> u64 \<Rightarrow> Currency \<Rightarrow> u64" where
  "circulating v already burned c =
     (let eternalFlame = (if burned \<noteq> - 1 then burned else cur_ethereal_xfg c)
      in if 10 \<le> v \<and> 0 < eternalFlame then (if eternalFlame < already then already - eternalFlame else 0)
         else already)"

text \<open>\<open>None\<close> when the block is too big; else the reward and the change of the emission.\<close>

definition getBlockReward :: "u8 \<Rightarrow> u64 \<Rightarrow> u64 \<Rightarrow> u64 \<Rightarrow> u64 \<Rightarrow> u32 \<Rightarrow> u64 \<Rightarrow> Currency \<Rightarrow> (u64 \<times> int) option" where
  "getBlockReward blockMajorVersion medianSize currentBlockSize alreadyGeneratedCoins fee height burnedCoinsOverride c =
     (let baseReward = base_reward blockMajorVersion alreadyGeneratedCoins burnedCoinsOverride c;
          medianSize = max medianSize (blockGrantedFullRewardZoneByBlockVersion blockMajorVersion c)
      in if 2 * medianSize < currentBlockSize then None
         else
           let penalizedBaseReward = getPenalizedAmount baseReward medianSize currentBlockSize blockMajorVersion;
               penalizedFee = (if 2 \<le> blockMajorVersion \<or> cur_cryptonoteCoinVersion c = 1
                               then getPenalizedAmount fee medianSize currentBlockSize blockMajorVersion else fee)
           in Some (penalizedBaseReward + penalizedFee, sint (penalizedBaseReward - (fee - penalizedFee))))"

section \<open>Interest and transaction fees\<close>

definition calculateInterest :: "u64 \<Rightarrow> u32 \<Rightarrow> u32 \<Rightarrow> Currency \<Rightarrow> u64" where
  "calculateInterest amount term height c =
     (let a = ucast term * cur_depositMaxTotalRate c - cur_depositMinTotalRateFactor c;
          (bLo, bHi) = mul128 amount a;
          offchaininterest = 0;
          (_, cHi, cLo) = div128_32 bHi bLo (100 * cur_depositMaxTerm c);
          (interestLo, interestHi) =
            (if height \<le> END_MULTIPLIER_BLOCK then mul128 cLo MULTIPLIER_FACTOR else (cLo, cHi))
      in offchaininterest)"

definition epochDuration :: "Currency \<Rightarrow> u64" where
  "epochDuration c = (if cur_testnet c then TESTNET_EPOCH_DURATION_BLOCKS else EPOCH_DURATION_BLOCKS)"

definition calculateCdInterest :: "u64 \<Rightarrow> u32 \<Rightarrow> u32 \<Rightarrow> CommitmentIndex \<Rightarrow> Currency \<Rightarrow> u64" where
  "calculateCdInterest amount creationHeight currentHeight commitmentIndex c =
     (if currentHeight \<le> creationHeight then 0
      else
        let startEpoch = ucast creationHeight div epochDuration c;
            endEpoch = ucast currentHeight div epochDuration c;
            epochCount = getEpochCount commitmentIndex
        in foldl (\<lambda>interest e. interest + (amount * getEpochFeeRate (of_nat e) commitmentIndex) div FEE_POOL_RATE_PRECISION)
             0 [unat startEpoch ..< min (Suc (unat endEpoch)) epochCount])"

definition calculateTotalTransactionInterest :: "'a TransactionPrefix_scheme \<Rightarrow> u32 \<Rightarrow> Currency \<Rightarrow> u64" where
  "calculateTotalTransactionInterest tx height c =
     foldl (\<lambda>interest i. case i of
              MultisignatureInput amount _ _ term \<Rightarrow>
                if term \<noteq> 0 then interest + calculateInterest amount term height c else interest
            | _ \<Rightarrow> interest) 0 (tx_inputs tx)"

fun getTransactionInputAmount :: "u32 \<Rightarrow> Currency \<Rightarrow> TransactionInput \<Rightarrow> u64" where
  "getTransactionInputAmount height c (KeyInput amount _ _) = amount"
| "getTransactionInputAmount height c (MultisignatureInput amount _ _ term) =
     (if term = 0 then amount else amount + calculateInterest amount term height c)"
| "getTransactionInputAmount height c (TransactionInputCommitmentSpend amount _ _ claimedInterest) =
     amount + claimedInterest"
| "getTransactionInputAmount height c (TransactionInputCommitmentTransfer amount _ _ _) = amount"
| "getTransactionInputAmount height c (BaseInput _) = 0"
| "getTransactionInputAmount height c (TransactionInputUnified _ _ _ _) = 0"

definition getTransactionAllInputsAmount :: "'a TransactionPrefix_scheme \<Rightarrow> u32 \<Rightarrow> Currency \<Rightarrow> u64" where
  "getTransactionAllInputsAmount tx height c =
     foldl (\<lambda>amount i. amount + getTransactionInputAmount height c i) 0 (tx_inputs tx)"

text \<open>\<open>None\<close> when the function returns false.\<close>

definition getTransactionFee :: "'a TransactionPrefix_scheme \<Rightarrow> u32 \<Rightarrow> Currency \<Rightarrow> u64 option" where
  "getTransactionFee tx height c =
     (let amount_in = foldl (\<lambda>amount i. amount + getTransactionInputAmount height c i) 0 (tx_inputs tx);
          amount_out = foldl (\<lambda>amount o'. amount + out_amount o') 0 (tx_outputs tx)
      in if amount_in < amount_out
         then
           let versionedMinFee = minimumFee (blockMajorVersionAtHeight height c) c
           in if 0 < length (tx_inputs tx) \<and> 0 < length (tx_outputs tx) \<and> amount_in + versionedMinFee < amount_out
              then Some versionedMinFee else None
         else Some (amount_in - amount_out))"

definition getTransactionFee_or_0 :: "'a TransactionPrefix_scheme \<Rightarrow> u32 \<Rightarrow> Currency \<Rightarrow> u64" where
  "getTransactionFee_or_0 tx height c = (case getTransactionFee tx height c of Some r \<Rightarrow> r | None \<Rightarrow> 0)"

section \<open>Fusion transactions\<close>

fun sum_above_dust :: "u64 \<Rightarrow> u64 \<Rightarrow> u64 list \<Rightarrow> u64 option" where
  "sum_above_dust dust inputAmount [] = Some inputAmount"
| "sum_above_dust dust inputAmount (amount # rest) =
     (if amount < dust then None else sum_above_dust dust (inputAmount + amount) rest)"

definition isFusionTransaction :: "u64 list \<Rightarrow> u64 list \<Rightarrow> u64 \<Rightarrow> Currency \<Rightarrow> bool" where
  "isFusionTransaction inputsAmounts outputsAmounts sz c =
     (if cur_fusionTxMaxSize c < sz then False
      else if of_nat (length inputsAmounts) < cur_fusionTxMinInputCount c then False
      else if of_nat (length inputsAmounts) < of_nat (length outputsAmounts) * cur_fusionTxMinInOutCountRatio c then False
      else
        (case sum_above_dust (cur_defaultDustThreshold c) 0 inputsAmounts of
           None \<Rightarrow> False
         | Some inputAmount \<Rightarrow>
           sort (decomposeAmount inputAmount (cur_defaultDustThreshold c)) = outputsAmounts))"

definition isFusionTransaction_tx :: "'a TransactionPrefix_scheme \<Rightarrow> u64 \<Rightarrow> Currency \<Rightarrow> bool" where
  "isFusionTransaction_tx transaction sz c =
     isFusionTransaction (getInputsAmounts transaction) (map out_amount (tx_outputs transaction)) sz c"

text \<open>\<open>None\<close> when not applicable; else the power of ten of the amount.\<close>

definition isAmountApplicableInFusionTransactionInput :: "u64 \<Rightarrow> u64 \<Rightarrow> u32 \<Rightarrow> Currency \<Rightarrow> u8 option" where
  "isAmountApplicableInFusionTransactionInput amount threshold height c =
     (if threshold \<le> amount then None
      else if height < UPGRADE_HEIGHT_V4 \<and> amount < cur_defaultDustThreshold c then None
      else
        let it = lower_bound_index PRETTY_AMOUNTS amount
        in if it = length PRETTY_AMOUNTS \<or> amount \<noteq> PRETTY_AMOUNTS ! it then None
           else Some (of_nat (it div 9)))"

definition getApproximateMaximumInputCount :: "u64 \<Rightarrow> u64 \<Rightarrow> u64 \<Rightarrow> u64" where
  "getApproximateMaximumInputCount transactionSize outputCount mixinCount =
     (let KEY_IMAGE_SIZE = 32; OUTPUT_KEY_SIZE = 32; AMOUNT_SIZE = 8 + 2;
          GLOBAL_INDEXES_VECTOR_SIZE_SIZE = 1; GLOBAL_INDEXES_INITIAL_VALUE_SIZE = 4;
          GLOBAL_INDEXES_DIFFERENCE_SIZE = 4; SIGNATURE_SIZE = 64; EXTRA_TAG_SIZE = 1; INPUT_TAG_SIZE = 1;
          OUTPUT_TAG_SIZE = 1; PUBLIC_KEY_SIZE = 32; TRANSACTION_VERSION_SIZE = 1; TRANSACTION_UNLOCK_TIME_SIZE = 8;
          outputsSize = outputCount * (OUTPUT_TAG_SIZE + OUTPUT_KEY_SIZE + AMOUNT_SIZE);
          headerSize = TRANSACTION_VERSION_SIZE + TRANSACTION_UNLOCK_TIME_SIZE + EXTRA_TAG_SIZE + PUBLIC_KEY_SIZE;
          inputSize = INPUT_TAG_SIZE + AMOUNT_SIZE + KEY_IMAGE_SIZE + SIGNATURE_SIZE + GLOBAL_INDEXES_VECTOR_SIZE_SIZE +
            GLOBAL_INDEXES_INITIAL_VALUE_SIZE + mixinCount * (GLOBAL_INDEXES_DIFFERENCE_SIZE + SIGNATURE_SIZE)
      in (transactionSize - headerSize - outputsSize) div inputSize)"

section \<open>Burn deposits\<close>

definition isValidBurnDepositAmount :: "u64 \<Rightarrow> Currency \<Rightarrow> bool" where
  "isValidBurnDepositAmount amount c \<longleftrightarrow>
     amount = cur_burnDepositMinAmount c \<or> amount = cur_burnDepositStandardAmount c \<or>
     amount = cur_burnDepositLargeAmount c"

definition isValidBurnDepositTerm :: "u32 \<Rightarrow> Currency \<Rightarrow> bool" where
  "isValidBurnDepositTerm term c \<longleftrightarrow> term = cur_depositTermForever c"

definition isBurnDeposit :: "u32 \<Rightarrow> Currency \<Rightarrow> bool" where
  "isBurnDeposit term c = isValidBurnDepositTerm term c"

definition convertXfgToHeat :: "u64 \<Rightarrow> u64" where
  "convertXfgToHeat xfgAmount = xfgAmount * 10000000"

definition convertHeatToXfg :: "u64 \<Rightarrow> u64" where
  "convertHeatToXfg heatAmount = heatAmount div 10000000"

definition validateNetworkId :: "u64 \<Rightarrow> Currency \<Rightarrow> bool" where
  "validateNetworkId networkId c \<longleftrightarrow> networkId = cur_fuegoNetworkId c"

definition validateNetworkIdString :: "string \<Rightarrow> Currency \<Rightarrow> bool" where
  "validateNetworkIdString networkId c \<longleftrightarrow> networkId = cur_fuegoNetworkIdString c"

definition calculateBurnNullifier :: "secret_key \<Rightarrow> hash" where
  "calculateBurnNullifier secret = keccak (secret @ str_bytes ''nullifier'') 32"

definition calculateBurnCommitment :: "secret_key \<Rightarrow> u64 \<Rightarrow> hash" where
  "calculateBurnCommitment secret amount = keccak (secret @ str_bytes ''commitment'') 32"

definition calculateBurnRecipientHash :: "string \<Rightarrow> hash" where
  "calculateBurnRecipientHash recipientAddress = keccak (str_bytes recipientAddress) 32"

definition validateBurnProofData :: "string \<Rightarrow> u64 \<Rightarrow> string \<Rightarrow> string \<Rightarrow> Currency \<Rightarrow> bool" where
  "validateBurnProofData secret amount commitment nullifier c =
     (if secret = [] \<or> length secret \<noteq> 64 then False
      else if \<not> isValidBurnDepositAmount amount c then False
      else if commitment = [] \<or> length commitment \<noteq> 64 then False
      else if nullifier = [] \<or> length nullifier \<noteq> 64 then False
      else True)"

section \<open>Account addresses\<close>

text \<open>The binary form of an address: its two keys of 32 bytes; \<open>fromBinaryArray\<close> reads exactly that.\<close>

definition address_bytes :: "AccountPublicAddress \<Rightarrow> bytes" where
  "address_bytes adr = ad_spendPublicKey adr @ ad_viewPublicKey adr"

definition address_of_bytes :: "bytes \<Rightarrow> AccountPublicAddress option" where
  "address_of_bytes data =
     (if length data = 64 then Some \<lparr>ad_spendPublicKey = take 32 data, ad_viewPublicKey = drop 32 data\<rparr> else None)"

definition getAccountAddressAsStr :: "u64 \<Rightarrow> AccountPublicAddress \<Rightarrow> string option" where
  "getAccountAddressAsStr prefix adr = encode_addr prefix (address_bytes adr)"

definition parse_address :: "(public_key \<Rightarrow> bool) \<Rightarrow> string \<Rightarrow> (u64 \<times> AccountPublicAddress) option" where
  "parse_address check_key str =
     (case decode_addr str of None \<Rightarrow> None
      | Some (prefix, data) \<Rightarrow>
        (case address_of_bytes data of None \<Rightarrow> None
         | Some adr \<Rightarrow>
           if check_key (ad_spendPublicKey adr) \<and> check_key (ad_viewPublicKey adr) then Some (prefix, adr) else None))"

definition parseAccountAddressString :: "(public_key \<Rightarrow> bool) \<Rightarrow> string \<Rightarrow> Currency \<Rightarrow> AccountPublicAddress option" where
  "parseAccountAddressString check_key str c =
     (case parse_address check_key str of None \<Rightarrow> None
      | Some (prefix, addr) \<Rightarrow>
        if prefix \<noteq> cur_publicAddressBase58Prefix c \<and> prefix \<noteq> cur_subAddressBase58Prefix c then None
        else Some addr)"

definition accountAddressAsString :: "AccountPublicAddress \<Rightarrow> Currency \<Rightarrow> string option" where
  "accountAddressAsString adr c = getAccountAddressAsStr (cur_publicAddressBase58Prefix c) adr"

definition subAddressAsString :: "AccountPublicAddress \<Rightarrow> Currency \<Rightarrow> string option" where
  "subAddressAsString adr c = getAccountAddressAsStr (cur_subAddressBase58Prefix c) adr"

definition isSubAddressStr :: "string \<Rightarrow> Currency \<Rightarrow> bool" where
  "isSubAddressStr str c \<longleftrightarrow>
     (case decode_addr str of None \<Rightarrow> False | Some (prefix, data) \<Rightarrow> prefix = cur_subAddressBase58Prefix c)"

section \<open>The size penalty\<close>

lemma div128_32_quotient:
  assumes "d \<noteq> 0" "div128_32 hi lo d = (r, qhi, qlo)"
  shows "unat qhi * 18446744073709551616 + unat qlo = (unat hi * 18446744073709551616 + unat lo) div unat d"
proof -
  note e = div128_32_exact [OF assms]
  show ?thesis unfolding e(1) [symmetric] using e(2) by simp
qed

lemma penalty_factor:
  fixes med cur :: nat
  assumes "med \<le> cur" "cur \<le> 2 * med"
  shows "cur * (2 * med - cur) = med * med - (cur - med) * (cur - med)"
proof -
  obtain t where t: "cur = med + t" using assms(1) by (metis le_iff_add)
  then obtain u where "med = t + u" using assms(2) by (metis add_le_cancel_left le_iff_add mult_2)
  then show ?thesis using t by (simp add: algebra_simps)
qed

lemma penalized_exact:
  assumes "med < cur" "unat cur \<le> 2 * unat med" "unat med < 4294967296" "0 < med"
  shows "unat (getPenalizedAmount amount med cur v) =
    unat amount * (unat cur * (2 * unat med - unat cur)) div (unat med * unat med)"
    "amount \<noteq> 0 \<Longrightarrow> getPenalizedAmount amount med cur v < amount"
proof -
  let ?f = "cur * (2 * med - cur)" and ?m = "unat med" and ?c = "unat cur" and ?d = "ucast med :: u32"
  have mc: "?m < ?c" using assms(1) by (simp add: word_less_nat_alt)
  have m0: "0 < ?m" using assms(4) by (simp add: word_less_nat_alt)
  have d: "unat ?d = ?m" using assms(3) by (simp add: unat_ucast_u64_u32)
  then have d0: "?d \<noteq> 0" using m0 by (metis less_irrefl unat_0)
  have two: "unat (2 * med) = 2 * ?m" using assms(3) by (subst unat_mult_no_wrap) simp_all
  then have sub: "unat (2 * med - cur) = 2 * ?m - ?c" using assms(2) by (subst unat_sub_no_wrap) simp_all
  have pf: "?c * (2 * ?m - ?c) = ?m * ?m - (?c - ?m) * (?c - ?m)" using mc assms(2) by (intro penalty_factor) simp_all
  have mm: "?m * ?m \<le> 4294967295 * 4294967295" using assms(3) by (intro mult_le_mono) simp_all
  have lt: "?c * (2 * ?m - ?c) < ?m * ?m" unfolding pf using mc m0 by simp
  then have f: "unat ?f = ?c * (2 * ?m - ?c)" using mm by (subst unat_mult_no_wrap) (simp_all add: sub)
  obtain lo hi where p: "mul128 amount ?f = (lo, hi)" by fastforce
  obtain r1 h1 l1 where q1: "div128_32 hi lo ?d = (r1, h1, l1)" by (metis prod_cases3)
  obtain r2 h2 l2 where q2: "div128_32 h1 l1 ?d = (r2, h2, l2)" by (metis prod_cases3)
  have "unat h2 * 18446744073709551616 + unat l2 = unat amount * unat ?f div ?m div ?m"
    using div128_32_quotient [OF d0 q2] div128_32_quotient [OF d0 q1] mul128_exact [OF p] by (simp add: d)
  then have e: "unat h2 * 18446744073709551616 + unat l2 = unat amount * (?c * (2 * ?m - ?c)) div (?m * ?m)"
    by (simp only: f div_mult2_eq)
  have g: "getPenalizedAmount amount med cur v = l2" if "amount \<noteq> 0"
    using that p q1 q2 assms(1) [folded not_le] by (auto simp: getPenalizedAmount_def mult.commute [of "2 * med - cur"])
  have l: "unat amount * (?c * (2 * ?m - ?c)) div (?m * ?m) < unat amount" if "amount \<noteq> 0"
    using that lt m0 by (simp add: div_less_iff_less_mult unat_gt_0)
  have h: "unat h2 = 0" if "amount \<noteq> 0"
    using e l [OF that] unat_u64_bound [of amount] by linarith
  show "unat (getPenalizedAmount amount med cur v) = unat amount * (?c * (2 * ?m - ?c)) div (?m * ?m)"
    using g e h by (cases "amount = 0") (simp_all add: getPenalizedAmount_def)
  then show "getPenalizedAmount amount med cur v < amount" if "amount \<noteq> 0"
    using l [OF that] by (simp only: word_less_nat_alt)
qed

lemma penalized_le:
  assumes "unat cur \<le> 2 * unat med" "unat med < 4294967296" "0 < med"
  shows "getPenalizedAmount amount med cur v \<le> amount"
proof (cases "amount = 0 \<or> cur \<le> med")
  case True
  then show ?thesis by (auto simp: getPenalizedAmount_def)
next
  case False
  then show ?thesis using penalized_exact(2) [OF _ assms, of amount v] by (auto simp: not_le)
qed

section \<open>Emission\<close>

lemma base_reward_circulating:
  "base_reward v already burned c =
     drop_bit (unat (emissionSpeedFactor v c)) (cur_moneySupply c - circulating v already burned c)"
  by (simp add: base_reward_def circulating_def Let_def)

lemma base_reward_le:
  assumes "circulating v already burned c \<le> cur_moneySupply c"
  shows "unat (base_reward v already burned c) \<le> unat (cur_moneySupply c) - unat (circulating v already burned c)"
proof -
  have "unat (cur_moneySupply c - circulating v already burned c) =
      unat (cur_moneySupply c) - unat (circulating v already burned c)"
    using assms by (simp add: unat_sub)
  then show ?thesis unfolding base_reward_circulating unat_drop_bit_eq by (simp add: drop_bit_eq_div)
qed

lemma sint_diff:
  fixes a b :: u64
  assumes "unat a < 9223372036854775808" "unat b < 9223372036854775808"
  shows "sint (a - b) = int (unat a) - int (unat b)"
proof -
  let ?k = "int (unat a) - int (unat b)"
  have "- 9223372036854775808 \<le> ?k" "?k < 9223372036854775808" using assms by linarith+
  then have "sint (word_of_int ?k :: u64) = ?k" by (simp only: signed_of_int) (simp add: signed_take_bit_int_eq_self)
  moreover have "word_of_int ?k = a - b" by simp
  ultimately show ?thesis by (simp only:)
qed

lemma getBlockReward_cases:
  assumes "getBlockReward v med cur already fee h burned c = Some (reward, change)"
  defines "m \<equiv> max med (blockGrantedFullRewardZoneByBlockVersion v c)"
  obtains pf where "\<not> 2 * m < cur" "pf = fee \<or> pf = getPenalizedAmount fee m cur v"
    "reward = getPenalizedAmount (base_reward v already burned c) m cur v + pf"
    "change = sint (getPenalizedAmount (base_reward v already burned c) m cur v - (fee - pf))"
  using assms by (auto simp: getBlockReward_def Let_def m_def split: if_splits)

section \<open>The version schedule\<close>

lemma set_testnet_heights [simp]:
  "cur_upgradeHeightV2 (set_testnet t c) = cur_upgradeHeightV2 c"
  "cur_upgradeHeightV3 (set_testnet t c) = cur_upgradeHeightV3 c"
  "cur_upgradeHeightV4 (set_testnet t c) = cur_upgradeHeightV4 c"
  "cur_upgradeHeightV5 (set_testnet t c) = cur_upgradeHeightV5 c"
  "cur_upgradeHeightV6 (set_testnet t c) = cur_upgradeHeightV6 c"
  "cur_upgradeHeightV7 (set_testnet t c) = cur_upgradeHeightV7 c"
  "cur_upgradeHeightV8 (set_testnet t c) = cur_upgradeHeightV8 c"
  "cur_upgradeHeightV9 (set_testnet t c) = cur_upgradeHeightV9 c"
  "cur_upgradeHeightV10 (set_testnet t c) = cur_upgradeHeightV10 c"
  "cur_testnet (set_testnet t c) = t"
  by (simp_all add: set_testnet_def)

lemma builder_heights_values [simp]:
  "cur_upgradeHeightV2 (builder_heights c) = UPGRADE_HEIGHT_V2"
  "cur_upgradeHeightV3 (builder_heights c) = UPGRADE_HEIGHT_V3"
  "cur_upgradeHeightV4 (builder_heights c) = UPGRADE_HEIGHT_V4"
  "cur_upgradeHeightV5 (builder_heights c) = UPGRADE_HEIGHT_V5"
  "cur_upgradeHeightV6 (builder_heights c) = UPGRADE_HEIGHT_V6"
  "cur_upgradeHeightV7 (builder_heights c) = UPGRADE_HEIGHT_V7"
  "cur_upgradeHeightV8 (builder_heights c) = UPGRADE_HEIGHT_V8"
  "cur_upgradeHeightV9 (builder_heights c) = UPGRADE_HEIGHT_V9"
  "cur_upgradeHeightV10 (builder_heights c) = UPGRADE_HEIGHT_V10"
  by (simp_all add: builder_heights_def)

lemma testnet_overrides_values [simp]:
  "cur_upgradeHeightV2 (testnet_overrides c) = 2"
  "cur_upgradeHeightV3 (testnet_overrides c) = 3"
  "cur_upgradeHeightV4 (testnet_overrides c) = 4"
  "cur_upgradeHeightV5 (testnet_overrides c) = 5"
  "cur_upgradeHeightV6 (testnet_overrides c) = 6"
  "cur_upgradeHeightV7 (testnet_overrides c) = 17"
  "cur_upgradeHeightV8 (testnet_overrides c) = 18"
  "cur_upgradeHeightV9 (testnet_overrides c) = 19"
  "cur_upgradeHeightV10 (testnet_overrides c) = 20"
  "cur_testnet (testnet_overrides c) = cur_testnet c"
  by (simp_all add: testnet_overrides_def)

lemma init_heights:
  assumes "Currency_init genesis c = Some c'"
  shows "cur_upgradeHeightV2 c' = (if cur_testnet c then 2 else cur_upgradeHeightV2 c)"
    "cur_upgradeHeightV3 c' = (if cur_testnet c then 3 else cur_upgradeHeightV3 c)"
    "cur_upgradeHeightV4 c' = (if cur_testnet c then 4 else cur_upgradeHeightV4 c)"
    "cur_upgradeHeightV5 c' = (if cur_testnet c then 5 else cur_upgradeHeightV5 c)"
    "cur_upgradeHeightV6 c' = (if cur_testnet c then 6 else cur_upgradeHeightV6 c)"
    "cur_upgradeHeightV7 c' = (if cur_testnet c then 17 else cur_upgradeHeightV7 c)"
    "cur_upgradeHeightV8 c' = (if cur_testnet c then 18 else cur_upgradeHeightV8 c)"
    "cur_upgradeHeightV9 c' = (if cur_testnet c then 19 else cur_upgradeHeightV9 c)"
    "cur_upgradeHeightV10 c' = (if cur_testnet c then 20 else cur_upgradeHeightV10 c)"
    "cur_testnet c' = cur_testnet c"
  using assms by (auto simp: Currency_init_def Let_def split: option.splits if_splits)

lemma make_currency_heights:
  assumes "make_currency mem testnet genesis = Some c"
  shows "cur_upgradeHeightV2 c = (if testnet then 2 else 147958)"
    "cur_upgradeHeightV3 c = (if testnet then 3 else 154321)"
    "cur_upgradeHeightV4 c = (if testnet then 4 else 300000)"
    "cur_upgradeHeightV5 c = (if testnet then 5 else 324819)"
    "cur_upgradeHeightV6 c = (if testnet then 6 else 345678)"
    "cur_upgradeHeightV7 c = (if testnet then 17 else 657000)"
    "cur_upgradeHeightV8 c = (if testnet then 18 else 800000)"
    "cur_upgradeHeightV9 c = (if testnet then 19 else 826420)"
    "cur_upgradeHeightV10 c = (if testnet then 20 else 999999)"
  using init_heights [OF assms [unfolded make_currency_def]] by (simp_all add: CurrencyBuilder_new_def config)

lemma upgradeHeight_numeral:
  "upgradeHeight 2 c = cur_upgradeHeightV2 c" "upgradeHeight 3 c = cur_upgradeHeightV3 c"
  "upgradeHeight 4 c = cur_upgradeHeightV4 c" "upgradeHeight 5 c = cur_upgradeHeightV5 c"
  "upgradeHeight 6 c = cur_upgradeHeightV6 c" "upgradeHeight 7 c = cur_upgradeHeightV7 c"
  "upgradeHeight 8 c = cur_upgradeHeightV8 c" "upgradeHeight 9 c = cur_upgradeHeightV9 c"
  "upgradeHeight 10 c = cur_upgradeHeightV10 c"
  by (simp_all add: upgradeHeight_def)

text \<open>A schedule of increasing heights, over the natural numbers.\<close>

lemma version_schedule:
  fixes x :: nat
  assumes "h2 \<le> h3" "h3 \<le> h4" "h4 \<le> h5" "h5 \<le> h6" "h6 \<le> h7" "h7 \<le> h8" "h8 \<le> h9" "h9 \<le> h10"
    and "n = (if h10 \<le> x then 10 else if h9 \<le> x then 9 else if h8 \<le> x then 8 else if h7 \<le> x then 7
       else if h6 \<le> x then 6 else if h5 \<le> x then 5 else if h4 \<le> x then 4 else if h3 \<le> x then 3
       else if h2 \<le> x then 2 else (1 :: nat))"
  shows "h2 \<le> x \<longleftrightarrow> 2 \<le> n" "h3 \<le> x \<longleftrightarrow> 3 \<le> n" "h4 \<le> x \<longleftrightarrow> 4 \<le> n" "h5 \<le> x \<longleftrightarrow> 5 \<le> n" "h6 \<le> x \<longleftrightarrow> 6 \<le> n"
    "h7 \<le> x \<longleftrightarrow> 7 \<le> n" "h8 \<le> x \<longleftrightarrow> 8 \<le> n" "h9 \<le> x \<longleftrightarrow> 9 \<le> n" "h10 \<le> x \<longleftrightarrow> 10 \<le> n"
  using assms by simp_all

lemma version_at_height:
  assumes "make_currency mem testnet genesis = Some c" "v \<in> {2, 3, 4, 5, 6, 7, 8, 9, 10}"
  shows "upgradeHeight v c \<le> h \<longleftrightarrow> v \<le> blockMajorVersionAtHeight h c"
proof -
  note hs = make_currency_heights [OF assms(1)]
  define n where "n = unat (blockMajorVersionAtHeight h c)"
  have "n = (if unat (upgradeHeight 10 c) \<le> unat h then 10 else if unat (upgradeHeight 9 c) \<le> unat h then 9
      else if unat (upgradeHeight 8 c) \<le> unat h then 8 else if unat (upgradeHeight 7 c) \<le> unat h then 7
      else if unat (upgradeHeight 6 c) \<le> unat h then 6 else if unat (upgradeHeight 5 c) \<le> unat h then 5
      else if unat (upgradeHeight 4 c) \<le> unat h then 4 else if unat (upgradeHeight 3 c) \<le> unat h then 3
      else if unat (upgradeHeight 2 c) \<le> unat h then 2 else 1)"
    by (simp add: n_def blockMajorVersionAtHeight_def word_le_nat_alt)
  note vs = version_schedule [OF _ _ _ _ _ _ _ _ this]
  have asc: "unat (upgradeHeight 2 c) \<le> unat (upgradeHeight 3 c)" "unat (upgradeHeight 3 c) \<le> unat (upgradeHeight 4 c)"
    "unat (upgradeHeight 4 c) \<le> unat (upgradeHeight 5 c)" "unat (upgradeHeight 5 c) \<le> unat (upgradeHeight 6 c)"
    "unat (upgradeHeight 6 c) \<le> unat (upgradeHeight 7 c)" "unat (upgradeHeight 7 c) \<le> unat (upgradeHeight 8 c)"
    "unat (upgradeHeight 8 c) \<le> unat (upgradeHeight 9 c)" "unat (upgradeHeight 9 c) \<le> unat (upgradeHeight 10 c)"
    by (simp_all add: upgradeHeight_numeral hs)
  have "unat (upgradeHeight v c) \<le> unat h \<longleftrightarrow> unat v \<le> n"
    using assms(2) by (elim insertE emptyE; simp add: vs [OF asc])
  then show ?thesis by (simp add: word_le_nat_alt n_def)
qed

lemma builder_frame [simp]:
  "cur_moneySupply (set_testnet t c) = cur_moneySupply c" "cur_moneySupply (builder_heights c) = cur_moneySupply c"
  "cur_moneySupply (builder_deposits c) = cur_moneySupply c"
  "cur_blockGrantedFullRewardZone (set_testnet t c) = cur_blockGrantedFullRewardZone c" "cur_blockGrantedFullRewardZone (builder_heights c) = cur_blockGrantedFullRewardZone c"
  "cur_blockGrantedFullRewardZone (builder_deposits c) = cur_blockGrantedFullRewardZone c"
  "cur_emissionSpeedFactor_FUEGO (set_testnet t c) = cur_emissionSpeedFactor_FUEGO c" "cur_emissionSpeedFactor_FUEGO (builder_heights c) = cur_emissionSpeedFactor_FUEGO c"
  "cur_emissionSpeedFactor_FUEGO (builder_deposits c) = cur_emissionSpeedFactor_FUEGO c"
  "cur_cryptonoteCoinVersion (set_testnet t c) = cur_cryptonoteCoinVersion c" "cur_cryptonoteCoinVersion (builder_heights c) = cur_cryptonoteCoinVersion c"
  "cur_cryptonoteCoinVersion (builder_deposits c) = cur_cryptonoteCoinVersion c"
  by (simp_all add: set_testnet_def builder_heights_def builder_deposits_def Let_def)

lemma builder_limits_values [simp]:
  "cur_moneySupply (builder_limits c) = 80000088000008"
  "cur_blockGrantedFullRewardZone (builder_limits c) = 430080"
  "cur_emissionSpeedFactor_FUEGO (builder_limits c) = 20"
  "cur_cryptonoteCoinVersion (builder_limits c) = 1"
  by (simp_all add: builder_limits_def set_numberOfDecimalPlaces_def config)

lemma mainnet_values:
  "\<exists>c. make_currency mem False (\<lambda>_. Some null_pod) = Some c \<and> cur_moneySupply c = 80000088000008 \<and>
     cur_blockGrantedFullRewardZone c = 430080 \<and> cur_emissionSpeedFactor_FUEGO c = 20 \<and> cur_cryptonoteCoinVersion c = 1"
  by (simp add: make_currency_def Currency_init_def CurrencyBuilder_new_def Let_def)

section \<open>Deposit interest\<close>

text \<open>Without overflow the interest of a deposit is the sum of its rounded-down shares of the epochs it was
  locked in.\<close>

lemma cd_interest_exact:
  fixes amount :: u64 and ci :: CommitmentIndex and c :: Currency
  assumes "creationHeight < currentHeight"
    and "\<And>e. unat amount * unat (getEpochFeeRate e ci) < 18446744073709551616"
  defines "epochs \<equiv> [unat (ucast creationHeight div epochDuration c) ..<
       min (Suc (unat (ucast currentHeight div epochDuration c))) (getEpochCount ci)]"
  assumes "sum_list (map (\<lambda>e. unat amount * unat (getEpochFeeRate (of_nat e) ci) div 1000000) epochs) < 18446744073709551616"
  shows "unat (calculateCdInterest amount creationHeight currentHeight ci c) =
    sum_list (map (\<lambda>e. unat amount * unat (getEpochFeeRate (of_nat e) ci) div 1000000) epochs)"
proof -
  let ?f = "\<lambda>e. (amount * getEpochFeeRate (of_nat e) ci) div FEE_POOL_RATE_PRECISION"
  have f: "unat (?f e) = unat amount * unat (getEpochFeeRate (of_nat e) ci) div 1000000" for e
    using assms(2) by (simp add: unat_div_distrib unat_mult_no_wrap config)
  have "calculateCdInterest amount creationHeight currentHeight ci c = foldl (\<lambda>acc e. acc + ?f e) 0 epochs"
    using assms(1) [folded not_le] by (simp only: calculateCdInterest_def epochs_def Let_def if_False)
  then show ?thesis using foldl_add_exact [of ?f epochs] assms(4) unfolding f by simp
qed

section \<open>Addresses\<close>

lemma address_bytes_roundtrip:
  "length (ad_spendPublicKey adr) = 32 \<Longrightarrow> length (ad_viewPublicKey adr) = 32 \<Longrightarrow>
   address_of_bytes (address_bytes adr) = Some adr"
  by (simp add: address_bytes_def address_of_bytes_def)

section \<open>Properties\<close>

text \<open>
  C38: the size penalty is exact. For a block no larger than twice the median size, the reward is kept
  whole up to the median and above it is the amount times \<open>size * (2 * median - size) / median\<^sup>2\<close>, rounded
  down once, in both the old and the new formula, without overflow; it never exceeds the amount.
\<close>

theorem getPenalizedAmount_exact:
  assumes "0 < medianSize" "unat medianSize < 2 ^ 32" "unat currentBlockSize \<le> 2 * unat medianSize"
  shows "unat (getPenalizedAmount amount medianSize currentBlockSize v) =
      (if currentBlockSize \<le> medianSize then unat amount
       else unat amount * (unat currentBlockSize * (2 * unat medianSize - unat currentBlockSize)) div
         (unat medianSize) ^ 2) \<and>
    getPenalizedAmount amount medianSize currentBlockSize v \<le> amount"
proof -
  have "unat (getPenalizedAmount amount medianSize currentBlockSize v) = unat amount" if "currentBlockSize \<le> medianSize"
    using that by (simp add: getPenalizedAmount_def)
  then show ?thesis
    using penalized_exact(1) [of medianSize currentBlockSize amount v] penalized_le [of currentBlockSize medianSize amount v] assms
    by (simp add: not_le power2_eq_square)
qed

theorem getPenalizedAmount_exact_witness:
  "unat (getPenalizedAmount 1000000 20000 30000 10) = 750000 \<and> getPenalizedAmount 1000000 20000 30000 10 \<le> 1000000"
  using getPenalizedAmount_exact [of 20000 30000 1000000 10] by simp

lemma reward_within_supply:
  assumes "getBlockReward v medianSize currentBlockSize already fee height burned c = Some (reward, change)"
    and "circulating v already burned c \<le> cur_moneySupply c" "unat (cur_moneySupply c) + unat fee < 2 ^ 63"
    and "0 < max medianSize (blockGrantedFullRewardZoneByBlockVersion v c)"
    and "unat (max medianSize (blockGrantedFullRewardZoneByBlockVersion v c)) < 2 ^ 32"
  shows "int (unat reward) = change + int (unat fee) \<and>
    int (unat (circulating v already burned c)) + change \<le> int (unat (cur_moneySupply c)) \<and>
    - int (unat fee) \<le> change"
proof -
  define m where "m = max medianSize (blockGrantedFullRewardZoneByBlockVersion v c)"
  define p where "p = getPenalizedAmount (base_reward v already burned c) m currentBlockSize v"
  obtain pf where r: "\<not> 2 * m < currentBlockSize" "pf = fee \<or> pf = getPenalizedAmount fee m currentBlockSize v"
    "reward = p + pf" "change = sint (p - (fee - pf))"
    using getBlockReward_cases [OF assms(1)] unfolding m_def p_def by blast
  have m: "0 < m" "unat m < 4294967296" using assms(4,5) by (simp_all add: m_def)
  have "unat (2 * m) = 2 * unat m" using m(2) by (subst unat_mult_no_wrap) simp_all
  then have s: "unat currentBlockSize \<le> 2 * unat m" using r(1) by (simp add: not_less word_le_nat_alt)
  have pf: "unat pf \<le> unat fee" using r(2) penalized_le [OF s m(2,1), of fee v] by (auto simp: word_le_nat_alt)
  have "unat p \<le> unat (base_reward v already burned c)"
    using penalized_le [OF s m(2,1)] by (simp add: p_def word_le_nat_alt)
  then have p: "unat p + unat (circulating v already burned c) \<le> unat (cur_moneySupply c)"
    using base_reward_le [OF assms(2)] assms(2) unfolding word_le_nat_alt by linarith
  have "unat reward = unat p + unat pf" unfolding r(3) using assms(3) p pf by (subst unat_add_no_wrap) simp_all
  moreover have "unat (fee - pf) = unat fee - unat pf" using pf by (rule unat_sub_no_wrap)
  moreover from this have "change = int (unat p) - int (unat (fee - pf))"
    unfolding r(4) using assms(3) p by (intro sint_diff) simp_all
  ultimately show ?thesis using p pf by linarith
qed

text \<open>
  C19: emission respects the supply. When a block is rewarded, the miner receives exactly the newly emitted
  coins and the fees, and the coins in circulation (minted and, from version 10 on, not burned) plus the
  emission stay within the money supply; none of the 64-bit sums wraps.
\<close>

theorem emission_within_supply:
  assumes "getBlockReward v medianSize currentBlockSize already fee height burned c = Some (reward, change)"
    and "circulating v already burned c \<le> cur_moneySupply c" "unat (cur_moneySupply c) + unat fee < 2 ^ 63"
    and "0 < max medianSize (blockGrantedFullRewardZoneByBlockVersion v c)"
    and "unat (max medianSize (blockGrantedFullRewardZoneByBlockVersion v c)) < 2 ^ 32"
  shows "int (unat reward) = change + int (unat fee) \<and>
    int (unat (circulating v already burned c)) + change \<le> int (unat (cur_moneySupply c)) \<and>
    - int (unat fee) \<le> change"
  using reward_within_supply [OF assms] .

theorem emission_within_supply_witness:
  "\<exists>c reward change. make_currency undefined False (\<lambda>_. Some null_pod) = Some c \<and>
     getBlockReward 9 1000 2000 40000000000000 8000 900000 (- 1) c = Some (reward, change) \<and>
     int (unat reward) = change + 8000"
proof -
  obtain c where c: "make_currency undefined False (\<lambda>_. Some null_pod) = Some c" "cur_moneySupply c = 80000088000008"
    "cur_blockGrantedFullRewardZone c = 430080" "cur_emissionSpeedFactor_FUEGO c = 20" "cur_cryptonoteCoinVersion c = 1"
    using mainnet_values by blast
  obtain reward change where r: "getBlockReward 9 1000 2000 40000000000000 8000 900000 (- 1) c = Some (reward, change)"
    using c by (simp add: getBlockReward_def blockGrantedFullRewardZoneByBlockVersion_def Let_def)
  show ?thesis
    using emission_within_supply [OF r] c r
    by (simp add: circulating_def blockGrantedFullRewardZoneByBlockVersion_def)
qed

text \<open>
  The version schedule is the one of the upgrade heights. For the currency either network is started
  with, version \<open>v\<close> is in force at a height exactly when the height has reached the upgrade height of
  \<open>v\<close>; so the version never goes back as the chain grows.
\<close>

theorem version_schedule_exact:
  assumes "make_currency mem testnet genesis = Some c" "v \<in> {2, 3, 4, 5, 6, 7, 8, 9, 10}"
  shows "upgradeHeight v c \<le> height \<longleftrightarrow> v \<le> blockMajorVersionAtHeight height c"
  using version_at_height [OF assms] .

theorem version_schedule_exact_witness:
  "\<exists>c. make_currency undefined False (\<lambda>_. Some null_pod) = Some c \<and> 10 \<le> blockMajorVersionAtHeight 1000000 c"
proof -
  obtain c where c: "make_currency undefined False (\<lambda>_. Some null_pod) = Some c" using mainnet_values by blast
  then have "upgradeHeight 10 c \<le> 1000000" by (simp add: upgradeHeight_numeral make_currency_heights [OF c])
  then show ?thesis using version_schedule_exact [OF c, of 10 1000000] c by simp
qed

text \<open>
  Account addresses survive their text form. The text of an address with valid keys, under either
  prefix of the currency, parses back to that address.
\<close>

theorem address_text_roundtrip:
  assumes "check_key (ad_spendPublicKey adr)" "check_key (ad_viewPublicKey adr)"
    and "length (ad_spendPublicKey adr) = 32" "length (ad_viewPublicKey adr) = 32"
  shows "\<exists>str sub. accountAddressAsString adr c = Some str \<and> parseAccountAddressString check_key str c = Some adr \<and>
    subAddressAsString adr c = Some sub \<and> parseAccountAddressString check_key sub c = Some adr \<and> isSubAddressStr sub c"
proof -
  have "\<exists>str. getAccountAddressAsStr prefix adr = Some str \<and> parse_address check_key str = Some (prefix, adr) \<and>
      (\<exists>data. decode_addr str = Some (prefix, data))" for prefix
    using address_roundtrip [of prefix "address_bytes adr"] address_bytes_roundtrip [OF assms(3,4)] assms(1,2)
    by (auto simp: getAccountAddressAsStr_def parse_address_def)
  from this [of "cur_publicAddressBase58Prefix c"] this [of "cur_subAddressBase58Prefix c"]
  show ?thesis
    by (fastforce simp: accountAddressAsString_def subAddressAsString_def parseAccountAddressString_def isSubAddressStr_def)
qed

theorem address_text_roundtrip_witness:
  "\<exists>str. accountAddressAsString \<lparr>ad_spendPublicKey = null_pod, ad_viewPublicKey = null_pod\<rparr> undefined = Some str \<and>
     parseAccountAddressString (\<lambda>_. True) str undefined = Some \<lparr>ad_spendPublicKey = null_pod, ad_viewPublicKey = null_pod\<rparr>"
  using address_text_roundtrip [of "\<lambda>_. True" "\<lparr>ad_spendPublicKey = null_pod, ad_viewPublicKey = null_pod\<rparr>" undefined]
  by (auto simp: null_pod_def)

end
