(* ===== verification/Difficulty.thy ===== *)
theory Difficulty
  imports Currency_Rules
begin

text \<open>
  The difficulty of the next block: \<open>Currency::nextDifficulty\<close> and its versions in
  \<open>src/src/CryptoNoteCore/Currency.cpp\<close>. Time stamps and cumulative difficulties are the vectors the
  caller passes, oldest first. Version 3 computes with \<open>double\<close> and is an argument of the dispatch.
  An index beyond the end of a vector is undefined behaviour of the source (its \<open>assert\<close> on the sizes is
  compiled out); the properties state the sizes they need.

  Shown here: from version 4 on the result is never below the minimum; version 6 moves the difficulty by
  at most a factor of three up and seven down per block as long as the average difficulty is below the
  point where its 64-bit product overflows.
\<close>

section \<open>Versions 1 and 2\<close>

text \<open>\<open>std::vector::resize\<close>: truncates, or appends zeros.\<close>

definition resize :: "nat \<Rightarrow> u64 list \<Rightarrow> u64 list" where
  "resize n xs = take n xs @ replicate (n - length xs) 0"

definition nextDifficultyV1 :: "u64 list \<Rightarrow> u64 list \<Rightarrow> Currency \<Rightarrow> u64" where
  "nextDifficultyV1 timestamps cumulativeDifficulties c =
     (let window = unat (cur_difficultyWindow c);
          kept = unat (cur_difficultyWindow c - 2 * cur_difficultyCut c);
          long = window < length timestamps;
          timestamps = (if long then resize window timestamps else timestamps);
          cumulativeDifficulties = (if long then resize window cumulativeDifficulties else cumulativeDifficulties);
          len = length timestamps
      in if len \<le> 1 then 1
         else
           let timestamps = sort timestamps;
               cutBegin = (if len \<le> kept then 0 else (len - kept + 1) div 2);
               cutEnd = (if len \<le> kept then len else cutBegin + kept);
               timeSpan = timestamps ! (cutEnd - 1) - timestamps ! cutBegin;
               timeSpan = (if timeSpan = 0 then 1 else timeSpan);
               totalWork = cumulativeDifficulties ! (cutEnd - 1) - cumulativeDifficulties ! cutBegin;
               (low, high) = mul128 totalWork (cur_difficultyTarget_DRGL c)
           in if high \<noteq> 0 \<or> low + timeSpan - 1 < low then 0 else (low + timeSpan - 1) div timeSpan)"

definition nextDifficultyV2 :: "u64 list \<Rightarrow> u64 list \<Rightarrow> Currency \<Rightarrow> u64" where
  "nextDifficultyV2 timestamps cumulativeDifficulties c =
     (let window = unat DIFFICULTY_WINDOW_V2;
          long = window < length timestamps;
          timestamps = (if long then resize window timestamps else timestamps);
          cumulativeDifficulties = (if long then resize window cumulativeDifficulties else cumulativeDifficulties)
      in if length timestamps \<le> 1 then 1
         else
           let timestamps = sort timestamps;
               timeSpan = last timestamps - hd timestamps;
               timeSpan = (if timeSpan = 0 then 1 else timeSpan);
               totalWork = last cumulativeDifficulties - hd cumulativeDifficulties;
               (low, high) = mul128 totalWork (cur_difficultyTarget_DRGL c)
           in if high \<noteq> 0 then 0
              else
                let nextDiffZ = low div timeSpan
                in if \<not> cur_testnet c \<and> nextDiffZ < 10000 then 10000 else nextDiffZ)"

section \<open>The weighted moving average\<close>

text \<open>The loop over the solve times: the weighted sum \<open>L\<close> and the previous time stamp. \<open>clamp\<close> bounds a
  solve time; time stamps out of sequence count as equal to the previous one.\<close>

fun solve_loop :: "(u64 \<Rightarrow> u64) \<Rightarrow> u64 list \<Rightarrow> nat list \<Rightarrow> u64 \<Rightarrow> u64 \<Rightarrow> u64" where
  "solve_loop clamp timestamps [] L previous_timestamp = L"
| "solve_loop clamp timestamps (i # is) L previous_timestamp =
     (let this_timestamp = (if previous_timestamp < timestamps ! i then timestamps ! i else previous_timestamp)
      in solve_loop clamp timestamps is (L + of_nat i * clamp (this_timestamp - previous_timestamp)) this_timestamp)"

text \<open>\<open>avg_D * N * (N + 1) * T * 97 / (200 * L)\<close>, with the division first for a large average.\<close>

definition lwma_next :: "u64 \<Rightarrow> u64 \<Rightarrow> u64 \<Rightarrow> u64 \<Rightarrow> u64" where
  "lwma_next N T L avg_D =
     (if 2000000 * N * N * T < avg_D then (avg_D div (200 * L)) * (N * (N + 1) * T * 97)
      else (avg_D * N * (N + 1) * T * 97) div (200 * L))"

text \<open>The loop that makes the insignificant digits zero.\<close>

function round_digits :: "u64 \<Rightarrow> u64 \<Rightarrow> u64" where
  "round_digits i next_D =
     (if 1 < i
      then if i * 100 < next_D then ((next_D + i div 2) div i) * i else round_digits (i div 10) next_D
      else next_D)"
  by pat_completeness auto
termination
  by (relation "measure (\<lambda>(i, _). unat i)")
    (auto simp: unat_div_distrib word_less_nat_alt intro!: div_less_dividend)

declare round_digits.simps [simp del]

text \<open>The two last digits show a change of the hash rate in the last 11 blocks.\<close>

definition hash_rate_digits :: "u64 \<Rightarrow> nat \<Rightarrow> u64 list \<Rightarrow> u64 \<Rightarrow> u64" where
  "hash_rate_digits T N timestamps next_D =
     (if 10000 < next_D
      then
        let span = timestamps ! N - timestamps ! (N - 11);
            est_HR = (10 * (11 * T + span div 2)) div (span + 1);
            est_HR = (if 5 < est_HR \<and> est_HR < 22 then 0 else est_HR);
            est_HR = min 99 est_HR
        in ((next_D + 50) div 100) * 100 + est_HR
      else next_D)"

definition nextDifficultyV4 :: "u32 \<Rightarrow> u64 list \<Rightarrow> u64 list \<Rightarrow> Currency \<Rightarrow> u64" where
  "nextDifficultyV4 height timestamps cumulativeDifficulties c =
     (let T = DIFFICULTY_TARGET_DRGL; N = DIFFICULTY_WINDOW_V3; n = unat N
      in if ucast height \<le> ucast (UPGRADE_HEIGHT_V4 + 1) + N then 10000
         else
           let L = solve_loop (min (6 * T)) timestamps [1..<n + 1] 0 (timestamps ! 0);
               L = (if L < N * N * T div 20 then N * N * T div 20 else L);
               avg_D = (cumulativeDifficulties ! n - cumulativeDifficulties ! 0) div N;
               next_D = hash_rate_digits T n timestamps (round_digits 1000000000 (lwma_next N T L avg_D))
           in if \<not> cur_testnet c \<and> next_D < 10000 then 10000 else next_D)"

definition nextDifficultyV5 :: "u32 \<Rightarrow> u64 list \<Rightarrow> u64 list \<Rightarrow> Currency \<Rightarrow> u64" where
  "nextDifficultyV5 height timestamps cumulativeDifficulties c =
     (let T = DIFFICULTY_TARGET; N = DIFFICULTY_WINDOW_V4; n = unat N;
          difficulty_plate = (if cur_testnet c then 10000 else 100000)
      in if ucast height \<le> ucast (UPGRADE_HEIGHT_V7 + 1) + N then difficulty_plate
         else
           let L = solve_loop (min (6 * T)) timestamps [1..<n + 1] 0 (timestamps ! 0);
               L = (if L < N * N * T div 20 then N * N * T div 20 else L);
               avg_D = (if n < length cumulativeDifficulties
                        then (cumulativeDifficulties ! n - cumulativeDifficulties ! 0) div N
                        else if 0 < length cumulativeDifficulties then last cumulativeDifficulties
                        else 10000);
               next_D = lwma_next N T L avg_D;
               next_D = (if L < N * T div 100
                         then let maxDifficulty = avg_D * 1000 in if maxDifficulty < next_D then maxDifficulty else next_D
                         else next_D);
               next_D = hash_rate_digits T n timestamps (round_digits 1000000000 next_D)
           in if \<not> cur_testnet c \<and> next_D < 10000 then 10000 else next_D)"

definition minDifficultyV6 :: "Currency \<Rightarrow> u64" where
  "minDifficultyV6 c = (if cur_testnet c then 10000 else 1000000)"

text \<open>The clamp of version 6: a third of the target at least, six times the target at most.\<close>

definition clampV6 :: "u64 \<Rightarrow> u64" where
  "clampV6 solveTime = max (DIFFICULTY_TARGET div 3) (min (6 * DIFFICULTY_TARGET) solveTime)"

definition averageV6 :: "u64 list \<Rightarrow> Currency \<Rightarrow> u64" where
  "averageV6 cumulativeDifficulties c =
     (let avg_D = (cumulativeDifficulties ! 39 - cumulativeDifficulties ! 0) div 39
      in if avg_D < minDifficultyV6 c then minDifficultyV6 c else avg_D)"

definition nextDifficultyV6 :: "u64 list \<Rightarrow> u64 list \<Rightarrow> Currency \<Rightarrow> u64" where
  "nextDifficultyV6 timestamps cumulativeDifficulties c =
     (let T = DIFFICULTY_TARGET; N = 39; n = 39; minDifficulty = minDifficultyV6 c
      in if length timestamps \<noteq> length cumulativeDifficulties \<or> length timestamps \<le> n then minDifficulty
         else
           let L = solve_loop clampV6 timestamps [1..<n + 1] 0 (timestamps ! 0);
               L = (if L < N * N * T div 20 then N * N * T div 20 else L);
               avg_D = averageV6 cumulativeDifficulties c;
               next_D = lwma_next N T L avg_D;
               next_D = (if L < N * T div 100
                         then let maxDifficulty = avg_D * 1000 in if maxDifficulty < next_D then maxDifficulty else next_D
                         else next_D)
           in max minDifficulty (round_digits 1000000000 next_D))"

text \<open>\<open>calculateLWMA\<close>, a static helper of the file.\<close>

fun lwma_loop :: "u64 \<Rightarrow> u64 \<Rightarrow> u64 list \<Rightarrow> nat list \<Rightarrow> u64 \<Rightarrow> u64 \<Rightarrow> u64" where
  "lwma_loop T minSolveTime timestamps [] L previous_timestamp = L"
| "lwma_loop T minSolveTime timestamps (i # is) L previous_timestamp =
     (let this_timestamp = (if timestamps ! i \<le> previous_timestamp then previous_timestamp + 1 else timestamps ! i);
          solveTime = this_timestamp - previous_timestamp;
          solveTime = (if 6 * T < solveTime then 6 * T else solveTime);
          solveTime = (if 0 < minSolveTime \<and> solveTime < minSolveTime then minSolveTime else solveTime)
      in lwma_loop T minSolveTime timestamps is (L + of_nat i * solveTime) this_timestamp)"

definition calculateLWMA :: "u64 list \<Rightarrow> u64 list \<Rightarrow> u64 \<Rightarrow> u64 \<Rightarrow> u64 \<Rightarrow> u64 \<Rightarrow> u64" where
  "calculateLWMA timestamps cumulativeDifficulties N T minDifficulty minSolveTime =
     (if length timestamps < 2 then minDifficulty
      else
        let effectiveN = min N (of_nat (length timestamps - 1)); n = unat effectiveN
        in if effectiveN < 2 then minDifficulty
           else
             let L = lwma_loop T minSolveTime timestamps [1..<n + 1] 0 (timestamps ! 0);
                 minL = effectiveN * effectiveN * T div 20;
                 L = (if L < minL then minL else L);
                 avgD = (if n < length cumulativeDifficulties \<and> 0 < n
                         then (cumulativeDifficulties ! n - cumulativeDifficulties ! 0) div effectiveN
                         else minDifficulty);
                 avgD = (if avgD < minDifficulty then minDifficulty else avgD);
                 next_D = (if 2000000 * effectiveN * effectiveN * T < avgD
                           then (avgD div (200 * L)) * (effectiveN * (effectiveN + 1) * T * 99)
                           else (avgD * effectiveN * (effectiveN + 1) * T * 99) div (200 * L))
             in max minDifficulty next_D)"

text \<open>The dispatch on the block version; \<open>v3\<close> is version 3.\<close>

definition nextDifficulty :: "(u64 list \<Rightarrow> u64 list \<Rightarrow> u64) \<Rightarrow> u32 \<Rightarrow> u8 \<Rightarrow> u64 list \<Rightarrow> u64 list \<Rightarrow> Currency \<Rightarrow> u64" where
  "nextDifficulty v3 height blockMajorVersion timestamps cumulativeDifficulties c =
     (if 10 \<le> blockMajorVersion then nextDifficultyV6 timestamps cumulativeDifficulties c
      else if 7 \<le> blockMajorVersion then nextDifficultyV5 height timestamps cumulativeDifficulties c
      else if 4 \<le> blockMajorVersion then nextDifficultyV4 height timestamps cumulativeDifficulties c
      else if 3 \<le> blockMajorVersion then v3 timestamps cumulativeDifficulties
      else if blockMajorVersion = 2 then nextDifficultyV2 timestamps cumulativeDifficulties c
      else nextDifficultyV1 timestamps cumulativeDifficulties c)"

text \<open>The sum of version 6 by itself, and a chain of 40 blocks exactly on target for the examples.\<close>

definition solve_sumV6 :: "u64 list \<Rightarrow> u64" where
  "solve_sumV6 timestamps = solve_loop clampV6 timestamps [1..<39 + 1] 0 (timestamps ! 0)"

definition steady_times :: "u64 list" where
  "steady_times = map (\<lambda>k. 480 * of_nat k) [0..<40]"

definition steady_work :: "u64 \<Rightarrow> u64 list" where
  "steady_work d = map (\<lambda>k. d * of_nat k) [0..<40]"

section \<open>Rounding\<close>

text \<open>Rounding to a multiple of \<open>i\<close> moves a number by at most \<open>i div 2\<close>, and only numbers above \<open>100 i\<close>
  are rounded: a change of at most one in two hundred.\<close>

lemma round_nat_bounds:
  fixes x i :: nat
  assumes "0 < i"
  shows "2 * (((x + i div 2) div i) * i) \<le> 2 * x + i" "2 * x \<le> 2 * (((x + i div 2) div i) * i) + i"
proof -
  define q where "q = (x + i div 2) div i"
  have e: "q * i + (x + i div 2) mod i = x + i div 2" unfolding q_def by simp
  have l: "(x + i div 2) mod i < i" using assms by simp
  show "2 * (((x + i div 2) div i) * i) \<le> 2 * x + i" unfolding q_def [symmetric] using e by linarith
  show "2 * x \<le> 2 * (((x + i div 2) div i) * i) + i" unfolding q_def [symmetric] using e l by linarith
qed

lemma round_step_unat:
  fixes x i :: u64
  assumes "1 < i" "i * 100 < x" "unat i \<le> 1000000000" "unat x < 2 ^ 63"
  shows "unat (((x + i div 2) div i) * i) = ((unat x + unat i div 2) div unat i) * unat i"
proof -
  have s: "unat (x + i div 2) = unat x + unat i div 2"
  proof -
    have d: "unat (i div 2) = unat i div 2" by (simp add: unat_div_distrib)
    show ?thesis unfolding d [symmetric] by (rule unat_add_lem [THEN iffD1]) (use assms(3,4) d in simp)
  qed
  have q: "unat ((x + i div 2) div i) = (unat x + unat i div 2) div unat i"
    by (simp add: unat_div_distrib s)
  have le: "((unat x + unat i div 2) div unat i) * unat i \<le> unat x + unat i div 2"
    by (rule div_times_less_eq_dividend)
  have h: "unat i div 2 \<le> 1000000000" using assms(3) div_le_dividend [of "unat i" 2] by linarith
  have "unat x + unat i div 2 < 2 ^ 64" using h assms(4) by simp
  with le have "unat ((x + i div 2) div i) * unat i < 2 ^ 64" unfolding q by (rule le_less_trans)
  then show ?thesis unfolding q [symmetric] by (subst unat_mult_lem [THEN iffD1]) simp_all
qed

lemma round_digits_bounds:
  assumes "unat i \<le> 1000000000" "unat x < 2 ^ 63"
  shows "200 * unat (round_digits i x) \<le> 201 * unat x \<and> 199 * unat x \<le> 200 * unat (round_digits i x)"
  using assms
proof (induction i x rule: round_digits.induct)
  case (1 i x)
  show ?case
  proof (cases "1 < i")
    case False
    then show ?thesis by (subst (1 2) round_digits.simps) simp
  next
    case big: True
    show ?thesis
    proof (cases "i * 100 < x")
      case True
      have h: "unat (i * 100) = unat i * 100"
        by (subst unat_mult_lem [THEN iffD1]) (use 1(2) in simp_all)
      have lt: "unat i * 100 < unat x" using True h by (simp add: word_less_nat_alt)
      have pos: "0 < unat i" using big by (simp add: word_less_nat_alt)
      have r: "round_digits i x = ((x + i div 2) div i) * i"
        by (subst round_digits.simps) (simp add: big True)
      show ?thesis unfolding r round_step_unat [OF big True 1(2,3)]
        using round_nat_bounds [OF pos, of "unat x"] lt by linarith
    next
      case False
      have r: "round_digits i x = round_digits (i div 10) x"
        by (subst round_digits.simps) (simp add: big False)
      have s: "unat (i div 10) \<le> 1000000000" using 1(2) by (simp add: unat_div_distrib)
      show ?thesis unfolding r by (rule 1(1) [OF big False s 1(3)])
    qed
  qed
qed

section \<open>The weighted sum\<close>

text \<open>With every clamped solve time between \<open>lo\<close> and \<open>hi\<close> the sum stays between the weights' sum times
  the two, and is computed without wrap-around.\<close>

lemma solve_loop_bounds:
  assumes "\<And>t. lo \<le> unat (clamp t) \<and> unat (clamp t) \<le> hi"
    and "unat L + sum_list is * hi < 2 ^ 64" and "\<forall>i\<in>set is. i < 2 ^ 64"
  shows "unat L + sum_list is * lo \<le> unat (solve_loop clamp ts is L p)
    \<and> unat (solve_loop clamp ts is L p) \<le> unat L + sum_list is * hi"
  using assms(2,3)
proof (induction "is" arbitrary: L p)
  case Nil
  then show ?case by simp
next
  case (Cons i "is")
  define t where "t = (if p < ts ! i then ts ! i else p)"
  define s where "s = clamp (t - p)"
  have sb: "lo \<le> unat s" "unat s \<le> hi" unfolding s_def using assms(1) by blast+
  have ii: "unat (of_nat i :: u64) = i" using Cons.prems(2) by (simp add: unat_of_nat)
  have up: "i * unat s \<le> i * hi" using sb(2) by simp
  have dn: "i * lo \<le> i * unat s" using sb(1) by simp
  have tot: "unat L + (i * hi + sum_list is * hi) < 2 ^ 64" using Cons.prems(1) by (simp add: algebra_simps)
  have lt: "i * unat s < 2 ^ 64" "unat L + i * unat s < 2 ^ 64" using up tot by linarith+
  have m: "unat (of_nat i * s) = i * unat s"
    using unat_mult_lem [THEN iffD1, of "of_nat i" s] lt(1) unfolding ii by simp
  have a: "unat (L + of_nat i * s) = unat L + i * unat s"
    using unat_add_lem [THEN iffD1, of L "of_nat i * s"] lt(2) unfolding m by simp
  have pre: "unat (L + of_nat i * s) + sum_list is * hi < 2 ^ 64" unfolding a using up tot by linarith
  have bs: "\<forall>i\<in>set is. i < 2 ^ 64" using Cons.prems(2) by simp
  have step: "solve_loop clamp ts (i # is) L p = solve_loop clamp ts is (L + of_nat i * s) t"
    unfolding s_def t_def by (simp add: Let_def)
  have d1: "sum_list (i # is) * lo = i * lo + sum_list is * lo"
    and d2: "sum_list (i # is) * hi = i * hi + sum_list is * hi" by (simp_all add: algebra_simps)
  show ?case unfolding step d1 d2 using Cons.IH [OF pre bs, of t] a up dn by linarith
qed

lemma clampV6_bounds:
  "160 \<le> unat (clampV6 t) \<and> unat (clampV6 t) \<le> 2880"
  by (simp add: clampV6_def config max_def min_def word_le_nat_alt not_le)

lemma weights_39: "sum_list [1..<39 + 1] = 780"
  by code_simp

section \<open>Version 6\<close>

text \<open>The clamp keeps the sum so large that neither the floor of \<open>L\<close> nor the cap on fast blocks is ever
  taken.\<close>

lemma solve_sumV6_bounds:
  "124800 \<le> unat (solve_sumV6 ts)" "unat (solve_sumV6 ts) \<le> 2246400"
proof -
  have pre: "unat (0 :: u64) + sum_list [1..<39 + 1] * 2880 < 2 ^ 64" unfolding weights_39 by simp
  have small: "\<forall>i\<in>set [1..<39 + 1 :: nat]. i < 2 ^ 64" by auto
  from solve_loop_bounds [of 160 clampV6 2880, OF clampV6_bounds pre small, of ts "ts ! 0"]
  show "124800 \<le> unat (solve_sumV6 ts)" "unat (solve_sumV6 ts) \<le> 2246400"
    unfolding solve_sumV6_def [symmetric] weights_39 by simp_all
qed

lemma nextDifficultyV6_formula:
  assumes "length ts = length cd" "39 < length ts"
  shows "nextDifficultyV6 ts cd c =
    max (minDifficultyV6 c) (round_digits 1000000000 (lwma_next 39 480 (solve_sumV6 ts) (averageV6 cd c)))"
proof -
  have a: "\<not> solve_sumV6 ts < 36504" and b: "\<not> solve_sumV6 ts < 187"
    using solve_sumV6_bounds(1) [of ts] by (simp_all add: word_less_nat_alt)
  have n: "(39 * 39 * 480 div 20 :: u64) = 36504" "(39 * 480 div 100 :: u64) = 187" by simp_all
  show ?thesis
    unfolding nextDifficultyV6_def Let_def config solve_sumV6_def [symmetric] n
    using assms a b by simp
qed

lemma lwma_next_exact:
  assumes "unat A < 253969844000" "0 < unat L" "unat L \<le> 2246400"
  shows "unat (lwma_next 39 480 L A) = unat A * 72633600 div (200 * unat L)"
proof -
  have small: "\<not> 2000000 * 39 * 39 * 480 < A" using assms(1) by (simp add: word_less_nat_alt)
  have p: "A * 39 * (39 + 1) * 480 * 97 = A * 72633600" by simp
  have up: "unat A * unat (72633600 :: u64) < 2 ^ 64" using assms(1) by simp
  have m: "unat (A * 72633600) = unat A * 72633600"
    using unat_mult_lem [THEN iffD1, of A 72633600] up by simp
  have ul: "unat (200 :: u64) * unat L < 2 ^ 64" using assms(3) by simp
  have l: "unat (200 * L) = 200 * unat L" using unat_mult_lem [THEN iffD1, of 200 L] ul by simp
  show ?thesis unfolding lwma_next_def p using small by (simp add: unat_div_distrib m l)
qed

lemma averageV6_min:
  "unat (minDifficultyV6 c) \<le> unat (averageV6 cd c)" "10000 \<le> unat (minDifficultyV6 c)"
  by (simp_all add: averageV6_def minDifficultyV6_def Let_def word_less_nat_alt not_less)

text \<open>The quotient against the average, for a sum between the two bounds.\<close>

lemma quotient_response:
  fixes A L x :: nat
  assumes "x = A * 72633600 div (200 * L)" "124800 \<le> L" "L \<le> 2246400"
  shows "24960000 * x \<le> 72633600 * A" "72633600 * A \<le> 449280000 * (x + 1)"
proof -
  have e: "x * (200 * L) + A * 72633600 mod (200 * L) = A * 72633600" unfolding assms(1) by (rule div_mult_mod_eq)
  have r: "A * 72633600 mod (200 * L) < 200 * L" using assms(2) by simp
  have lo: "x * 24960000 \<le> x * (200 * L)" by (rule mult_le_mono2) (use assms(2) in simp)
  show "24960000 * x \<le> 72633600 * A" using e lo by linarith
  have hi: "(x + 1) * (200 * L) \<le> (x + 1) * 449280000" by (rule mult_le_mono2) (use assms(3) in simp)
  have "A * 72633600 \<le> (x + 1) * (200 * L)" using e r by simp
  then show "72633600 * A \<le> 449280000 * (x + 1)" using hi by linarith
qed

lemma response_floor:
  fixes A w r :: nat
  assumes "72633600 * A \<le> 449280000 * (w + 1)" "199 * w \<le> 200 * r" "10000 \<le> A"
  shows "A \<le> 7 * r"
proof (rule ccontr)
  assume "\<not> A \<le> 7 * r"
  then have "7 * r < A" by simp
  then have "1393 * w < 200 * A" using assms(2) by linarith
  moreover have "72633600 * A \<le> 449280000 * w + 449280000" using assms(1) by (simp add: algebra_simps)
  ultimately show False using assms(3) by linarith
qed

lemma round_max_unat: "unat (max a b :: u64) = max (unat a) (unat b)"
  by (simp add: max_def word_le_nat_alt)

text \<open>
  C25: Version 6 answers the hash rate within bounds. For complete vectors whose average difficulty is below
  253,969,844,000, where the 64-bit product \<open>avg_D * N * (N + 1) * T * 97\<close> cannot overflow, the next
  difficulty is at least the minimum, at most three times the average and at least a seventh of it, whatever
  the time stamps are (out of order, equal, or far in the future).
\<close>

theorem difficulty_v6_response:
  assumes "length timestamps = length cumulativeDifficulties" "39 < length timestamps"
    and "unat (averageV6 cumulativeDifficulties c) < 253969844000"
  shows "unat (minDifficultyV6 c) \<le> unat (nextDifficultyV6 timestamps cumulativeDifficulties c)
    \<and> unat (nextDifficultyV6 timestamps cumulativeDifficulties c) \<le> 3 * unat (averageV6 cumulativeDifficulties c)
    \<and> unat (averageV6 cumulativeDifficulties c) \<le> 7 * unat (nextDifficultyV6 timestamps cumulativeDifficulties c)"
proof -
  define A where "A = unat (averageV6 cumulativeDifficulties c)"
  define w where "w = lwma_next 39 480 (solve_sumV6 timestamps) (averageV6 cumulativeDifficulties c)"
  define r where "r = unat (round_digits 1000000000 w)"
  note lb = solve_sumV6_bounds [of timestamps]
  have "unat w = A * 72633600 div (200 * unat (solve_sumV6 timestamps))"
    unfolding w_def A_def by (rule lwma_next_exact [OF assms(3)]) (use lb in linarith)+
  note q = quotient_response [OF this lb]
  have small: "unat w < 2 ^ 63" using q(1) assms(3) unfolding A_def by simp
  have rd: "200 * r \<le> 201 * unat w" "199 * unat w \<le> 200 * r"
    using round_digits_bounds [OF _ small, of 1000000000] unfolding r_def by simp_all
  have mn: "unat (minDifficultyV6 c) \<le> A" "10000 \<le> unat (minDifficultyV6 c)"
    using averageV6_min unfolding A_def by blast+
  have n: "unat (nextDifficultyV6 timestamps cumulativeDifficulties c) = max (unat (minDifficultyV6 c)) r"
    unfolding nextDifficultyV6_formula [OF assms(1,2)] round_max_unat r_def w_def ..
  have up: "r \<le> 3 * A" using q(1) rd(1) by linarith
  have A: "10000 \<le> A" using mn by (rule order_trans [rotated])
  have dn: "A \<le> 7 * r" by (rule response_floor [OF q(2) rd(2) A])
  show ?thesis unfolding n A_def [symmetric] using mn up dn by linarith
qed

lemma steady_average: "averageV6 (steady_work 5000000) c = 5000000"
  by (simp add: averageV6_def minDifficultyV6_def steady_work_def nth_append)

theorem difficulty_v6_response_witness:
  "unat (nextDifficultyV6 steady_times (steady_work 5000000) undefined) \<le> 15000000
    \<and> 5000000 \<le> 7 * unat (nextDifficultyV6 steady_times (steady_work 5000000) undefined)"
  using difficulty_v6_response [of steady_times "steady_work 5000000" undefined]
  by (simp add: steady_average) (simp add: steady_times_def steady_work_def)

section \<open>The floor\<close>

text \<open>
  From block version 4 on, on the main network, the next difficulty is never below 10,000, for vectors of
  any length and content: it is never the zero that the callers report as a difficulty overhead.
\<close>

theorem difficulty_floor:
  assumes "4 \<le> blockMajorVersion" "\<not> cur_testnet c"
  shows "10000 \<le> nextDifficulty v3 height blockMajorVersion timestamps cumulativeDifficulties c"
proof -
  have v6: "10000 \<le> nextDifficultyV6 timestamps cumulativeDifficulties c"
    unfolding nextDifficultyV6_def Let_def minDifficultyV6_def using assms(2)
    by (simp add: le_max_iff_disj)
  have v5: "10000 \<le> nextDifficultyV5 height timestamps cumulativeDifficulties c"
    unfolding nextDifficultyV5_def Let_def using assms(2) by (simp add: not_less)
  have v4: "10000 \<le> nextDifficultyV4 height timestamps cumulativeDifficulties c"
    unfolding nextDifficultyV4_def Let_def using assms(2) by (simp add: not_less)
  show ?thesis unfolding nextDifficulty_def using v6 v5 v4 assms(1) by simp
qed

theorem difficulty_floor_witness:
  "10000 \<le> nextDifficulty (\<lambda>_ _. 0) 0 4 [] [] (undefined\<lparr>cur_testnet := False\<rparr>)"
  by (rule difficulty_floor) simp_all

section \<open>Where the product wraps\<close>

text \<open>At an average of 300,000,000,000, above the exact range and still below the threshold from which the
  code divides first, blocks that come exactly on target lower the difficulty to less than a sixth.\<close>

lemma difficulty_v6_wraps:
  "6 * unat (lwma_next 39 480 374400 300000000000) < 300000000000"
  by (simp add: lwma_next_def)

end
