(* ===== verification/Banking_Index.thy ===== *)
theory Banking_Index
  imports Fuego_Prelude
begin

text \<open>
  The banking index, \<open>src/src/CryptoNoteCore/BankingIndex.cpp\<close>: running totals of deposits and interest
  with one entry per block that changes them, and the record of burned coins. Signed 64-bit amounts are
  \<open>u64\<close> in two's complement. \<open>std::upper_bound\<close> is the length of the longest prefix at or below the key,
  which is what it returns on the sorted vectors of the class.

  Shown here: the sparse index refines a plain ledger of one pair per block. Any legal sequence of pushes,
  pops and truncations, in which interest comes only with a change of the deposits, leaves the index that belongs to the ledger, and the queries of deposits and interest are
  the sums over the ledger. For burns in height order the query at a height is the sum of the burns up to it.
\<close>

section \<open>State and operations\<close>

record BankingIndexEntry =
  be_height :: u32
  be_amount :: u64
  be_interest :: u64

record BurnedXfgEntry =
  bx_height :: u32
  bx_amount :: u64
  bx_cumulative_burned :: u64

record BankingIndex =
  bi_index :: "BankingIndexEntry list"
  bi_blockCount :: u32
  bi_burnedXfgEntries :: "BurnedXfgEntry list"
  bi_ethereal_xfg :: u64

record DepositStats =
  ds_totalDeposits :: u64
  ds_ethereal_xfg :: u64
  ds_regularDeposits :: u64

definition BankingIndex_new :: BankingIndex where
  "BankingIndex_new = \<lparr>bi_index = [], bi_blockCount = 0, bi_burnedXfgEntries = [], bi_ethereal_xfg = 0\<rparr>"

definition fullDepositAmount :: "BankingIndex \<Rightarrow> u64" where
  "fullDepositAmount b = (if bi_index b = [] then 0 else be_amount (last (bi_index b)))"

definition fullInterestAmount :: "BankingIndex \<Rightarrow> u64" where
  "fullInterestAmount b = (if bi_index b = [] then 0 else be_interest (last (bi_index b)))"

definition pushBlock :: "u64 \<Rightarrow> u64 \<Rightarrow> BankingIndex \<Rightarrow> BankingIndex" where
  "pushBlock amount interest b =
     (let lastAmount = (if bi_index b = [] then 0 else be_amount (last (bi_index b)));
          lastInterest = (if bi_index b = [] then 0 else be_interest (last (bi_index b)));
          b = (if amount \<noteq> 0
               then b\<lparr>bi_index := bi_index b @ [\<lparr>be_height = bi_blockCount b, be_amount = amount + lastAmount,
                                                be_interest = interest + lastInterest\<rparr>]\<rparr>
               else b)
      in b\<lparr>bi_blockCount := bi_blockCount b + 1\<rparr>)"

text \<open>The burned part of \<open>popBlock\<close>, which runs before the block count is lowered.\<close>

definition pop_burned :: "BankingIndex \<Rightarrow> BankingIndex" where
  "pop_burned b =
     (let es = bi_burnedXfgEntries b
      in if es \<noteq> [] \<and> bx_height (last es) = bi_blockCount b
         then
           let currentTotal = bi_ethereal_xfg b;
               previousTotal = (if 1 < length es then bx_cumulative_burned (es ! (length es - 2)) else 0);
               burnedInBlock = currentTotal - previousTotal
           in b\<lparr>bi_burnedXfgEntries := butlast es, bi_ethereal_xfg := bi_ethereal_xfg b - burnedInBlock\<rparr>
         else b)"

definition popBlock :: "BankingIndex \<Rightarrow> BankingIndex" where
  "popBlock b =
     (let b = pop_burned b;
          b = b\<lparr>bi_blockCount := bi_blockCount b - 1\<rparr>
      in if bi_index b \<noteq> [] \<and> be_height (last (bi_index b)) = bi_blockCount b
         then b\<lparr>bi_index := butlast (bi_index b)\<rparr>
         else b)"

definition upperBound :: "u32 \<Rightarrow> BankingIndex \<Rightarrow> nat" where
  "upperBound height b = length (takeWhile (\<lambda>e. be_height e \<le> height) (bi_index b))"

text \<open>The position from which \<open>popBlocks\<close> erases.\<close>

definition erase_from :: "u32 \<Rightarrow> BankingIndex \<Rightarrow> nat" where
  "erase_from from b =
     (let it = upperBound from b
      in if it \<noteq> 0 \<and> be_height (bi_index b ! (it - 1)) = from then it - 1 else it)"

definition popBlocks :: "u32 \<Rightarrow> BankingIndex \<Rightarrow> u32 \<times> BankingIndex" where
  "popBlocks from b =
     (if bi_blockCount b \<le> from then (0, b)
      else
        let b' = b\<lparr>bi_index := take (erase_from from b) (bi_index b),
                  bi_burnedXfgEntries := takeWhile (\<lambda>e. from \<le> bx_height e) (bi_burnedXfgEntries b)\<rparr>;
            diff = bi_blockCount b - from
        in (diff, b'\<lparr>bi_blockCount := bi_blockCount b - diff\<rparr>))"

definition depositAmountAtHeight :: "u32 \<Rightarrow> BankingIndex \<Rightarrow> u64" where
  "depositAmountAtHeight height b =
     (if bi_blockCount b = 0 then 0
      else if upperBound height b = 0 then 0 else be_amount (bi_index b ! (upperBound height b - 1)))"

definition depositInterestAtHeight :: "u32 \<Rightarrow> BankingIndex \<Rightarrow> u64" where
  "depositInterestAtHeight height b =
     (if bi_blockCount b = 0 then 0
      else if upperBound height b = 0 then 0 else be_interest (bi_index b ! (upperBound height b - 1)))"

definition getBurnedXfgAmount :: "BankingIndex \<Rightarrow> u64" where
  "getBurnedXfgAmount b = bi_ethereal_xfg b"

definition getBurnedXfgAtHeight :: "u32 \<Rightarrow> BankingIndex \<Rightarrow> u64" where
  "getBurnedXfgAtHeight height b =
     (let es = bi_burnedXfgEntries b;
          it = length (takeWhile (\<lambda>e. bx_height e \<le> height) es)
      in if es = [] then 0 else if it = 0 then 0 else bx_cumulative_burned (es ! (it - 1)))"

definition addForeverDeposit :: "u64 \<Rightarrow> u32 \<Rightarrow> BankingIndex \<Rightarrow> BankingIndex" where
  "addForeverDeposit amount height b =
     (if amount = 0 then b
      else
        let total = bi_ethereal_xfg b + amount;
            es = bi_burnedXfgEntries b
        in b\<lparr>bi_ethereal_xfg := total,
             bi_burnedXfgEntries :=
               (if es \<noteq> [] \<and> bx_height (last es) = height
                then butlast es @ [(last es)\<lparr>bx_amount := bx_amount (last es) + amount, bx_cumulative_burned := total\<rparr>]
                else es @ [\<lparr>bx_height = height, bx_amount = amount, bx_cumulative_burned = total\<rparr>])\<rparr>)"

definition getStats :: "BankingIndex \<Rightarrow> DepositStats" where
  "getStats b =
     (let total = fullDepositAmount b
      in \<lparr>ds_totalDeposits = total, ds_ethereal_xfg = bi_ethereal_xfg b,
          ds_regularDeposits = (if bi_ethereal_xfg b < total then total - bi_ethereal_xfg b else 0)\<rparr>)"

text \<open>The two directions of \<open>serialize\<close>: what is written, and what reading it into an object does. The
  sequences are appended to the vectors the object already has.\<close>

definition banking_save :: "BankingIndex \<Rightarrow> u32 \<times> u64 \<times> BankingIndexEntry list \<times> BurnedXfgEntry list" where
  "banking_save b = (bi_blockCount b, bi_ethereal_xfg b, bi_index b, bi_burnedXfgEntries b)"

definition banking_load :: "u32 \<times> u64 \<times> BankingIndexEntry list \<times> BurnedXfgEntry list \<Rightarrow> BankingIndex \<Rightarrow> BankingIndex" where
  "banking_load d b =
     (case d of (count, ethereal, es, burned) \<Rightarrow>
       b\<lparr>bi_blockCount := count, bi_ethereal_xfg := ethereal, bi_index := bi_index b @ es,
         bi_burnedXfgEntries := bi_burnedXfgEntries b @ burned\<rparr>)"

section \<open>The ledger it stands for\<close>

text \<open>One pair of deposit change and interest per block; the totals are plain sums.\<close>

type_synonym ledger = "(u64 \<times> u64) list"

definition deposits :: "ledger \<Rightarrow> u64" where
  "deposits xs = sum_list (map fst xs)"

definition interests :: "ledger \<Rightarrow> u64" where
  "interests xs = sum_list (map snd xs)"

definition ledger_entry :: "ledger \<Rightarrow> nat \<Rightarrow> BankingIndexEntry" where
  "ledger_entry xs k = \<lparr>be_height = of_nat k, be_amount = deposits (take (Suc k) xs), be_interest = interests (take (Suc k) xs)\<rparr>"

definition index_of :: "ledger \<Rightarrow> BankingIndexEntry list" where
  "index_of xs = map (ledger_entry xs) (filter (\<lambda>k. fst (xs ! k) \<noteq> 0) [0..<length xs])"

text \<open>Interest is paid only in blocks that change the deposits: \<open>pushBlock\<close> stores no entry for the others, so that
  their interest would be lost. The chain pushes every block with interest 0.\<close>

definition interest_with_deposits :: "ledger \<Rightarrow> bool" where
  "interest_with_deposits xs \<longleftrightarrow> list_all (\<lambda>x. fst x = 0 \<longrightarrow> snd x = 0) xs"

definition banking_rel :: "BankingIndex \<Rightarrow> ledger \<Rightarrow> bool" where
  "banking_rel b xs \<longleftrightarrow>
     length xs < 2 ^ 32 \<and> interest_with_deposits xs \<and> bi_blockCount b = of_nat (length xs) \<and> bi_index b = index_of xs"

datatype banking_op = Push u64 u64 | Pop | PopFrom u32 | Burn u64 u32

fun banking_step :: "banking_op \<Rightarrow> BankingIndex \<Rightarrow> BankingIndex" where
  "banking_step (Push amount interest) b = pushBlock amount interest b"
| "banking_step Pop b = popBlock b"
| "banking_step (PopFrom from) b = snd (popBlocks from b)"
| "banking_step (Burn amount height) b = addForeverDeposit amount height b"

fun ledger_step :: "banking_op \<Rightarrow> ledger \<Rightarrow> ledger" where
  "ledger_step (Push amount interest) xs = xs @ [(amount, interest)]"
| "ledger_step Pop xs = butlast xs"
| "ledger_step (PopFrom from) xs = take (unat from) xs"
| "ledger_step (Burn amount height) xs = xs"

text \<open>A push needs room in the 32-bit block count and brings no interest without a change of the deposits, a pop needs a
  block.\<close>

fun ledger_ok :: "banking_op \<Rightarrow> ledger \<Rightarrow> bool" where
  "ledger_ok (Push amount interest) xs \<longleftrightarrow> Suc (length xs) < 2 ^ 32 \<and> (amount = 0 \<longrightarrow> interest = 0)"
| "ledger_ok Pop xs \<longleftrightarrow> xs \<noteq> []"
| "ledger_ok (PopFrom from) xs \<longleftrightarrow> True"
| "ledger_ok (Burn amount height) xs \<longleftrightarrow> True"

text \<open>Whether a sequence of operations is legal from a ledger.\<close>

fun ledger_run_ok :: "banking_op list \<Rightarrow> ledger \<Rightarrow> bool" where
  "ledger_run_ok [] xs \<longleftrightarrow> True"
| "ledger_run_ok (op # ops) xs \<longleftrightarrow> ledger_ok op xs \<and> ledger_run_ok ops (ledger_step op xs)"

text \<open>A log of burns, pairs of amount and height, entered one after the other, and what the log has burned
  up to a height.\<close>

fun burn_all :: "(u64 \<times> u32) list \<Rightarrow> BankingIndex \<Rightarrow> BankingIndex" where
  "burn_all [] b = b"
| "burn_all ((amount, height) # burns) b = burn_all burns (addForeverDeposit amount height b)"

definition burned_upto :: "u32 \<Rightarrow> (u64 \<times> u32) list \<Rightarrow> u64" where
  "burned_upto h burns = sum_list (map fst (filter (\<lambda>x. snd x \<le> h) burns))"

text \<open>What the entries hold after a log: heights strictly increasing and taken from the log, the total, and at
  every height the sum of the burns up to it.\<close>

definition burned_at :: "BurnedXfgEntry list \<Rightarrow> u32 \<Rightarrow> u64" where
  "burned_at es h =
     (let low = takeWhile (\<lambda>e. bx_height e \<le> h) es in if low = [] then 0 else bx_cumulative_burned (last low))"

definition burn_inv :: "(u64 \<times> u32) list \<Rightarrow> BankingIndex \<Rightarrow> bool" where
  "burn_inv burns b \<longleftrightarrow>
     sorted_wrt (<) (map bx_height (bi_burnedXfgEntries b)) \<and>
     bx_height ` set (bi_burnedXfgEntries b) \<subseteq> snd ` set burns \<and>
     bi_ethereal_xfg b = sum_list (map fst burns) \<and>
     (\<forall>h. burned_at (bi_burnedXfgEntries b) h = burned_upto h burns)"

section \<open>The index of a ledger\<close>

lemma take_Suc_append: "k < length xs \<Longrightarrow> take (Suc k) (xs @ ys) = take (Suc k) xs"
  by simp

lemma index_of_snoc:
  "index_of (xs @ [x]) =
     index_of xs @ (if fst x \<noteq> 0 then [\<lparr>be_height = of_nat (length xs), be_amount = deposits (xs @ [x]),
       be_interest = interests (xs @ [x])\<rparr>] else [])"
proof -
  have "map (ledger_entry (xs @ [x])) (filter (\<lambda>k. fst ((xs @ [x]) ! k) \<noteq> 0) [0..<length xs]) = index_of xs"
    unfolding index_of_def by (rule map_cong) (auto simp: nth_append ledger_entry_def intro: filter_cong)
  then show ?thesis unfolding index_of_def [of "xs @ [x]"] by (simp add: ledger_entry_def)
qed

lemma index_of_Nil [simp]: "index_of [] = []"
  by (simp add: index_of_def)

lemma deposits_snoc [simp]: "deposits (xs @ [x]) = fst x + deposits xs"
  by (simp add: deposits_def add.commute)

lemma interests_snoc [simp]: "interests (xs @ [x]) = snd x + interests xs"
  by (simp add: interests_def add.commute)

lemma interest_with_deposits_parts [simp]:
  "interest_with_deposits (xs @ [x]) \<longleftrightarrow> interest_with_deposits xs \<and> (fst x = 0 \<longrightarrow> snd x = 0)"
  "interest_with_deposits xs \<Longrightarrow> interest_with_deposits (take n xs)" "interest_with_deposits []"
  by (auto simp: interest_with_deposits_def list_all_iff dest: in_set_takeD)

lemma index_of_last:
  "(if index_of xs = [] then 0 else be_amount (last (index_of xs))) = deposits xs"
  "interest_with_deposits xs \<Longrightarrow> (if index_of xs = [] then 0 else be_interest (last (index_of xs))) = interests xs"
  by (induction xs rule: rev_induct) (auto simp: index_of_snoc deposits_def interests_def)

lemma index_of_heights: "e \<in> set (index_of xs) \<Longrightarrow> length xs < 2 ^ 32 \<Longrightarrow> unat (be_height e) < length xs"
  by (auto simp: index_of_def ledger_entry_def unat_of_nat)

lemma index_of_take:
  assumes "length xs < 2 ^ 32"
  shows "takeWhile (\<lambda>e. unat (be_height e) < n) (index_of xs) = index_of (take n xs)"
  using assms
proof (induction xs rule: rev_induct)
  case (snoc x xs)
  have l: "unat (of_nat (length xs) :: u32) = length xs" using snoc.prems by (simp add: unat_of_nat)
  show ?case
  proof (cases "n \<le> length xs")
    case True
    have "takeWhile (\<lambda>e. unat (be_height e) < n) (index_of (xs @ [x])) =
        takeWhile (\<lambda>e. unat (be_height e) < n) (index_of xs)"
    proof (cases "fst x = 0")
      case False
      show ?thesis unfolding index_of_snoc if_P [OF False] by (rule takeWhile_tail) (simp only: l True BankingIndexEntry.simps not_less)
    qed (simp add: index_of_snoc)
    then show ?thesis using snoc True by simp
  next
    case False
    have "takeWhile (\<lambda>e. unat (be_height e) < n) (index_of (xs @ [x])) = index_of (xs @ [x])"
    proof (subst takeWhile_eq_all_conv, rule ballI)
      fix e assume "e \<in> set (index_of (xs @ [x]))"
      from index_of_heights [OF this] snoc.prems False show "unat (be_height e) < n" by simp
    qed
    then show ?thesis using False by simp
  qed
qed simp

section \<open>Queries and steps\<close>

lemma u32_le_Suc: "(h :: u32) \<le> g \<longleftrightarrow> unat h < Suc (unat g)"
  by (simp add: word_le_nat_alt less_Suc_eq_le)

lemma upperBound_index:
  assumes "banking_rel b xs"
  shows "upperBound h b = length (index_of (take (Suc (unat h)) xs))"
    and "take (upperBound h b) (bi_index b) = index_of (take (Suc (unat h)) xs)"
proof -
  have t: "takeWhile (\<lambda>e. be_height e \<le> h) (bi_index b) = index_of (take (Suc (unat h)) xs)"
    using assms unfolding banking_rel_def u32_le_Suc by (simp add: index_of_take)
  show "upperBound h b = length (index_of (take (Suc (unat h)) xs))" unfolding upperBound_def t ..
  show "take (upperBound h b) (bi_index b) = index_of (take (Suc (unat h)) xs)"
    using takeWhile_eq_take [of "\<lambda>e. be_height e \<le> h" "bi_index b"] t unfolding upperBound_def by argo
qed

lemma nth_upperBound:
  assumes "banking_rel b xs" "upperBound h b \<noteq> 0"
  shows "bi_index b ! (upperBound h b - 1) = last (index_of (take (Suc (unat h)) xs))"
proof -
  have "last (take (upperBound h b) (bi_index b)) = take (upperBound h b) (bi_index b) ! (upperBound h b - 1)"
    using assms upperBound_index [OF assms(1), of h] by (subst last_conv_nth) auto
  also have "\<dots> = bi_index b ! (upperBound h b - 1)" using assms(2) by (intro nth_take) simp
  finally show ?thesis unfolding upperBound_index(2) [OF assms(1)] by (rule sym)
qed

lemma at_height_exact:
  assumes "banking_rel b xs"
  shows "depositAmountAtHeight h b = deposits (take (Suc (unat h)) xs)"
    and "depositInterestAtHeight h b = interests (take (Suc (unat h)) xs)"
proof -
  define ys where "ys = take (Suc (unat h)) xs"
  have n: "upperBound h b = 0 \<longleftrightarrow> index_of ys = []" using upperBound_index(1) [OF assms] unfolding ys_def by simp
  have z: "index_of ys = []" if "bi_blockCount b = 0"
  proof -
    have "length xs = 0"
      using that assms of_nat_inverse [of "length xs" "0 :: u32"] unfolding banking_rel_def by simp
    then show ?thesis unfolding ys_def by simp
  qed
  show "depositAmountAtHeight h b = deposits (take (Suc (unat h)) xs)"
    using index_of_last(1) [of ys] n z nth_upperBound [OF assms, of h]
    unfolding depositAmountAtHeight_def ys_def [symmetric] by (auto split: if_splits)
  have "interest_with_deposits ys" using assms by (simp add: ys_def banking_rel_def)
  then show "depositInterestAtHeight h b = interests (take (Suc (unat h)) xs)"
    using index_of_last(2) [of ys] n z nth_upperBound [OF assms, of h]
    unfolding depositInterestAtHeight_def ys_def [symmetric] by (auto split: if_splits)
qed

lemma push_refines:
  assumes "banking_rel b xs" "Suc (length xs) < 2 ^ 32" "amount = 0 \<longrightarrow> interest = 0"
  shows "banking_rel (pushBlock amount interest b) (xs @ [(amount, interest)])"
  using assms index_of_last [of xs] unfolding banking_rel_def pushBlock_def Let_def
  by (auto simp: index_of_snoc add.commute split: if_splits)

lemma pop_burned_frame [simp]:
  "bi_index (pop_burned b) = bi_index b" "bi_blockCount (pop_burned b) = bi_blockCount b"
  by (simp_all add: pop_burned_def Let_def)

lemma pop_refines:
  assumes "banking_rel b xs" "xs \<noteq> []"
  shows "banking_rel (popBlock b) (butlast xs)"
proof -
  obtain ys x where xs: "xs = ys @ [x]" using assms(2) rev_exhaust by blast
  have len: "length ys < 2 ^ 32" "Suc (length ys) < 2 ^ 32" using assms(1) unfolding banking_rel_def xs by simp_all
  have c: "bi_blockCount b - 1 = of_nat (length ys)" using assms(1) unfolding banking_rel_def xs by simp
  have i: "bi_index b = index_of (ys @ [x])" "interest_with_deposits ys" using assms(1) unfolding banking_rel_def xs by simp_all
  have ne: "be_height (last (index_of ys)) \<noteq> of_nat (length ys)" if "index_of ys \<noteq> []"
  proof
    assume "be_height (last (index_of ys)) = of_nat (length ys)"
    with index_of_heights [OF last_in_set [OF that] len(1)] have "unat (of_nat (length ys) :: u32) < length ys" by simp
    then show False using len(1) by (simp add: unat_of_nat)
  qed
  show ?thesis
    unfolding banking_rel_def popBlock_def Let_def using len(1) c i ne
    by (cases "fst x = 0") (auto simp: xs index_of_snoc)
qed

lemma index_of_take_Suc:
  assumes "n < length xs"
  shows "index_of (take (Suc n) xs) = index_of (take n xs) @
    (if fst (xs ! n) \<noteq> 0 then [ledger_entry xs n] else [])"
  using assms by (simp add: take_Suc_conv_app_nth index_of_snoc ledger_entry_def)

lemma erase_index:
  assumes "banking_rel b xs" "unat from < length xs"
  shows "take (erase_from from b) (bi_index b) = index_of (take (unat from) xs)"
proof -
  define p where "p = upperBound from b"
  define A where "A = index_of (take (unat from) xs)"
  have small: "length xs < 2 ^ 32" using assms(1) by (simp add: banking_rel_def)
  have low: "be_height e \<noteq> from" if "e \<in> set A" for e
    using index_of_heights [OF that [unfolded A_def]] assms(2) small by auto
  note ub = upperBound_index [OF assms(1), of "from", folded p_def]
  note nth = nth_upperBound [OF assms(1), of "from", folded p_def]
  have f: "index_of (take (Suc (unat from)) xs) = A @ (if fst (xs ! unat from) \<noteq> 0 then [ledger_entry xs (unat from)] else [])"
    unfolding A_def by (rule index_of_take_Suc [OF assms(2)])
  show ?thesis unfolding erase_from_def Let_def p_def [symmetric] A_def [symmetric]
  proof (cases "fst (xs ! unat from) = 0")
    case True
    have "be_height (bi_index b ! (p - 1)) \<noteq> from" if "p \<noteq> 0"
      using nth [OF that] low [OF last_in_set] ub(1) that True by (simp add: f)
    then show "take (if p \<noteq> 0 \<and> be_height (bi_index b ! (p - 1)) = from then p - 1 else p) (bi_index b) = A"
      using ub(2) f True by auto
  next
    case False
    have p: "p = Suc (length A)" using ub(1) f False by simp
    have h: "be_height (bi_index b ! (p - 1)) = from" using nth p f False by (simp add: ledger_entry_def)
    have "take (p - 1) (bi_index b) = take (p - 1) (take p (bi_index b))" by simp
    also have "\<dots> = A" unfolding ub(2) f using False p by simp
    finally show "take (if p \<noteq> 0 \<and> be_height (bi_index b ! (p - 1)) = from then p - 1 else p) (bi_index b) = A"
      using h p by simp
  qed
qed

lemma popBlocks_refines:
  assumes "banking_rel b xs"
  shows "banking_rel (snd (popBlocks from b)) (take (unat from) xs)"
    and "unat (fst (popBlocks from b)) = length xs - unat from"
proof -
  have n: "unat (bi_blockCount b) = length xs" using assms by (simp add: banking_rel_def unat_of_nat)
  have small: "length xs < 2 ^ 32" "interest_with_deposits xs" using assms by (simp_all add: banking_rel_def)
  show "banking_rel (snd (popBlocks from b)) (take (unat from) xs)"
  proof (cases "bi_blockCount b \<le> from")
    case True
    then have "length xs \<le> unat from" using n by (simp add: word_le_nat_alt)
    then show ?thesis using assms True by (simp add: popBlocks_def)
  next
    case False
    then have lt: "unat from < length xs" using n by (simp add: word_le_nat_alt)
    then show ?thesis using False small erase_index [OF assms lt]
      by (simp add: popBlocks_def Let_def banking_rel_def min_absorb2)
  qed
  show "unat (fst (popBlocks from b)) = length xs - unat from"
    using n by (auto simp: popBlocks_def Let_def word_le_nat_alt unat_sub)
qed

lemma burn_refines: "banking_rel b xs \<Longrightarrow> banking_rel (addForeverDeposit amount height b) xs"
  by (simp add: banking_rel_def addForeverDeposit_def Let_def)

section \<open>Simulation\<close>

text \<open>A concrete component simulates an abstract one when every legal step keeps the relation; then so does
  every legal sequence of steps.\<close>

locale forward_simulation =
  fixes related :: "'c \<Rightarrow> 'a \<Rightarrow> bool"
    and cstep :: "'op \<Rightarrow> 'c \<Rightarrow> 'c"
    and astep :: "'op \<Rightarrow> 'a \<Rightarrow> 'a"
    and legal :: "'op \<Rightarrow> 'a \<Rightarrow> bool"
    and legal_run :: "'op list \<Rightarrow> 'a \<Rightarrow> bool"
  assumes step: "related c a \<Longrightarrow> legal op a \<Longrightarrow> related (cstep op c) (astep op a)"
    and run_Cons: "legal_run (op # ops) a \<Longrightarrow> legal op a \<and> legal_run ops (astep op a)"
begin

lemma run: "related c a \<Longrightarrow> legal_run ops a \<Longrightarrow> related (fold cstep ops c) (fold astep ops a)"
  by (induction ops arbitrary: c a) (auto dest: run_Cons intro: step)

end

interpretation banking: forward_simulation banking_rel banking_step ledger_step ledger_ok ledger_run_ok
proof
  show "banking_rel c a \<Longrightarrow> ledger_ok op a \<Longrightarrow> banking_rel (banking_step op c) (ledger_step op a)" for c a op
    by (cases op) (simp_all add: push_refines pop_refines popBlocks_refines burn_refines)
qed simp

lemma banking_new_refines: "banking_rel BankingIndex_new []"
  by (simp add: banking_rel_def BankingIndex_new_def)

section \<open>Burned coins\<close>

lemma burn_all_snoc: "burn_all (burns @ [(amount, height)]) b = addForeverDeposit amount height (burn_all burns b)"
  by (induction burns b rule: burn_all.induct) simp_all

lemma burned_at_height: "getBurnedXfgAtHeight h b = burned_at (bi_burnedXfgEntries b) h"
proof -
  define es where "es = bi_burnedXfgEntries b"
  define low where "low = takeWhile (\<lambda>e. bx_height e \<le> h) es"
  have "es ! (length low - 1) = last low" if "low \<noteq> []"
    using that takeWhile_nth [of "length low - 1" "\<lambda>e. bx_height e \<le> h" es] unfolding low_def
    by (simp add: last_conv_nth)
  then show ?thesis
    unfolding getBurnedXfgAtHeight_def burned_at_def Let_def es_def [symmetric] low_def [symmetric]
    by (auto simp: low_def)
qed

lemma burned_at_snoc:
  "H \<le> h \<Longrightarrow> \<forall>e\<in>set es. bx_height e \<le> H \<Longrightarrow> bx_height x = H \<Longrightarrow> burned_at (es @ [x]) h = bx_cumulative_burned x"
  "\<not> H \<le> h \<Longrightarrow> bx_height x = H \<Longrightarrow> burned_at (es @ [x]) h = burned_at es h"
proof -
  assume a: "H \<le> h" "\<forall>e\<in>set es. bx_height e \<le> H" "bx_height x = H"
  then have "takeWhile (\<lambda>e. bx_height e \<le> h) (es @ [x]) = es @ [x]" by (auto simp: takeWhile_eq_all_conv)
  then show "burned_at (es @ [x]) h = bx_cumulative_burned x" by (simp add: burned_at_def)
next
  assume "\<not> H \<le> h" "bx_height x = H"
  then show "burned_at (es @ [x]) h = burned_at es h" by (simp add: burned_at_def takeWhile_tail)
qed

lemma burned_upto_snoc:
  assumes "\<forall>y\<in>set burns. snd y \<le> H"
  shows "burned_upto h (burns @ [(a, H)]) = (if H \<le> h then sum_list (map fst burns) + a else burned_upto h burns)"
proof -
  have "filter (\<lambda>x. snd x \<le> h) burns = burns" if "H \<le> h" using assms that by (auto simp: filter_id_conv)
  then show ?thesis by (simp add: burned_upto_def)
qed

lemma burn_inv_zero: "burn_inv burns b \<Longrightarrow> \<forall>y\<in>set burns. snd y \<le> H \<Longrightarrow> burn_inv (burns @ [(0, H)]) b"
  by (auto simp: burn_inv_def burned_upto_def)

lemma burn_inv_step:
  assumes "burn_inv burns b" "\<forall>y\<in>set burns. snd y \<le> H" "a \<noteq> 0"
  shows "burn_inv (burns @ [(a, H)]) (addForeverDeposit a H b)"
proof -
  define es where "es = bi_burnedXfgEntries b"
  have le: "\<forall>e\<in>set es. bx_height e \<le> H" using assms(1,2) unfolding burn_inv_def es_def by fastforce
  have st: "sorted_wrt (<) (map bx_height es)" "bx_height ` set es \<subseteq> snd ` set burns"
    "bi_ethereal_xfg b = sum_list (map fst burns)" "\<And>h. burned_at es h = burned_upto h burns"
    using assms(1) unfolding burn_inv_def es_def by blast+
  have tot: "bi_ethereal_xfg (addForeverDeposit a H b) = sum_list (map fst burns) + a"
    using assms(3) st(3) by (simp add: addForeverDeposit_def Let_def)
  show ?thesis
  proof (cases "es \<noteq> [] \<and> bx_height (last es) = H")
    case True
    then obtain fs l where es: "es = fs @ [l]" "bx_height l = H" by (metis append_butlast_last_id)
    define l' where "l' = l\<lparr>bx_amount := bx_amount l + a, bx_cumulative_burned := bi_ethereal_xfg b + a\<rparr>"
    have e': "bi_burnedXfgEntries (addForeverDeposit a H b) = fs @ [l']"
      using assms(3) es unfolding addForeverDeposit_def Let_def es_def [symmetric] l'_def by simp
    have "burned_at (fs @ [l']) h = burned_upto h (burns @ [(a, H)])" for h
      unfolding burned_upto_snoc [OF assms(2)] 
      using burned_at_snoc(1) [of H h fs l'] burned_at_snoc(2) [of H h l' fs] burned_at_snoc(2) [of H h l fs]
        le es st(3,4) by (auto simp: l'_def)
    then show ?thesis unfolding burn_inv_def e' tot using st(1,2) es by (auto simp: l'_def)
  next
    case False
    have lt: "bx_height e < H" if in_es: "e \<in> set es" for e
    proof -
      obtain fs l where fs: "es = fs @ [l]" using in_es by (cases es rule: rev_exhaust) auto
      then have "bx_height e \<le> bx_height l" using in_es st(1) by (auto simp: sorted_wrt_append less_imp_le)
      moreover have "bx_height l < H" using False fs le by (auto simp: order_less_le)
      ultimately show ?thesis by simp
    qed
    define x where "x = \<lparr>bx_height = H, bx_amount = a, bx_cumulative_burned = bi_ethereal_xfg b + a\<rparr>"
    have e': "bi_burnedXfgEntries (addForeverDeposit a H b) = es @ [x]"
      using assms(3) False unfolding addForeverDeposit_def Let_def es_def [symmetric] x_def by auto
    have "burned_at (es @ [x]) h = burned_upto h (burns @ [(a, H)])" for h
      unfolding burned_upto_snoc [OF assms(2)] 
      using burned_at_snoc(1) [of H h es x] burned_at_snoc(2) [of H h x es] le st(3,4) by (auto simp: x_def)
    then show ?thesis unfolding burn_inv_def e' tot using st(1,2) lt by (auto simp: x_def sorted_wrt_append)
  qed
qed

lemma burn_inv_all: "sorted (map snd burns) \<Longrightarrow> burn_inv burns (burn_all burns BankingIndex_new)"
proof (induction burns rule: rev_induct)
  case Nil
  show ?case by (simp add: burn_inv_def BankingIndex_new_def burned_at_def burned_upto_def)
next
  case (snoc x burns)
  obtain a H where x: "x = (a, H)" by fastforce
  have le: "\<forall>y\<in>set burns. snd y \<le> H" and i: "burn_inv burns (burn_all burns BankingIndex_new)"
    using snoc x by (auto simp: sorted_append)
  show ?case unfolding x burn_all_snoc
    by (cases "a = 0") (use burn_inv_zero [OF i le] burn_inv_step [OF i le] in \<open>auto simp: addForeverDeposit_def\<close>)
qed

text \<open>The undo of a burn comes one block late: \<open>popBlock\<close> compares with the block count before lowering it, so
  the burn of the block just pushed stays in the total when that block is popped.\<close>

lemma burn_survives_pop:
  "amount \<noteq> 0 \<Longrightarrow> getBurnedXfgAmount (popBlock (addForeverDeposit amount (bi_blockCount b) (pushBlock deposit interest b))) =
     getBurnedXfgAmount b + amount"
  by (auto simp: getBurnedXfgAmount_def popBlock_def pop_burned_def addForeverDeposit_def pushBlock_def Let_def)

text \<open>Truncation keeps the prefix of entries at or above the height, so it drops every burn when the first one is
  below it, and never changes the total.\<close>

lemma popBlocks_burned:
  assumes "from < bi_blockCount b" "bi_burnedXfgEntries b = e # es" "bx_height e < from"
  shows "bi_burnedXfgEntries (snd (popBlocks from b)) = []"
    and "getBurnedXfgAmount (snd (popBlocks from b)) = getBurnedXfgAmount b"
  using assms by (simp_all add: popBlocks_def Let_def getBurnedXfgAmount_def not_le)

lemma banking_roundtrip: "banking_load (banking_save b) BankingIndex_new = b"
  by (simp add: banking_load_def banking_save_def BankingIndex_new_def)

section \<open>Properties\<close>

text \<open>
  C14: the deposits and the interest of the banking index refine a plain ledger. After any sequence of pushes, pops,
  truncations and burns from the empty index, in which pops find a block, there are fewer than 2^32 blocks and a block
  without a change of the deposits brings no interest, the block count is the length of the ledger, the deposit and interest totals at every height are the
  sums over the blocks up to that height, the full totals and the total of the statistics are the sums over all blocks, all in
  64 bits. The burned coins are not part of this refinement, since pops do not undo them.
\<close>

theorem banking_refines_ledger:
  assumes "ledger_run_ok ops []"
  defines "b \<equiv> fold banking_step ops BankingIndex_new" and "xs \<equiv> fold ledger_step ops []"
  shows "unat (bi_blockCount b) = length xs \<and>
    depositAmountAtHeight h b = deposits (take (Suc (unat h)) xs) \<and>
    depositInterestAtHeight h b = interests (take (Suc (unat h)) xs) \<and>
    fullDepositAmount b = deposits xs \<and> fullInterestAmount b = interests xs \<and> ds_totalDeposits (getStats b) = deposits xs"
proof -
  have r: "banking_rel b xs" unfolding b_def xs_def by (rule banking.run [OF banking_new_refines assms(1)])
  then have "unat (bi_blockCount b) = length xs" by (simp add: banking_rel_def unat_of_nat)
  moreover have "fullDepositAmount b = deposits xs" "fullInterestAmount b = interests xs"
    using r index_of_last [of xs] unfolding banking_rel_def fullDepositAmount_def fullInterestAmount_def by (simp_all split: if_splits)
  ultimately show ?thesis using at_height_exact [OF r] by (simp add: getStats_def Let_def)
qed

theorem banking_refines_ledger_witness:
  "depositAmountAtHeight 2 (fold banking_step [Push 5 1, Push 0 0, Push 7 2, Push 3 1, Pop, PopFrom 2, Push 9 4] BankingIndex_new) = 14 \<and>
   depositInterestAtHeight 2 (fold banking_step [Push 5 1, Push 0 0, Push 7 2, Push 3 1, Pop, PopFrom 2, Push 9 4] BankingIndex_new) = 5"
  using banking_refines_ledger [of "[Push 5 1, Push 0 0, Push 7 2, Push 3 1, Pop, PopFrom 2, Push 9 4]" 2]
  by (simp add: deposits_def interests_def)

text \<open>
  The burned total at a height is exact. For any log of burns entered in height order, several in one block
  and zero amounts included, the query at a height returns the sum of the burns up to that height, and the running
  total is the sum of all of them.
\<close>

theorem burned_at_height_exact:
  assumes "sorted (map snd burns)"
  shows "getBurnedXfgAtHeight h (burn_all burns BankingIndex_new) = burned_upto h burns \<and>
    getBurnedXfgAmount (burn_all burns BankingIndex_new) = sum_list (map fst burns)"
  using burn_inv_all [OF assms] by (simp add: burned_at_height burn_inv_def getBurnedXfgAmount_def)

theorem burned_at_height_exact_witness:
  "getBurnedXfgAtHeight 6 (burn_all [(10, 3), (5, 3), (0, 4), (7, 6), (1, 9)] BankingIndex_new) = 22"
  using burned_at_height_exact [of "[(10, 3), (5, 3), (0, 4), (7, 6), (1, 9)]" 6] by (simp add: burned_upto_def)

end
