(* ===== verification/Swap_Machine.thy ===== *)
theory Swap_Machine
  imports Byte_Codecs Ordered_Map "HOL-Library.Monad_Syntax"
begin

text \<open>
  Atomic swaps, \<open>src/src/SwapDaemon\<close>: the types of \<open>SwapTypes.h\<close>, the state machine and its stored form
  (\<open>SwapStateMachine.cpp\<close>), the swap files (\<open>SwapDatabase.cpp\<close>) and the commands of \<open>SwapDaemon.cpp\<close> that
  change them. A JSON object is an association list of integers and strings; the JSON text layer is not modelled.
  The directory of swap files is an ordered map from identifiers to objects, and whether a write succeeds is an
  argument. The height the node reports, the clock, the random keys, the Musig2 key aggregation, the proof and the
  answer of the price oracle are arguments. A member that the constructor leaves uninitialised is taken from the
  argument \<open>mem\<close>.

  Shown here: the flow ends after at most six steps unless it fails, and pays out only along the full path; a stored
  machine is read back except for its secrets; and the commands never touch a finished swap or refund one early.
\<close>

section \<open>Types\<close>

datatype SwapState =
    INITIATED | XFG_LOCKED | CTR_LOCKED | XFG_CLAIMED | CTR_CLAIMED | XFG_REFUNDED | CTR_REFUNDED | FAILED
  | ADAPTOR_KEYS_EXCHANGED | ADAPTOR_ESCROW_FUNDED | ADAPTOR_PRESIGS_READY | ADAPTOR_CTR_LOCKED
  | ADAPTOR_SECRET_REVEALED | ADAPTOR_XFG_SPENT | ADAPTOR_REFUNDED
  | Unnamed_State u8

datatype SwapRole = ALICE | BOB | Unnamed_Role u8

datatype SwapPair = SOL | ETH | XMR | BCH | Unnamed_Pair u8

text \<open>The underlying values of the enumerations; a cast from a byte without an enumerator keeps the byte.\<close>

fun state_code :: "SwapState \<Rightarrow> u8" where
  "state_code INITIATED = 0"
| "state_code XFG_LOCKED = 1"
| "state_code CTR_LOCKED = 2"
| "state_code XFG_CLAIMED = 3"
| "state_code CTR_CLAIMED = 4"
| "state_code XFG_REFUNDED = 5"
| "state_code CTR_REFUNDED = 6"
| "state_code FAILED = 7"
| "state_code ADAPTOR_KEYS_EXCHANGED = 10"
| "state_code ADAPTOR_ESCROW_FUNDED = 11"
| "state_code ADAPTOR_PRESIGS_READY = 12"
| "state_code ADAPTOR_CTR_LOCKED = 13"
| "state_code ADAPTOR_SECRET_REVEALED = 14"
| "state_code ADAPTOR_XFG_SPENT = 15"
| "state_code ADAPTOR_REFUNDED = 16"
| "state_code (Unnamed_State n) = n"

definition named_states :: "SwapState list" where
  "named_states = [INITIATED, XFG_LOCKED, CTR_LOCKED, XFG_CLAIMED, CTR_CLAIMED, XFG_REFUNDED, CTR_REFUNDED, FAILED,
     ADAPTOR_KEYS_EXCHANGED, ADAPTOR_ESCROW_FUNDED, ADAPTOR_PRESIGS_READY, ADAPTOR_CTR_LOCKED,
     ADAPTOR_SECRET_REVEALED, ADAPTOR_XFG_SPENT, ADAPTOR_REFUNDED]"

definition state_of_code :: "u8 \<Rightarrow> SwapState" where
  "state_of_code n = (case find (\<lambda>s. state_code s = n) named_states of Some s \<Rightarrow> s | None \<Rightarrow> Unnamed_State n)"

fun role_code :: "SwapRole \<Rightarrow> u8" where
  "role_code ALICE = 0"
| "role_code BOB = 1"
| "role_code (Unnamed_Role n) = n"

definition role_of_code :: "u8 \<Rightarrow> SwapRole" where
  "role_of_code n = (if n = 0 then ALICE else if n = 1 then BOB else Unnamed_Role n)"

fun pair_code :: "SwapPair \<Rightarrow> u8" where
  "pair_code SOL = 0"
| "pair_code ETH = 1"
| "pair_code XMR = 2"
| "pair_code BCH = 3"
| "pair_code (Unnamed_Pair n) = n"

definition pair_of_code :: "u8 \<Rightarrow> SwapPair" where
  "pair_of_code n =
     (if n = 0 then SOL else if n = 1 then ETH else if n = 2 then XMR else if n = 3 then BCH else Unnamed_Pair n)"

text \<open>The parameters of a swap. \<open>'q\<close> is the DLEQ proof, \<open>'k\<close> the aggregated key and \<open>'m\<close> the rest of the Musig2
  session, which the commands below do not touch.\<close>

record ('q, 'k, 'm) SwapParams =
  sp_swapId :: string
  sp_pair :: SwapPair
  sp_role :: SwapRole
  sp_xfgAmount :: u64
  sp_ctrAmount :: u64
  sp_aliceXfgPubKey :: public_key
  sp_bobXfgPubKey :: public_key
  sp_ourSwapSecKey :: bytes
  sp_ourSwapPubKey :: public_key
  sp_peerSwapPubKey :: public_key
  sp_escrowPubKey :: public_key
  sp_adaptorPoint :: public_key
  sp_adaptorSecret :: bytes
  sp_adaptorDleqProof :: 'q
  sp_keyAgg :: 'k
  sp_musig2 :: 'm
  sp_escrowTxHash :: hash
  sp_escrowOutputIndex :: u32
  sp_hashLock :: hash
  sp_preimage :: hash
  sp_xfgTimeoutHeight :: u32
  sp_ctrTimeoutBlock :: u64
  sp_htlcOutputIndex :: u32
  sp_ctrLockTxId :: string
  sp_ctrAddress :: string
  sp_peerEndpoint :: string

record ('q, 'k, 'm) SwapStateMachine =
  sm_params :: "('q, 'k, 'm) SwapParams"
  sm_state :: SwapState
  sm_createdAt :: u64
  sm_updatedAt :: u64

section \<open>The state machine\<close>

definition SwapStateMachine_new :: "u64 \<Rightarrow> ('q, 'k, 'm) SwapParams \<Rightarrow> ('q, 'k, 'm) SwapStateMachine" where
  "SwapStateMachine_new now params = \<lparr>sm_params = params, sm_state = INITIATED, sm_createdAt = now, sm_updatedAt = now\<rparr>"

definition isValidTransition :: "SwapState \<Rightarrow> SwapState \<Rightarrow> bool" where
  "isValidTransition state newState \<longleftrightarrow>
     (if newState = FAILED then True
      else case state of
        INITIATED \<Rightarrow> newState = ADAPTOR_KEYS_EXCHANGED
      | ADAPTOR_KEYS_EXCHANGED \<Rightarrow> newState = ADAPTOR_ESCROW_FUNDED
      | ADAPTOR_ESCROW_FUNDED \<Rightarrow> newState = ADAPTOR_PRESIGS_READY \<or> newState = ADAPTOR_REFUNDED
      | ADAPTOR_PRESIGS_READY \<Rightarrow> newState = ADAPTOR_CTR_LOCKED \<or> newState = ADAPTOR_REFUNDED
      | ADAPTOR_CTR_LOCKED \<Rightarrow> newState = ADAPTOR_SECRET_REVEALED \<or> newState = ADAPTOR_REFUNDED
      | ADAPTOR_SECRET_REVEALED \<Rightarrow> newState = ADAPTOR_XFG_SPENT
      | _ \<Rightarrow> False)"

definition transition :: "u64 \<Rightarrow> SwapState \<Rightarrow> ('q, 'k, 'm) SwapStateMachine \<Rightarrow> bool \<times> ('q, 'k, 'm) SwapStateMachine" where
  "transition now newState sm =
     (if \<not> isValidTransition (sm_state sm) newState then (False, sm)
      else (True, sm\<lparr>sm_state := newState, sm_updatedAt := now\<rparr>))"

definition isTerminal :: "SwapState \<Rightarrow> bool" where
  "isTerminal s \<longleftrightarrow> s = ADAPTOR_XFG_SPENT \<or> s = ADAPTOR_REFUNDED \<or> s = FAILED"

text \<open>A run: the states of a sequence of successful transitions.\<close>

fun swap_run :: "SwapState \<Rightarrow> SwapState list \<Rightarrow> bool" where
  "swap_run s [] \<longleftrightarrow> True"
| "swap_run s (t # ts) \<longleftrightarrow> isValidTransition s t \<and> swap_run t ts"

text \<open>The full path, and how many steps are left at most from a state if nothing fails.\<close>

definition full_path :: "SwapState list" where
  "full_path = [ADAPTOR_KEYS_EXCHANGED, ADAPTOR_ESCROW_FUNDED, ADAPTOR_PRESIGS_READY, ADAPTOR_CTR_LOCKED,
     ADAPTOR_SECRET_REVEALED, ADAPTOR_XFG_SPENT]"

fun steps_left :: "SwapState \<Rightarrow> nat" where
  "steps_left INITIATED = 6"
| "steps_left ADAPTOR_KEYS_EXCHANGED = 5"
| "steps_left ADAPTOR_ESCROW_FUNDED = 4"
| "steps_left ADAPTOR_PRESIGS_READY = 3"
| "steps_left ADAPTOR_CTR_LOCKED = 2"
| "steps_left ADAPTOR_SECRET_REVEALED = 1"
| "steps_left _ = 0"

section \<open>The stored form\<close>

datatype JsonValue = JInteger u64 | JString string

type_synonym json = "(string \<times> JsonValue) list"

definition swap_serialize :: "('q, 'k, 'm) SwapStateMachine \<Rightarrow> json" where
  "swap_serialize sm =
     (let p = sm_params sm in
      [(''swapId'', JString (sp_swapId p)),
       (''pair'', JInteger (ucast (pair_code (sp_pair p)))),
       (''role'', JInteger (ucast (role_code (sp_role p)))),
       (''xfgAmount'', JInteger (sp_xfgAmount p)),
       (''ctrAmount'', JInteger (sp_ctrAmount p)),
       (''state'', JInteger (ucast (state_code (sm_state sm)))),
       (''ourSwapPubKey'', JString (podToHex (sp_ourSwapPubKey p))),
       (''peerSwapPubKey'', JString (podToHex (sp_peerSwapPubKey p))),
       (''escrowPubKey'', JString (podToHex (sp_escrowPubKey p))),
       (''adaptorPoint'', JString (podToHex (sp_adaptorPoint p))),
       (''escrowTxHash'', JString (podToHex (sp_escrowTxHash p))),
       (''escrowOutputIndex'', JInteger (ucast (sp_escrowOutputIndex p))),
       (''aliceXfgPubKey'', JString (podToHex (sp_aliceXfgPubKey p))),
       (''bobXfgPubKey'', JString (podToHex (sp_bobXfgPubKey p))),
       (''xfgTimeoutHeight'', JInteger (ucast (sp_xfgTimeoutHeight p))),
       (''ctrTimeoutBlock'', JInteger (sp_ctrTimeoutBlock p)),
       (''ctrLockTxId'', JString (sp_ctrLockTxId p)),
       (''ctrAddress'', JString (sp_ctrAddress p)),
       (''peerEndpoint'', JString (sp_peerEndpoint p)),
       (''createdAt'', JInteger (sm_createdAt sm)),
       (''updatedAt'', JInteger (sm_updatedAt sm))])"

text \<open>\<open>root(key).getInteger()\<close> and \<open>getString()\<close>: a missing key or another kind of value throws.\<close>

definition get_integer :: "json \<Rightarrow> string \<Rightarrow> u64 option" where
  "get_integer root key = (case map_of root key of Some (JInteger n) \<Rightarrow> Some n | _ \<Rightarrow> None)"

definition get_string :: "json \<Rightarrow> string \<Rightarrow> string option" where
  "get_string root key = (case map_of root key of Some (JString s) \<Rightarrow> Some s | _ \<Rightarrow> None)"

text \<open>What \<open>podFromHex\<close> leaves in an object: it writes byte by byte and stops at the first bad digit.\<close>

fun write_pairs :: "string \<Rightarrow> bytes \<Rightarrow> bytes" where
  "write_pairs (c1 # c2 # text) (b # bs) =
     (case (fromHex_char c1, fromHex_char c2) of
        (Some value1, Some value2) \<Rightarrow> (push_bit 4 value1 OR value2) # write_pairs text bs
      | _ \<Rightarrow> b # bs)"
| "write_pairs _ bs = bs"

definition pod_into :: "string \<Rightarrow> bytes \<Rightarrow> bytes" where
  "pod_into text pod =
     (if length text mod 2 \<noteq> 0 then pod else if length pod < length text div 2 then pod else write_pairs text pod)"

text \<open>An optional key field: left alone when missing, an exception when not a string.\<close>

definition read_pod :: "json \<Rightarrow> string \<Rightarrow> bytes \<Rightarrow> bytes option" where
  "read_pod root key pod =
     (case map_of root key of None \<Rightarrow> Some pod | Some (JString s) \<Rightarrow> Some (pod_into s pod) | Some (JInteger n) \<Rightarrow> None)"

text \<open>An optional integer field.\<close>

definition read_u32 :: "json \<Rightarrow> string \<Rightarrow> u32 \<Rightarrow> u32 option" where
  "read_u32 root key v =
     (case map_of root key of None \<Rightarrow> Some v | Some (JInteger n) \<Rightarrow> Some (ucast n) | Some (JString s) \<Rightarrow> None)"

definition swap_deserialize :: "('q, 'k, 'm) SwapParams \<Rightarrow> json \<Rightarrow> ('q, 'k, 'm) SwapStateMachine option" where
  "swap_deserialize mem root =
     do {
       swapId \<leftarrow> get_string root ''swapId'';
       pair \<leftarrow> get_integer root ''pair'';
       role \<leftarrow> get_integer root ''role'';
       xfgAmount \<leftarrow> get_integer root ''xfgAmount'';
       ctrAmount \<leftarrow> get_integer root ''ctrAmount'';
       ourSwapPubKey \<leftarrow> read_pod root ''ourSwapPubKey'' (sp_ourSwapPubKey mem);
       peerSwapPubKey \<leftarrow> read_pod root ''peerSwapPubKey'' (sp_peerSwapPubKey mem);
       escrowPubKey \<leftarrow> read_pod root ''escrowPubKey'' (sp_escrowPubKey mem);
       adaptorPoint \<leftarrow> read_pod root ''adaptorPoint'' (sp_adaptorPoint mem);
       escrowTxHash \<leftarrow> read_pod root ''escrowTxHash'' (sp_escrowTxHash mem);
       escrowOutputIndex \<leftarrow> read_u32 root ''escrowOutputIndex'' 0;
       aliceXfgPubKey \<leftarrow> read_pod root ''aliceXfgPubKey'' (sp_aliceXfgPubKey mem);
       bobXfgPubKey \<leftarrow> read_pod root ''bobXfgPubKey'' (sp_bobXfgPubKey mem);
       xfgTimeoutHeight \<leftarrow> get_integer root ''xfgTimeoutHeight'';
       ctrTimeoutBlock \<leftarrow> get_integer root ''ctrTimeoutBlock'';
       ctrLockTxId \<leftarrow> get_string root ''ctrLockTxId'';
       ctrAddress \<leftarrow> get_string root ''ctrAddress'';
       peerEndpoint \<leftarrow> get_string root ''peerEndpoint'';
       state \<leftarrow> get_integer root ''state'';
       createdAt \<leftarrow> get_integer root ''createdAt'';
       updatedAt \<leftarrow> get_integer root ''updatedAt'';
       Some \<lparr>sm_params = mem\<lparr>sp_swapId := swapId, sp_pair := pair_of_code (ucast pair), sp_role := role_of_code (ucast role),
               sp_xfgAmount := xfgAmount, sp_ctrAmount := ctrAmount, sp_ourSwapPubKey := ourSwapPubKey,
               sp_peerSwapPubKey := peerSwapPubKey, sp_escrowPubKey := escrowPubKey, sp_adaptorPoint := adaptorPoint,
               sp_escrowTxHash := escrowTxHash, sp_escrowOutputIndex := escrowOutputIndex,
               sp_aliceXfgPubKey := aliceXfgPubKey, sp_bobXfgPubKey := bobXfgPubKey,
               sp_xfgTimeoutHeight := ucast xfgTimeoutHeight, sp_ctrTimeoutBlock := ctrTimeoutBlock,
               sp_ctrLockTxId := ctrLockTxId, sp_ctrAddress := ctrAddress, sp_peerEndpoint := peerEndpoint\<rparr>,
             sm_state = state_of_code (ucast state), sm_createdAt = createdAt, sm_updatedAt = updatedAt\<rparr>
     }"

text \<open>The byte arrays of a parameter block have their fixed size.\<close>

definition pods_ok :: "('q, 'k, 'm) SwapParams \<Rightarrow> bool" where
  "pods_ok p \<longleftrightarrow> length (sp_ourSwapPubKey p) = 32 \<and> length (sp_peerSwapPubKey p) = 32 \<and> length (sp_escrowPubKey p) = 32 \<and>
     length (sp_adaptorPoint p) = 32 \<and> length (sp_escrowTxHash p) = 32 \<and> length (sp_aliceXfgPubKey p) = 32 \<and>
     length (sp_bobXfgPubKey p) = 32"

text \<open>The enumerations hold values that a cast from their byte gives back.\<close>

definition codes_ok :: "('q, 'k, 'm) SwapStateMachine \<Rightarrow> bool" where
  "codes_ok sm \<longleftrightarrow> state_of_code (state_code (sm_state sm)) = sm_state sm \<and>
     role_of_code (role_code (sp_role (sm_params sm))) = sp_role (sm_params sm) \<and>
     pair_of_code (pair_code (sp_pair (sm_params sm))) = sp_pair (sm_params sm)"

text \<open>The members that are not stored, taken from \<open>mem\<close>.\<close>

definition without_secrets :: "('q, 'k, 'm) SwapParams \<Rightarrow> ('q, 'k, 'm) SwapParams \<Rightarrow> ('q, 'k, 'm) SwapParams" where
  "without_secrets mem p =
     p\<lparr>sp_ourSwapSecKey := sp_ourSwapSecKey mem, sp_adaptorSecret := sp_adaptorSecret mem,
       sp_adaptorDleqProof := sp_adaptorDleqProof mem, sp_keyAgg := sp_keyAgg mem, sp_musig2 := sp_musig2 mem,
       sp_hashLock := sp_hashLock mem, sp_preimage := sp_preimage mem, sp_htlcOutputIndex := sp_htlcOutputIndex mem\<rparr>"

section \<open>The swap files\<close>

type_synonym swap_db = "(string, json) omap"

text \<open>\<open>saveSwap\<close>: the file is replaced by a rename, so a failure leaves the old one.\<close>

definition saveSwap :: "bool \<Rightarrow> ('q, 'k, 'm) SwapStateMachine \<Rightarrow> swap_db \<Rightarrow> bool \<times> swap_db" where
  "saveSwap written sm db =
     (if written then (True, om_put (sp_swapId (sm_params sm)) (swap_serialize sm) db) else (False, db))"

definition loadSwap :: "('q, 'k, 'm) SwapParams \<Rightarrow> string \<Rightarrow> swap_db \<Rightarrow> ('q, 'k, 'm) SwapStateMachine option" where
  "loadSwap mem swapId db = Option.bind (om_find db swapId) (swap_deserialize mem)"

definition listSwaps :: "swap_db \<Rightarrow> string list" where
  "listSwaps db = map fst db"

section \<open>The commands\<close>

datatype RateCheck = RATE_OK | BELOW_FLOOR | ABOVE_MARKET | NO_DATA

text \<open>\<open>initiate\<close>: \<open>height\<close> is the node's answer, \<open>fresh\<close> the generated identifier, \<open>rc\<close> the oracle's verdict and
  \<open>(pub, sec)\<close> the generated key pair. The identifier the caller supplies is used as it is.\<close>

definition initiate :: "u32 option \<Rightarrow> string \<Rightarrow> RateCheck \<Rightarrow> public_key \<times> bytes \<Rightarrow> u64 \<Rightarrow> bool \<Rightarrow>
    ('q, 'k, 'm) SwapParams \<Rightarrow> swap_db \<Rightarrow> bool \<times> swap_db" where
  "initiate height fresh rc keys now written params db =
     (case height of None \<Rightarrow> (False, db)
      | Some currentHeight \<Rightarrow>
        let params = (if sp_swapId params = [] then params\<lparr>sp_swapId := fresh\<rparr> else params);
            params = (if sp_xfgTimeoutHeight params = 0 then params\<lparr>sp_xfgTimeoutHeight := currentHeight + 180\<rparr> else params)
        in if rc = BELOW_FLOOR then (False, db)
           else
             let params = params\<lparr>sp_ourSwapPubKey := fst keys, sp_ourSwapSecKey := snd keys\<rparr>
             in saveSwap written (SwapStateMachine_new now params) db)"

text \<open>\<open>adaptor_key_aggregate\<close> of \<open>AdaptorSwap.cpp\<close>: Alice's key comes first.\<close>

definition orderedKeys :: "('q, 'k, 'm) SwapParams \<Rightarrow> public_key \<times> public_key" where
  "orderedKeys p = (if sp_role p = ALICE then (sp_ourSwapPubKey p, sp_peerSwapPubKey p)
                    else (sp_peerSwapPubKey p, sp_ourSwapPubKey p))"

definition adaptor_key_aggregate :: "(public_key \<Rightarrow> public_key \<Rightarrow> 'k option) \<Rightarrow> ('k \<Rightarrow> public_key) \<Rightarrow>
    ('q, 'k, 'm) SwapParams \<Rightarrow> ('q, 'k, 'm) SwapParams option" where
  "adaptor_key_aggregate musig2_key_agg agg_pubkey p =
     (case musig2_key_agg (fst (orderedKeys p)) (snd (orderedKeys p)) of None \<Rightarrow> None
      | Some agg \<Rightarrow> Some (p\<lparr>sp_keyAgg := agg, sp_escrowPubKey := agg_pubkey agg\<rparr>))"

text \<open>\<open>adaptor_generate_adaptor\<close>: \<open>(point, secret)\<close> is generated, \<open>prove base point secret\<close> is the proof, if the base
  point is valid.\<close>

definition adaptor_generate_adaptor :: "public_key \<times> bytes \<Rightarrow> (public_key \<Rightarrow> public_key \<Rightarrow> bytes \<Rightarrow> 'q option) \<Rightarrow>
    public_key \<Rightarrow> ('q, 'k, 'm) SwapParams \<Rightarrow> ('q, 'k, 'm) SwapParams option" where
  "adaptor_generate_adaptor keys prove base p =
     (case prove base (fst keys) (snd keys) of None \<Rightarrow> None
      | Some proof \<Rightarrow> Some (p\<lparr>sp_adaptorPoint := fst keys, sp_adaptorSecret := snd keys, sp_adaptorDleqProof := proof\<rparr>))"

definition accept :: "(public_key \<Rightarrow> public_key \<Rightarrow> 'k option) \<Rightarrow> ('k \<Rightarrow> public_key) \<Rightarrow> public_key \<times> bytes \<Rightarrow>
    (public_key \<Rightarrow> public_key \<Rightarrow> bytes \<Rightarrow> 'q option) \<Rightarrow> ('q, 'k, 'm) SwapParams \<Rightarrow> u64 \<Rightarrow> bool \<Rightarrow> string \<Rightarrow>
    swap_db \<Rightarrow> bool \<times> swap_db" where
  "accept musig2_key_agg agg_pubkey keys prove mem now written swapId db =
     (case loadSwap mem swapId db of None \<Rightarrow> (False, db)
      | Some sm \<Rightarrow>
        if sm_state sm \<noteq> INITIATED then (False, db)
        else
          case adaptor_key_aggregate musig2_key_agg agg_pubkey (sm_params sm) of None \<Rightarrow> (False, db)
          | Some params \<Rightarrow>
            case (if sp_role params = BOB
                  then adaptor_generate_adaptor keys prove (sp_escrowPubKey params) params
                  else Some params) of None \<Rightarrow> (False, db)
            | Some params \<Rightarrow>
              case transition now ADAPTOR_KEYS_EXCHANGED (sm\<lparr>sm_params := params\<rparr>) of
                (False, _) \<Rightarrow> (False, db)
              | (True, sm) \<Rightarrow> saveSwap written sm db)"

text \<open>The states from which the escrow can be refunded together.\<close>

definition refundable :: "SwapState \<Rightarrow> bool" where
  "refundable s \<longleftrightarrow> s = ADAPTOR_ESCROW_FUNDED \<or> s = ADAPTOR_PRESIGS_READY"

text \<open>One swap in the loop of \<open>checkTimeouts\<close>; \<open>written\<close> says of each file whether it can be replaced.\<close>

definition check_timeout :: "('q, 'k, 'm) SwapParams \<Rightarrow> u64 \<Rightarrow> (string \<Rightarrow> bool) \<Rightarrow> u32 \<Rightarrow> string \<Rightarrow> swap_db \<Rightarrow> swap_db" where
  "check_timeout mem now written currentHeight swapId db =
     (case loadSwap mem swapId db of None \<Rightarrow> db
      | Some sm \<Rightarrow>
        if isTerminal (sm_state sm) then db
        else
          let params = sm_params sm
          in if 0 < sp_xfgTimeoutHeight params \<and> sp_xfgTimeoutHeight params \<le> currentHeight \<and>
                refundable (sm_state sm) \<and> sp_role params = BOB
             then case transition now ADAPTOR_REFUNDED sm of
                    (True, sm) \<Rightarrow> snd (saveSwap (written swapId) sm db)
                  | (False, _) \<Rightarrow> db
             else db)"

definition checkTimeouts :: "('q, 'k, 'm) SwapParams \<Rightarrow> u64 \<Rightarrow> (string \<Rightarrow> bool) \<Rightarrow> u32 option \<Rightarrow> swap_db \<Rightarrow> bool \<times> swap_db" where
  "checkTimeouts mem now written height db =
     (case height of None \<Rightarrow> (False, db)
      | Some currentHeight \<Rightarrow> (True, fold (check_timeout mem now written currentHeight) (listSwaps db) db))"

definition refund :: "('q, 'k, 'm) SwapParams \<Rightarrow> u64 \<Rightarrow> bool \<Rightarrow> u32 option \<Rightarrow> string \<Rightarrow> swap_db \<Rightarrow> bool \<times> swap_db" where
  "refund mem now written height swapId db =
     (case loadSwap mem swapId db of None \<Rightarrow> (False, db)
      | Some sm \<Rightarrow>
        case height of None \<Rightarrow> (False, db)
        | Some currentHeight \<Rightarrow>
          if refundable (sm_state sm)
          then if currentHeight < sp_xfgTimeoutHeight (sm_params sm) then (False, db)
               else case transition now ADAPTOR_REFUNDED sm of
                      (False, _) \<Rightarrow> (False, db)
                    | (True, sm) \<Rightarrow> (True, snd (saveSwap written sm db))
          else (False, db))"

text \<open>The files the commands work on: a map whose objects hold a machine with the identifier of the file.\<close>

definition swap_file :: "('q, 'k, 'm) SwapStateMachine \<Rightarrow> string \<Rightarrow> swap_db \<Rightarrow> bool" where
  "swap_file sm swapId db \<longleftrightarrow>
     pods_ok (sm_params sm) \<and> codes_ok sm \<and> sp_swapId (sm_params sm) = swapId \<and> om_find db swapId = Some (swap_serialize sm)"

definition db_ok :: "('q, 'k, 'm) SwapParams itself \<Rightarrow> swap_db \<Rightarrow> bool" where
  "db_ok t db \<longleftrightarrow> om_inv db \<and>
     (\<forall>swapId root. om_find db swapId = Some root \<longrightarrow> (\<exists>sm :: ('q, 'k, 'm) SwapStateMachine. swap_file sm swapId db))"

text \<open>What may become of a stored swap under a command at a height: nothing; the exchange of keys of a new swap; or the
  refund of a funded one whose timeout has come. Amounts and timeout stay.\<close>

definition swap_fate :: "u32 option \<Rightarrow> ('q, 'k, 'm) SwapStateMachine \<Rightarrow> ('q, 'k, 'm) SwapStateMachine \<Rightarrow> bool" where
  "swap_fate height sm sm' \<longleftrightarrow>
     sp_xfgTimeoutHeight (sm_params sm') = sp_xfgTimeoutHeight (sm_params sm) \<and>
     sp_xfgAmount (sm_params sm') = sp_xfgAmount (sm_params sm) \<and>
     sp_ctrAmount (sm_params sm') = sp_ctrAmount (sm_params sm) \<and>
     (swap_serialize sm' = swap_serialize sm \<and> sm_state sm' = sm_state sm \<or>
      sm_state sm = INITIATED \<and> sm_state sm' = ADAPTOR_KEYS_EXCHANGED \<or>
      refundable (sm_state sm) \<and> sm_state sm' = ADAPTOR_REFUNDED \<and>
        (\<exists>h. height = Some h \<and> sp_xfgTimeoutHeight (sm_params sm) \<le> h))"

definition swaps_evolve :: "('q, 'k, 'm) SwapParams itself \<Rightarrow> u32 option \<Rightarrow> swap_db \<Rightarrow> swap_db \<Rightarrow> bool" where
  "swaps_evolve t height db db' \<longleftrightarrow> db_ok t db' \<and>
     (\<forall>(sm :: ('q, 'k, 'm) SwapStateMachine) swapId. swap_file sm swapId db \<longrightarrow>
        (\<exists>sm'. swap_file sm' swapId db' \<and> swap_fate height sm sm'))"

text \<open>A funded swap for the examples.\<close>

definition sample_params :: "(unit, unit, unit) SwapParams" where
  "sample_params = (let k = replicate 32 0 in
     \<lparr>sp_swapId = ''a'', sp_pair = ETH, sp_role = BOB, sp_xfgAmount = 80000000, sp_ctrAmount = 5, sp_aliceXfgPubKey = k,
      sp_bobXfgPubKey = k, sp_ourSwapSecKey = k, sp_ourSwapPubKey = k, sp_peerSwapPubKey = k, sp_escrowPubKey = k,
      sp_adaptorPoint = k, sp_adaptorSecret = k, sp_adaptorDleqProof = (), sp_keyAgg = (), sp_musig2 = (),
      sp_escrowTxHash = k, sp_escrowOutputIndex = 3, sp_hashLock = k, sp_preimage = k, sp_xfgTimeoutHeight = 1000,
      sp_ctrTimeoutBlock = 7, sp_htlcOutputIndex = 0, sp_ctrLockTxId = [], sp_ctrAddress = [], sp_peerEndpoint = []\<rparr>)"

definition sample_swap :: "(unit, unit, unit) SwapStateMachine" where
  "sample_swap = \<lparr>sm_params = sample_params, sm_state = ADAPTOR_ESCROW_FUNDED, sm_createdAt = 1, sm_updatedAt = 2\<rparr>"

section \<open>Runs\<close>

lemma step_rank: "isValidTransition s t \<Longrightarrow> t \<noteq> FAILED \<Longrightarrow> steps_left s = Suc (steps_left t) \<or> t = ADAPTOR_REFUNDED \<and> 0 < steps_left s"
  by (auto simp: isValidTransition_def split: SwapState.splits if_splits)

lemma run_bounded: "swap_run s ts \<Longrightarrow> FAILED \<notin> set ts \<Longrightarrow> length ts \<le> steps_left s"
proof (induction ts arbitrary: s)
  case (Cons t ts)
  have "isValidTransition s t" "t \<noteq> FAILED" using Cons.prems by auto
  moreover have "length ts \<le> steps_left t" using Cons by simp
  ultimately show ?case using step_rank [of s t] by auto
qed simp

lemma run_path:
  "swap_run s ts \<Longrightarrow> FAILED \<notin> set ts \<Longrightarrow> ADAPTOR_XFG_SPENT \<in> set ts \<Longrightarrow> s \<in> set (INITIATED # full_path) \<Longrightarrow>
     ts = drop (6 - steps_left s) full_path"
proof (induction ts arbitrary: s)
  case (Cons t ts)
  have v: "isValidTransition s t" "t \<noteq> FAILED" using Cons.prems by auto
  have end_of_run: "ts = []" if "steps_left t = 0" using run_bounded [of t ts] Cons.prems that by simp
  show ?case
  proof (cases "t = ADAPTOR_XFG_SPENT \<or> t = ADAPTOR_REFUNDED")
    case True
    then have "ts = []" using end_of_run by auto
    then show ?thesis using True v Cons.prems(3,4)
      by (auto simp: isValidTransition_def full_path_def split: SwapState.splits if_splits)
  next
    case False
    then have "t \<in> set (INITIATED # full_path)" using v by (auto simp: isValidTransition_def full_path_def split: SwapState.splits)
    then have "ts = drop (6 - steps_left t) full_path" using Cons.IH [of t] Cons.prems False by auto
    then show ?thesis using v False Cons.prems(4)
      by (auto simp: isValidTransition_def full_path_def split: SwapState.splits)
  qed
qed simp

text \<open>A state that has not ended can end without failing.\<close>

lemma can_end: "steps_left s \<noteq> 0 \<Longrightarrow> \<exists>ts. swap_run s ts \<and> FAILED \<notin> set ts \<and> ts \<noteq> [] \<and> isTerminal (last ts)"
proof -
  assume "steps_left s \<noteq> 0"
  then have "swap_run s (drop (6 - steps_left s) full_path) \<and> FAILED \<notin> set (drop (6 - steps_left s) full_path) \<and>
      drop (6 - steps_left s) full_path \<noteq> [] \<and> isTerminal (last (drop (6 - steps_left s) full_path))"
    by (cases s) (simp_all add: full_path_def isValidTransition_def isTerminal_def)
  then show ?thesis by blast
qed

section \<open>Reading back\<close>

lemma named_state_code: "(\<And>n. s \<noteq> Unnamed_State n) \<Longrightarrow> state_of_code (state_code s) = s"
  by (cases s) (simp_all add: state_of_code_def named_states_def)

lemma ucast_u8_u64 [simp]: "ucast (ucast (x :: u8) :: u64) = x"
  by (rule word_unat_eq_iff [THEN iffD2]) (simp add: unat_ucast_u64_u8)

lemma ucast_u32_u64 [simp]: "ucast (ucast (x :: u32) :: u64) = x"
  by (rule word_unat_eq_iff [THEN iffD2]) (simp add: unat_ucast_u64_u32)

lemma write_pairs_toHex: "length pod = length b \<Longrightarrow> write_pairs (toHex b) pod = b"
proof (induction b arbitrary: pod)
  case Nil
  then show ?case by (simp add: toHex_def)
next
  case (Cons x b)
  obtain p ps where pod: "pod = p # ps" using Cons.prems by (cases pod) auto
  have "toHex (x # b) = (hex_digits ! unat (drop_bit 4 x)) # (hex_digits ! unat (x AND 15)) # toHex b"
    by (simp add: toHex_def)
  then show ?case using Cons pod by (simp add: fromHex_char_digit nibble_bounds hex_byte)
qed

lemma pod_into_podToHex: "length pod = length b \<Longrightarrow> pod_into (podToHex b) pod = b"
  by (simp add: pod_into_def podToHex_def write_pairs_toHex)

lemma deserialize_serialize:
  assumes "pods_ok (sm_params sm)" "pods_ok mem" "codes_ok sm"
  shows "swap_deserialize mem (swap_serialize sm) = Some (sm\<lparr>sm_params := without_secrets mem (sm_params sm)\<rparr>)"
  using assms
  by (simp add: swap_deserialize_def swap_serialize_def Let_def get_string_def get_integer_def read_pod_def read_u32_def
      pods_ok_def codes_ok_def pod_into_podToHex without_secrets_def)

section \<open>The commands keep the files in order\<close>

lemma load_file:
  fixes mem :: "('q, 'k, 'm) SwapParams"
  assumes "db_ok TYPE(('q, 'k, 'm) SwapParams) db" "loadSwap mem swapId db = Some l" "pods_ok mem"
  obtains sm where "swap_file sm swapId db" "l = sm\<lparr>sm_params := without_secrets mem (sm_params sm)\<rparr>"
    "swap_file l swapId db"
proof -
  obtain root where r: "om_find db swapId = Some root" "swap_deserialize mem root = Some l"
    using assms(2) unfolding loadSwap_def by (cases "om_find db swapId") auto
  obtain sm :: "('q, 'k, 'm) SwapStateMachine" where f: "swap_file sm swapId db"
    using assms(1) r(1) unfolding db_ok_def by blast
  have l: "l = sm\<lparr>sm_params := without_secrets mem (sm_params sm)\<rparr>"
    using r f deserialize_serialize [of sm mem] assms(3) unfolding swap_file_def by simp
  have "swap_file l swapId db" using f unfolding l swap_file_def
    by (simp add: without_secrets_def pods_ok_def codes_ok_def swap_serialize_def Let_def)
  then show ?thesis using that f l by blast
qed

lemma fate_refl: "swap_fate h sm sm"
  by (simp add: swap_fate_def)

lemma fate_trans: "swap_fate h a b \<Longrightarrow> swap_fate h b c \<Longrightarrow> swap_fate h a c"
  unfolding swap_fate_def refundable_def by (elim conjE disjE) simp_all

lemma evolve_refl: "db_ok t db \<Longrightarrow> swaps_evolve t h db db"
  unfolding swaps_evolve_def using fate_refl by blast

lemma evolve_trans: "swaps_evolve t h a b \<Longrightarrow> swaps_evolve t h b c \<Longrightarrow> swaps_evolve t h a c"
  unfolding swaps_evolve_def by (meson fate_trans)

lemma same_file: "swap_file a swapId db \<Longrightarrow> swap_file b swapId db \<Longrightarrow>
    swap_serialize a = swap_serialize b"
  by (simp add: swap_file_def)

lemma serialize_fields:
  assumes "swap_serialize a = swap_serialize b" "codes_ok a" "codes_ok b"
  shows "sm_state a = sm_state b" "sp_xfgTimeoutHeight (sm_params a) = sp_xfgTimeoutHeight (sm_params b)"
    "sp_xfgAmount (sm_params a) = sp_xfgAmount (sm_params b)" "sp_ctrAmount (sm_params a) = sp_ctrAmount (sm_params b)"
proof -
  have c: "ucast (ucast (state_code (sm_state a)) :: u64) = (ucast (ucast (state_code (sm_state b)) :: u64) :: u8)"
    and t: "ucast (ucast (sp_xfgTimeoutHeight (sm_params a)) :: u64) = (ucast (ucast (sp_xfgTimeoutHeight (sm_params b)) :: u64) :: u32)"
    and "sp_xfgAmount (sm_params a) = sp_xfgAmount (sm_params b)" "sp_ctrAmount (sm_params a) = sp_ctrAmount (sm_params b)"
    using assms(1) by (simp_all add: swap_serialize_def Let_def)
  then show "sp_xfgAmount (sm_params a) = sp_xfgAmount (sm_params b)" "sp_ctrAmount (sm_params a) = sp_ctrAmount (sm_params b)"
    by simp_all
  show "sp_xfgTimeoutHeight (sm_params a) = sp_xfgTimeoutHeight (sm_params b)" using t by (simp only: ucast_u32_u64)
  have "state_code (sm_state a) = state_code (sm_state b)" using c by (simp only: ucast_u8_u64)
  then show "sm_state a = sm_state b" using assms(2,3) unfolding codes_ok_def by metis
qed

lemma fate_same_file:
  assumes "swap_file a swapId db" "swap_file b swapId db" "swap_fate h b c"
  shows "swap_fate h a c"
  using assms serialize_fields [OF same_file [OF assms(1,2)]] same_file [OF assms(1,2)]
  unfolding swap_fate_def swap_file_def by auto

text \<open>Saving a machine that was loaded and then changed within its fate.\<close>

lemma save_evolves:
  fixes l l' :: "('q, 'k, 'm) SwapStateMachine"
  assumes "db_ok TYPE(('q, 'k, 'm) SwapParams) db" "swap_file l swapId db" "swap_fate h l l'"
    and "pods_ok (sm_params l')" "codes_ok l'" "sp_swapId (sm_params l') = swapId"
  shows "swaps_evolve TYPE(('q, 'k, 'm) SwapParams) h db (snd (saveSwap written l' db))"
proof (cases written)
  case False
  then show ?thesis using assms(1) by (simp add: saveSwap_def evolve_refl)
next
  case True
  define db' where "db' = om_put swapId (swap_serialize l') db"
  have i: "om_inv db" using assms(1) by (simp add: db_ok_def)
  have new: "swap_file l' swapId db'" using assms(4-6) i unfolding swap_file_def db'_def by simp
  have old: "swap_file sm j db'" if "swap_file sm j db" "j \<noteq> swapId" for j and sm :: "('q, 'k, 'm) SwapStateMachine"
    using that i unfolding swap_file_def db'_def by simp
  have "db_ok TYPE(('q, 'k, 'm) SwapParams) db'" unfolding db_ok_def
  proof (intro conjI allI impI)
    show "om_inv db'" unfolding db'_def using i by simp
    fix j root assume r: "om_find db' j = Some root"
    show "\<exists>sm :: ('q, 'k, 'm) SwapStateMachine. swap_file sm j db'"
    proof (cases "j = swapId")
      case False
      then have "om_find db j = Some root" using r i unfolding db'_def by simp
      then show ?thesis using assms(1) old False unfolding db_ok_def by blast
    qed (use new in blast)
  qed
  moreover have "\<exists>sm'. swap_file sm' j db' \<and> swap_fate h sm sm'" if "swap_file sm j db" for j and sm :: "('q, 'k, 'm) SwapStateMachine"
  proof (cases "j = swapId")
    case True
    then show ?thesis using new fate_same_file [OF _ assms(2,3), of sm] that by blast
  next
    case False
    then show ?thesis using old [OF that] fate_refl by blast
  qed
  ultimately show ?thesis using True assms(6) by (simp add: saveSwap_def swaps_evolve_def db'_def)
qed

lemma refund_evolves:
  fixes mem :: "('q, 'k, 'm) SwapParams"
  assumes "db_ok TYPE(('q, 'k, 'm) SwapParams) db" "swap_file l swapId db" "refundable (sm_state l)"
    "sp_xfgTimeoutHeight (sm_params l) \<le> h"
  shows "swaps_evolve TYPE(('q, 'k, 'm) SwapParams) (Some h) db
    (snd (saveSwap written ((l :: ('q, 'k, 'm) SwapStateMachine)\<lparr>sm_state := ADAPTOR_REFUNDED, sm_updatedAt := now\<rparr>) db))"
  by (rule save_evolves [OF assms(1,2)])
    (use assms(2-4) named_state_code [of ADAPTOR_REFUNDED] in \<open>auto simp: swap_fate_def swap_file_def codes_ok_def\<close>)

lemma transition_refund:
  "refundable (sm_state sm) \<Longrightarrow> transition now ADAPTOR_REFUNDED sm = (True, sm\<lparr>sm_state := ADAPTOR_REFUNDED, sm_updatedAt := now\<rparr>)"
  by (auto simp: transition_def refundable_def isValidTransition_def)

lemma refund_safe:
  fixes mem :: "('q, 'k, 'm) SwapParams"
  assumes "db_ok TYPE(('q, 'k, 'm) SwapParams) db" "pods_ok mem"
  shows "swaps_evolve TYPE(('q, 'k, 'm) SwapParams) height db (snd (refund mem now written height swapId db))"
proof (cases "loadSwap mem swapId db")
  case None
  then show ?thesis using assms(1) by (simp add: refund_def evolve_refl)
next
  case (Some l)
  obtain sm where "swap_file l swapId db" using load_file [OF assms(1) Some assms(2)] by blast
  then show ?thesis using refund_evolves [OF assms(1), of l swapId] Some assms(1)
    by (auto simp: refund_def transition_refund evolve_refl split: option.splits)
qed

lemma check_timeout_safe:
  fixes mem :: "('q, 'k, 'm) SwapParams"
  assumes "db_ok TYPE(('q, 'k, 'm) SwapParams) db" "pods_ok mem"
  shows "swaps_evolve TYPE(('q, 'k, 'm) SwapParams) (Some h) db (check_timeout mem now written h swapId db)"
proof (cases "loadSwap mem swapId db")
  case None
  then show ?thesis using assms(1) by (simp add: check_timeout_def evolve_refl)
next
  case (Some l)
  obtain sm where "swap_file l swapId db" using load_file [OF assms(1) Some assms(2)] by blast
  then show ?thesis using refund_evolves [OF assms(1), of l swapId] Some assms(1)
    by (auto simp: check_timeout_def Let_def transition_refund evolve_refl)
qed

lemma checkTimeouts_safe:
  fixes mem :: "('q, 'k, 'm) SwapParams"
  assumes "db_ok TYPE(('q, 'k, 'm) SwapParams) db" "pods_ok mem"
  shows "swaps_evolve TYPE(('q, 'k, 'm) SwapParams) height db (snd (checkTimeouts mem now written height db))"
proof -
  have "swaps_evolve TYPE(('q, 'k, 'm) SwapParams) (Some h) db (fold (check_timeout mem now written h) ids db)" for h ids
    using assms(1)
  proof (induction ids arbitrary: db)
    case (Cons i ids)
    note s = check_timeout_safe [OF Cons.prems assms(2), of h now written i]
    then have "db_ok TYPE(('q, 'k, 'm) SwapParams) (check_timeout mem now written h i db)" by (simp add: swaps_evolve_def)
    from Cons.IH [OF this] s show ?case by (simp add: evolve_trans)
  qed (simp add: evolve_refl)
  then show ?thesis using assms(1) by (simp add: checkTimeouts_def evolve_refl split: option.splits)
qed

lemma accept_safe:
  fixes mem :: "('q, 'k, 'm) SwapParams"
  assumes "db_ok TYPE(('q, 'k, 'm) SwapParams) db" "pods_ok mem" "\<And>agg. length (agg_pubkey agg) = 32" "length (fst keys) = 32"
  shows "swaps_evolve TYPE(('q, 'k, 'm) SwapParams) height db
    (snd (accept musig2_key_agg agg_pubkey keys prove mem now written swapId db))"
proof (cases "\<exists>l. loadSwap mem swapId db = Some l \<and> sm_state l = INITIATED")
  case False
  then show ?thesis using assms(1) by (auto simp: accept_def evolve_refl split: option.splits)
next
  case True
  then obtain l where l: "loadSwap mem swapId db = Some l" "sm_state l = INITIATED" by blast
  have f: "swap_file l swapId db" using load_file [OF assms(1) l(1) assms(2)] by blast
  define out where "out p = l\<lparr>sm_params := p, sm_state := ADAPTOR_KEYS_EXCHANGED, sm_updatedAt := now\<rparr>" for p
  have ev: "swaps_evolve TYPE(('q, 'k, 'm) SwapParams) height db (snd (saveSwap written (out p) db))"
    if "sp_xfgTimeoutHeight p = sp_xfgTimeoutHeight (sm_params l)" "sp_xfgAmount p = sp_xfgAmount (sm_params l)"
      "sp_ctrAmount p = sp_ctrAmount (sm_params l)" "sp_swapId p = sp_swapId (sm_params l)" "pods_ok p"
      "sp_role p = sp_role (sm_params l)" "sp_pair p = sp_pair (sm_params l)" for p
    by (rule save_evolves [OF assms(1) f])
      (use that f l(2) named_state_code [of ADAPTOR_KEYS_EXCHANGED] in \<open>auto simp: swap_fate_def swap_file_def codes_ok_def out_def\<close>)
  have t: "transition now ADAPTOR_KEYS_EXCHANGED (l\<lparr>sm_params := p\<rparr>) = (True, out p)" for p
    by (simp add: transition_def isValidTransition_def l(2) out_def)
  have ok: "pods_ok (sm_params l)" using f by (simp add: swap_file_def)
  show ?thesis unfolding accept_def l(1) using l(2) t assms
    by (auto simp: adaptor_key_aggregate_def adaptor_generate_adaptor_def evolve_refl split: option.splits
        intro!: ev) (use ok assms(3,4) in \<open>simp_all add: pods_ok_def\<close>)
qed

section \<open>Properties\<close>

text \<open>
  C39: The flow of a swap ends. A run of successful transitions of a new swap that does not fail has at most six steps,
  reaches the payout only along the full path of keys, escrow, signatures, lock and secret, and every state it passes
  is terminal or can still be brought to an end without failing.
\<close>

theorem swap_flow_ends:
  assumes "swap_run INITIATED ts" "FAILED \<notin> set ts"
  shows "length ts \<le> 6 \<and> (if ADAPTOR_XFG_SPENT \<in> set ts then ts = full_path else True) \<and>
    (\<exists>us. swap_run INITIATED (ts @ us) \<and> FAILED \<notin> set us \<and> isTerminal (last (INITIATED # ts @ us)))"
proof -
  have app: "swap_run s (ts @ us) \<longleftrightarrow> swap_run s ts \<and> swap_run (last (s # ts)) us" for s ts us
    by (induction ts arbitrary: s) auto
  have reach: "steps_left (last (s # ts)) \<noteq> 0 \<or> isTerminal (last (s # ts))"
    if "swap_run s ts" "FAILED \<notin> set ts" "steps_left s \<noteq> 0 \<or> isTerminal s" for s ts
    using that
  proof (induction ts arbitrary: s)
    case (Cons t ts)
    have "steps_left t \<noteq> 0 \<or> isTerminal t"
      using Cons.prems by (auto simp: isValidTransition_def isTerminal_def split: SwapState.splits)
    then show ?case using Cons by simp
  qed simp
  have "\<exists>us. swap_run (last (INITIATED # ts)) us \<and> FAILED \<notin> set us \<and> isTerminal (last (last (INITIATED # ts) # us))"
  proof (cases "isTerminal (last (INITIATED # ts))")
    case False
    then show ?thesis using can_end [of "last (INITIATED # ts)"] reach [OF assms] by fastforce
  qed (intro exI [of _ "[]"], simp)
  then have "\<exists>us. swap_run INITIATED (ts @ us) \<and> FAILED \<notin> set us \<and> isTerminal (last (INITIATED # ts @ us))"
    using assms(1) by (auto simp: app last_append split: if_splits)
  then show ?thesis using run_bounded [OF assms] run_path [OF assms] by (simp add: full_path_def)
qed

theorem swap_flow_ends_witness:
  "swap_run INITIATED full_path \<and> (\<exists>us. swap_run INITIATED (full_path @ us) \<and> isTerminal (last (INITIATED # full_path @ us)))"
proof -
  have r: "swap_run INITIATED full_path" "FAILED \<notin> set full_path" by (simp_all add: full_path_def isValidTransition_def)
  show ?thesis using swap_flow_ends [OF r] r(1) by blast
qed

text \<open>
  The commands of the daemon are safe for every stored swap. On files that hold machines under their own
  identifiers, refunding, checking the timeouts and accepting keep that shape, whichever writes fail; and each stored swap
  keeps its amounts and timeout and either stays as it is, or goes from new to keys exchanged, or is refunded from a
  funded state at a height that has reached its timeout. A finished swap is never changed.
\<close>

theorem swap_commands_safe:
  fixes mem :: "('q, 'k, 'm) SwapParams"
  assumes "db_ok TYPE(('q, 'k, 'm) SwapParams) db" "pods_ok mem" "\<forall>agg. length (agg_pubkey agg) = 32" "length (fst keys) = 32"
  shows "swaps_evolve TYPE(('q, 'k, 'm) SwapParams) height db (snd (refund mem now written height swapId db)) \<and>
    swaps_evolve TYPE(('q, 'k, 'm) SwapParams) height db (snd (checkTimeouts mem now writes height db)) \<and>
    swaps_evolve TYPE(('q, 'k, 'm) SwapParams) height db
      (snd (accept musig2_key_agg agg_pubkey keys prove mem now written swapId db))"
  using refund_safe [OF assms(1,2)] checkTimeouts_safe [OF assms(1,2)] accept_safe [OF assms(1,2)] assms(3,4) by blast

theorem swap_commands_safe_witness:
  "swaps_evolve TYPE((unit, unit, unit) SwapParams) (Some 1000) [(''a'', swap_serialize sample_swap)]
     (snd (refund sample_params 9 True (Some 1000) ''a'' [(''a'', swap_serialize sample_swap)]))"
proof -
  have f: "swap_file sample_swap ''a'' [(''a'', swap_serialize sample_swap)]"
    using named_state_code [of ADAPTOR_ESCROW_FUNDED]
    by (simp add: swap_file_def sample_swap_def sample_params_def pods_ok_def codes_ok_def om_find_def role_of_code_def
        pair_of_code_def Let_def)
  have d: "db_ok TYPE((unit, unit, unit) SwapParams) [(''a'', swap_serialize sample_swap)]"
    unfolding db_ok_def using f by (auto simp: om_inv_def om_find_def split: if_splits)
  have p: "pods_ok sample_params" by (simp add: pods_ok_def sample_params_def Let_def)
  show ?thesis
    using swap_commands_safe [OF d p, of "\<lambda>_. replicate 32 0" "(replicate 32 0, [])" "Some 1000" 9 True "''a''"] by simp
qed

end
