(* ===== verification/Block_Index.thy ===== *)
theory Block_Index
  imports Fuego_Prelude
begin

text \<open>
  The index of block hashes by height, \<open>src/src/CryptoNoteCore/BlockIndex.h\<close> and \<open>BlockIndex.cpp\<close>. The
  \<open>multi_index_container\<close> with a random-access and a unique hashed index is a list without repetitions.

  Shown here: the chain summary a node sends (a sparse list of its blocks) always leads the peer to a common block, no
  further back than twice the distance to the fork, with at most 34 hashes.
\<close>

section \<open>Operations\<close>

type_synonym BlockIndex = "hash list"

definition BlockIndex_inv :: "BlockIndex \<Rightarrow> bool" where
  "BlockIndex_inv m \<longleftrightarrow> distinct m \<and> length m < 2 ^ 32"

definition bi_pop :: "BlockIndex \<Rightarrow> BlockIndex" where
  "bi_pop m = butlast m"

definition bi_push :: "hash \<Rightarrow> BlockIndex \<Rightarrow> bool \<times> BlockIndex" where
  "bi_push h m = (if h \<in> set m then (False, m) else (True, m @ [h]))"

definition hasBlock :: "hash \<Rightarrow> BlockIndex \<Rightarrow> bool" where
  "hasBlock h m \<longleftrightarrow> h \<in> set m"

text \<open>The distance from the beginning to the element.\<close>

definition getBlockHeight :: "hash \<Rightarrow> BlockIndex \<Rightarrow> u32 option" where
  "getBlockHeight h m = (if h \<in> set m then Some (of_nat (length (takeWhile (\<lambda>x. x \<noteq> h) m))) else None)"

definition bi_size :: "BlockIndex \<Rightarrow> u32" where
  "bi_size m = of_nat (length m)"

definition bi_clear :: "BlockIndex \<Rightarrow> BlockIndex" where
  "bi_clear m = []"

definition getBlockId :: "u32 \<Rightarrow> BlockIndex \<Rightarrow> hash" where
  "getBlockId height m = m ! unat height"

definition getBlockIds :: "u32 \<Rightarrow> u32 \<Rightarrow> BlockIndex \<Rightarrow> hash list" where
  "getBlockIds startBlockIndex maxCount m =
     (if length m \<le> unat startBlockIndex then []
      else
        let count = min (unat maxCount) (length m - unat startBlockIndex)
        in map (\<lambda>i. m ! (unat startBlockIndex + i)) [0..<count])"

fun findSupplement :: "hash list \<Rightarrow> BlockIndex \<Rightarrow> u32 option" where
  "findSupplement [] m = None"
| "findSupplement (h # ids) m = (case getBlockHeight h m of Some offset \<Rightarrow> Some offset | None \<Rightarrow> findSupplement ids m)"

text \<open>The loop of \<open>buildSparseChain\<close>: distances 1, 2, 4 and so on from the end.\<close>

function sparse_loop :: "nat \<Rightarrow> nat \<Rightarrow> BlockIndex \<Rightarrow> hash list" where
  "sparse_loop i sparseChainEnd m =
     (if 0 < i \<and> i \<le> sparseChainEnd then m ! (sparseChainEnd - i) # sparse_loop (i * 2) sparseChainEnd m else [])"
  by pat_completeness auto
termination
  by (relation "measure (\<lambda>(i, e, _). Suc e - i)") auto

declare sparse_loop.simps [simp del]

definition buildSparseChain :: "hash \<Rightarrow> BlockIndex \<Rightarrow> hash list option" where
  "buildSparseChain startBlockId m =
     (case getBlockHeight startBlockId m of None \<Rightarrow> None
      | Some startBlockHeight \<Rightarrow>
        let sparseChainEnd = unat (startBlockHeight + 1);
            result = sparse_loop 1 sparseChainEnd m
        in Some (if last result \<noteq> m ! 0 then result @ [m ! 0] else result))"

definition getTailId :: "BlockIndex \<Rightarrow> hash" where
  "getTailId m = last m"

text \<open>Reading a stored index appends the hashes; the unique index refuses repetitions.\<close>

definition bi_load :: "hash list \<Rightarrow> BlockIndex \<Rightarrow> BlockIndex" where
  "bi_load ids m = fold (\<lambda>h m. snd (bi_push h m)) ids m"

text \<open>Two chains place every common block at the same height.\<close>

definition heights_agree :: "BlockIndex \<Rightarrow> BlockIndex \<Rightarrow> bool" where
  "heights_agree m p \<longleftrightarrow> (\<forall>i < length m. \<forall>j < length p. m ! i = p ! j \<longrightarrow> i = j)"

section \<open>Lookups\<close>

lemma unat_Suc_u32:
  assumes "Suc s < 2 ^ 32"
  shows "unat (of_nat s + 1 :: u32) = Suc s"
proof -
  have a: "(of_nat s + 1 :: u32) = of_nat (Suc s)" by (simp only: of_nat_Suc add.commute)
  have "unat (of_nat (Suc s) :: u32) = Suc s mod 2 ^ LENGTH(32)" by (rule unat_of_nat)
  also have "\<dots> = Suc s" by (rule mod_less) (use assms in \<open>simp only: len_num0 len_bit0 len_num1, simp\<close>)
  finally show ?thesis unfolding a .
qed

lemma takeWhile_distinct_nth:
  "distinct m \<Longrightarrow> i < length m \<Longrightarrow> length (takeWhile (\<lambda>x. x \<noteq> m ! i) m) = i"
proof (induction m arbitrary: i)
  case (Cons x m)
  then show ?case by (cases i) (auto simp: nth_Cons' dest: nth_mem)
qed simp

lemma height_of_nth:
  assumes "BlockIndex_inv m" "i < length m"
  shows "getBlockHeight (m ! i) m = Some (of_nat i)"
  using assms by (simp add: getBlockHeight_def BlockIndex_inv_def takeWhile_distinct_nth)

lemma getBlockHeight_Some:
  assumes "BlockIndex_inv m" "getBlockHeight h m = Some k"
  shows "unat k < length m \<and> m ! unat k = h"
proof -
  obtain i where i: "i < length m" "m ! i = h" using assms(2) by (auto simp: getBlockHeight_def in_set_conv_nth split: if_splits)
  then have "k = of_nat i" using height_of_nth [OF assms(1) i(1)] assms(2) by simp
  moreover have "i < 2 ^ 32" using i(1) assms(1) by (simp add: BlockIndex_inv_def)
  ultimately show ?thesis using i by (simp add: unat_of_nat)
qed

lemma findSupplement_append:
  "findSupplement (xs @ ys) m = (case findSupplement xs m of Some k \<Rightarrow> Some k | None \<Rightarrow> findSupplement ys m)"
  by (induction xs) (auto split: option.splits)

lemma findSupplement_None: "findSupplement xs m = None \<longleftrightarrow> (\<forall>x\<in>set xs. x \<notin> set m)"
  by (induction xs) (auto simp: getBlockHeight_def)

lemma push_inv: "BlockIndex_inv m \<Longrightarrow> Suc (length m) < 2 ^ 32 \<Longrightarrow> BlockIndex_inv (snd (bi_push h m))"
  by (auto simp: BlockIndex_inv_def bi_push_def)

lemma pop_push: "h \<notin> set m \<Longrightarrow> bi_pop (snd (bi_push h m)) = m"
  by (simp add: bi_push_def bi_pop_def)

lemma load_saved: "distinct (m @ ids) \<Longrightarrow> bi_load ids m = m @ ids"
  unfolding bi_load_def by (induction ids arbitrary: m) (auto simp: bi_push_def)

lemma getBlockIds_slice: "getBlockIds s n m = take (unat n) (drop (unat s) m)"
  by (rule nth_equalityI) (auto simp: getBlockIds_def Let_def)

section \<open>The sparse chain\<close>

lemma sparse_loop_length: "0 < i \<Longrightarrow> e < i * 2 ^ n \<Longrightarrow> length (sparse_loop i e m) \<le> n"
proof (induction n arbitrary: i)
  case 0
  then show ?case by (subst sparse_loop.simps) simp
next
  case (Suc n)
  then show ?case using Suc.IH [of "i * 2"] by (subst sparse_loop.simps) (auto simp: mult.assoc)
qed

lemma sparse_loop_find:
  assumes "BlockIndex_inv m" "heights_agree m p" "p ! 0 = m ! 0" "0 < length m" "e \<le> length p"
    and "k < length m" "take (Suc k) m = take (Suc k) p" "k < e" "0 < i" "i < 2 * (e - k)"
  shows "\<exists>off. findSupplement (sparse_loop i e p @ [p ! 0]) m = Some off \<and> unat off < length m \<and> unat off < e \<and>
    m ! unat off = p ! unat off \<and> e < unat off + 2 * (e - k)"
  using assms(9,10)
proof (induction "Suc e - i" arbitrary: i rule: less_induct)
  case less
  show ?case
  proof (cases "i \<le> e")
    case False
    have "findSupplement (sparse_loop i e p @ [p ! 0]) m = Some 0"
      using False height_of_nth [OF assms(1,4)] assms(3) by (subst sparse_loop.simps) simp
    then show ?thesis using assms(3,4,8) less.prems False by simp
  next
    case True
    then have s: "sparse_loop i e p = p ! (e - i) # sparse_loop (i * 2) e p"
      using less.prems by (subst sparse_loop.simps) simp
    show ?thesis
    proof (cases "getBlockHeight (p ! (e - i)) m")
      case (Some off)
      have o: "unat off < length m" "m ! unat off = p ! (e - i)" using getBlockHeight_Some [OF assms(1) Some] by auto
      then have "unat off = e - i" using assms(2,5) True less.prems(1) unfolding heights_agree_def by auto
      then show ?thesis using s Some o less.prems True by auto
    next
      case None
      have "\<not> e - i \<le> k"
      proof
        assume "e - i \<le> k"
        then have "p ! (e - i) = m ! (e - i)" using assms(7) by (metis le_imp_less_Suc nth_take)
        then show False using None height_of_nth [OF assms(1), of "e - i"] \<open>e - i \<le> k\<close> assms(6) by simp
      qed
      then have "i * 2 < 2 * (e - k)" using True by simp
      moreover have "Suc e - i * 2 < Suc e - i" using True less.prems(1) by simp
      ultimately show ?thesis using less.hyps [of "i * 2"] less.prems(1) s None by simp
    qed
  qed
qed

section \<open>Properties\<close>

text \<open>
  C16: Synchronisation finds a common block. When two chains agree up to a height \<open>k\<close> and place common blocks at the same
  height, the sparse chain one of them builds from any of its blocks at or above \<open>k\<close> has at most 34 hashes, and the other
  finds in it a block they share, no further back from the start than twice the distance to the fork.
\<close>

theorem sync_finds_common_block:
  assumes "BlockIndex_inv m" "BlockIndex_inv p" "heights_agree m p"
    and "k < length m" "take (Suc k) m = take (Suc k) p" "k \<le> s" "s < length p"
  shows "\<exists>ids off. buildSparseChain (p ! s) p = Some ids \<and> length ids \<le> 34 \<and> findSupplement ids m = Some off \<and>
    unat off \<le> s \<and> m ! unat off = p ! unat off \<and> s < unat off + 2 * (Suc s - k)"
proof -
  define R where "R = sparse_loop 1 (Suc s) p"
  define ids where "ids = (if last R \<noteq> p ! 0 then R @ [p ! 0] else R)"
  have small: "Suc s < 2 ^ 32" using assms(2,7) by (simp add: BlockIndex_inv_def)
  have e: "unat (of_nat s + 1 :: u32) = Suc s" by (rule unat_Suc_u32 [OF small])
  have b: "buildSparseChain (p ! s) p = Some ids"
    unfolding buildSparseChain_def height_of_nth [OF assms(2,7)] ids_def R_def Let_def option.case e ..
  have len: "length R \<le> 33" unfolding R_def by (rule sparse_loop_length) (use small in simp_all)
  have g: "p ! 0 = m ! 0" using assms(5) by (metis nth_take zero_less_Suc)
  have ne: "R \<noteq> []" unfolding R_def by (subst sparse_loop.simps) simp
  have same: "findSupplement ids m = findSupplement (R @ [p ! 0]) m"
  proof (cases "last R = p ! 0")
    case True
    then have "p ! 0 \<in> set R" using ne last_in_set by metis
    moreover have "p ! 0 \<in> set m" using g assms(4) by (cases m) auto
    ultimately obtain z where "findSupplement R m = Some z" using findSupplement_None [of R m] by (cases "findSupplement R m") auto
    then show ?thesis using True by (simp add: ids_def findSupplement_append)
  qed (simp add: ids_def)
  obtain off where "findSupplement (R @ [p ! 0]) m = Some off" "unat off < Suc s" "m ! unat off = p ! unat off"
    "Suc s < unat off + 2 * (Suc s - k)"
    using sparse_loop_find [OF assms(1,3) g, of "Suc s" k 1] assms(4-7) unfolding R_def by fastforce
  then show ?thesis using b len same by (intro exI [of _ ids] exI [of _ off]) (auto simp: ids_def)
qed

theorem sync_finds_common_block_witness:
  "\<exists>ids off. buildSparseChain [4] [[0], [1], [2], [3], [4]] = Some ids \<and> findSupplement ids [[0], [1], [2], [7]] = Some off \<and>
     unat off \<le> 4"
proof -
  have h: "BlockIndex_inv [[0], [1], [2], [7]]" "BlockIndex_inv [[0], [1], [2], [3], [4]]"
    by (simp_all add: BlockIndex_inv_def)
  have a: "heights_agree [[0], [1], [2], [7]] [[0], [1], [2], [3], [4]]"
    by code_simp
  show ?thesis using sync_finds_common_block [OF h a, of 2 4] by auto
qed

end
