(* ===== verification/Tree_Hash.thy ===== *)
theory Tree_Hash
  imports Merkle_Tree Int_Util Transactions Currency_Builder
begin

text \<open>
  The tree of transaction hashes, \<open>src/src/crypto/tree-hash.c\<close>, and the proof-of-work checks of
  \<open>src/src/CryptoNoteCore/Currency.cpp\<close> that use it. The arrays are lists, \<open>hash_pair\<close> is the Keccak hash of two
  neighbours; \<open>size_t\<close> counts are \<open>u64\<close> where the code works on their bits. The loops that hash a level into the
  front of its own array read both inputs before they write behind them, so a level is a new list.

  Shown here: the bit tricks find the largest power of two, and the branch of the first leaf leads to the tree's root,
  for every number of leaves.
\<close>

section \<open>Definitions\<close>

text \<open>One level up: neighbours hashed in pairs.\<close>

fun hash_pairs :: "hash list \<Rightarrow> hash list" where
  "hash_pairs (a # b # hs) = hash_pair a b # hash_pairs hs"
| "hash_pairs hs = []"

text \<open>\<open>cnt |= cnt >> i\<close> for \<open>i\<close> = 1, 2, 4, ..., then \<open>cnt &= ~(cnt >> 1)\<close>.\<close>

definition smear :: "u64 \<Rightarrow> u64" where
  "smear cnt = fold (\<lambda>i c. c OR drop_bit i c) [1, 2, 4, 8, 16, 32] cnt"

definition top_bit :: "u64 \<Rightarrow> u64" where
  "top_bit cnt = (let cnt = smear cnt in cnt AND NOT (drop_bit 1 cnt))"

function tree_loop :: "nat \<Rightarrow> hash list \<Rightarrow> hash list" where
  "tree_loop cnt ints = (if 2 < cnt then tree_loop (cnt div 2) (hash_pairs ints) else ints)"
  by pat_completeness auto
termination
  by (relation "measure fst") auto

declare tree_loop.simps [simp del]

definition tree_hash :: "hash list \<Rightarrow> hash" where
  "tree_hash hashes =
     (let n = length hashes
      in if n = 1 then hashes ! 0
         else if n = 2 then hash_pair (hashes ! 0) (hashes ! 1)
         else
           let cnt = unat (top_bit (of_nat n - 1));
               ints = take (2 * cnt - n) hashes @ hash_pairs (drop (2 * cnt - n) hashes);
               ints = tree_loop cnt ints
           in hash_pair (ints ! 0) (ints ! 1))"

text \<open>\<open>tree_depth\<close> counts down from half the word size.\<close>

definition depth_step :: "nat \<Rightarrow> u64 \<times> nat \<Rightarrow> u64 \<times> nat" where
  "depth_step i s = (case s of (n, depth) \<Rightarrow>
     if 0 < drop_bit i n then (drop_bit i n, depth + i) else (n, depth))"

definition tree_depth :: "u64 \<Rightarrow> nat" where
  "tree_depth n = snd (fold depth_step [32, 16, 8, 4, 2, 1] (n, 0))"

definition branch_step :: "u64 \<Rightarrow> nat \<Rightarrow> u64 \<times> nat \<Rightarrow> u64 \<times> nat" where
  "branch_step n i s = (case s of (cnt, depth) \<Rightarrow>
     if push_bit i cnt \<le> n then (push_bit i cnt, depth + i) else (cnt, depth))"

text \<open>The loop of \<open>tree_branch\<close>, which fills the branch from its end.\<close>

fun branch_loop :: "nat \<Rightarrow> hash list \<Rightarrow> hash list" where
  "branch_loop 0 ints = []"
| "branch_loop (Suc depth) ints = branch_loop depth (hash_pairs (tl ints)) @ [hd ints]"

definition tree_branch :: "hash list \<Rightarrow> hash list" where
  "tree_branch hashes =
     (let n = length hashes;
          (c, depth) = fold (branch_step (of_nat n)) [32, 16, 8, 4, 2, 1] (1, 0);
          cnt = unat c;
          ints = take (2 * cnt - n - 1) (tl hashes) @ hash_pairs (drop (2 * cnt - n) hashes)
      in branch_loop depth ints)"

text \<open>\<open>path\<close> is the null pointer or bytes whose bits say on which side the leaf is.\<close>

definition path_bit :: "bytes option \<Rightarrow> nat \<Rightarrow> bool" where
  "path_bit path depth = (case path of None \<Rightarrow> False | Some bs \<Rightarrow> bit (bs ! (depth div 8)) (depth mod 8))"

fun tree_hash_from_branch :: "hash list \<Rightarrow> nat \<Rightarrow> hash \<Rightarrow> bytes option \<Rightarrow> hash" where
  "tree_hash_from_branch branch 0 leaf path = leaf"
| "tree_hash_from_branch branch (Suc depth) leaf path =
     tree_hash_from_branch branch depth
       (if path_bit path depth then hash_pair (branch ! depth) leaf else hash_pair leaf (branch ! depth)) path"

text \<open>\<open>get_tx_tree_hash\<close> of a block; \<open>tx_hash\<close> is the hash of the base transaction.\<close>

definition get_tx_tree_hash :: "(Transaction \<Rightarrow> hash) \<Rightarrow> Block \<Rightarrow> hash" where
  "get_tx_tree_hash tx_hash b = tree_hash (tx_hash (bl_baseTransaction b) # bl_transactionHashes b)"

text \<open>The four little-endian words of a hash that \<open>check_hash\<close> reads.\<close>

definition hash_words :: "hash \<Rightarrow> u64 \<times> u64 \<times> u64 \<times> u64" where
  "hash_words h = (le_word (take 8 h), le_word (take 8 (drop 8 h)), le_word (take 8 (drop 16 h)), le_word (take 8 (drop 24 h)))"

text \<open>The proof of work of a block. The slow hash, the root in the merge mining tag of an extra field and the hash of the
  auxiliary header are arguments; \<open>None\<close> is their failure.\<close>

definition checkProofOfWorkV1 :: "(Block \<Rightarrow> hash option) \<Rightarrow> Block \<Rightarrow> u64 \<Rightarrow> bool" where
  "checkProofOfWorkV1 longhash block currentDiffic =
     (if bl_majorVersion block \<noteq> 1 then False
      else case longhash block of None \<Rightarrow> False
           | Some proofOfWork \<Rightarrow> check_hash (hash_words proofOfWork) currentDiffic)"

definition checkProofOfWorkV2 :: "(Block \<Rightarrow> hash option) \<Rightarrow> (bytes \<Rightarrow> hash option) \<Rightarrow> (Block \<Rightarrow> hash option) \<Rightarrow> Block \<Rightarrow> u64 \<Rightarrow>
    Currency \<Rightarrow> bool" where
  "checkProofOfWorkV2 longhash mm_root aux_hash block currentDiffic c =
     (if bl_majorVersion block < 2 then False
      else case longhash block of None \<Rightarrow> False
      | Some proofOfWork \<Rightarrow>
        if \<not> check_hash (hash_words proofOfWork) currentDiffic then False
        else case mm_root (tx_extra (pb_baseTransaction (bl_parentBlock block))) of None \<Rightarrow> False
        | Some merkleRoot \<Rightarrow>
          let branch = pb_blockchainBranch (bl_parentBlock block)
          in if 8 * 32 < length branch then False
             else case aux_hash block of None \<Rightarrow> False
             | Some auxBlockHeaderHash \<Rightarrow>
               tree_hash_from_branch branch (length branch) auxBlockHeaderHash (Some (cur_genesisBlockHash c)) = merkleRoot)"

definition checkProofOfWork :: "(Block \<Rightarrow> hash option) \<Rightarrow> (bytes \<Rightarrow> hash option) \<Rightarrow> (Block \<Rightarrow> hash option) \<Rightarrow> Block \<Rightarrow> u64 \<Rightarrow>
    Currency \<Rightarrow> bool" where
  "checkProofOfWork longhash mm_root aux_hash block currentDiffic c =
     (if bl_majorVersion block = 1 then checkProofOfWorkV1 longhash block currentDiffic
      else if bl_majorVersion block \<in> {2, 3, 4, 5, 6, 7, 8, 9, 10}
      then checkProofOfWorkV2 longhash mm_root aux_hash block currentDiffic c
      else False)"

text \<open>The reference: the root of a full tree, and the level the two routines start from. \<open>log2 d n\<close> says that
  \<open>2 ^ d\<close> is the largest power of two up to \<open>n\<close>.\<close>

function tree_root :: "hash list \<Rightarrow> hash" where
  "tree_root hs = (if length hs \<le> 1 then hd hs else tree_root (hash_pairs hs))"
  by pat_completeness auto
termination
proof (relation "measure length")
  have le: "2 * length (hash_pairs hs) \<le> length hs" for hs by (induction hs rule: hash_pairs.induct) simp_all
  show "\<not> length hs \<le> 1 \<Longrightarrow> (hash_pairs hs, hs) \<in> measure length" for hs using le [of hs] by simp
qed simp

declare tree_root.simps [simp del]

definition base_level :: "nat \<Rightarrow> hash list \<Rightarrow> hash list" where
  "base_level cnt hs = take (2 * cnt - length hs) hs @ hash_pairs (drop (2 * cnt - length hs) hs)"

definition log2 :: "nat \<Rightarrow> nat \<Rightarrow> bool" where
  "log2 d n \<longleftrightarrow> 2 ^ d \<le> n \<and> n < 2 ^ Suc d"

section \<open>Levels\<close>

lemma length_hash_pairs: "length (hash_pairs hs) = length hs div 2"
  by (induction hs rule: hash_pairs.induct) simp_all

lemma hash_pairs_Cons2: "2 \<le> length hs \<Longrightarrow> hash_pairs hs = hash_pair (hs ! 0) (hs ! 1) # hash_pairs (drop 2 hs)"
  by (cases hs rule: hash_pairs.cases) simp_all

lemma length_base_level:
  assumes "cnt \<le> length hs" "length hs \<le> 2 * cnt"
  shows "length (base_level cnt hs) = cnt"
proof -
  have "length hs - (2 * cnt - length hs) = 2 * (length hs - cnt)" using assms by simp
  then show ?thesis unfolding base_level_def using assms by (simp add: length_hash_pairs)
qed

lemma tree_loop_root:
  "length ints = 2 ^ Suc d \<Longrightarrow> hash_pair (tree_loop (2 ^ Suc d) ints ! 0) (tree_loop (2 ^ Suc d) ints ! 1) = tree_root ints"
proof (induction d arbitrary: ints)
  case 0
  then obtain a b where "ints = [a, b]" by (auto simp: length_Suc_conv numeral_2_eq_2)
  then show ?case by (simp add: tree_loop.simps tree_root.simps)
next
  case (Suc d)
  have "1 < (2 :: nat) ^ Suc d" by (rule one_less_power) simp_all
  then have big: "2 < (2 :: nat) ^ Suc (Suc d)" by simp
  have l: "tree_loop (2 ^ Suc (Suc d)) ints = tree_loop (2 ^ Suc d) (hash_pairs ints)"
    using big by (subst tree_loop.simps) simp
  have r: "tree_root ints = tree_root (hash_pairs ints)" using big Suc.prems by (subst tree_root.simps) simp
  show ?case unfolding l r by (rule Suc.IH) (simp add: length_hash_pairs Suc.prems)
qed

lemma length_branch_loop [simp]: "length (branch_loop d ints) = d"
  by (induction d arbitrary: ints) simp_all

lemma from_branch_prefix: "n \<le> length xs \<Longrightarrow> tree_hash_from_branch (xs @ ys) n leaf path = tree_hash_from_branch xs n leaf path"
  by (induction n arbitrary: leaf) (simp_all add: nth_append)

lemma branch_loop_root:
  "length hs = 2 ^ d \<Longrightarrow> tree_hash_from_branch (branch_loop d (tl hs)) d (hd hs) None = tree_root hs"
proof (induction d arbitrary: hs)
  case 0
  then show ?case by (simp add: tree_root.simps)
next
  case (Suc d)
  have "1 \<le> (2 :: nat) ^ d" by simp
  then have "2 \<le> length hs" using Suc.prems by simp
  then obtain a b r where hs: "hs = a # b # r" by (metis Suc_le_length_iff numeral_2_eq_2)
  have len: "length (hash_pairs hs) = 2 ^ d" using Suc.prems by (simp add: length_hash_pairs)
  have root: "tree_root hs = tree_root (hash_pairs hs)" using hs by (subst tree_root.simps) simp
  have "tree_hash_from_branch (branch_loop (Suc d) (tl hs)) (Suc d) (hd hs) None =
      tree_hash_from_branch (branch_loop d (tl (hash_pairs hs))) d (hd (hash_pairs hs)) None"
    by (simp add: hs nth_append path_bit_def from_branch_prefix)
  then show ?case using Suc.IH [OF len] root by simp
qed

section \<open>Powers of two\<close>

lemma log2_unique: "log2 a n \<Longrightarrow> log2 b n \<Longrightarrow> a = b"
proof -
  have "a < Suc b" if "log2 a n" "log2 b n" for a b
  proof -
    have "(2 :: nat) ^ a < 2 ^ Suc b" using that unfolding log2_def by linarith
    then show ?thesis by (rule power_less_imp_less_exp [rotated]) simp
  qed
  then show "log2 a n \<Longrightarrow> log2 b n \<Longrightarrow> a = b" by (metis less_Suc_eq_le order_antisym)
qed

lemma unat_pow2:
  assumes "d < 64"
  shows "unat (2 ^ d :: u64) = 2 ^ d"
proof -
  have lt: "(2 :: nat) ^ d < 2 ^ LENGTH(64)" using assms by (intro power_strict_increasing) simp_all
  have "unat (2 ^ d :: u64) = unat (of_nat (2 ^ d) :: u64)" by simp
  also have "\<dots> = 2 ^ d mod 2 ^ LENGTH(64)" by (rule unat_of_nat)
  also have "\<dots> = 2 ^ d" using lt by (rule mod_less)
  finally show ?thesis .
qed

lemma smear_step:
  fixes c x :: u64
  assumes "\<And>n. bit c n \<longleftrightarrow> (\<exists>m < w. bit x (n + m))"
  shows "bit (c OR drop_bit w c) n \<longleftrightarrow> (\<exists>m < w + w. bit x (n + m))"
proof -
  have "bit (c OR drop_bit w c) n \<longleftrightarrow> (\<exists>m < w. bit x (n + m)) \<or> (\<exists>m < w. bit x (n + w + m))"
    using assms [of n] assms [of "n + w"] by (simp add: bit_or_iff bit_drop_bit_eq add.commute add.left_commute)
  also have "\<dots> \<longleftrightarrow> (\<exists>m < w + w. bit x (n + m))"
  proof
    assume "\<exists>m < w + w. bit x (n + m)"
    then obtain m where m: "m < w + w" "bit x (n + m)" by blast
    show "(\<exists>m < w. bit x (n + m)) \<or> (\<exists>m < w. bit x (n + w + m))"
    proof (cases "m < w")
      case False
      then have "m - w < w" "n + w + (m - w) = n + m" using m(1) by simp_all
      then show ?thesis using m(2) by metis
    qed (use m in blast)
  next
    assume "(\<exists>m < w. bit x (n + m)) \<or> (\<exists>m < w. bit x (n + w + m))"
    then show "\<exists>m < w + w. bit x (n + m)" by (metis add.assoc add_less_cancel_left trans_less_add1)
  qed
  finally show ?thesis .
qed

lemma bit_smear: "bit (smear x) n \<longleftrightarrow> (\<exists>m < 64. bit x (n + m))"
proof -
  define s where "s w c = (\<forall>n. bit c n \<longleftrightarrow> (\<exists>m < w. bit x (n + m)))" for w :: nat and c :: u64
  define f where "f i c = c OR drop_bit i c" for i and c :: u64
  have st: "s v (f w c)" if "s w c" "v = w + w" for v w c
    unfolding that(2) using smear_step [of c w x] that(1) unfolding s_def f_def by blast
  have "s 1 x" unfolding s_def by simp
  then have "s 2 (f 1 x)" by (rule st) simp
  then have "s 4 (f 2 (f 1 x))" by (rule st) simp
  then have "s 8 (f 4 (f 2 (f 1 x)))" by (rule st) simp
  then have "s 16 (f 8 (f 4 (f 2 (f 1 x))))" by (rule st) simp
  then have "s 32 (f 16 (f 8 (f 4 (f 2 (f 1 x)))))" by (rule st) simp
  then have "s 64 (f 32 (f 16 (f 8 (f 4 (f 2 (f 1 x))))))" by (rule st) simp
  moreover have "smear x = f 32 (f 16 (f 8 (f 4 (f 2 (f 1 x)))))"
    unfolding smear_def f_def [symmetric] by (simp only: fold_simps)
  ultimately show ?thesis unfolding s_def by simp
qed

lemma smear_above: "bit (smear x) n \<longleftrightarrow> (\<exists>k \<ge> n. bit x k)"
proof
  assume "\<exists>k \<ge> n. bit x k"
  then obtain k where k: "n \<le> k" "bit x k" by blast
  then have "k < 64" using bit_imp_le_length [of x k] by simp
  then show "bit (smear x) n" unfolding bit_smear using k by (intro exI [of _ "k - n"]) simp
next
  assume "bit (smear x) n"
  then obtain m where "bit x (n + m)" unfolding bit_smear by blast
  then show "\<exists>k \<ge> n. bit x k" by (intro exI [of _ "n + m"]) simp
qed

lemma highest_bit:
  fixes x :: u64
  assumes "x \<noteq> 0"
  shows "\<exists>d < 64. bit x d \<and> (\<forall>k > d. \<not> bit x k) \<and> log2 d (unat x)"
proof -
  obtain b where b: "bit x b" using assms by (metis bit_0_eq bit_eqI bot_apply bot_bool_def)
  define d where "d = Max {k. bit x k}"
  have small: "k < 64" if "bit x k" for k using bit_imp_le_length [OF that] by simp
  have fin: "finite {k. bit x k}" by (rule finite_subset [of _ "{..<64}"]) (auto dest: small)
  have d: "bit x d" using Max_in [OF fin] b unfolding d_def by blast
  have hi: "\<not> bit x k" if "d < k" for k
  proof
    assume "bit x k"
    then have "k \<le> d" unfolding d_def by (intro Max_ge [OF fin]) simp
    then show False using that by simp
  qed
  have le: "n \<le> d" if "bit x n" for n using hi that by (metis not_less)
  have lt: "d < 64" by (rule small [OF d])
  have "take_bit (Suc d) x = x" by (rule bit_word_eqI) (auto simp: bit_take_bit_iff less_Suc_eq_le le)
  then have "unat x = take_bit (Suc d) (unat x)" by (metis unsigned_take_bit_eq)
  then have up: "unat x < 2 ^ Suc d" by (metis take_bit_nat_less_exp)
  have "bit (unat x) d" using d lt by (simp add: bit_unsigned_iff)
  then have "odd (unat x div 2 ^ d)" by (rule bit_iff_odd [THEN iffD1])
  then have lo: "2 ^ d \<le> unat x" by (metis div_less even_zero not_less)
  show ?thesis using lt d hi lo up unfolding log2_def by blast
qed

lemma top_bit_log2:
  assumes "x \<noteq> 0"
  obtains d where "unat (top_bit x) = 2 ^ d" "log2 d (unat x)"
proof -
  obtain d where d: "d < 64" "bit x d" "\<forall>k > d. \<not> bit x k" "log2 d (unat x)" using highest_bit [OF assms] by blast
  have ab: "(\<exists>k \<ge> n. bit x k) \<longleftrightarrow> n \<le> d" for n using d(2,3) by (meson le_trans not_less)
  have "top_bit x = 2 ^ d"
  proof (rule bit_word_eqI)
    fix n assume n: "n < LENGTH(64)"
    have "bit (top_bit x) n \<longleftrightarrow> n \<le> d \<and> \<not> Suc n \<le> d"
      using n unfolding top_bit_def Let_def
      by (simp add: bit_and_iff bit_not_iff bit_drop_bit_eq smear_above ab)
    also have "\<dots> \<longleftrightarrow> n = d" by auto
    finally show "bit (top_bit x) n \<longleftrightarrow> bit (2 ^ d :: u64) n" using d(1) by (auto simp: bit_exp_iff)
  qed
  then have "unat (top_bit x) = 2 ^ d" using d(1) by (simp add: unat_pow2)
  then show ?thesis using that d(4) by blast
qed

text \<open>The descending loops of \<open>tree_branch\<close> and \<open>tree_depth\<close>.\<close>

lemma push_bit_unat:
  assumes "depth + i < 64"
  shows "unat (push_bit i (2 ^ depth :: u64)) = 2 ^ (depth + i)"
proof -
  have "push_bit i (2 ^ depth :: u64) = 2 ^ (depth + i)" by (simp add: push_bit_eq_mult power_add mult.commute)
  then show ?thesis using assms by (simp add: unat_pow2)
qed

lemma branch_step_inv:
  assumes "2 ^ depth \<le> unat n" "unat n < 2 ^ (depth + 2 * i)" "depth + 2 * i \<le> 64" "0 < i"
  obtains depth' where "branch_step n i (2 ^ depth, depth) = (2 ^ depth', depth')" "2 ^ depth' \<le> unat n"
    "unat n < 2 ^ (depth' + i)" "depth' + i \<le> 64"
proof (cases "2 ^ (depth + i) \<le> unat n")
  case True
  have "branch_step n i (2 ^ depth, depth) = (2 ^ (depth + i), depth + i)"
    using True assms(3,4) push_bit_unat [of depth i]
    by (simp add: branch_step_def word_le_nat_alt push_bit_eq_mult power_add mult.commute)
  then show ?thesis using that [of "depth + i"] True assms(2,3) by (simp add: mult_2 add.assoc)
next
  case False
  have "branch_step n i (2 ^ depth, depth) = (2 ^ depth, depth)"
    using False assms(3,4) push_bit_unat [of depth i] by (simp add: branch_step_def word_le_nat_alt)
  then show ?thesis using that [of depth] False assms by simp
qed

lemma branch_count:
  assumes "n \<noteq> 0"
  shows "\<exists>d. fold (branch_step n) [32, 16, 8, 4, 2, 1] (1, 0) = (2 ^ d, d) \<and> log2 d (unat n)"
proof -
  have "2 ^ 0 \<le> unat n" "unat n < 2 ^ (0 + 2 * 32)" using assms by (simp_all add: unat_gt_0 Suc_leI)
  then obtain a where a: "branch_step n 32 (2 ^ 0, 0) = (2 ^ a, a)" "2 ^ a \<le> unat n" "unat n < 2 ^ (a + 32)" "a + 32 \<le> 64"
    by (rule branch_step_inv) simp_all
  obtain b where b: "branch_step n 16 (2 ^ a, a) = (2 ^ b, b)" "2 ^ b \<le> unat n" "unat n < 2 ^ (b + 16)" "b + 16 \<le> 64"
    by (rule branch_step_inv [OF a(2), of 16]) (use a in simp_all)
  obtain c where c: "branch_step n 8 (2 ^ b, b) = (2 ^ c, c)" "2 ^ c \<le> unat n" "unat n < 2 ^ (c + 8)" "c + 8 \<le> 64"
    by (rule branch_step_inv [OF b(2), of 8]) (use b in simp_all)
  obtain d where d: "branch_step n 4 (2 ^ c, c) = (2 ^ d, d)" "2 ^ d \<le> unat n" "unat n < 2 ^ (d + 4)" "d + 4 \<le> 64"
    by (rule branch_step_inv [OF c(2), of 4]) (use c in simp_all)
  obtain e where e: "branch_step n 2 (2 ^ d, d) = (2 ^ e, e)" "2 ^ e \<le> unat n" "unat n < 2 ^ (e + 2)" "e + 2 \<le> 64"
    by (rule branch_step_inv [OF d(2), of 2]) (use d in simp_all)
  obtain f where f: "branch_step n 1 (2 ^ e, e) = (2 ^ f, f)" "2 ^ f \<le> unat n" "unat n < 2 ^ (f + 1)"
    by (rule branch_step_inv [OF e(2), of 1]) (use e in simp_all)
  have "fold (branch_step n) [32, 16, 8, 4, 2, 1] (1, 0) = (2 ^ f, f)"
    using a(1) b(1) c(1) d(1) e(1) f(1) by simp
  then show ?thesis using f(2,3) unfolding log2_def by auto
qed

text \<open>\<open>tree_depth\<close> keeps the shifted count; it takes the same decisions.\<close>

lemma drop_bit_pos: "0 < drop_bit k (n :: u64) \<longleftrightarrow> 2 ^ k \<le> unat n"
proof -
  have "unat (drop_bit k n) = unat n div 2 ^ k" unfolding unat_drop_bit_eq by (rule drop_bit_eq_div)
  then show ?thesis by (simp add: word_less_nat_alt div_greater_zero_iff)
qed

lemma depth_step_same:
  assumes "depth + 2 * i \<le> 64" "0 < i"
  shows "\<exists>depth'. branch_step n i (2 ^ depth, depth) = (2 ^ depth', depth') \<and>
    depth_step i (drop_bit depth n, depth) = (drop_bit depth' n, depth') \<and> depth' + i \<le> 64"
proof (cases "2 ^ (depth + i) \<le> unat n")
  case True
  then show ?thesis using assms push_bit_unat [of depth i] drop_bit_pos [of "depth + i" n]
    by (intro exI [of _ "depth + i"])
      (simp add: branch_step_def depth_step_def word_le_nat_alt push_bit_eq_mult power_add mult.commute add.commute)
next
  case False
  then show ?thesis using assms push_bit_unat [of depth i] drop_bit_pos [of "depth + i" n]
    by (intro exI [of _ depth]) (simp add: branch_step_def depth_step_def word_le_nat_alt add.commute)
qed

lemma tree_depth_branch: "tree_depth n = snd (fold (branch_step n) [32, 16, 8, 4, 2, 1] (1, 0))"
proof -
  obtain a where a: "branch_step n 32 (2 ^ 0, 0) = (2 ^ a, a)" "depth_step 32 (drop_bit 0 n, 0) = (drop_bit a n, a)" "a + 32 \<le> 64"
    using depth_step_same [of 0 32 n] by auto
  obtain b where b: "branch_step n 16 (2 ^ a, a) = (2 ^ b, b)" "depth_step 16 (drop_bit a n, a) = (drop_bit b n, b)" "b + 16 \<le> 64"
    using depth_step_same [of a 16 n] a(3) by auto
  obtain c where c: "branch_step n 8 (2 ^ b, b) = (2 ^ c, c)" "depth_step 8 (drop_bit b n, b) = (drop_bit c n, c)" "c + 8 \<le> 64"
    using depth_step_same [of b 8 n] b(3) by auto
  obtain d where d: "branch_step n 4 (2 ^ c, c) = (2 ^ d, d)" "depth_step 4 (drop_bit c n, c) = (drop_bit d n, d)" "d + 4 \<le> 64"
    using depth_step_same [of c 4 n] c(3) by auto
  obtain e where e: "branch_step n 2 (2 ^ d, d) = (2 ^ e, e)" "depth_step 2 (drop_bit d n, d) = (drop_bit e n, e)" "e + 2 \<le> 64"
    using depth_step_same [of d 2 n] d(3) by auto
  obtain f where f: "branch_step n 1 (2 ^ e, e) = (2 ^ f, f)" "depth_step 1 (drop_bit e n, e) = (drop_bit f n, f)"
    using depth_step_same [of e 1 n] e(3) by auto
  show ?thesis unfolding tree_depth_def using a b c d e f by simp
qed

section \<open>Roots\<close>

lemma tree_branch_base:
  assumes "log2 d (length hs)" "length hs < 2 ^ 64" "hs \<noteq> []"
  shows "tree_branch hs = branch_loop d (tl (base_level (2 ^ d) hs))"
proof -
  have n0: "(of_nat (length hs) :: u64) \<noteq> 0" and un: "unat (of_nat (length hs) :: u64) = length hs"
    using assms(2,3) by (simp_all add: unat_of_nat word_unat_eq_iff)
  obtain e where e: "fold (branch_step (of_nat (length hs))) [32, 16, 8, 4, 2, 1] (1, 0) = (2 ^ e, e)" "log2 e (length hs)"
    using branch_count [OF n0] un by auto
  have "e = d" by (rule log2_unique [OF e(2) assms(1)])
  have "2 ^ d < (2 :: nat) ^ 64" using assms(1,2) unfolding log2_def by linarith
  then have "d < 64" by (rule power_less_imp_less_exp [rotated]) simp
  then have ud: "unat (2 ^ d :: u64) = 2 ^ d" by (rule unat_pow2)
  have pos: "0 < 2 * 2 ^ d - length hs" using assms(1) unfolding log2_def by simp
  then have "take (2 * 2 ^ d - length hs - 1) (tl hs) = tl (take (2 * 2 ^ d - length hs) hs)" by (simp add: tl_take)
  moreover have "take (2 * 2 ^ d - length hs) hs \<noteq> []" using pos assms(3) by simp
  ultimately show ?thesis
    unfolding tree_branch_def Let_def e(1) \<open>e = d\<close> base_level_def using ud by (simp del: take_eq_Nil)
qed

lemma tree_hash_large:
  assumes "2 < length hs" "length hs < 2 ^ 64"
  obtains k where "tree_hash hs = tree_root (base_level (2 ^ k) hs)" "log2 k (length hs - 1)"
proof -
  have un: "unat (of_nat (length hs) - 1 :: u64) = length hs - 1"
  proof -
    have u: "unat (of_nat (length hs) :: u64) = length hs" using assms(2) by (simp add: unat_of_nat)
    have "(1 :: u64) \<le> of_nat (length hs)" using u assms(1) by (simp only: word_le_nat_alt u unat_1)
    then show ?thesis using u by (simp add: unat_sub)
  qed
  then have "(of_nat (length hs) - 1 :: u64) \<noteq> 0" 
    using assms(1) by (intro notI) simp
  then obtain k where k: "unat (top_bit (of_nat (length hs) - 1)) = 2 ^ k" "log2 k (length hs - 1)"
    using top_bit_log2 un by metis
  have "k \<noteq> 0"
  proof
    assume "k = 0"
    then have "length hs - 1 < 2" using k(2) unfolding log2_def by simp
    then show False using assms(1) by linarith
  qed
  then obtain j where j: "k = Suc j" using not0_implies_Suc by blast
  have len: "length (base_level (2 ^ k) hs) = 2 ^ Suc j"
    unfolding j [symmetric] by (rule length_base_level) (use k(2) in \<open>unfold log2_def power_Suc, linarith\<close>)+
  have "tree_hash hs = hash_pair (tree_loop (2 ^ Suc j) (base_level (2 ^ k) hs) ! 0) (tree_loop (2 ^ Suc j) (base_level (2 ^ k) hs) ! 1)"
    unfolding tree_hash_def Let_def k(1) base_level_def j [symmetric] using assms(1) by simp
  then show ?thesis using that k(2) tree_loop_root [OF len] by simp
qed

lemma tree_hash_base:
  assumes "log2 d (length hs)" "length hs < 2 ^ 64" "hs \<noteq> []"
  shows "tree_hash hs = tree_root (base_level (2 ^ d) hs)"
proof -
  consider "length hs = 1" | "length hs = 2" | "2 < length hs" using assms(3) by (metis One_nat_def length_greater_0_conv less_2_cases_iff nat_neq_iff)
  then show ?thesis
  proof cases
    case 1
    then have "log2 0 (length hs)" by (simp add: log2_def)
    then have "d = 0" by (rule log2_unique [OF assms(1)])
    then show ?thesis using 1 by (cases hs) (simp_all add: tree_hash_def base_level_def tree_root.simps)
  next
    case 2
    then have "log2 1 (length hs)" by (simp add: log2_def)
    then have "d = 1" by (rule log2_unique [OF assms(1)])
    moreover obtain a b where "hs = [a, b]" using 2 by (auto simp: length_Suc_conv numeral_2_eq_2)
    ultimately show ?thesis by (simp add: tree_hash_def base_level_def tree_root.simps)
  next
    case 3
    obtain k where k: "tree_hash hs = tree_root (base_level (2 ^ k) hs)" "log2 k (length hs - 1)"
      by (rule tree_hash_large [OF 3 assms(2)])
    show ?thesis
    proof (cases "length hs < 2 ^ Suc k")
      case True
      then have "log2 k (length hs)" using k(2) 3 unfolding log2_def by linarith
      then show ?thesis using k(1) log2_unique [OF assms(1)] by blast
    next
      case False
      then have n: "length hs = 2 ^ Suc k" using k(2) unfolding log2_def by linarith
      then have "log2 (Suc k) (length hs)" by (simp add: log2_def)
      then have "d = Suc k" by (rule log2_unique [OF assms(1)])
      then have "base_level (2 ^ d) hs = hs" "base_level (2 ^ k) hs = hash_pairs hs" using n by (simp_all add: base_level_def)
      then show ?thesis using k(1) 3 tree_root.simps [of hs] by simp
    qed
  qed
qed

section \<open>Properties\<close>

text \<open>
  C27: The tree branch of the first leaf proves it. For any number of leaves, power of two or not, the branch that
  \<open>tree_branch\<close> returns for the base transaction has the depth \<open>tree_depth\<close> announces, and \<open>tree_hash_from_branch\<close> leads
  from the leaf along it to the root \<open>tree_hash\<close> computes.
\<close>

theorem tree_branch_verifies:
  assumes "hs \<noteq> []" "length hs < 2 ^ 64"
  shows "length (tree_branch hs) = tree_depth (of_nat (length hs)) \<and>
    tree_hash_from_branch (tree_branch hs) (length (tree_branch hs)) (hd hs) None = tree_hash hs"
proof -
  have n0: "(of_nat (length hs) :: u64) \<noteq> 0" and un: "unat (of_nat (length hs) :: u64) = length hs"
    using assms by (simp_all add: unat_of_nat word_unat_eq_iff)
  obtain d where d: "fold (branch_step (of_nat (length hs))) [32, 16, 8, 4, 2, 1] (1, 0) = (2 ^ d, d)" "log2 d (length hs)"
    using branch_count [OF n0] un by auto
  note b = tree_branch_base [OF d(2) assms(2,1)]
  have len: "length (base_level (2 ^ d) hs) = 2 ^ d" by (rule length_base_level) (use d(2) in \<open>simp_all add: log2_def\<close>)
  have "0 < 2 * 2 ^ d - length hs" using d(2) by (simp add: log2_def)
  then have "hd (base_level (2 ^ d) hs) = hd hs" using assms(1) by (simp add: base_level_def hd_append)
  then have "tree_hash_from_branch (tree_branch hs) d (hd hs) None = tree_hash hs"
    using branch_loop_root [OF len] unfolding b tree_hash_base [OF d(2) assms(2,1)] by simp
  moreover have "tree_depth (of_nat (length hs)) = d" unfolding tree_depth_branch d(1) by simp
  moreover have "length (tree_branch hs) = d" by (simp add: b)
  ultimately show ?thesis by simp
qed

theorem tree_branch_verifies_witness:
  "tree_hash_from_branch (tree_branch [[1], [2], [3], [4], [5]]) (length (tree_branch [[1], [2], [3], [4], [5]])) [1] None =
     tree_hash [[1], [2], [3], [4], [5]]"
proof -
  have "[[1], [2], [3], [4], [5 :: u8]] \<noteq> []" "length [[1], [2], [3], [4], [5 :: u8]] < 2 ^ 64" by simp_all
  from conjunct2 [OF tree_branch_verifies [OF this]] show ?thesis unfolding list.sel .
qed

end
