(* ===== verification/Binary_Streams.thy ===== *)
theory Binary_Streams
  imports Byte_Codecs
begin

text \<open>
  Binary streams, \<open>src/src/Common/StreamTools.cpp\<close>, and the binary serializers of \<open>src/src/Serialization\<close> on top of
  them. A reader maps the rest of the input to a value and what is left, or to \<open>None\<close> where the source throws; a
  writer maps a value to the bytes it appends. The locale \<open>codec\<close> is the contract of a reader and a writer that belong
  together: what was written is read back, and whatever is read was written that way, so that an accepted encoding is
  the only one. It is interpreted on the integers of every width, on byte arrays, on strings and, given a codec of the
  elements, on vectors.
\<close>

section \<open>Readers and writers\<close>

type_synonym 'a reader = "bytes \<Rightarrow> ('a \<times> bytes) option"

text \<open>Reading a value and going on with a reader that depends on it.\<close>

definition rbind :: "'a reader \<Rightarrow> ('a \<Rightarrow> 'b reader) \<Rightarrow> 'b reader" where
  "rbind r f inp = (case r inp of None \<Rightarrow> None | Some (x, rest) \<Rightarrow> f x rest)"

definition rret :: "'a \<Rightarrow> 'a reader" where
  "rret x inp = Some (x, inp)"

definition rfail :: "'a reader" where
  "rfail inp = None"

text \<open>\<open>read(in, data, size)\<close> on a stream in memory: it throws when the input ends early.\<close>

definition read_bytes :: "nat \<Rightarrow> bytes reader" where
  "read_bytes n inp = (if n \<le> length inp then Some (take n inp, drop n inp) else None)"

text \<open>\<open>readVarint\<close> into an integer of \<open>w\<close> bits; the four overloads differ in the width only. An overlong or oversized
  encoding throws.\<close>

fun readVarint_loop :: "nat \<Rightarrow> nat \<Rightarrow> u64 \<Rightarrow> u64 reader" where
  "readVarint_loop w shift temp [] = None"
| "readVarint_loop w shift temp (piece # rest) =
     (if w \<le> shift + 7 \<and> 2 ^ (w - shift) \<le> unat piece then None
      else
        let temp = temp OR push_bit shift (ucast (piece AND 0x7f))
        in if piece AND 0x80 = 0
           then if piece = 0 \<and> shift \<noteq> 0 then None else Some (temp, rest)
           else readVarint_loop w (shift + 7) temp rest)"

definition readVarint :: "nat \<Rightarrow> u64 reader" where
  "readVarint w = readVarint_loop w 0 0"

function writeVarint :: "u64 \<Rightarrow> bytes" where
  "writeVarint value =
     (if 0x80 \<le> value then ucast (value OR 0x80) # writeVarint (drop_bit 7 value) else [ucast value])"
  by pat_completeness auto
termination
proof (relation "measure unat", goal_cases)
  case 1
  show ?case by simp
next
  case (2 i)
  then have "128 \<le> unat i" by (simp add: word_le_nat_alt)
  then show ?case by (simp add: drop_bit_eq_div unat_div_distrib)
qed

declare writeVarint.simps [simp del]

section \<open>The binary serializer\<close>

text \<open>The operators of \<open>BinaryInputStreamSerializer\<close> and \<open>BinaryOutputStreamSerializer\<close> for unsigned integers.\<close>

definition rd_u8 :: "u8 reader" where
  "rd_u8 = rbind (readVarint 8) (\<lambda>v. rret (ucast v))"

definition rd_u16 :: "16 word reader" where
  "rd_u16 = rbind (readVarint 16) (\<lambda>v. rret (ucast v))"

definition rd_u32 :: "u32 reader" where
  "rd_u32 = rbind (readVarint 32) (\<lambda>v. rret (ucast v))"

definition rd_u64 :: "u64 reader" where
  "rd_u64 = readVarint 64"

definition wr_u8 :: "u8 \<Rightarrow> bytes" where
  "wr_u8 v = writeVarint (ucast v)"

definition wr_u16 :: "16 word \<Rightarrow> bytes" where
  "wr_u16 v = writeVarint (ucast v)"

definition wr_u32 :: "u32 \<Rightarrow> bytes" where
  "wr_u32 v = writeVarint (ucast v)"

definition wr_u64 :: "u64 \<Rightarrow> bytes" where
  "wr_u64 v = writeVarint v"

text \<open>The limit on the sizes of arrays and strings.\<close>

definition max_array :: nat where
  "max_array = 10000 * 1024 * 1024"

definition rd_size :: "nat reader" where
  "rd_size = rbind (readVarint 64) (\<lambda>v. if max_array < unat v then rfail else rret (unat v))"

definition wr_size :: "nat \<Rightarrow> bytes" where
  "wr_size n = writeVarint (of_nat n)"

text \<open>\<open>operator()(std::string&)\<close> and \<open>serializeAsBinary\<close> of a vector of bytes.\<close>

definition rd_string :: "bytes reader" where
  "rd_string = rbind rd_size read_bytes"

definition wr_string :: "bytes \<Rightarrow> bytes" where
  "wr_string s = wr_size (length s) @ s"

text \<open>\<open>serializeContainer\<close>: the size and the items.\<close>

fun rd_items :: "'a reader \<Rightarrow> nat \<Rightarrow> 'a list reader" where
  "rd_items r 0 = rret []"
| "rd_items r (Suc n) = rbind r (\<lambda>x. rbind (rd_items r n) (\<lambda>xs. rret (x # xs)))"

definition rd_vector :: "'a reader \<Rightarrow> 'a list reader" where
  "rd_vector r = rbind rd_size (rd_items r)"

definition wr_items :: "('a \<Rightarrow> bytes) \<Rightarrow> 'a list \<Rightarrow> bytes" where
  "wr_items w xs = concat (map w xs)"

definition wr_vector :: "('a \<Rightarrow> bytes) \<Rightarrow> 'a list \<Rightarrow> bytes" where
  "wr_vector w xs = wr_size (length xs) @ wr_items w xs"

text \<open>Predicates on values that a codec can carry.\<close>

definition any :: "'a \<Rightarrow> bool" where
  "any x \<longleftrightarrow> True"

definition sized :: "nat \<Rightarrow> bytes \<Rightarrow> bool" where
  "sized n b \<longleftrightarrow> length b = n"

definition bounded :: "('a \<Rightarrow> bool) \<Rightarrow> 'a list \<Rightarrow> bool" where
  "bounded ok xs \<longleftrightarrow> length xs \<le> max_array \<and> list_all ok xs"

section \<open>Variable-length integers\<close>

lemma writeVarint_write_varint: "writeVarint v = write_varint v"
proof (induction v rule: writeVarint.induct)
  case (1 v)
  have "(ucast (v OR 0x80) :: u8) = ucast v AND 0x7f OR 0x80"
  proof (rule bit_word_eqI)
    fix n assume n: "n < LENGTH(8)"
    have "bit (2 ^ 7 :: u8) n \<longleftrightarrow> n = 7" "bit (2 ^ 7 :: u64) n \<longleftrightarrow> n = 7" unfolding bit_exp_iff by auto
    then have s: "bit (0x80 :: u8) n \<longleftrightarrow> n = 7" "bit (0x80 :: u64) n \<longleftrightarrow> n = 7" by simp_all
    show "bit (ucast (v OR 0x80) :: u8) n = bit (ucast v AND 0x7f OR 0x80 :: u8) n"
      using n by (simp only: and_mask_u8 bit_or_iff bit_and_iff bit_take_bit_iff unsigned_or_eq bit_unsigned_iff s) auto
  qed
  then show ?case using 1 by (subst writeVarint.simps, subst write_varint.simps) simp
qed

lemma readVarint_loop_write:
  assumes "s < w" "w \<le> 64" "unat v < 2 ^ (w - s)" "s = 0 \<or> v \<noteq> 0"
  shows "readVarint_loop w s t (write_varint v @ suf) = Some (t OR push_bit s v, suf)"
  using assms
proof (induction v arbitrary: s t rule: write_varint.induct)
  case (1 v)
  show ?case
  proof (cases "0x80 \<le> v")
    case False
    then have v: "v < 0x80" by simp
    have wr: "write_varint v = [ucast v]" using False by (simp add: write_varint.simps)
    have nz: "\<not> ((ucast v :: u8) = 0 \<and> s \<noteq> 0)"
      using "1.prems"(4) small_byte(1) [OF v] by (metis unat_eq_0)
    show ?thesis using "1.prems"(3) nz by (auto simp: wr small_byte [OF v] Let_def not_le)
  next
    case True
    then have v: "128 \<le> unat v" by (simp add: word_le_nat_alt)
    define b where "b = (ucast v AND 0x7f OR 0x80 :: u8)"
    have wr: "write_varint v = b # write_varint (drop_bit 7 v)"
      using True by (simp add: write_varint.simps [of v] b_def)
    have s: "s + 7 < w"
    proof (rule ccontr)
      assume "\<not> s + 7 < w"
      then have "(2 :: nat) ^ (w - s) \<le> 2 ^ 7" by (intro power_increasing) auto
      then show False using "1.prems"(3) v by simp
    qed
    have d: "unat (drop_bit 7 v) = unat v div 128" by (simp add: drop_bit_eq_div unat_div_distrib)
    have lt: "unat (drop_bit 7 v) < 2 ^ (w - (s + 7))"
    proof -
      have k: "w - s = (w - (s + 7)) + 7" using s by simp
      have "unat v < 2 ^ (w - (s + 7)) * 128" using "1.prems"(3) unfolding k power_add by simp
      then show ?thesis unfolding d by (rule less_mult_imp_div_less)
    qed
    have nz: "drop_bit 7 v \<noteq> 0" using d v by (auto simp: div_eq_0_iff)
    have "readVarint_loop w s t (write_varint v @ suf) =
        readVarint_loop w (s + 7) (t OR push_bit s (take_bit 7 v)) (write_varint (drop_bit 7 v) @ suf)"
      using s cont_byte [of v] by (simp add: wr b_def Let_def)
    also have "\<dots> = Some ((t OR push_bit s (take_bit 7 v)) OR push_bit (s + 7) (drop_bit 7 v), suf)"
      using s lt nz "1.prems"(2) by (intro "1.IH" [OF True]) auto
    also have "\<dots> = Some (t OR push_bit s v, suf)"
      using split_low7 [of s v] s "1.prems"(2) by (simp add: or.assoc)
    finally show ?thesis .
  qed
qed

lemma writeVarint_cont_width:
  fixes y :: u64
  assumes "unat y < 2 ^ (w - (s + 7))" "y \<noteq> 0" "byte AND 0x80 \<noteq> 0" "s + 7 < w" "w \<le> 64"
  defines "x \<equiv> ucast (byte AND 0x7f) OR push_bit 7 y"
  shows "write_varint x = byte # write_varint y" and "unat x < 2 ^ (w - s)" and "x \<noteq> 0"
proof -
  have "(2 :: nat) ^ (w - (s + 7)) \<le> 2 ^ 57" using assms(5) by (intro power_increasing) auto
  then have "unat y < 2 ^ 57" using assms(1) by linarith
  note wc = write_varint_cont [OF this assms(2,3), folded x_def]
  show "write_varint x = byte # write_varint y" by (rule wc(1))
  have k: "w - s = (w - (s + 7)) + 7" using assms(4) by simp
  have "unat x < 2 ^ (w - (s + 7)) * 128"
    using assms(1) wc(2) by (metis div_less_iff_less_mult zero_less_numeral)
  then show "unat x < 2 ^ (w - s)" unfolding k by (simp add: power_add)
  show "x \<noteq> 0" using wc(2) assms(2) by (auto simp: unat_eq_0)
qed

lemma readVarint_loop_canonical:
  assumes "readVarint_loop w s t inp = Some (v, rest)" "s < w" "w \<le> 64"
  shows "\<exists>x. inp = write_varint x @ rest \<and> v = t OR push_bit s x \<and> unat x < 2 ^ (w - s) \<and> (s = 0 \<or> x \<noteq> 0)"
  using assms
proof (induction inp arbitrary: s t)
  case Nil
  then show ?case by simp
next
  case (Cons byte r)
  let ?t = "t OR push_bit s (ucast (byte AND 0x7f))"
  have ok: "\<not> (w \<le> s + 7 \<and> 2 ^ (w - s) \<le> unat byte)"
    using Cons.prems(1) by (auto split: if_splits)
  show ?case
  proof (cases "byte AND 0x80 = 0")
    case True
    have e: "v = ?t" "r = rest" "byte \<noteq> 0 \<or> s = 0"
      using Cons.prems(1) ok True by (auto simp: Let_def split: if_splits)
    have b: "unat byte < 128" using True by (simp add: high_bit_u8)
    have wr: "write_varint (ucast byte) = [byte]"
      using b by (simp add: write_varint.simps word_le_nat_alt word_unat_eq_iff unat_ucast_u64_u8)
    have m: "byte AND 0x7f = byte"
      using b by (simp add: and_mask_u8 word_unat_eq_iff take_bit_eq_mod unat_mod_distrib)
    have "unat byte < 2 ^ (w - s)"
    proof (cases "w \<le> s + 7")
      case False
      then have "(2 :: nat) ^ 7 \<le> 2 ^ (w - s)" by (intro power_increasing) auto
      then show ?thesis using b by simp
    qed (use ok in simp)
    moreover have "byte \<noteq> 0 \<Longrightarrow> (ucast byte :: u64) \<noteq> 0" by (auto simp: word_unat_eq_iff)
    ultimately show ?thesis using wr e m by (intro exI [of _ "ucast byte"]) auto
  next
    case False
    then have b: "128 \<le> unat byte" by (simp add: high_bit_u8)
    have s: "s + 7 < w"
    proof (rule ccontr)
      assume a: "\<not> s + 7 < w"
      then have "(2 :: nat) ^ (w - s) \<le> 2 ^ 7" by (intro power_increasing) auto
      then show False using ok a b by simp
    qed
    have step: "readVarint_loop w (s + 7) ?t r = Some (v, rest)"
      using Cons.prems(1) ok False by (auto simp: Let_def split: if_splits)
    obtain y where y: "r = write_varint y @ rest" "v = ?t OR push_bit (s + 7) y"
        "unat y < 2 ^ (w - (s + 7))" "y \<noteq> 0"
      using Cons.IH [OF step s Cons.prems(3)] by auto
    note x = writeVarint_cont_width [OF y(3,4) False s Cons.prems(3)]
    have "v = t OR push_bit s (ucast (byte AND 0x7f) OR push_bit 7 y)"
      unfolding y(2) push_bit_or by (simp add: or.assoc push_bit_push_bit add.commute)
    then show ?thesis using x y(1) by (intro exI [of _ "ucast (byte AND 0x7f) OR push_bit 7 y"]) simp
  qed
qed

lemma readVarint_write:
  assumes "0 < w" "w \<le> 64" "unat v < 2 ^ w"
  shows "readVarint w (writeVarint v @ suf) = Some (v, suf)"
  using readVarint_loop_write [of 0 w v 0 suf] assms by (simp add: readVarint_def writeVarint_write_varint)

lemma readVarint_Some:
  assumes "readVarint w inp = Some (v, rest)" "0 < w" "w \<le> 64"
  shows "inp = writeVarint v @ rest" and "unat v < 2 ^ w"
  using readVarint_loop_canonical [OF assms(1) [unfolded readVarint_def] assms(2,3)]
  by (auto simp: writeVarint_write_varint)

section \<open>Codecs\<close>

lemma rbind_Some [simp]:
  "rbind r f inp = Some (y, rest) \<longleftrightarrow> (\<exists>x mid. r inp = Some (x, mid) \<and> f x mid = Some (y, rest))"
  by (auto simp: rbind_def split: option.splits prod.splits)

lemma rbind_eval: "r inp = Some (x, mid) \<Longrightarrow> rbind r f inp = f x mid"
  by (simp add: rbind_def)

lemma rret_Some [simp]: "rret x inp = Some (y, rest) \<longleftrightarrow> y = x \<and> rest = inp"
  by (auto simp: rret_def)

lemma rfail_None [simp]: "rfail inp = None"
  by (simp add: rfail_def)

text \<open>A reader and a writer that may throw, on the values \<open>ok\<close>.\<close>

locale partial_codec =
  fixes pwr :: "'a \<Rightarrow> bytes option" and rd :: "'a reader" and ok :: "'a \<Rightarrow> bool"
  assumes read_back: "ok x \<Longrightarrow> pwr x = Some out \<Longrightarrow> rd (out @ suf) = Some (x, suf)"
    and read_only_written: "rd inp = Some (x, rest) \<Longrightarrow> ok x \<and> (\<exists>out. pwr x = Some out \<and> inp = out @ rest)"
begin

lemma accepted_iff: "rd inp = Some (x, rest) \<longleftrightarrow> ok x \<and> (\<exists>out. pwr x = Some out \<and> inp = out @ rest)"
  using read_back read_only_written by blast

text \<open>No encoding is the start of another one.\<close>

lemma prefix_free:
  assumes "ok x" "ok y" "pwr x = Some a" "pwr y = Some b" "a @ s = b @ t"
  shows "x = y" and "s = t"
proof -
  have "Some (x, s) = Some (y, t)"
    using read_back [OF assms(1,3), of s] read_back [OF assms(2,4), of t] assms(5) by simp
  then show "x = y" "s = t" by simp_all
qed

lemma written_inject:
  assumes "ok x" "ok y" "pwr x = Some a" "pwr y = Some a"
  shows "x = y"
  using prefix_free(1) [OF assms, of "[]" "[]"] by simp

end

locale codec =
  fixes wr :: "'a \<Rightarrow> bytes" and rd :: "'a reader" and ok :: "'a \<Rightarrow> bool"
  assumes rd_wr: "ok x \<Longrightarrow> rd (wr x @ suf) = Some (x, suf)"
    and rd_Some: "rd inp = Some (x, rest) \<Longrightarrow> ok x \<and> inp = wr x @ rest"
begin

lemma rd_iff: "rd inp = Some (x, rest) \<longleftrightarrow> ok x \<and> inp = wr x @ rest"
  using rd_wr rd_Some by blast

lemma items_rd_wr: "list_all ok xs \<Longrightarrow> rd_items rd (length xs) (wr_items wr xs @ suf) = Some (xs, suf)"
proof (induction xs)
  case Nil
  show ?case by (simp add: wr_items_def)
next
  case (Cons x xs)
  then have "rd_items rd (length xs) (wr_items wr xs @ suf) = Some (xs, suf)" by simp
  then show ?case using Cons.prems by (auto simp: wr_items_def rd_wr)
qed

lemma items_rd_Some:
  "rd_items rd n inp = Some (xs, rest) \<Longrightarrow> length xs = n \<and> list_all ok xs \<and> inp = wr_items wr xs @ rest"
  by (induction n arbitrary: inp xs) (auto simp: wr_items_def dest!: rd_Some)

end

sublocale codec \<subseteq> partial_codec "\<lambda>x. Some (wr x)" rd ok
  by unfold_locales (auto simp: rd_wr dest: rd_Some)

section \<open>The codecs of the serializer\<close>

lemma max_array_u64: "max_array < 2 ^ 64"
  by (simp add: max_array_def)

text \<open>The three narrow integers in one proof.\<close>

lemma unat_widen:
  fixes x :: "'a::len word"
  assumes "LENGTH('a) \<le> 64"
  shows "unat (ucast x :: u64) = unat x"
proof -
  have "(2 :: nat) ^ LENGTH('a) \<le> 2 ^ 64" using assms by (intro power_increasing) auto
  moreover have "unat x < 2 ^ LENGTH('a)" by (rule unsigned_less)
  ultimately have "unat x < 2 ^ 64" by linarith
  then show ?thesis by (simp add: unsigned_ucast_eq take_bit_nat_eq_self)
qed

lemma widen_narrow:
  fixes v :: u64
  assumes "unat v < 2 ^ LENGTH('a::len)" "LENGTH('a) \<le> 64"
  shows "ucast (ucast v :: 'a word) = v"
proof -
  have "unat (ucast v :: 'a word) = unat v" using assms(1) by (simp add: unsigned_ucast_eq take_bit_nat_eq_self)
  then show ?thesis using unat_widen [OF assms(2), of "ucast v"] by (simp add: word_unat_eq_iff)
qed

lemma narrow_widen:
  fixes x :: "'a::len word"
  assumes "LENGTH('a) \<le> 64"
  shows "ucast (ucast x :: u64) = x"
proof -
  have "unat x < 2 ^ LENGTH('a)" by (rule unsigned_less)
  then have "unat (ucast (ucast x :: u64) :: 'a word) = unat x"
    unfolding unsigned_ucast_eq [of "ucast x :: u64"] unat_widen [OF assms] by (rule take_bit_nat_eq_self)
  then show ?thesis by (rule word_unat_eq_iff [THEN iffD2])
qed

lemma codec_word:
  assumes "LENGTH('a::len) \<le> 64"
  shows "codec (\<lambda>v :: 'a word. writeVarint (ucast v)) (rbind (readVarint LENGTH('a)) (\<lambda>v. rret (ucast v))) any"
proof
  fix x :: "'a word" and suf
  have "unat (ucast x :: u64) < 2 ^ LENGTH('a)" unfolding unat_widen [OF assms] by (rule unsigned_less)
  then show "rbind (readVarint LENGTH('a)) (\<lambda>v. rret (ucast v)) (writeVarint (ucast x) @ suf) = Some (x, suf)"
    using assms by (auto simp: readVarint_write narrow_widen)
next
  fix inp rest and x :: "'a word"
  assume "rbind (readVarint LENGTH('a)) (\<lambda>v. rret (ucast v)) inp = Some (x, rest)"
  then obtain v where v: "readVarint LENGTH('a) inp = Some (v, rest)" "x = ucast v" by auto
  then show "any x \<and> inp = writeVarint (ucast x) @ rest"
    using readVarint_Some [OF v(1)] assms by (simp add: any_def widen_narrow)
qed

interpretation c_u8: codec wr_u8 rd_u8 any
  using codec_word [where ?'a = 8] by (simp add: wr_u8_def [abs_def] rd_u8_def)

interpretation c_u16: codec wr_u16 rd_u16 any
  using codec_word [where ?'a = 16] by (simp add: wr_u16_def [abs_def] rd_u16_def)

interpretation c_u32: codec wr_u32 rd_u32 any
  using codec_word [where ?'a = 32] by (simp add: wr_u32_def [abs_def] rd_u32_def)

interpretation c_u64: codec wr_u64 rd_u64 any
  using readVarint_Some(1) [of 64] unat_u64_bound
  by unfold_locales (auto simp: rd_u64_def wr_u64_def any_def readVarint_write)

lemma unat_of_nat_size: "n \<le> max_array \<Longrightarrow> unat (of_nat n :: u64) = n"
  using max_array_u64 by (simp add: unat_of_nat take_bit_nat_eq_self unsigned_of_nat)

interpretation c_size: codec wr_size rd_size "\<lambda>n. n \<le> max_array"
proof unfold_locales
  fix n suf
  assume n: "n \<le> max_array"
  have "readVarint 64 (writeVarint (of_nat n) @ suf) = Some (of_nat n, suf)"
    using unat_u64_bound by (intro readVarint_write) auto
  then show "rd_size (wr_size n @ suf) = Some (n, suf)"
    using n by (simp add: rd_size_def wr_size_def rbind_def unat_of_nat_size)
next
  fix inp n rest
  assume "rd_size inp = Some (n, rest)"
  then obtain v where v: "readVarint 64 inp = Some (v, rest)" "n = unat v" "n \<le> max_array"
    by (auto simp: rd_size_def split: if_splits)
  then show "n \<le> max_array \<and> inp = wr_size n @ rest"
    using readVarint_Some(1) [OF v(1)] by (simp add: wr_size_def)
qed

interpretation pod: codec "\<lambda>b. b" "read_bytes n" "sized n" for n
  by unfold_locales (auto simp: read_bytes_def sized_def split: if_splits)

interpretation c_string: codec wr_string rd_string "bounded any"
proof unfold_locales
  fix s suf :: bytes
  assume "bounded any s"
  then have "rd_size (wr_size (length s) @ s @ suf) = Some (length s, s @ suf)"
    by (intro c_size.rd_wr) (simp add: bounded_def)
  then show "rd_string (wr_string s @ suf) = Some (s, suf)"
    by (auto simp: rd_string_def wr_string_def read_bytes_def)
next
  fix inp s rest :: bytes
  assume "rd_string inp = Some (s, rest)"
  then obtain n mid where "rd_size inp = Some (n, mid)" "read_bytes n mid = Some (s, rest)"
    by (auto simp: rd_string_def)
  then have "n \<le> max_array \<and> inp = wr_size n @ mid" "length s = n \<and> mid = s @ rest"
    by (auto dest: c_size.rd_Some pod.rd_Some simp: sized_def)
  then show "bounded any s \<and> inp = wr_string s @ rest"
    by (auto simp: bounded_def wr_string_def any_def list_all_iff)
qed

text \<open>A codec of the elements gives one of the vectors of them.\<close>

lemma codec_vector:
  assumes "codec w r ok"
  shows "codec (wr_vector w) (rd_vector r) (bounded ok)"
proof
  fix xs suf
  assume xs: "bounded ok xs"
  then have "rd_size (wr_size (length xs) @ wr_items w xs @ suf) = Some (length xs, wr_items w xs @ suf)"
    by (intro c_size.rd_wr) (simp add: bounded_def)
  moreover have "rd_items r (length xs) (wr_items w xs @ suf) = Some (xs, suf)"
    using xs codec.items_rd_wr [OF assms] by (simp add: bounded_def)
  ultimately show "rd_vector r (wr_vector w xs @ suf) = Some (xs, suf)"
    by (auto simp: rd_vector_def wr_vector_def)
next
  fix inp xs rest
  assume "rd_vector r inp = Some (xs, rest)"
  then obtain n mid where "rd_size inp = Some (n, mid)" "rd_items r n mid = Some (xs, rest)"
    by (auto simp: rd_vector_def)
  then have "n \<le> max_array \<and> inp = wr_size n @ mid"
      "length xs = n \<and> list_all ok xs \<and> mid = wr_items w xs @ rest"
    by (auto dest: c_size.rd_Some codec.items_rd_Some [OF assms])
  then show "bounded ok xs \<and> inp = wr_vector w xs @ rest"
    by (auto simp: bounded_def wr_vector_def)
qed

interpretation c_indexes: codec "wr_vector wr_u32" "rd_vector rd_u32" "bounded any"
  by (rule codec_vector) (rule c_u32.codec_axioms)

interpretation c_pods: codec "wr_vector (\<lambda>b. b)" "rd_vector (read_bytes n)" "bounded (sized n)" for n
  by (rule codec_vector) (rule pod.codec_axioms)

end
