(* ===== verification/Chacha8.thy ===== *)
theory Chacha8
  imports Fuego_Prelude
begin

text \<open>
  The ChaCha8 stream cipher, \<open>src/src/crypto/chacha8.c\<close>, which encrypts deposit secrets and messages in transactions
  and the wallet files. The sixteen words \<open>j0\<close> to \<open>j15\<close> and \<open>x0\<close> to \<open>x15\<close> are lists; the block loop is a recursion on
  the data left. A short last block is worked on in \<open>tmp\<close>, whose bytes behind the data the source does not initialise:
  they are zeros here, and the theorem shows that none of them reaches the output.

  Shown here: the cipher is the exclusive or with a key stream that depends on the key and the nonce only, so
  applying it twice gives the data back, for data of any length.
\<close>

unbundle bit_operations_syntax

section \<open>Definitions\<close>

definition U8TO32_LITTLE :: "bytes \<Rightarrow> nat \<Rightarrow> u32" where
  "U8TO32_LITTLE p k =
     ucast (p ! k) OR push_bit 8 (ucast (p ! (k + 1))) OR push_bit 16 (ucast (p ! (k + 2)))
       OR push_bit 24 (ucast (p ! (k + 3)))"

definition U32TO8_LITTLE :: "u32 \<Rightarrow> bytes" where
  "U32TO8_LITTLE v = [ucast v, ucast (drop_bit 8 v), ucast (drop_bit 16 v), ucast (drop_bit 24 v)]"

definition rol32 :: "u32 \<Rightarrow> nat \<Rightarrow> u32" where
  "rol32 x r = push_bit (r mod 32) x OR drop_bit ((32 - r mod 32) mod 32) x"

definition QUARTERROUND :: "nat \<Rightarrow> nat \<Rightarrow> nat \<Rightarrow> nat \<Rightarrow> u32 list \<Rightarrow> u32 list" where
  "QUARTERROUND a b c d x =
     (let x = x[a := x ! a + x ! b];
          x = x[d := rol32 (x ! d XOR x ! a) 16];
          x = x[c := x ! c + x ! d];
          x = x[b := rol32 (x ! b XOR x ! c) 12];
          x = x[a := x ! a + x ! b];
          x = x[d := rol32 (x ! d XOR x ! a) 8];
          x = x[c := x ! c + x ! d];
          x = x[b := rol32 (x ! b XOR x ! c) 7]
      in x)"

definition double_round :: "u32 list \<Rightarrow> u32 list" where
  "double_round x =
     (let x = QUARTERROUND 0 4 8 12 x;
          x = QUARTERROUND 1 5 9 13 x;
          x = QUARTERROUND 2 6 10 14 x;
          x = QUARTERROUND 3 7 11 15 x;
          x = QUARTERROUND 0 5 10 15 x;
          x = QUARTERROUND 1 6 11 12 x;
          x = QUARTERROUND 2 7 8 13 x
      in QUARTERROUND 3 4 9 14 x)"

text \<open>\<open>for (i = 8; i > 0; i -= 2)\<close>, then the words of the input are added.\<close>

fun chacha_rounds :: "nat \<Rightarrow> u32 list \<Rightarrow> u32 list" where
  "chacha_rounds 0 x = x"
| "chacha_rounds (Suc n) x = chacha_rounds n (double_round x)"

definition chacha_block :: "u32 list \<Rightarrow> u32 list" where
  "chacha_block j = (let x = chacha_rounds 4 j in map (\<lambda>i. x ! i + j ! i) [0..<16])"

definition sigma :: bytes where
  "sigma = str_bytes ''expand 32-byte k''"

definition chacha_init :: "bytes \<Rightarrow> bytes \<Rightarrow> u32 list" where
  "chacha_init key iv =
     map (U8TO32_LITTLE sigma) [0, 4, 8, 12] @ map (U8TO32_LITTLE key) [0, 4, 8, 12, 16, 20, 24, 28] @
     [0, 0] @ map (U8TO32_LITTLE iv) [0, 4]"

definition next_counter :: "u32 list \<Rightarrow> u32 list" where
  "next_counter j =
     (let j = j[12 := j ! 12 + 1] in if j ! 12 = 0 then j[13 := j ! 13 + 1] else j)"

definition xor_words :: "u32 list \<Rightarrow> bytes \<Rightarrow> bytes" where
  "xor_words x data = concat (map (\<lambda>i. U32TO8_LITTLE (x ! i XOR U8TO32_LITTLE data (4 * i))) [0..<16])"

function chacha8_loop :: "u32 list \<Rightarrow> bytes \<Rightarrow> bytes" where
  "chacha8_loop j data =
     (let len = length data;
          data' = (if len < 64 then data @ replicate (64 - len) 0 else data);
          cipher = xor_words (chacha_block j) data'
      in if len \<le> 64 then take len cipher
         else cipher @ chacha8_loop (next_counter j) (drop 64 data))"
  by pat_completeness auto
termination
  by (relation "measure (length \<circ> snd)") auto

declare chacha8_loop.simps [simp del]

definition chacha8 :: "bytes \<Rightarrow> bytes \<Rightarrow> bytes \<Rightarrow> bytes" where
  "chacha8 data key iv = (if data = [] then [] else chacha8_loop (chacha_init key iv) data)"

text \<open>The key stream: the blocks for the counters in turn.\<close>

definition stream_block :: "u32 list \<Rightarrow> bytes" where
  "stream_block j = concat (map (\<lambda>i. U32TO8_LITTLE (chacha_block j ! i)) [0..<16])"

fun key_stream :: "nat \<Rightarrow> u32 list \<Rightarrow> bytes" where
  "key_stream 0 j = []"
| "key_stream (Suc n) j = stream_block j @ key_stream n (next_counter j)"

section \<open>The cipher is a key stream\<close>

lemma U32TO8_xor:
  "U32TO8_LITTLE (w XOR U8TO32_LITTLE p k) =
     map2 (XOR) (U32TO8_LITTLE w) [p ! k, p ! (k + 1), p ! (k + 2), p ! (k + 3)]"
proof -
  have "(ucast (drop_bit (8 * i) (U8TO32_LITTLE p k)) :: u8) = p ! (k + i)" if "i < 4" for i
  proof (rule bit_word_eqI)
    fix n assume "n < LENGTH(8)"
    then have n: "n < 8" by simp
    have "\<And>m b. 8 \<le> m \<Longrightarrow> \<not> bit (b :: u8) m" using bit_imp_le_length by force
    moreover have "i = 0 \<or> i = 1 \<or> i = 2 \<or> i = 3" using that by auto
    ultimately show "bit (ucast (drop_bit (8 * i) (U8TO32_LITTLE p k)) :: u8) n = bit (p ! (k + i)) n"
      using n unfolding U8TO32_LITTLE_def by (elim disjE) (auto simp: bit_simps)
  qed
  from this [of 0] this [of 1] this [of 2] this [of 3] show ?thesis
    by (simp add: U32TO8_LITTLE_def drop_bit_xor unsigned_xor_eq)
qed

lemma length_U32TO8 [simp]: "length (U32TO8_LITTLE v) = 4"
  by (simp add: U32TO8_LITTLE_def)

lemma length_words: "length (concat (map (\<lambda>i. U32TO8_LITTLE (f i)) [0..<m])) = 4 * m"
  by (induction m) simp_all

lemma xor_blocks:
  assumes "4 * m \<le> length data"
  shows "concat (map (\<lambda>i. U32TO8_LITTLE (f i XOR U8TO32_LITTLE data (4 * i))) [0..<m]) =
    map2 (XOR) (concat (map (\<lambda>i. U32TO8_LITTLE (f i)) [0..<m])) (take (4 * m) data)"
  using assms
proof (induction m)
  case 0
  show ?case by simp
next
  case (Suc m)
  have d: "take (4 * Suc m) data =
      take (4 * m) data @ [data ! (4 * m), data ! (4 * m + 1), data ! (4 * m + 2), data ! (4 * m + 3)]"
  proof -
    have "take (4 * Suc m) data = take (4 * m) data @ take 4 (drop (4 * m) data)"
      by (simp add: take_add [of "4 * m" 4 data, symmetric] add.commute)
    moreover have "take 4 (drop (4 * m) data) = map (\<lambda>i. data ! (4 * m + i)) [0..<4]"
      using Suc.prems by (intro nth_equalityI) auto
    ultimately show ?thesis by (simp add: upt_rec numeral_3_eq_3)
  qed
  show ?case
    using Suc unfolding d by (simp add: U32TO8_xor zip_append length_words)
qed

lemma xor_words_stream:
  assumes "64 \<le> length data"
  shows "xor_words (chacha_block j) data = map2 (XOR) (stream_block j) (take 64 data)"
  using xor_blocks [of 16 data "(!) (chacha_block j)"] assms by (simp add: xor_words_def stream_block_def)

lemma length_stream_block [simp]: "length (stream_block j) = 64"
  by (simp add: stream_block_def length_words)

lemma map2_xor_commute: "map2 (XOR) a b = map2 (XOR) b (a :: bytes)"
  by (rule nth_equalityI) (auto simp: xor.commute)

lemma chacha8_loop_stream:
  assumes "data \<noteq> []"
  shows "chacha8_loop j data = map2 (XOR) data (key_stream ((length data + 63) div 64) j)"
  using assms
proof (induction "length data" arbitrary: j data rule: less_induct)
  case less
  let ?n = "length data"
  show ?case
  proof (cases "?n \<le> 64")
    case True
    define pad :: bytes where "pad = data @ replicate (64 - ?n) 0"
    have "?n + 63 < 2 * 64" "64 \<le> ?n + 63" using True less.prems by (auto simp: Suc_le_eq)
    then have "(?n + 63) div 64 = Suc 0" by (intro div_nat_eqI) auto
    then have k: "key_stream ((?n + 63) div 64) j = stream_block j" by simp
    have "chacha8_loop j data = take ?n (xor_words (chacha_block j) pad)"
      using True by (subst chacha8_loop.simps) (auto simp: Let_def pad_def)
    also have "\<dots> = take ?n (map2 (XOR) (stream_block j) pad)"
      using True by (simp add: xor_words_stream pad_def)
    also have "\<dots> = map2 (XOR) data (stream_block j)"
      using True by (intro nth_equalityI) (auto simp: pad_def nth_append xor.commute)
    finally show ?thesis by (simp add: k)
  next
    case False
    have rest: "drop 64 data \<noteq> []" "length (drop 64 data) < ?n" using False by auto
    have "?n + 63 = (length (drop 64 data) + 63) + 64" using False by simp
    then have n: "(?n + 63) div 64 = Suc ((length (drop 64 data) + 63) div 64)" by simp
    have "chacha8_loop j data = map2 (XOR) (stream_block j) (take 64 data) @ chacha8_loop (next_counter j) (drop 64 data)"
      using False by (subst chacha8_loop.simps) (simp add: Let_def xor_words_stream)
    also have "\<dots> = map2 (XOR) (take 64 data) (stream_block j) @
        map2 (XOR) (drop 64 data) (key_stream ((length (drop 64 data) + 63) div 64) (next_counter j))"
      using less.hyps [OF rest(2,1)] by (simp add: map2_xor_commute [of "stream_block j"])
    also have "\<dots> = map2 (XOR) (take 64 data @ drop 64 data) (key_stream ((?n + 63) div 64) j)"
      using False unfolding n by (subst key_stream.simps, subst zip_append) auto
    finally show ?thesis by simp
  qed
qed

lemma length_key_stream [simp]: "length (key_stream n j) = 64 * n"
  by (induction n arbitrary: j) simp_all

lemma chacha8_map2:
  "chacha8 data key iv = map2 (XOR) data (key_stream ((length data + 63) div 64) (chacha_init key iv))"
  by (simp add: chacha8_def chacha8_loop_stream)

lemma stream_covers: "(n :: nat) \<le> 64 * ((n + 63) div 64)"
  by presburger

lemma length_chacha8 [simp]: "length (chacha8 data key iv) = length data"
  using stream_covers [of "length data"] by (simp add: chacha8_map2)

lemma chacha8_twice: "chacha8 (chacha8 data key iv) key iv = data"
proof -
  have "length data \<le> 64 * ((length data + 63) div 64)" by (rule stream_covers)
  then show ?thesis
    unfolding chacha8_map2 [of "chacha8 data key iv"] length_chacha8
    by (intro nth_equalityI) (auto simp: chacha8_map2 xor.assoc)
qed

section \<open>The property\<close>

text \<open>
  C37: \<open>chacha8\<close> is a stream cipher: its output has the length of the data and is the data combined by exclusive or with
  the key stream of the key and the nonce, block after block; so a second application under the same key and
  nonce gives back data of any length.
\<close>

theorem chacha8_stream_cipher:
  "length (chacha8 data key iv) = length data \<and>
   chacha8 data key iv = map2 (XOR) data (key_stream ((length data + 63) div 64) (chacha_init key iv)) \<and>
   chacha8 (chacha8 data key iv) key iv = data"
  using chacha8_map2 chacha8_twice by simp

end
