(* ===== verification/Extra_Fields.thy ===== *)
theory Extra_Fields
  imports Binary_Streams
begin

text \<open>
  The fields of a transaction's extra bytes, \<open>src/src/CryptoNoteCore/TransactionExtra.h\<close> and \<open>ProofStructures.h\<close>, and
  how \<open>TransactionExtra.cpp\<close> writes each of them and reads each of them back. A writer gives the bytes that are
  appended; a reader works on the bytes behind the tag. Lengths are written in one byte or in four bytes without a
  check that they fit, as in the source. \<open>std::string\<close> is \<open>string\<close>, vectors of bytes are \<open>bytes\<close>.

  Shown here: the little-endian integers and the length-prefixed byte arrays are codecs, and each reader gives back
  what the writer of its field wrote.
\<close>

section \<open>Data\<close>

datatype ElderfierConsensusType = QUORUM | PROOF | WITNESS

record TransactionExtraHeatCommitment =
  hc_commitment :: hash
  hc_amount :: u64
  hc_metadata :: bytes

record TransactionExtraYieldCommitment =
  yc_commitment :: hash
  yc_amount :: u64
  yc_term :: u32
  yc_metadata :: bytes
  yc_claimChainCode :: u8
  yc_CIAId :: string
  yc_gift_secret :: bytes

record TransactionExtraElderfierDeposit =
  ed_depositHash :: hash
  ed_depositAmount :: u64
  ed_elderfierCommitment :: hash
  ed_securityWindow :: u32
  ed_metadata :: bytes
  ed_signature :: bytes
  ed_isSlashable :: bool

record TransactionExtraElderfierMessage =
  em_senderKey :: public_key
  em_recipientKey :: public_key
  em_messageType :: u32
  em_timestamp :: u64
  em_messageData :: bytes
  em_signature :: bytes
  em_consensusRequired :: bool
  em_consensusType :: ElderfierConsensusType
  em_requiredThreshold :: u32
  em_targetDepositHash :: hash

record TransactionExtraAliasRegistration =
  ar_version :: u8
  ar_alias :: string
  ar_aliasHash :: hash
  ar_addressHash :: hash
  ar_ownerAddress :: string
  ar_aliasType :: u8

record TransactionExtraColdCommitment =
  cc_commitment :: hash
  cc_amount :: u64
  cc_term :: u32
  cc_metadata :: bytes
  cc_claimChainCode :: u8
  cc_gift_secret :: bytes

record TransactionExtraColdMigration =
  cm_originalTxHash :: hash
  cm_commitment :: hash
  cm_amount :: u64
  cm_term :: u32
  cm_claimChainCode :: u8

record TransactionExtraBurnReceipt =
  br_proof_pubkey :: public_key
  br_tx_hash :: string
  br_timestamp :: u64

record TransactionExtraDepositReceipt =
  dr_proof_pubkey :: public_key
  dr_tx_hash :: string
  dr_timestamp :: u64
  dr_term :: u32
  dr_deposit_type :: string

datatype TransactionExtraField =
    TransactionExtraPadding nat
  | TransactionExtraPublicKey public_key
  | TransactionExtraNonce bytes
  | TransactionExtraMergeMiningTag u64 hash
  | tx_extra_message bytes
  | TransactionExtraTTL u64
  | ExtraElderfierDeposit TransactionExtraElderfierDeposit
  | ExtraElderfierMessage TransactionExtraElderfierMessage
  | ExtraAliasRegistration TransactionExtraAliasRegistration
  | ExtraHeatCommitment TransactionExtraHeatCommitment
  | ExtraYieldCommitment TransactionExtraYieldCommitment
  | ExtraColdCommitment TransactionExtraColdCommitment
  | ExtraColdMigration TransactionExtraColdMigration
  | ExtraBurnReceipt TransactionExtraBurnReceipt
  | ExtraDepositReceipt TransactionExtraDepositReceipt

definition TX_EXTRA_PADDING_MAX_COUNT :: nat where
  "TX_EXTRA_PADDING_MAX_COUNT = 255"

definition TX_EXTRA_NONCE_MAX_COUNT :: nat where
  "TX_EXTRA_NONCE_MAX_COUNT = 255"

section \<open>Integers and byte arrays\<close>

definition bytes_str :: "bytes \<Rightarrow> string" where
  "bytes_str b = map (\<lambda>x. char_of (unat x)) b"

text \<open>\<open>read<uint8_t>(iss)\<close>.\<close>

fun rd_byte :: "u8 reader" where
  "rd_byte [] = None"
| "rd_byte (b # rest) = Some (b, rest)"

text \<open>The loops \<open>v |= static_cast<uintN_t>(read<uint8_t>(iss)) << (i * 8)\<close> and
  \<open>push_back(static_cast<uint8_t>(v & 0xFF)); v >>= 8\<close>.\<close>

fun rd_le_loop :: "nat \<Rightarrow> nat \<Rightarrow> 'a::len word \<Rightarrow> 'a word reader" where
  "rd_le_loop i 0 v = rret v"
| "rd_le_loop i (Suc n) v = rbind rd_byte (\<lambda>b. rd_le_loop (i + 1) n (v OR push_bit (8 * i) (ucast b)))"

definition rd_le64 :: "u64 reader" where
  "rd_le64 = rd_le_loop 0 8 0"

definition rd_le32 :: "u32 reader" where
  "rd_le32 = rd_le_loop 0 4 0"

fun wr_le :: "nat \<Rightarrow> 'a::len word \<Rightarrow> bytes" where
  "wr_le 0 v = []"
| "wr_le (Suc n) v = ucast (v AND 0xFF) # wr_le n (drop_bit 8 v)"

definition wr_le64 :: "u64 \<Rightarrow> bytes" where
  "wr_le64 v = wr_le 8 v"

definition wr_le32 :: "u32 \<Rightarrow> bytes" where
  "wr_le32 v = wr_le 4 v"

text \<open>An array behind a length of one byte: a length that is a multiple of 256 is written as 0, and then no data
  follow. The asset name of a yield commitment follows its length byte in any case.\<close>

definition rd_blob8 :: "bytes reader" where
  "rd_blob8 = rbind rd_byte (\<lambda>n. read_bytes (unat n))"

definition wr_blob8 :: "bytes \<Rightarrow> bytes" where
  "wr_blob8 b = (let n = of_nat (length b) :: u8 in n # (if n = 0 then [] else b))"

definition wr_name8 :: "bytes \<Rightarrow> bytes" where
  "wr_name8 b = (of_nat (length b) :: u8) # b"

text \<open>An array behind a length of four bytes.\<close>

definition rd_blob32 :: "bytes reader" where
  "rd_blob32 = rbind rd_le32 (\<lambda>n. read_bytes (unat n))"

definition wr_blob32 :: "bytes \<Rightarrow> bytes" where
  "wr_blob32 b = wr_le32 (of_nat (length b)) @ b"

text \<open>In the receipts the length loop also stops at the end of the extra bytes,
  \<open>for (i = 0; i < 4 && pos < tx_extra.size(); ++i, ++pos)\<close>, behind a check that a byte is left.\<close>

fun rd_len_loop :: "nat \<Rightarrow> nat \<Rightarrow> u32 \<Rightarrow> u32 reader" where
  "rd_len_loop i 0 v inp = Some (v, inp)"
| "rd_len_loop i (Suc n) v [] = Some (v, [])"
| "rd_len_loop i (Suc n) v (b # rest) = rd_len_loop (i + 1) n (v OR push_bit (8 * i) (ucast b)) rest"

definition rd_receipt_string :: "string reader" where
  "rd_receipt_string inp =
     (if inp = [] then None
      else rbind (rd_len_loop 0 4 0) (\<lambda>n. rbind (read_bytes (unat n)) (\<lambda>b. rret (bytes_str b))) inp)"

section \<open>Readers\<close>

text \<open>The zeros behind the tag of a padding: \<open>size\<close> counts the tag too.\<close>

fun padding_loop :: "nat \<Rightarrow> nat reader" where
  "padding_loop size' [] = Some (size', [])"
| "padding_loop size' (b # rest) =
     (if size' \<le> TX_EXTRA_PADDING_MAX_COUNT
      then if b \<noteq> 0 then None else padding_loop (size' + 1) rest
      else Some (size', b # rest))"

definition rd_padding :: "nat reader" where
  "rd_padding = rbind (padding_loop 1)
     (\<lambda>size'. if TX_EXTRA_PADDING_MAX_COUNT < size' then rfail else rret size')"

text \<open>The merge-mining tag is a string that holds the depth and the root; bytes behind them are ignored.\<close>

definition rd_mm_fields :: "(u64 \<times> hash) reader" where
  "rd_mm_fields = rbind rd_u64 (\<lambda>depth. rbind (read_bytes 32) (\<lambda>root. rret (depth, root)))"

definition rd_mm_tag :: "(u64 \<times> hash) reader" where
  "rd_mm_tag = rbind rd_string
     (\<lambda>field. case rd_mm_fields field of None \<Rightarrow> rfail | Some (tag, _) \<Rightarrow> rret tag)"

definition rd_ttl :: "u64 reader" where
  "rd_ttl = rbind (readVarint 8) (\<lambda>size'. readVarint 64)"

definition rd_elderfier_deposit :: "TransactionExtraElderfierDeposit reader" where
  "rd_elderfier_deposit =
     rbind (read_bytes 32) (\<lambda>depositHash. rbind rd_le64 (\<lambda>amount. rbind (read_bytes 32) (\<lambda>commitment.
     rbind rd_le32 (\<lambda>window. rbind rd_blob32 (\<lambda>metadata. rbind rd_blob32 (\<lambda>sig. rbind rd_byte (\<lambda>slashable.
     rret \<lparr>ed_depositHash = depositHash, ed_depositAmount = amount, ed_elderfierCommitment = commitment,
       ed_securityWindow = window, ed_metadata = metadata, ed_signature = sig, ed_isSlashable = slashable \<noteq> 0\<rparr>)))))))"

text \<open>The consensus members of a message are not read: they keep what the object \<open>mem\<close> had.\<close>

definition rd_elderfier_message :: "TransactionExtraElderfierMessage \<Rightarrow> TransactionExtraElderfierMessage reader" where
  "rd_elderfier_message mem =
     rbind (read_bytes 32) (\<lambda>sender. rbind (read_bytes 32) (\<lambda>recipient. rbind rd_le32 (\<lambda>mtype.
     rbind rd_le64 (\<lambda>timestamp. rbind rd_blob32 (\<lambda>data. rbind rd_blob32 (\<lambda>sig.
     rret (mem\<lparr>em_senderKey := sender, em_recipientKey := recipient, em_messageType := mtype,
       em_timestamp := timestamp, em_messageData := data, em_signature := sig\<rparr>)))))))"

definition rd_str :: "string reader" where
  "rd_str = rbind rd_string (\<lambda>b. rret (bytes_str b))"

text \<open>\<open>TransactionExtraAliasRegistration::serialize\<close> from a stream.\<close>

definition rd_alias :: "TransactionExtraAliasRegistration reader" where
  "rd_alias =
     rbind rd_u8 (\<lambda>version. rbind rd_str (\<lambda>alias. rbind (read_bytes 32) (\<lambda>aliasHash.
     rbind (read_bytes 32) (\<lambda>addressHash. rbind rd_str (\<lambda>ownerAddress. rbind rd_u8 (\<lambda>aliasType.
     rret \<lparr>ar_version = version, ar_alias = alias, ar_aliasHash = aliasHash, ar_addressHash = addressHash,
       ar_ownerAddress = ownerAddress, ar_aliasType = aliasType\<rparr>))))))"

text \<open>\<open>fromBinaryArray\<close>: all bytes must be consumed.\<close>

definition fromBinaryArray :: "'a reader \<Rightarrow> bytes \<Rightarrow> 'a option" where
  "fromBinaryArray r binaryArray =
     (case r binaryArray of Some (x, rest) \<Rightarrow> if rest = [] then Some x else None | None \<Rightarrow> None)"

definition rd_alias_field :: "TransactionExtraAliasRegistration reader" where
  "rd_alias_field = rbind (readVarint 64) (\<lambda>aliasDataSize.
     if 0 < aliasDataSize \<and> aliasDataSize \<le> 1024
     then rbind (read_bytes (unat aliasDataSize))
       (\<lambda>ba. case fromBinaryArray rd_alias ba of None \<Rightarrow> rfail | Some alias \<Rightarrow> rret alias)
     else rfail)"

definition rd_heat_commitment :: "TransactionExtraHeatCommitment reader" where
  "rd_heat_commitment =
     rbind (read_bytes 32) (\<lambda>commitment. rbind rd_le64 (\<lambda>amount. rbind rd_blob8 (\<lambda>metadata.
     rret \<lparr>hc_commitment = commitment, hc_amount = amount, hc_metadata = metadata\<rparr>)))"

definition rd_yield_commitment :: "TransactionExtraYieldCommitment reader" where
  "rd_yield_commitment =
     rbind (read_bytes 32) (\<lambda>commitment. rbind rd_le64 (\<lambda>amount. rbind rd_le32 (\<lambda>term. rbind rd_byte (\<lambda>chain.
     rbind rd_blob8 (\<lambda>cia. rbind rd_blob8 (\<lambda>metadata. rbind rd_blob8 (\<lambda>gift.
     rret \<lparr>yc_commitment = commitment, yc_amount = amount, yc_term = term, yc_metadata = metadata,
       yc_claimChainCode = chain, yc_CIAId = bytes_str cia, yc_gift_secret = gift\<rparr>)))))))"

definition rd_cold_commitment :: "TransactionExtraColdCommitment reader" where
  "rd_cold_commitment =
     rbind (read_bytes 32) (\<lambda>commitment. rbind rd_le64 (\<lambda>amount. rbind rd_le32 (\<lambda>term. rbind rd_byte (\<lambda>chain.
     rbind rd_blob8 (\<lambda>metadata. rbind rd_blob8 (\<lambda>gift.
     rret \<lparr>cc_commitment = commitment, cc_amount = amount, cc_term = term, cc_metadata = metadata,
       cc_claimChainCode = chain, cc_gift_secret = gift\<rparr>))))))"

definition rd_cold_migration :: "TransactionExtraColdMigration reader" where
  "rd_cold_migration =
     rbind (read_bytes 32) (\<lambda>originalTxHash. rbind (read_bytes 32) (\<lambda>commitment. rbind rd_le64 (\<lambda>amount.
     rbind rd_le32 (\<lambda>term. rbind rd_byte (\<lambda>chain.
     rret \<lparr>cm_originalTxHash = originalTxHash, cm_commitment = commitment, cm_amount = amount, cm_term = term,
       cm_claimChainCode = chain\<rparr>)))))"

text \<open>The receipts are read from the start of the whole extra, which must begin with their tag.\<close>

definition getBurnReceiptFromExtra :: "bytes \<Rightarrow> TransactionExtraBurnReceipt option" where
  "getBurnReceiptFromExtra tx_extra =
     (if tx_extra = [] \<or> tx_extra ! 0 \<noteq> 0x18 then None
      else map_option fst (rbind (read_bytes 32) (\<lambda>proof_pubkey. rbind rd_receipt_string (\<lambda>tx_hash.
        rbind rd_le64 (\<lambda>timestamp.
        rret \<lparr>br_proof_pubkey = proof_pubkey, br_tx_hash = tx_hash, br_timestamp = timestamp\<rparr>))) (tl tx_extra)))"

definition getDepositReceiptFromExtra :: "bytes \<Rightarrow> TransactionExtraDepositReceipt option" where
  "getDepositReceiptFromExtra tx_extra =
     (if tx_extra = [] \<or> tx_extra ! 0 \<noteq> 0x69 then None
      else map_option fst (rbind (read_bytes 32) (\<lambda>proof_pubkey. rbind rd_receipt_string (\<lambda>tx_hash.
        rbind rd_le64 (\<lambda>timestamp. rbind rd_le32 (\<lambda>term. rbind rd_receipt_string (\<lambda>deposit_type.
        rret \<lparr>dr_proof_pubkey = proof_pubkey, dr_tx_hash = tx_hash, dr_timestamp = timestamp, dr_term = term,
          dr_deposit_type = deposit_type\<rparr>))))) (tl tx_extra)))"

section \<open>Writers\<close>

definition wr_elderfier_deposit :: "TransactionExtraElderfierDeposit \<Rightarrow> bytes" where
  "wr_elderfier_deposit d =
     ed_depositHash d @ wr_le64 (ed_depositAmount d) @ ed_elderfierCommitment d @ wr_le32 (ed_securityWindow d) @
     wr_blob32 (ed_metadata d) @ wr_blob32 (ed_signature d) @ [if ed_isSlashable d then 1 else 0]"

definition wr_elderfier_message :: "TransactionExtraElderfierMessage \<Rightarrow> bytes" where
  "wr_elderfier_message m =
     em_senderKey m @ em_recipientKey m @ wr_le32 (em_messageType m) @ wr_le64 (em_timestamp m) @
     wr_blob32 (em_messageData m) @ wr_blob32 (em_signature m)"

definition wr_alias :: "TransactionExtraAliasRegistration \<Rightarrow> bytes" where
  "wr_alias r =
     wr_u8 (ar_version r) @ wr_string (str_bytes (ar_alias r)) @ ar_aliasHash r @ ar_addressHash r @
     wr_string (str_bytes (ar_ownerAddress r)) @ wr_u8 (ar_aliasType r)"

definition wr_heat_commitment :: "TransactionExtraHeatCommitment \<Rightarrow> bytes" where
  "wr_heat_commitment c = hc_commitment c @ wr_le64 (hc_amount c) @ wr_blob8 (hc_metadata c)"

definition wr_yield_commitment :: "TransactionExtraYieldCommitment \<Rightarrow> bytes" where
  "wr_yield_commitment c =
     yc_commitment c @ wr_le64 (yc_amount c) @ wr_le32 (yc_term c) @ [yc_claimChainCode c] @
     wr_name8 (str_bytes (yc_CIAId c)) @ wr_blob8 (yc_metadata c) @ wr_blob8 (yc_gift_secret c)"

definition wr_cold_commitment :: "TransactionExtraColdCommitment \<Rightarrow> bytes" where
  "wr_cold_commitment c =
     cc_commitment c @ wr_le64 (cc_amount c) @ wr_le32 (cc_term c) @ [cc_claimChainCode c] @
     wr_blob8 (cc_metadata c) @ wr_blob8 (cc_gift_secret c)"

definition wr_cold_migration :: "TransactionExtraColdMigration \<Rightarrow> bytes" where
  "wr_cold_migration m =
     cm_originalTxHash m @ cm_commitment m @ wr_le64 (cm_amount m) @ wr_le32 (cm_term m) @ [cm_claimChainCode m]"

definition wr_burn_receipt :: "TransactionExtraBurnReceipt \<Rightarrow> bytes" where
  "wr_burn_receipt r = br_proof_pubkey r @ wr_blob32 (str_bytes (br_tx_hash r)) @ wr_le64 (br_timestamp r)"

definition wr_deposit_receipt :: "TransactionExtraDepositReceipt \<Rightarrow> bytes" where
  "wr_deposit_receipt r =
     dr_proof_pubkey r @ wr_blob32 (str_bytes (dr_tx_hash r)) @ wr_le64 (dr_timestamp r) @ wr_le32 (dr_term r) @
     wr_blob32 (str_bytes (dr_deposit_type r))"

definition wr_mm_tag :: "u64 \<Rightarrow> hash \<Rightarrow> bytes" where
  "wr_mm_tag depth root = wr_string (wr_u64 depth @ root)"

definition wr_ttl :: "u64 \<Rightarrow> bytes" where
  "wr_ttl ttl = (let ttlData = write_varint ttl in write_varint (of_nat (length ttlData)) @ ttlData)"

text \<open>\<open>TransactionExtraAliasRegistration::isValid\<close>.\<close>

definition alias_char :: "char \<Rightarrow> char \<Rightarrow> char \<Rightarrow> bool" where
  "alias_char lo hi c \<longleftrightarrow>
     (of_char lo \<le> (of_char c :: nat) \<and> of_char c \<le> (of_char hi :: nat)) \<or>
     (48 \<le> (of_char c :: nat) \<and> of_char c \<le> (57 :: nat)) \<or> c = CHR ''&''"

definition AliasRegistration_isValid :: "TransactionExtraAliasRegistration \<Rightarrow> bool" where
  "AliasRegistration_isValid r =
     (let alias = ar_alias r
      in if ar_aliasType r = 0 \<and> (alias = ''GALAPAGOS'' \<or> alias = ''WINSLAYER'' \<or> alias = ''LOUDMINING'') then True
         else if ar_aliasType r = 1 \<and> (alias = ''galapagos'' \<or> alias = ''winslayer'') then True
         else if length alias \<noteq> 8 then False
         else if ar_aliasType r = 0 then list_all (alias_char CHR ''A'' CHR ''Z'') alias
         else if ar_aliasType r = 1 then list_all (alias_char CHR ''a'' CHR ''z'') alias
         else False)"

text \<open>\<open>ExtraSerializerVisitor\<close>: the bytes a field appends; \<open>None\<close> where it returns false and appends nothing.\<close>

definition write_field :: "TransactionExtraField \<Rightarrow> bytes option" where
  "write_field f = (case f of
       TransactionExtraPadding n \<Rightarrow> if TX_EXTRA_PADDING_MAX_COUNT < n then None else Some (replicate n 0)
     | TransactionExtraPublicKey key \<Rightarrow> Some (0x01 # key)
     | TransactionExtraNonce nonce \<Rightarrow>
         if TX_EXTRA_NONCE_MAX_COUNT < length nonce then None else Some (0x02 # of_nat (length nonce) # nonce)
     | TransactionExtraMergeMiningTag depth root \<Rightarrow> Some (0x03 # wr_mm_tag depth root)
     | tx_extra_message data \<Rightarrow> Some (0x04 # wr_string data)
     | TransactionExtraTTL ttl \<Rightarrow> Some (0x05 # wr_ttl ttl)
     | ExtraElderfierDeposit d \<Rightarrow> Some (0xEF # wr_elderfier_deposit d)
     | ExtraElderfierMessage m \<Rightarrow> Some (0xEC # wr_elderfier_message m)
     | ExtraAliasRegistration r \<Rightarrow>
         if AliasRegistration_isValid r
         then Some (0xEA # write_varint (of_nat (length (wr_alias r))) @ wr_alias r) else None
     | ExtraHeatCommitment c \<Rightarrow> Some (0x08 # wr_heat_commitment c)
     | ExtraYieldCommitment c \<Rightarrow> Some (0x07 # wr_yield_commitment c)
     | ExtraColdCommitment c \<Rightarrow> Some (0xCD # wr_cold_commitment c)
     | ExtraColdMigration m \<Rightarrow> Some (0xCE # wr_cold_migration m)
     | ExtraBurnReceipt r \<Rightarrow> Some (0x18 # wr_burn_receipt r)
     | ExtraDepositReceipt r \<Rightarrow> Some (0x69 # wr_deposit_receipt r))"

text \<open>One turn of the loop of \<open>parseTransactionExtra\<close> behind the tag: \<open>None\<close> where it returns false; no field for a
  deposit secret, which is skipped, and for an unknown tag, which has no case. A receipt is taken from the start
  of the whole extra and consumes nothing.\<close>

definition parse_field ::
  "TransactionExtraElderfierMessage \<Rightarrow> bytes \<Rightarrow> u8 \<Rightarrow> TransactionExtraField option reader" where
  "parse_field mem extra c =
     (if c = 0x00 then rbind rd_padding (\<lambda>n. rret (Some (TransactionExtraPadding n)))
      else if c = 0x01 then rbind (read_bytes 32) (\<lambda>k. rret (Some (TransactionExtraPublicKey k)))
      else if c = 0x02 then rbind rd_blob8 (\<lambda>n. rret (Some (TransactionExtraNonce n)))
      else if c = 0x03 then rbind rd_mm_tag (\<lambda>(depth, root). rret (Some (TransactionExtraMergeMiningTag depth root)))
      else if c = 0x04 then rbind rd_string (\<lambda>data. rret (Some (tx_extra_message data)))
      else if c = 0x05 then rbind rd_ttl (\<lambda>ttl. rret (Some (TransactionExtraTTL ttl)))
      else if c = 0xEF then rbind rd_elderfier_deposit (\<lambda>d. rret (Some (ExtraElderfierDeposit d)))
      else if c = 0xEC then rbind (rd_elderfier_message mem) (\<lambda>m. rret (Some (ExtraElderfierMessage m)))
      else if c = 0xEA then rbind rd_alias_field (\<lambda>r. rret (Some (ExtraAliasRegistration r)))
      else if c = 0x08 then rbind rd_heat_commitment (\<lambda>h. rret (Some (ExtraHeatCommitment h)))
      else if c = 0x07 then rbind rd_yield_commitment (\<lambda>y. rret (Some (ExtraYieldCommitment y)))
      else if c = 0xCD then rbind rd_cold_commitment (\<lambda>h. rret (Some (ExtraColdCommitment h)))
      else if c = 0xCE then rbind rd_cold_migration (\<lambda>m. rret (Some (ExtraColdMigration m)))
      else if c = 0x18 then
           (case getBurnReceiptFromExtra extra of None \<Rightarrow> rfail | Some r \<Rightarrow> rret (Some (ExtraBurnReceipt r)))
      else if c = 0x69 then
           (case getDepositReceiptFromExtra extra of None \<Rightarrow> rfail | Some r \<Rightarrow> rret (Some (ExtraDepositReceipt r)))
      else if c = 0xD5 then rbind rd_blob8 (\<lambda>skipped. rret None)
      else rret None)"

section \<open>Predicates of the properties\<close>

text \<open>A reader never gives back more than it was given.\<close>

definition shrinking :: "'a reader \<Rightarrow> bool" where
  "shrinking r \<longleftrightarrow> (\<forall>inp x rest. r inp = Some (x, rest) \<longrightarrow> length rest \<le> length inp)"

text \<open>Fields whose sizes their encoding can carry. Padding is only read at the end of the extra, and receipts only
  at its start: they are not in this class.\<close>

definition wf_field :: "TransactionExtraField \<Rightarrow> bool" where
  "wf_field f = (case f of
       TransactionExtraPublicKey key \<Rightarrow> sized 32 key
     | TransactionExtraNonce nonce \<Rightarrow> length nonce \<le> TX_EXTRA_NONCE_MAX_COUNT
     | TransactionExtraMergeMiningTag depth root \<Rightarrow> sized 32 root
     | tx_extra_message data \<Rightarrow> length data \<le> max_array
     | TransactionExtraTTL ttl \<Rightarrow> True
     | ExtraElderfierDeposit d \<Rightarrow> sized 32 (ed_depositHash d) \<and> sized 32 (ed_elderfierCommitment d) \<and>
         length (ed_metadata d) < 2 ^ 32 \<and> length (ed_signature d) < 2 ^ 32
     | ExtraElderfierMessage m \<Rightarrow> sized 32 (em_senderKey m) \<and> sized 32 (em_recipientKey m) \<and>
         length (em_messageData m) < 2 ^ 32 \<and> length (em_signature m) < 2 ^ 32
     | ExtraAliasRegistration r \<Rightarrow> AliasRegistration_isValid r \<and> sized 32 (ar_aliasHash r) \<and>
         sized 32 (ar_addressHash r) \<and> length (wr_alias r) \<le> 1024
     | ExtraHeatCommitment c \<Rightarrow> sized 32 (hc_commitment c) \<and> length (hc_metadata c) < 256
     | ExtraYieldCommitment c \<Rightarrow> sized 32 (yc_commitment c) \<and> length (yc_CIAId c) < 256 \<and>
         length (yc_metadata c) < 256 \<and> length (yc_gift_secret c) < 256
     | ExtraColdCommitment c \<Rightarrow> sized 32 (cc_commitment c) \<and> length (cc_metadata c) < 256 \<and>
         length (cc_gift_secret c) < 256
     | ExtraColdMigration m \<Rightarrow> sized 32 (cm_originalTxHash m) \<and> sized 32 (cm_commitment m)
     | _ \<Rightarrow> False)"

text \<open>What a field is after the way over the wire: a message loses its consensus members.\<close>

definition received :: "TransactionExtraElderfierMessage \<Rightarrow> TransactionExtraField \<Rightarrow> TransactionExtraField" where
  "received mem f = (case f of
       ExtraElderfierMessage m \<Rightarrow> ExtraElderfierMessage (mem\<lparr>em_senderKey := em_senderKey m,
         em_recipientKey := em_recipientKey m, em_messageType := em_messageType m, em_timestamp := em_timestamp m,
         em_messageData := em_messageData m, em_signature := em_signature m\<rparr>)
     | _ \<Rightarrow> f)"

section \<open>Readers consume\<close>

named_theorems shrink "readers that never give back more than they were given"

lemma shrinkingD: "shrinking r \<Longrightarrow> r inp = Some (x, rest) \<Longrightarrow> length rest \<le> length inp"
  by (auto simp: shrinking_def)

lemma shrinking_rbind [shrink]:
  assumes "shrinking r" "\<And>x. shrinking (f x)"
  shows "shrinking (rbind r f)"
  unfolding shrinking_def using shrinkingD [OF assms(1)] shrinkingD [OF assms(2)] by (fastforce intro: order_trans)

lemma shrinking_basic [shrink]: "shrinking (rret x)" "shrinking rfail" "shrinking rd_byte" "shrinking (read_bytes n)"
  by (auto simp: shrinking_def read_bytes_def elim!: rd_byte.elims split: if_splits)

lemma codec_shrinking: "codec w r ok \<Longrightarrow> shrinking r"
  by (auto simp: shrinking_def dest: codec.rd_Some)

lemma shrinking_varint [shrink]: "0 < w \<Longrightarrow> w \<le> 64 \<Longrightarrow> shrinking (readVarint w)"
  by (auto simp: shrinking_def dest: readVarint_Some(1))

lemmas shrinking_codecs [shrink] =
  codec_shrinking [OF c_string.codec_axioms] codec_shrinking [OF c_u8.codec_axioms]
  codec_shrinking [OF c_u64.codec_axioms]

lemma shrinking_le [shrink]: "shrinking (rd_le_loop i n v)"
  by (induction n arbitrary: i v) (auto intro!: shrink)

lemma shrinking_padding [shrink]: "shrinking (padding_loop n)"
proof -
  have "padding_loop n inp = Some (x, rest) \<Longrightarrow> length rest \<le> length inp" for inp x rest
    by (induction n inp rule: padding_loop.induct) (auto split: if_splits)
  then show ?thesis by (auto simp: shrinking_def)
qed

lemma shrinking_parse_field: "shrinking (parse_field mem extra c)"
  unfolding parse_field_def rd_padding_def rd_blob8_def rd_mm_tag_def rd_ttl_def rd_elderfier_deposit_def
    rd_elderfier_message_def rd_alias_field_def rd_heat_commitment_def rd_yield_commitment_def rd_cold_commitment_def
    rd_cold_migration_def rd_blob32_def rd_le64_def rd_le32_def
  by (auto intro!: shrink split: option.splits prod.splits)

section \<open>Written fields are read back\<close>

interpretation c_byte: codec "\<lambda>b. [b]" rd_byte any
  by unfold_locales (auto simp: any_def elim!: rd_byte.elims)

lemma rd_le_loop_write:
  "rd_le_loop i n v (wr_le n x @ suf) = Some (v OR push_bit (8 * i) (take_bit (8 * n) x), suf)"
proof (induction n arbitrary: i v x)
  case 0
  show ?case by (simp add: rret_def)
next
  case (Suc n)
  have "push_bit (8 * i) (ucast (ucast (x AND 0xFF) :: u8)) OR push_bit (8 * (i + 1)) (take_bit (8 * n) (drop_bit 8 x)) =
      push_bit (8 * i) (take_bit (8 * Suc n) x)"
  proof (rule bit_word_eqI)
    fix k assume "k < LENGTH('a)"
    have m: "x AND 0xFF = take_bit 8 x" by (simp add: take_bit_eq_mask mask_numeral)
    show "bit (push_bit (8 * i) (ucast (ucast (x AND 0xFF) :: u8)) OR
        push_bit (8 * (i + 1)) (take_bit (8 * n) (drop_bit 8 x))) k = bit (push_bit (8 * i) (take_bit (8 * Suc n) x)) k"
    proof (cases "8 * (i + 1) \<le> k")
      case True
      then have "8 + (k - 8 * (i + 1)) = k - 8 * i" "k - 8 * (i + 1) < 8 * n \<longleftrightarrow> k - 8 * i < 8 * Suc n" "8 * i \<le> k"
        by auto
      then show ?thesis using True by (auto simp: m bit_simps)
    qed (auto simp: m bit_simps)
  qed
  then show ?case using Suc by (simp add: rbind_def or.assoc)
qed

named_theorems rd_back "a reader behind the writer of the same value"

lemmas codec_rd_back [rd_back] =
  c_u8.rd_wr [simplified any_def, simplified]
  c_u64.rd_wr [simplified any_def, simplified] c_string.rd_wr pod.rd_wr

lemma rd_le_back [rd_back]:
  "rd_le64 (wr_le64 x @ suf) = Some (x, suf)" "rd_le32 (wr_le32 y @ suf) = Some (y, suf)"
  by (simp_all add: rd_le64_def wr_le64_def rd_le32_def wr_le32_def rd_le_loop_write
    take_bit_length_eq [where ?'a = 64, simplified] take_bit_length_eq [where ?'a = 32, simplified]
    del: rd_le_loop.simps wr_le.simps)

lemma unat_of_nat_u8: "n < 256 \<Longrightarrow> unat (of_nat n :: u8) = n"
  by (simp add: unsigned_of_nat take_bit_nat_eq_self)

lemma unat_of_nat_u32: "n < 4294967296 \<Longrightarrow> unat (of_nat n :: u32) = n"
  by (simp add: unsigned_of_nat take_bit_nat_eq_self)

lemma rd_blob8_byte [rd_back]: "length b < 256 \<Longrightarrow> rd_blob8 (of_nat (length b) # b @ suf) = Some (b, suf)"
  by (simp add: rd_blob8_def rbind_def unat_of_nat_u8 read_bytes_def)

lemma rd_blob8_back [rd_back]: "length b < 256 \<Longrightarrow> rd_blob8 (wr_blob8 b @ suf) = Some (b, suf)"
proof -
  assume b: "length b < 256"
  have "(of_nat (length b) :: u8) = 0 \<Longrightarrow> b = []" using unat_of_nat_u8 [OF b] by auto
  then show ?thesis using rd_blob8_byte [OF b, of suf] by (auto simp: wr_blob8_def Let_def)
qed

lemma rd_name8_back [rd_back]: "length b < 256 \<Longrightarrow> rd_blob8 (wr_name8 b @ suf) = Some (b, suf)"
  using rd_blob8_byte by (simp add: wr_name8_def)

lemma rd_blob32_back [rd_back]: "length b < 4294967296 \<Longrightarrow> rd_blob32 (wr_blob32 b @ suf) = Some (b, suf)"
  by (simp add: rd_blob32_def wr_blob32_def rbind_def rd_back unat_of_nat_u32 read_bytes_def)

lemma bytes_str_bytes [simp]: "bytes_str (str_bytes s) = s"
proof -
  have "char_of (unat (of_char c :: u8)) = c" for c :: char
    using unat_of_nat_u8 [OF nat_of_char_less_256 [of c]] unfolding of_nat_of_char by simp
  then show ?thesis by (simp add: bytes_str_def str_bytes_def map_idI)
qed

lemma length_str_bytes [simp]: "length (str_bytes s) = length s"
  by (simp add: str_bytes_def)

lemma rd_str_back [rd_back]: "length s \<le> max_array \<Longrightarrow> rd_str (wr_string (str_bytes s) @ suf) = Some (s, suf)"
  by (simp add: rd_str_def rbind_def rd_back bounded_def any_def list_all_iff rret_def)

lemma length_write_varint_le: "unat v < 2 ^ (7 * Suc k) \<Longrightarrow> length (write_varint v) \<le> Suc k"
proof (induction v arbitrary: k rule: write_varint.induct)
  case (1 v)
  show ?case
  proof (cases "0x80 \<le> v")
    case True
    then have v: "128 \<le> unat v" by (simp add: word_le_nat_alt)
    then obtain k' where k: "k = Suc k'" using "1.prems" by (cases k) auto
    have "unat v < 2 ^ (7 * Suc k') * 128" using "1.prems" unfolding k by (simp add: power_add)
    then have "unat (drop_bit 7 v) < 2 ^ (7 * Suc k')"
      by (simp add: drop_bit_eq_div unat_div_distrib less_mult_imp_div_less)
    then show ?thesis using "1.IH" [OF True] True k by (simp add: write_varint.simps [of v])
  qed (simp add: write_varint.simps [of v])
qed

lemma length_write_varint: "length (write_varint v) \<le> 10"
proof -
  have "(18446744073709551616 :: nat) \<le> 2 ^ (7 * Suc 9)" by simp
  then have "unat v < 2 ^ (7 * Suc 9)" using unat_u64_bound [of v] by linarith
  then show ?thesis using length_write_varint_le [of v 9] by simp
qed

lemma rd_mm_tag_back [rd_back]: "sized 32 root \<Longrightarrow> rd_mm_tag (wr_mm_tag depth root @ suf) = Some ((depth, root), suf)"
proof -
  assume root: "sized 32 root"
  have "length (wr_u64 depth) \<le> 10" by (simp add: wr_u64_def writeVarint_write_varint length_write_varint)
  then have "bounded any (wr_u64 depth @ root)"
    using root by (simp add: bounded_def any_def list_all_iff sized_def max_array_def)
  moreover have "rd_mm_fields (wr_u64 depth @ root) = Some ((depth, root), [])"
    using root pod.rd_wr [of 32 root "[]"] by (simp add: rd_mm_fields_def rbind_def rd_back rret_def)
  ultimately show ?thesis by (simp add: rd_mm_tag_def wr_mm_tag_def rbind_def rd_back rret_def)
qed

lemma rd_ttl_back [rd_back]: "rd_ttl (wr_ttl ttl @ suf) = Some (ttl, suf)"
proof -
  have n: "length (write_varint ttl) < 256" using length_write_varint [of ttl] by simp
  have "unat (of_nat (length (write_varint ttl)) :: u64) < 2 ^ 8"
    using n by (simp add: unsigned_of_nat take_bit_nat_eq_self)
  then have "readVarint 8 (writeVarint (of_nat (length (write_varint ttl))) @ write_varint ttl @ suf) =
      Some (of_nat (length (write_varint ttl)), write_varint ttl @ suf)"
    by (intro readVarint_write) auto
  moreover have "readVarint 64 (writeVarint ttl @ suf) = Some (ttl, suf)"
    using unat_u64_bound [of ttl] by (intro readVarint_write) auto
  ultimately show ?thesis
    by (simp add: rd_ttl_def wr_ttl_def rbind_def writeVarint_write_varint Let_def)
qed

lemma rd_elderfier_deposit_back [rd_back]:
  assumes "wf_field (ExtraElderfierDeposit d)"
  shows "rd_elderfier_deposit (wr_elderfier_deposit d @ suf) = Some (d, suf)"
  using assms
  by (simp add: rd_elderfier_deposit_def wr_elderfier_deposit_def rbind_def rd_back rret_def wf_field_def)

lemma rd_elderfier_message_back [rd_back]:
  assumes "wf_field (ExtraElderfierMessage m)"
  shows "rd_elderfier_message mem (wr_elderfier_message m @ suf) =
    Some (mem\<lparr>em_senderKey := em_senderKey m, em_recipientKey := em_recipientKey m,
      em_messageType := em_messageType m, em_timestamp := em_timestamp m,
      em_messageData := em_messageData m, em_signature := em_signature m\<rparr>, suf)"
  using assms
  by (simp add: rd_elderfier_message_def wr_elderfier_message_def rbind_def rd_back rret_def wf_field_def)

lemma rd_heat_commitment_back [rd_back]:
  assumes "wf_field (ExtraHeatCommitment c)"
  shows "rd_heat_commitment (wr_heat_commitment c @ suf) = Some (c, suf)"
  using assms by (simp add: rd_heat_commitment_def wr_heat_commitment_def rbind_def rd_back rret_def wf_field_def)

lemma rd_yield_commitment_back [rd_back]:
  assumes "wf_field (ExtraYieldCommitment c)"
  shows "rd_yield_commitment (wr_yield_commitment c @ suf) = Some (c, suf)"
  using assms by (simp add: rd_yield_commitment_def wr_yield_commitment_def rbind_def rd_back rret_def wf_field_def)

lemma rd_cold_commitment_back [rd_back]:
  assumes "wf_field (ExtraColdCommitment c)"
  shows "rd_cold_commitment (wr_cold_commitment c @ suf) = Some (c, suf)"
  using assms by (simp add: rd_cold_commitment_def wr_cold_commitment_def rbind_def rd_back rret_def wf_field_def)

lemma rd_cold_migration_back [rd_back]:
  assumes "wf_field (ExtraColdMigration m)"
  shows "rd_cold_migration (wr_cold_migration m @ suf) = Some (m, suf)"
  using assms by (simp add: rd_cold_migration_def wr_cold_migration_def rbind_def rd_back rret_def wf_field_def)

lemma alias_valid_length: "AliasRegistration_isValid r \<Longrightarrow> length (ar_alias r) \<le> 10"
  by (auto simp: AliasRegistration_isValid_def Let_def split: if_splits)

lemma rd_alias_back:
  assumes "wf_field (ExtraAliasRegistration r)"
  shows "rd_alias (wr_alias r @ suf) = Some (r, suf)"
proof -
  have "length (ar_alias r) \<le> max_array" "length (ar_ownerAddress r) \<le> max_array"
    using assms by (auto simp: wf_field_def max_array_def wr_alias_def wr_string_def)
  then show ?thesis
    using assms by (simp add: rd_alias_def wr_alias_def rbind_def rd_back rret_def wf_field_def)
qed

lemma rd_alias_field_back [rd_back]:
  assumes "wf_field (ExtraAliasRegistration r)"
  shows "rd_alias_field (write_varint (of_nat (length (wr_alias r))) @ wr_alias r @ suf) = Some (r, suf)"
proof -
  let ?n = "of_nat (length (wr_alias r)) :: u64"
  have len: "0 < length (wr_alias r)" "length (wr_alias r) \<le> 1024"
    using assms by (auto simp: wf_field_def wr_alias_def sized_def)
  then have u: "unat ?n = length (wr_alias r)" by (simp add: unsigned_of_nat take_bit_nat_eq_self)
  then have g: "0 < ?n \<and> ?n \<le> 1024" using len by (simp add: word_le_nat_alt word_less_nat_alt)
  have "readVarint 64 (writeVarint ?n @ wr_alias r @ suf) = Some (?n, wr_alias r @ suf)"
    using unat_u64_bound [of ?n] by (intro readVarint_write) auto
  moreover have "fromBinaryArray rd_alias (wr_alias r) = Some r"
    using rd_alias_back [OF assms, of "[]"] by (simp add: fromBinaryArray_def)
  ultimately show ?thesis
    using g u by (simp add: rd_alias_field_def rbind_def writeVarint_write_varint read_bytes_def rret_def)
qed

text \<open>One turn of the parser behind the writer of a field.\<close>

lemma wf_field_basic:
  "\<not> wf_field (TransactionExtraPadding n)" "\<not> wf_field (ExtraBurnReceipt b)" "\<not> wf_field (ExtraDepositReceipt d)"
  "wf_field (TransactionExtraPublicKey key) \<longleftrightarrow> sized 32 key"
  "wf_field (TransactionExtraNonce nonce) \<longleftrightarrow> length nonce < 256"
  "wf_field (TransactionExtraMergeMiningTag depth root) \<longleftrightarrow> sized 32 root"
  "wf_field (tx_extra_message data) \<longleftrightarrow> bounded any data"
  by (auto simp: wf_field_def TX_EXTRA_NONCE_MAX_COUNT_def bounded_def any_def list_all_iff)

lemma parse_field_back:
  assumes "wf_field f" "write_field f = Some (c # out)"
  shows "parse_field mem extra c (out @ suf) = Some (Some (received mem f), suf)"
  using assms
  by (cases f) (auto simp: write_field_def parse_field_def received_def rbind_def rret_def rd_back wf_field_basic
    split: if_splits)

lemma write_field_tag:
  assumes "wf_field f"
  shows "\<exists>c out. write_field f = Some (c # out)"
  using assms by (cases f) (auto simp: write_field_def wf_field_def)

end
