(* ===== verification/Transaction_Extra.thy ===== *)
theory Transaction_Extra
  imports Extra_Fields Alias_Index Keccak Chacha8 Transactions Money_Amounts
begin

text \<open>
  The extra bytes of a transaction, \<open>src/src/CryptoNoteCore/TransactionExtra.cpp\<close>: the parser and the writer over the
  fields of \<open>Extra_Fields\<close>, the functions that look one field up, payment ids, encrypted messages, the commitments of
  burns and deposits, and the encrypted deposit secrets. The elliptic-curve functions are arguments:
  \<open>generate_key_derivation\<close> with its success flag, \<open>secret_key_to_public_key\<close>, \<open>hash_to_scalar\<close> and
  \<open>generate_key_image\<close>; Keccak and ChaCha8 are the concrete functions.

  Some look-ups parse the fields; the others scan the bytes for the tag, also inside other fields. Both are modelled as
  they are. Shown here: a list of fields survives writing and parsing; a payment id and a transaction key are found
  again; a deposit secret is recovered from a transaction if no earlier byte equals its tag, and missed if the first such byte is
  not followed by the length of the field;
  the validity of an alias registration is that of the alias index.
\<close>

section \<open>Parsing and writing\<close>

text \<open>The fields parsed so far stay in the output when parsing fails.\<close>

function parse_loop ::
  "TransactionExtraElderfierMessage \<Rightarrow> bytes \<Rightarrow> TransactionExtraField list \<Rightarrow> bytes \<Rightarrow> bool \<times> TransactionExtraField list" where
  "parse_loop mem extra txFields [] = (True, txFields)"
| "parse_loop mem extra txFields (c # inp) =
     (case parse_field mem extra c inp of
        None \<Rightarrow> (False, txFields)
      | Some (None, rest) \<Rightarrow> parse_loop mem extra txFields rest
      | Some (Some f, rest) \<Rightarrow> parse_loop mem extra (txFields @ [f]) rest)"
  by pat_completeness auto
termination
  by (relation "measure (\<lambda>(mem, extra, txFields, inp). length inp)")
    (auto dest!: shrinkingD [OF shrinking_parse_field])

definition parseTransactionExtra ::
  "TransactionExtraElderfierMessage \<Rightarrow> bytes \<Rightarrow> bool \<times> TransactionExtraField list" where
  "parseTransactionExtra mem extra = (if extra = [] then (True, []) else parse_loop mem extra [] extra)"

fun writeTransactionExtra :: "bytes \<Rightarrow> TransactionExtraField list \<Rightarrow> bool \<times> bytes" where
  "writeTransactionExtra extra [] = (True, extra)"
| "writeTransactionExtra extra (f # fs) =
     (case write_field f of None \<Rightarrow> (False, extra) | Some out \<Rightarrow> writeTransactionExtra (extra @ out) fs)"

text \<open>\<open>findTransactionExtraFieldByType\<close> for the three types it is used with.\<close>

fun find_public_key :: "TransactionExtraField list \<Rightarrow> public_key option" where
  "find_public_key [] = None"
| "find_public_key (TransactionExtraPublicKey key # fs) = Some key"
| "find_public_key (f # fs) = find_public_key fs"

fun find_nonce :: "TransactionExtraField list \<Rightarrow> bytes option" where
  "find_nonce [] = None"
| "find_nonce (TransactionExtraNonce nonce # fs) = Some nonce"
| "find_nonce (f # fs) = find_nonce fs"

fun find_mm_tag :: "TransactionExtraField list \<Rightarrow> (u64 \<times> hash) option" where
  "find_mm_tag [] = None"
| "find_mm_tag (TransactionExtraMergeMiningTag depth root # fs) = Some (depth, root)"
| "find_mm_tag (f # fs) = find_mm_tag fs"

definition getTransactionPublicKeyFromExtra :: "TransactionExtraElderfierMessage \<Rightarrow> bytes \<Rightarrow> public_key" where
  "getTransactionPublicKeyFromExtra mem extra =
     (case find_public_key (snd (parseTransactionExtra mem extra)) of None \<Rightarrow> null_pod | Some key \<Rightarrow> key)"

definition addTransactionPublicKeyToExtra :: "bytes \<Rightarrow> public_key \<Rightarrow> bytes" where
  "addTransactionPublicKeyToExtra extra tx_pub_key = extra @ [0x01] @ tx_pub_key"

definition addExtraNonceToTransactionExtra :: "bytes \<Rightarrow> bytes \<Rightarrow> bool \<times> bytes" where
  "addExtraNonceToTransactionExtra extra extra_nonce =
     (if TX_EXTRA_NONCE_MAX_COUNT < length extra_nonce then (False, extra)
      else (True, extra @ [0x02, of_nat (length extra_nonce)] @ extra_nonce))"

definition appendMergeMiningTagToExtra :: "bytes \<Rightarrow> u64 \<Rightarrow> hash \<Rightarrow> bytes" where
  "appendMergeMiningTagToExtra extra depth root = extra @ [0x03] @ wr_mm_tag depth root"

definition getMergeMiningTagFromExtra :: "TransactionExtraElderfierMessage \<Rightarrow> bytes \<Rightarrow> (u64 \<times> hash) option" where
  "getMergeMiningTagFromExtra mem extra = find_mm_tag (snd (parseTransactionExtra mem extra))"

definition append_message_to_extra :: "bytes \<Rightarrow> bytes \<Rightarrow> bytes" where
  "append_message_to_extra extra data = extra @ [0x04] @ wr_string data"

definition appendTTLToExtra :: "bytes \<Rightarrow> u64 \<Rightarrow> bytes" where
  "appendTTLToExtra extra ttl = extra @ [0x05] @ wr_ttl ttl"

section \<open>Payment ids\<close>

definition setPaymentIdToTransactionExtraNonce :: "hash \<Rightarrow> bytes" where
  "setPaymentIdToTransactionExtraNonce payment_id = 0x00 # payment_id"

definition getPaymentIdFromTransactionExtraNonce :: "bytes \<Rightarrow> hash option" where
  "getPaymentIdFromTransactionExtraNonce extra_nonce =
     (if 33 \<noteq> length extra_nonce then None
      else if 0x00 \<noteq> extra_nonce ! 0 then None
      else Some (drop 1 extra_nonce))"

definition parsePaymentId :: "string \<Rightarrow> hash option" where
  "parsePaymentId paymentIdString = podFromHex 32 paymentIdString"

definition createTxExtraWithPaymentId :: "string \<Rightarrow> bytes \<Rightarrow> bool \<times> bytes" where
  "createTxExtraWithPaymentId paymentIdString extra =
     (case parsePaymentId paymentIdString of
        None \<Rightarrow> (False, extra)
      | Some paymentIdBin \<Rightarrow>
          addExtraNonceToTransactionExtra extra (setPaymentIdToTransactionExtraNonce paymentIdBin))"

definition getPaymentIdFromTxExtra :: "TransactionExtraElderfierMessage \<Rightarrow> bytes \<Rightarrow> hash option" where
  "getPaymentIdFromTxExtra mem extra =
     (case parseTransactionExtra mem extra of (ok, txFields) \<Rightarrow>
        if \<not> ok then None
        else case find_nonce txFields of
               None \<Rightarrow> None
             | Some nonce \<Rightarrow> getPaymentIdFromTransactionExtraNonce nonce)"

section \<open>Messages\<close>

definition TX_EXTRA_MESSAGE_CHECKSUM_SIZE :: nat where
  "TX_EXTRA_MESSAGE_CHECKSUM_SIZE = 4"

definition message_key :: "bytes \<Rightarrow> hash" where
  "message_key derivation = cn_fast_hash (derivation @ [0x80, 0])"

definition message_encrypt ::
  "(public_key \<Rightarrow> secret_key \<Rightarrow> bytes option) \<Rightarrow> nat \<Rightarrow> bytes \<Rightarrow> AccountPublicAddress option \<Rightarrow> KeyPair \<Rightarrow> bytes option" where
  "message_encrypt generate_key_derivation index message recipient txkey =
     (let buf = message @ replicate TX_EXTRA_MESSAGE_CHECKSUM_SIZE 0
      in case recipient of
           None \<Rightarrow> Some buf
         | Some address \<Rightarrow>
             (case generate_key_derivation (ad_spendPublicKey address) (kp_secretKey txkey) of
                None \<Rightarrow> None
              | Some derivation \<Rightarrow> Some (chacha8 buf (message_key derivation) (wr_le64 (of_nat index)))))"

definition message_decrypt ::
  "(public_key \<Rightarrow> secret_key \<Rightarrow> bytes option) \<Rightarrow> nat \<Rightarrow> public_key \<Rightarrow> secret_key option \<Rightarrow> bytes \<Rightarrow> bytes option" where
  "message_decrypt generate_key_derivation index txkey recepient_secret_key data =
     (let mlen = length data
      in if mlen < TX_EXTRA_MESSAGE_CHECKSUM_SIZE then None
         else case (case recepient_secret_key of
                      None \<Rightarrow> Some data
                    | Some key \<Rightarrow>
                        (case generate_key_derivation txkey key of
                           None \<Rightarrow> None
                         | Some derivation \<Rightarrow> Some (chacha8 data (message_key derivation) (wr_le64 (of_nat index))))) of
                None \<Rightarrow> None
              | Some buf \<Rightarrow>
                  let mlen = mlen - TX_EXTRA_MESSAGE_CHECKSUM_SIZE
                  in if list_all (\<lambda>i. buf ! (mlen + i) = 0) [0..<TX_EXTRA_MESSAGE_CHECKSUM_SIZE]
                     then Some (take mlen buf) else None)"

text \<open>The counter \<open>i\<close> counts the messages, also those that do not decrypt.\<close>

fun messages_loop ::
  "(public_key \<Rightarrow> secret_key \<Rightarrow> bytes option) \<Rightarrow> nat \<Rightarrow> public_key \<Rightarrow> secret_key option \<Rightarrow> TransactionExtraField list \<Rightarrow>
    bytes list" where
  "messages_loop gkd i txkey key [] = []"
| "messages_loop gkd i txkey key (tx_extra_message data # fs) =
     (case message_decrypt gkd i txkey key data of
        Some res \<Rightarrow> res # messages_loop gkd (i + 1) txkey key fs
      | None \<Rightarrow> messages_loop gkd (i + 1) txkey key fs)"
| "messages_loop gkd i txkey key (f # fs) = messages_loop gkd i txkey key fs"

definition get_messages_from_extra ::
  "(public_key \<Rightarrow> secret_key \<Rightarrow> bytes option) \<Rightarrow> TransactionExtraElderfierMessage \<Rightarrow> bytes \<Rightarrow> public_key \<Rightarrow>
    secret_key option \<Rightarrow> bytes list" where
  "get_messages_from_extra gkd mem extra txkey key =
     (case parseTransactionExtra mem extra of (ok, txFields) \<Rightarrow>
        if \<not> ok then [] else messages_loop gkd 0 txkey key txFields)"

section \<open>Elderfier deposits and messages\<close>

definition ElderfierDeposit_isValid :: "TransactionExtraElderfierDeposit \<Rightarrow> bool" where
  "ElderfierDeposit_isValid d \<longleftrightarrow>
     800000000000 \<le> ed_depositAmount d \<and> ed_elderfierCommitment d \<noteq> null_pod \<and>
     0 < ed_securityWindow d \<and> ed_isSlashable d"

text \<open>The signature of the local deposit object stays empty.\<close>

definition createTxExtraWithElderfierDeposit ::
  "hash \<Rightarrow> u64 \<Rightarrow> hash \<Rightarrow> u32 \<Rightarrow> bytes \<Rightarrow> bytes \<Rightarrow> bytes" where
  "createTxExtraWithElderfierDeposit depositHash depositAmount elderfierCommitment securityWindow metadata extra =
     extra @ 0xEF # wr_elderfier_deposit
       \<lparr>ed_depositHash = depositHash, ed_depositAmount = depositAmount, ed_elderfierCommitment = elderfierCommitment,
        ed_securityWindow = securityWindow, ed_metadata = metadata, ed_signature = [], ed_isSlashable = True\<rparr>"

text \<open>The scan for a tag: the bytes behind its first occurrence.\<close>

fun scan_tag :: "u8 \<Rightarrow> bytes \<Rightarrow> bytes option" where
  "scan_tag tag [] = None"
| "scan_tag tag (b # bs) = (if b = tag then Some bs else scan_tag tag bs)"

definition getElderfierDepositFromExtra :: "bytes \<Rightarrow> TransactionExtraElderfierDeposit option" where
  "getElderfierDepositFromExtra extra =
     (case scan_tag 0xEF extra of
        None \<Rightarrow> None
      | Some inp \<Rightarrow> map_option fst (rd_elderfier_deposit inp))"

definition ElderfierMessage_isValid :: "TransactionExtraElderfierMessage \<Rightarrow> bool" where
  "ElderfierMessage_isValid m =
     (if em_timestamp m = 0 \<or> em_messageData m = [] \<or> em_signature m = [] \<or> em_messageType m = 0 then False
      else if em_consensusRequired m then
        if em_requiredThreshold m = 0 \<or> 100 < em_requiredThreshold m then False
        else \<not> (em_consensusType m = QUORUM \<and> em_targetDepositHash m = null_pod)
      else True)"

definition requiresQuorumConsensus :: "TransactionExtraElderfierMessage \<Rightarrow> bool" where
  "requiresQuorumConsensus m \<longleftrightarrow> em_consensusRequired m \<and> em_consensusType m = QUORUM"

text \<open>The signature placeholder of the three constructors: a hash padded to 64 bytes.\<close>

definition bound_signature :: "bytes \<Rightarrow> bytes" where
  "bound_signature sig_preimage = cn_fast_hash sig_preimage @ replicate 32 0"

definition createElderfierQuorumMessage ::
  "public_key \<Rightarrow> public_key \<Rightarrow> hash \<Rightarrow> u32 \<Rightarrow> bytes \<Rightarrow> u64 \<Rightarrow> bool \<times> TransactionExtraElderfierMessage" where
  "createElderfierQuorumMessage senderKey recipientKey targetDepositHash messageType messageData timestamp =
     (let m = \<lparr>em_senderKey = senderKey, em_recipientKey = recipientKey, em_messageType = messageType,
            em_timestamp = timestamp, em_messageData = messageData,
            em_signature = bound_signature (senderKey @ messageData @ targetDepositHash),
            em_consensusRequired = True, em_consensusType = QUORUM, em_requiredThreshold = 80,
            em_targetDepositHash = targetDepositHash\<rparr>
      in (ElderfierMessage_isValid m, m))"

definition createElderfierProofMessage ::
  "public_key \<Rightarrow> public_key \<Rightarrow> u32 \<Rightarrow> bytes \<Rightarrow> u64 \<Rightarrow> bool \<times> TransactionExtraElderfierMessage" where
  "createElderfierProofMessage senderKey recipientKey messageType messageData timestamp =
     (let m = \<lparr>em_senderKey = senderKey, em_recipientKey = recipientKey, em_messageType = messageType,
            em_timestamp = timestamp, em_messageData = messageData,
            em_signature = bound_signature (senderKey @ messageData @ str_bytes ''PROOF''),
            em_consensusRequired = True, em_consensusType = PROOF, em_requiredThreshold = 100,
            em_targetDepositHash = null_pod\<rparr>
      in (ElderfierMessage_isValid m, m))"

definition createElderfierWitnessMessage ::
  "public_key \<Rightarrow> public_key \<Rightarrow> u32 \<Rightarrow> bytes \<Rightarrow> u64 \<Rightarrow> bool \<times> TransactionExtraElderfierMessage" where
  "createElderfierWitnessMessage senderKey recipientKey messageType messageData timestamp =
     (let m = \<lparr>em_senderKey = senderKey, em_recipientKey = recipientKey, em_messageType = messageType,
            em_timestamp = timestamp, em_messageData = messageData,
            em_signature = bound_signature (senderKey @ messageData @ str_bytes ''WITNESS''),
            em_consensusRequired = True, em_consensusType = WITNESS, em_requiredThreshold = 50,
            em_targetDepositHash = null_pod\<rparr>
      in (ElderfierMessage_isValid m, m))"

definition createTxExtraWithElderfierMessage ::
  "public_key \<Rightarrow> public_key \<Rightarrow> u32 \<Rightarrow> u64 \<Rightarrow> bytes \<Rightarrow> bytes \<Rightarrow> bytes" where
  "createTxExtraWithElderfierMessage senderKey recipientKey messageType timestamp messageData extra =
     extra @ 0xEC # (senderKey @ recipientKey @ wr_le32 messageType @ wr_le64 timestamp @ wr_blob32 messageData @
       wr_blob32 [])"

text \<open>Only a message at the very start of the extra is found.\<close>

definition getElderfierMessageFromExtra ::
  "bytes \<Rightarrow> TransactionExtraElderfierMessage \<Rightarrow> TransactionExtraElderfierMessage option" where
  "getElderfierMessageFromExtra extra message =
     (if extra = [] \<or> extra ! 0 \<noteq> 0xEC then None
      else map_option fst (rd_elderfier_message message (tl extra)))"

section \<open>Burns and deposits\<close>

definition createTxExtraWithHeatCommitment :: "hash \<Rightarrow> u64 \<Rightarrow> bytes \<Rightarrow> bytes \<Rightarrow> bytes" where
  "createTxExtraWithHeatCommitment commitment amount metadata extra =
     extra @ 0x08 # wr_heat_commitment \<lparr>hc_commitment = commitment, hc_amount = amount, hc_metadata = metadata\<rparr>"

definition getHeatCommitmentFromExtra :: "bytes \<Rightarrow> TransactionExtraHeatCommitment option" where
  "getHeatCommitmentFromExtra extra =
     (case scan_tag 0x08 extra of None \<Rightarrow> None | Some inp \<Rightarrow> map_option fst (rd_heat_commitment inp))"

definition createTxExtraWithYieldCommitment ::
  "hash \<Rightarrow> u64 \<Rightarrow> u32 \<Rightarrow> string \<Rightarrow> bytes \<Rightarrow> u8 \<Rightarrow> bytes \<Rightarrow> bytes \<Rightarrow> bytes" where
  "createTxExtraWithYieldCommitment commitment amount term CIAId metadata claimChainCode gift_secret extra =
     extra @ 0x07 # wr_yield_commitment \<lparr>yc_commitment = commitment, yc_amount = amount, yc_term = term,
       yc_metadata = metadata, yc_claimChainCode = claimChainCode, yc_CIAId = CIAId, yc_gift_secret = gift_secret\<rparr>"

text \<open>The look-up skips the eight bytes of the amount and leaves the amount of the result as it was.\<close>

definition getYieldCommitmentFromExtra ::
  "bytes \<Rightarrow> TransactionExtraYieldCommitment \<Rightarrow> TransactionExtraYieldCommitment option" where
  "getYieldCommitmentFromExtra extra commitment =
     (if extra = [] \<or> extra ! 0 \<noteq> 0x07 then None
      else map_option (\<lambda>(c, rest). c\<lparr>yc_amount := yc_amount commitment\<rparr>) (rd_yield_commitment (tl extra)))"

definition createTxExtraWithColdCommitment ::
  "hash \<Rightarrow> u64 \<Rightarrow> u32 \<Rightarrow> u8 \<Rightarrow> bytes \<Rightarrow> bytes \<Rightarrow> bytes \<Rightarrow> bytes" where
  "createTxExtraWithColdCommitment commitment amount term claimChainCode metadata gift_secret extra =
     extra @ 0xCD # wr_cold_commitment \<lparr>cc_commitment = commitment, cc_amount = amount, cc_term = term,
       cc_metadata = metadata, cc_claimChainCode = claimChainCode, cc_gift_secret = gift_secret\<rparr>"

definition getColdCommitmentFromExtra :: "bytes \<Rightarrow> TransactionExtraColdCommitment option" where
  "getColdCommitmentFromExtra extra =
     (case scan_tag 0xCD extra of None \<Rightarrow> None | Some inp \<Rightarrow> map_option fst (rd_cold_commitment inp))"

text \<open>The preimage of a commitment: 88 bytes.\<close>

definition commitment_preimage :: "bytes \<Rightarrow> u64 \<Rightarrow> hash \<Rightarrow> u32 \<Rightarrow> u32 \<Rightarrow> u32 \<Rightarrow> u32 \<Rightarrow> bytes" where
  "commitment_preimage secret amount_atomic tx_prefix_hash network_id target_chain_id commitment_version term =
     secret @ wr_le64 amount_atomic @ tx_prefix_hash @ wr_le32 network_id @ wr_le32 target_chain_id @
     wr_le32 commitment_version @ wr_le32 term"

definition computeCommitment :: "bytes \<Rightarrow> u64 \<Rightarrow> hash \<Rightarrow> u32 \<Rightarrow> u32 \<Rightarrow> u32 \<Rightarrow> u32 \<Rightarrow> hash" where
  "computeCommitment secret amount_atomic tx_prefix_hash network_id target_chain_id commitment_version term =
     keccak (commitment_preimage secret amount_atomic tx_prefix_hash network_id target_chain_id commitment_version term) 32"

definition computeHeatCommitment :: "bytes \<Rightarrow> u64 \<Rightarrow> hash \<Rightarrow> u32 \<Rightarrow> u32 \<Rightarrow> u32 \<Rightarrow> hash" where
  "computeHeatCommitment secret amount_atomic tx_prefix_hash network_id target_chain_id commitment_version =
     computeCommitment secret amount_atomic tx_prefix_hash network_id target_chain_id commitment_version 0xFFFFFFFF"

definition buildHeatExtra :: "bytes \<Rightarrow> u64 \<Rightarrow> hash \<Rightarrow> u32 \<Rightarrow> u32 \<Rightarrow> u32 \<Rightarrow> bytes \<Rightarrow> bytes \<Rightarrow> bool \<times> bytes" where
  "buildHeatExtra secret amount_atomic tx_prefix_hash network_id target_chain_id commitment_version metadata extra =
     (let commitment =
            computeHeatCommitment secret amount_atomic tx_prefix_hash network_id target_chain_id commitment_version
      in if commitment = null_pod then (False, extra)
         else (True, createTxExtraWithHeatCommitment commitment amount_atomic metadata extra))"

definition computeColdCommitment :: "bytes \<Rightarrow> u64 \<Rightarrow> hash \<Rightarrow> u32 \<Rightarrow> u32 \<Rightarrow> u32 \<Rightarrow> u32 \<Rightarrow> hash" where
  "computeColdCommitment = computeCommitment"

definition buildColdExtra ::
  "bytes \<Rightarrow> u64 \<Rightarrow> hash \<Rightarrow> u32 \<Rightarrow> u32 \<Rightarrow> u32 \<Rightarrow> u32 \<Rightarrow> u8 \<Rightarrow> bytes \<Rightarrow> bytes \<Rightarrow> bytes \<Rightarrow> bool \<times> bytes" where
  "buildColdExtra secret amount_atomic tx_prefix_hash network_id target_chain_id commitment_version term claimChainCode
       metadata gift_secret extra =
     (let commitment = computeColdCommitment secret amount_atomic tx_prefix_hash network_id target_chain_id
            commitment_version term
      in if commitment = null_pod then (False, extra)
         else (True, createTxExtraWithColdCommitment commitment amount_atomic term claimChainCode metadata gift_secret
           extra))"

definition getColdTermBlocks :: "u8 \<Rightarrow> u64" where
  "getColdTermBlocks term_code =
     (if term_code = 1 then 16440 else if term_code = 2 then 49320 else if term_code = 3 then 65760
      else if term_code = 4 then 197280 else if term_code = 5 then 328800 else 0)"

definition getColdTermDays :: "u8 \<Rightarrow> u64" where
  "getColdTermDays term_code =
     (if term_code = 1 then 90 else if term_code = 2 then 270 else if term_code = 3 then 365
      else if term_code = 4 then 1095 else if term_code = 5 then 1825 else 0)"

section \<open>Gift secrets\<close>

text \<open>Both functions derive a 32-byte key hash and take the nonce from the eight bytes behind it, which lie outside the
  hash object: \<open>beyond\<close> is what the memory holds there.\<close>

definition gift_cipher :: "bytes \<Rightarrow> public_key \<Rightarrow> bytes \<Rightarrow> bytes" where
  "gift_cipher beyond viewKey data =
     (let chachaKey = keccak viewKey 32; nonce = take 8 beyond
      in map (\<lambda>i. data ! i XOR chachaKey ! (i mod 32) XOR nonce ! (i mod 8)) [0..<length data])"

definition encryptSecretWithViewKey :: "bytes \<Rightarrow> bytes \<Rightarrow> public_key \<Rightarrow> bytes" where
  "encryptSecretWithViewKey beyond secret recipientViewKey = gift_cipher beyond recipientViewKey secret"

definition decryptSecretWithViewKey :: "(secret_key \<Rightarrow> public_key) \<Rightarrow> bytes \<Rightarrow> bytes \<Rightarrow> secret_key \<Rightarrow> bytes" where
  "decryptSecretWithViewKey secret_key_to_public_key beyond gift_secret viewSecretKey =
     gift_cipher beyond (secret_key_to_public_key viewSecretKey) gift_secret"

definition isDummyGiftSecret :: "bytes \<Rightarrow> bool" where
  "isDummyGiftSecret gift_secret =
     (if length gift_secret \<noteq> 32 then gift_secret = []
      else 16 < length (filter (\<lambda>i. gift_secret ! i = gift_secret ! 0) [1..<32]))"

text \<open>The static counter is an argument and a result. The repetition test of byte \<open>i\<close> looks at the byte before it as it
  was left, possibly changed.\<close>

definition dummy_byte :: "u32 \<Rightarrow> nat \<Rightarrow> u8" where
  "dummy_byte dummyCounter i = ucast ((drop_bit (i mod 3 * 3) dummyCounter XOR of_nat i) AND 0xFF)"

fun dummy_loop :: "u32 \<Rightarrow> nat \<Rightarrow> bytes" where
  "dummy_loop dummyCounter 0 = []"
| "dummy_loop dummyCounter (Suc i) =
     (let dummy = dummy_loop dummyCounter i; b = dummy_byte dummyCounter i
      in dummy @ [if 0 < i \<and> b = dummy ! (i - 1) then b + 0x57 else b])"

definition createDummyGiftSecret :: "u32 \<Rightarrow> bytes \<times> u32" where
  "createDummyGiftSecret dummyCounter =
     (let dummyCounter = (dummyCounter * 16777619) XOR 0x9E3779B9 in (dummy_loop dummyCounter 32, dummyCounter))"

section \<open>Receipts and aliases\<close>

definition createTxExtraWithBurnReceipt :: "TransactionExtraBurnReceipt \<Rightarrow> bytes" where
  "createTxExtraWithBurnReceipt r = 0x18 # wr_burn_receipt r"

definition createTxExtraWithDepositReceipt :: "TransactionExtraDepositReceipt \<Rightarrow> bytes" where
  "createTxExtraWithDepositReceipt r = 0x69 # wr_deposit_receipt r"

definition addAliasToExtra :: "bytes \<Rightarrow> TransactionExtraAliasRegistration \<Rightarrow> bool \<times> bytes" where
  "addAliasToExtra extra r =
     (if \<not> AliasRegistration_isValid r then (False, extra)
      else (True, extra @ [0xEA] @ write_varint (of_nat (length (wr_alias r))) @ wr_alias r))"

text \<open>The look-up of an alias either returns or, when \<open>offset + size\<close> wraps around, builds a vector from a range that
  ends before it begins, which throws.\<close>

datatype 'a lookup = Returns "'a option" | Throws

definition getAliasFromExtra :: "bytes \<Rightarrow> TransactionExtraAliasRegistration lookup" where
  "getAliasFromExtra extra =
     (case scan_tag 0xEA extra of
        None \<Rightarrow> Returns None
      | Some inp \<Rightarrow>
          if inp = [] then Returns None
          else case read_varint 64 inp of (bytes_read, size') \<Rightarrow>
            if bytes_read \<le> 0 then Returns None
            else
              let offset = of_nat (length extra - length inp) + of_int bytes_read :: u64
              in if of_nat (length extra) < offset + size' then Returns None
                 else if offset + size' < offset then Throws
                 else Returns (fromBinaryArray rd_alias (take (unat size') (drop (nat bytes_read) inp))))"

section \<open>Deposit keys and secrets\<close>

record DepositCommitmentKeys =
  dk_commitKey :: public_key
  dk_keyScalar :: secret_key
  dk_keyImage :: key_image
  dk_amountMask :: bytes

definition deriveCommitmentKeys ::
  "(bytes \<Rightarrow> bytes) \<Rightarrow> (secret_key \<Rightarrow> public_key) \<Rightarrow> (public_key \<Rightarrow> secret_key \<Rightarrow> key_image) \<Rightarrow> bytes \<Rightarrow>
    DepositCommitmentKeys" where
  "deriveCommitmentKeys hash_to_scalar secret_key_to_public_key generate_key_image depositSecret =
     (let keyScalar = hash_to_scalar (str_bytes ''fuego_commit_key'' @ depositSecret);
          commitKey = secret_key_to_public_key keyScalar
      in \<lparr>dk_commitKey = commitKey, dk_keyScalar = keyScalar, dk_keyImage = generate_key_image commitKey keyScalar,
          dk_amountMask = hash_to_scalar (str_bytes ''fuego_amount_mask'' @ depositSecret)\<rparr>)"

record DepositSecretPayload =
  ds_depositType :: u8
  ds_amount :: u64
  ds_term :: u32
  ds_depositSecret :: bytes

record TransactionExtraDepositSecret =
  es_ephPubKey :: public_key
  es_encryptedPayload :: bytes

text \<open>The packed structure of 45 bytes in memory, and back.\<close>

definition payload_bytes :: "DepositSecretPayload \<Rightarrow> bytes" where
  "payload_bytes p = [ds_depositType p] @ wr_le64 (ds_amount p) @ wr_le32 (ds_term p) @ ds_depositSecret p"

definition bytes_payload :: "bytes \<Rightarrow> DepositSecretPayload option" where
  "bytes_payload b = fromBinaryArray (rbind rd_byte (\<lambda>t. rbind rd_le64 (\<lambda>a. rbind rd_le32 (\<lambda>m. rbind (read_bytes 32) (\<lambda>s.
     rret \<lparr>ds_depositType = t, ds_amount = a, ds_term = m, ds_depositSecret = s\<rparr>))))) b"

definition depositEncKey :: "bytes \<Rightarrow> bytes" where
  "depositEncKey derivation = cn_fast_hash (derivation @ [0xD5, 0x00])"

definition depositEncIV :: "public_key \<Rightarrow> bytes" where
  "depositEncIV txPubKey = take 8 txPubKey"

text \<open>\<open>generate_keys\<close> draws the pair \<open>(ephPubKey, ephSecKey)\<close>.\<close>

definition encryptDepositSecret ::
  "(public_key \<Rightarrow> secret_key \<Rightarrow> bytes option) \<Rightarrow> public_key \<Rightarrow> secret_key \<Rightarrow> DepositSecretPayload \<Rightarrow> public_key \<Rightarrow>
    TransactionExtraDepositSecret option" where
  "encryptDepositSecret generate_key_derivation ephPubKey ephSecKey plaintext recipientViewPubKey =
     (case generate_key_derivation recipientViewPubKey ephSecKey of
        None \<Rightarrow> None
      | Some derivation \<Rightarrow> Some \<lparr>es_ephPubKey = ephPubKey,
          es_encryptedPayload = chacha8 (payload_bytes plaintext) (depositEncKey derivation) (depositEncIV ephPubKey)\<rparr>)"

definition decryptDepositSecret ::
  "(public_key \<Rightarrow> secret_key \<Rightarrow> bytes option) \<Rightarrow> TransactionExtraDepositSecret \<Rightarrow> secret_key \<Rightarrow> DepositSecretPayload option" where
  "decryptDepositSecret generate_key_derivation encrypted walletViewSecKey =
     (if length (es_encryptedPayload encrypted) \<noteq> 45 then None
      else case generate_key_derivation (es_ephPubKey encrypted) walletViewSecKey of
             None \<Rightarrow> None
           | Some derivation \<Rightarrow> bytes_payload
               (chacha8 (es_encryptedPayload encrypted) (depositEncKey derivation) (depositEncIV (es_ephPubKey encrypted))))"

definition addDepositSecretToExtra :: "bytes \<Rightarrow> TransactionExtraDepositSecret \<Rightarrow> bool \<times> bytes" where
  "addDepositSecretToExtra extra secret =
     (if length (es_encryptedPayload secret) \<noteq> 45 then (False, extra)
      else (True, extra @ [0xD5, 32 + of_nat (length (es_encryptedPayload secret))] @ es_ephPubKey secret @
        es_encryptedPayload secret))"

fun getDepositSecretFromExtra :: "bytes \<Rightarrow> TransactionExtraDepositSecret option" where
  "getDepositSecretFromExtra (t # len # rest) =
     (if t \<noteq> 0xD5 then getDepositSecretFromExtra (len # rest)
      else if unat len \<noteq> 77 \<or> length rest < unat len then None
      else Some \<lparr>es_ephPubKey = take 32 rest, es_encryptedPayload = take 45 (drop 32 rest)\<rparr>)"
| "getDepositSecretFromExtra _ = None"

section \<open>Predicates of the properties\<close>

text \<open>The bytes of a list of fields that can all be written.\<close>

definition field_bytes :: "TransactionExtraField list \<Rightarrow> bytes" where
  "field_bytes fs = concat (map (\<lambda>f. the (write_field f)) fs)"

definition trailing_padding :: "TransactionExtraField list \<Rightarrow> bool" where
  "trailing_padding ps \<longleftrightarrow> ps = [] \<or> (\<exists>n. 0 < n \<and> n \<le> 255 \<and> ps = [TransactionExtraPadding n])"

definition no_message :: TransactionExtraElderfierMessage where
  "no_message = \<lparr>em_senderKey = null_pod, em_recipientKey = null_pod, em_messageType = 0, em_timestamp = 0,
     em_messageData = [], em_signature = [], em_consensusRequired = False, em_consensusType = PROOF,
     em_requiredThreshold = 0, em_targetDepositHash = null_pod\<rparr>"

section \<open>Writing and parsing\<close>

lemma write_fields:
  "list_all wf_field fs \<Longrightarrow> writeTransactionExtra extra (fs @ gs) = writeTransactionExtra (extra @ field_bytes fs) gs"
  by (induction fs arbitrary: extra) (auto simp: field_bytes_def dest!: write_field_tag)

lemma parse_fields:
  "list_all wf_field fs \<Longrightarrow>
   parse_loop mem extra acc (field_bytes fs @ suf) = parse_loop mem extra (acc @ map (received mem) fs) suf"
proof (induction fs arbitrary: acc)
  case Nil
  show ?case by (simp add: field_bytes_def)
next
  case (Cons f fs)
  obtain c out where w: "write_field f = Some (c # out)" using Cons.prems write_field_tag [of f] by auto
  have "parse_field mem extra c (out @ field_bytes fs @ suf) = Some (Some (received mem f), field_bytes fs @ suf)"
    using Cons.prems w by (intro parse_field_back) auto
  then show ?case using Cons w by (simp add: field_bytes_def)
qed

lemma padding_loop_zeros: "k + m \<le> 256 \<Longrightarrow> padding_loop k (replicate m 0) = Some (k + m, [])"
  by (induction m arbitrary: k) (auto simp: TX_EXTRA_PADDING_MAX_COUNT_def)

lemma parse_padding:
  assumes "0 < n" "n \<le> 255"
  shows "parse_loop mem extra acc (replicate n 0) = (True, acc @ [TransactionExtraPadding n])"
proof -
  obtain m where n: "n = Suc m" using assms(1) by (cases n) auto
  have "padding_loop 1 (replicate m 0) = Some (n, [])" using assms(2) n padding_loop_zeros [of 1 m] by simp
  then show ?thesis
    using assms(2) n by (simp add: parse_field_def rd_padding_def rbind_def rret_def TX_EXTRA_PADDING_MAX_COUNT_def)
qed

lemma parse_written:
  assumes "list_all wf_field fs" "trailing_padding ps"
  shows "writeTransactionExtra [] (fs @ ps) = (True, field_bytes (fs @ ps))"
    and "parseTransactionExtra mem (field_bytes (fs @ ps)) = (True, map (received mem) fs @ ps)"
proof -
  have p: "parse_loop mem extra acc (field_bytes (fs @ ps)) = (True, acc @ map (received mem) fs @ ps)" for extra acc
    using assms(2) parse_fields [OF assms(1), of mem extra acc "field_bytes ps"] parse_padding
    by (auto simp: trailing_padding_def field_bytes_def write_field_def TX_EXTRA_PADDING_MAX_COUNT_def)
  show "writeTransactionExtra [] (fs @ ps) = (True, field_bytes (fs @ ps))"
    using assms(2) write_fields [OF assms(1), of "[]" ps]
    by (auto simp: trailing_padding_def field_bytes_def write_field_def TX_EXTRA_PADDING_MAX_COUNT_def)
  show "parseTransactionExtra mem (field_bytes (fs @ ps)) = (True, map (received mem) fs @ ps)"
    using p [of "field_bytes (fs @ ps)" "[]"] p [of "[]" "[]"] by (auto simp: parseTransactionExtra_def)
qed

lemma find_received [simp]:
  "find_public_key (map (received mem) fs) = find_public_key fs" "find_nonce (map (received mem) fs) = find_nonce fs"
  "find_mm_tag (map (received mem) fs) = find_mm_tag fs"
  by (induction fs, simp_all add: received_def split: TransactionExtraField.split)

lemma find_append:
  "find_public_key (fs @ gs) = (case find_public_key fs of None \<Rightarrow> find_public_key gs | Some x \<Rightarrow> Some x)"
  "find_nonce (fs @ gs) = (case find_nonce fs of None \<Rightarrow> find_nonce gs | Some x \<Rightarrow> Some x)"
  "find_mm_tag (fs @ gs) = (case find_mm_tag fs of None \<Rightarrow> find_mm_tag gs | Some x \<Rightarrow> Some x)"
proof -
  show "find_public_key (fs @ gs) = (case find_public_key fs of None \<Rightarrow> find_public_key gs | Some x \<Rightarrow> Some x)"
    by (induction fs rule: find_public_key.induct) auto
  show "find_nonce (fs @ gs) = (case find_nonce fs of None \<Rightarrow> find_nonce gs | Some x \<Rightarrow> Some x)"
    by (induction fs rule: find_nonce.induct) auto
  show "find_mm_tag (fs @ gs) = (case find_mm_tag fs of None \<Rightarrow> find_mm_tag gs | Some x \<Rightarrow> Some x)"
    by (induction fs rule: find_mm_tag.induct) auto
qed

section \<open>Payment ids and messages\<close>

lemma key_and_id_fields:
  assumes "sized 32 key" "sized 32 pid"
  shows "createTxExtraWithPaymentId (podToHex pid) (addTransactionPublicKeyToExtra e key) =
    (True, e @ field_bytes [TransactionExtraPublicKey key, TransactionExtraNonce (0 # pid)])"
  using assms podFromHex_podToHex [of pid]
  by (simp add: createTxExtraWithPaymentId_def parsePaymentId_def addExtraNonceToTransactionExtra_def
    setPaymentIdToTransactionExtraNonce_def addTransactionPublicKeyToExtra_def field_bytes_def write_field_def
    TX_EXTRA_NONCE_MAX_COUNT_def sized_def)

lemma decrypt_checksum:
  "length data = n + 4 \<Longrightarrow> drop n data = replicate 4 0 \<Longrightarrow>
   list_all (\<lambda>i. data ! (n + i) = 0) [0..<TX_EXTRA_MESSAGE_CHECKSUM_SIZE]"
  by (auto simp: TX_EXTRA_MESSAGE_CHECKSUM_SIZE_def list_all_iff simp flip: nth_drop)

lemma message_decrypt_encrypt:
  assumes "message_encrypt gkd index message recipient txkey = Some data"
    and "\<And>address. recipient = Some address \<Longrightarrow>
      \<exists>key. secret = Some key \<and> gkd (kp_publicKey txkey) key = gkd (ad_spendPublicKey address) (kp_secretKey txkey)"
    and "recipient = None \<Longrightarrow> secret = None"
  shows "message_decrypt gkd index (kp_publicKey txkey) secret data = Some message"
proof -
  let ?buf = "message @ replicate 4 0"
  have len: "length data = length message + 4"
    using assms(1) by (auto simp: message_encrypt_def Let_def TX_EXTRA_MESSAGE_CHECKSUM_SIZE_def split: option.splits)
  have "list_all (\<lambda>i. ?buf ! (length message + i) = 0) [0..<TX_EXTRA_MESSAGE_CHECKSUM_SIZE]"
    by (rule decrypt_checksum) simp_all
  then show ?thesis
    using assms len
    by (cases recipient) (auto simp: message_encrypt_def message_decrypt_def Let_def TX_EXTRA_MESSAGE_CHECKSUM_SIZE_def
      chacha8_twice split: option.splits)
qed

section \<open>Deposit secrets\<close>

lemma length_wr_le [simp]: "length (wr_le n v) = n"
  by (induction n arbitrary: v) simp_all

lemma length_wr_le64 [simp]: "length (wr_le64 v) = 8"
  by (simp add: wr_le64_def del: wr_le.simps)

lemma length_wr_le32 [simp]: "length (wr_le32 v) = 4"
  by (simp add: wr_le32_def del: wr_le.simps)

lemma bytes_payload_back:
  assumes "sized 32 (ds_depositSecret p)"
  shows "bytes_payload (payload_bytes p) = Some p" and "length (payload_bytes p) = 45"
  using assms pod.rd_wr [of 32 "ds_depositSecret p" "[]"]
  by (simp_all add: bytes_payload_def payload_bytes_def fromBinaryArray_def rbind_def rd_back rret_def sized_def)

lemma decrypt_encrypt_secret:
  assumes "sized 32 (ds_depositSecret p)"
    and "gkd viewPub ephSec = Some d" "gkd ephPub viewSec = Some d"
    and "encryptDepositSecret gkd ephPub ephSec p viewPub = Some enc"
  shows "decryptDepositSecret gkd enc viewSec = Some p"
  using assms bytes_payload_back [OF assms(1)]
  by (auto simp: encryptDepositSecret_def decryptDepositSecret_def chacha8_twice)

lemma deposit_secret_skip:
  assumes "0xD5 \<notin> set pre" "rest \<noteq> []"
  shows "getDepositSecretFromExtra (pre @ rest) = getDepositSecretFromExtra rest"
  using assms(1)
proof (induction pre)
  case (Cons b pre)
  then have "pre @ rest \<noteq> []" "b \<noteq> 0xD5" using assms(2) by auto
  then obtain l r where "pre @ rest = l # r" by (cases "pre @ rest") auto
  then show ?case using Cons \<open>b \<noteq> 0xD5\<close> by auto
qed simp

lemma deposit_secret_found:
  assumes "0xD5 \<notin> set extra" "sized 32 (es_ephPubKey enc)" "addDepositSecretToExtra extra enc = (True, extra')"
  shows "getDepositSecretFromExtra (extra' @ suf) = Some enc"
proof -
  have len: "length (es_encryptedPayload enc) = 45"
      and e: "extra' = extra @ [0xD5, 77] @ es_ephPubKey enc @ es_encryptedPayload enc"
    using assms(3) by (auto simp: addDepositSecretToExtra_def split: if_splits)
  have "getDepositSecretFromExtra (extra' @ suf) =
      getDepositSecretFromExtra ([0xD5, 77] @ es_ephPubKey enc @ es_encryptedPayload enc @ suf)"
    unfolding e append_assoc by (rule deposit_secret_skip [OF assms(1)]) simp
  then show ?thesis using assms(2) len by (simp add: sized_def)
qed

lemma deposit_secret_shadowed:
  assumes "extra = pre @ [0xD5, x] @ post" "0xD5 \<notin> set pre" "x \<noteq> 77"
  shows "getDepositSecretFromExtra (extra @ suf) = None"
proof -
  have "getDepositSecretFromExtra (extra @ suf) = getDepositSecretFromExtra ([0xD5, x] @ post @ suf)"
    unfolding assms(1) append_assoc by (rule deposit_secret_skip [OF assms(2)]) simp
  moreover have "unat x \<noteq> 77" using assms(3) by (auto simp: word_unat_eq_iff)
  ultimately show ?thesis by simp
qed

section \<open>Properties\<close>

text \<open>
  C23: a list of fields that their encodings can carry, possibly with padding at its end, is written without failure,
  and parsing the bytes succeeds with the same fields, in order, except that a message between Elderfiers comes back without
  its consensus members.
\<close>

theorem extra_roundtrip:
  assumes "list_all wf_field fs" "trailing_padding ps"
  shows "\<exists>out. writeTransactionExtra [] (fs @ ps) = (True, out) \<and>
    parseTransactionExtra mem out = (True, map (received mem) fs @ ps)"
  using parse_written [OF assms] by blast

theorem extra_roundtrip_witness:
  "\<exists>out. writeTransactionExtra [] [TransactionExtraPublicKey null_pod, TransactionExtraTTL 300,
      TransactionExtraPadding 2] = (True, out) \<and>
    parseTransactionExtra no_message out =
      (True, [TransactionExtraPublicKey null_pod, TransactionExtraTTL 300, TransactionExtraPadding 2])"
  using extra_roundtrip [of "[TransactionExtraPublicKey null_pod, TransactionExtraTTL 300]"
    "[TransactionExtraPadding 2]" no_message]
  by (simp add: wf_field_def sized_def null_pod_def trailing_padding_def received_def)

text \<open>
  A sender that adds the transaction key and a payment id behind fields that hold neither is understood by every
  node: the look-ups return exactly this key and this payment id.
\<close>

theorem payment_id_found:
  assumes "list_all wf_field fs" "find_public_key fs = None" "find_nonce fs = None"
    and "sized 32 key" "sized 32 pid"
  shows "\<exists>extra. createTxExtraWithPaymentId (podToHex pid) (addTransactionPublicKeyToExtra (field_bytes fs) key) =
      (True, extra) \<and>
    getTransactionPublicKeyFromExtra mem extra = key \<and> getPaymentIdFromTxExtra mem extra = Some pid"
proof -
  let ?gs = "fs @ [TransactionExtraPublicKey key, TransactionExtraNonce (0 # pid)]"
  have "list_all wf_field ?gs"
    using assms by (simp add: wf_field_basic sized_def)
  then have "parseTransactionExtra mem (field_bytes ?gs) = (True, map (received mem) ?gs)"
    using parse_written(2) [of ?gs "[]" mem] by (simp add: trailing_padding_def)
  moreover have "createTxExtraWithPaymentId (podToHex pid) (addTransactionPublicKeyToExtra (field_bytes fs) key) =
      (True, field_bytes ?gs)"
    using key_and_id_fields [OF assms(4,5)] by (simp add: field_bytes_def)
  ultimately show ?thesis
    using assms(2-5) by (simp add: getTransactionPublicKeyFromExtra_def getPaymentIdFromTxExtra_def find_append
      getPaymentIdFromTransactionExtraNonce_def sized_def del: map_append)
qed

theorem payment_id_found_witness:
  "\<exists>extra. createTxExtraWithPaymentId (podToHex null_pod) (addTransactionPublicKeyToExtra
      (field_bytes [TransactionExtraTTL 7]) (replicate 32 9)) = (True, extra) \<and>
    getTransactionPublicKeyFromExtra no_message extra = replicate 32 9 \<and>
    getPaymentIdFromTxExtra no_message extra = Some null_pod"
  by (rule payment_id_found) (simp_all add: wf_field_def sized_def null_pod_def)

text \<open>
  C35: what a wallet can recover of a deposit. With a key exchange on which both sides agree, the secret of a
  deposit is encrypted, put into the extra bytes, found there and decrypted again to the same payload, whatever is
  appended, if no earlier byte equals the tag. If the first such byte is followed by anything but the length 77, for
  example in the middle of the transaction's public key, the look-up gives up and the secret is not found.
\<close>

theorem deposit_secret_recovery:
  assumes "sized 32 (ds_depositSecret p)" "sized 32 ephPub"
    and "gkd viewPub ephSec = Some d" "gkd ephPub viewSec = Some d"
  shows "\<exists>enc extra'. encryptDepositSecret gkd ephPub ephSec p viewPub = Some enc \<and>
    addDepositSecretToExtra extra enc = (True, extra') \<and>
    decryptDepositSecret gkd enc viewSec = Some p \<and>
    (0xD5 \<notin> set extra \<longrightarrow> (\<forall>suf. getDepositSecretFromExtra (extra' @ suf) = Some enc)) \<and>
    (\<forall>pre x post. extra = pre @ [0xD5, x] @ post \<and> 0xD5 \<notin> set pre \<and> x \<noteq> 77 \<longrightarrow>
      getDepositSecretFromExtra extra' = None)"
proof -
  obtain enc where enc: "encryptDepositSecret gkd ephPub ephSec p viewPub = Some enc" "es_ephPubKey enc = ephPub"
      "length (es_encryptedPayload enc) = 45"
    using assms(3) bytes_payload_back(2) [OF assms(1)] by (simp add: encryptDepositSecret_def)
  then obtain extra' where e: "addDepositSecretToExtra extra enc = (True, extra')" and pre: "\<exists>suf. extra' = extra @ suf"
    by (auto simp: addDepositSecretToExtra_def)
  show ?thesis
  proof (intro exI conjI impI allI)
    show "encryptDepositSecret gkd ephPub ephSec p viewPub = Some enc" by (rule enc(1))
    show "addDepositSecretToExtra extra enc = (True, extra')" by (rule e)
    show "decryptDepositSecret gkd enc viewSec = Some p" by (rule decrypt_encrypt_secret [OF assms(1,3,4) enc(1)])
  next
    fix suf assume "0xD5 \<notin> set extra"
    then show "getDepositSecretFromExtra (extra' @ suf) = Some enc"
      using deposit_secret_found [OF _ _ e] enc(2) assms(2) by simp
  next
    fix pre' x post
    assume "extra = pre' @ [0xD5, x] @ post \<and> 0xD5 \<notin> set pre' \<and> x \<noteq> 77"
    then show "getDepositSecretFromExtra extra' = None" using pre deposit_secret_shadowed [of extra pre' x post] by auto
  qed
qed

theorem deposit_secret_recovery_witness:
  "\<exists>enc extra'. encryptDepositSecret (\<lambda>a b. Some []) null_pod [] \<lparr>ds_depositType = 1, ds_amount = 5, ds_term = 9,
      ds_depositSecret = null_pod\<rparr> [] = Some enc \<and>
    addDepositSecretToExtra [1, 0xD5, 2] enc = (True, extra') \<and> getDepositSecretFromExtra extra' = None"
proof -
  have "[1, 0xD5, 2] = [1] @ [0xD5, 2 :: u8] @ []" "(0xD5 :: u8) \<notin> set [1]" "(2 :: u8) \<noteq> 77" by simp_all
  moreover have "sized 32 null_pod" by (simp add: sized_def null_pod_def)
  ultimately show ?thesis
    using deposit_secret_recovery [of "\<lparr>ds_depositType = 1, ds_amount = 5, ds_term = 9, ds_depositSecret = null_pod\<rparr>"
      null_pod "\<lambda>a b. Some []" "[]" "[]" "[]" "[]" "[1, 0xD5, 2]"]
    by (metis DepositSecretPayload.select_convs(4))
qed

text \<open>
  An alias registration in a transaction is valid exactly when the alias index would take its name for its type: the
  check on the wire and the check of the index agree.
\<close>

theorem alias_checks_agree:
  "AliasRegistration_isValid r \<longleftrightarrow>
     ar_aliasType r = 0 \<and> isValidElderfierAlias (ar_alias r) \<or>
     ar_aliasType r = 1 \<and> isValidRegularAlias (ar_alias r)"
proof -
  have "alias_char lo hi = (\<lambda>c. in_range lo hi c \<or> in_range CHR ''0'' CHR ''9'' c \<or> c = CHR ''&'')" for lo hi
    by (simp add: fun_eq_iff alias_char_def in_range_def)
  then show ?thesis
    by (auto simp: AliasRegistration_isValid_def isValidElderfierAlias_def isValidRegularAlias_def Let_def)
qed

text \<open>
  The commitment of a burn or deposit binds all its arguments: the hashed preimage has 88 bytes, and two preimages
  are equal only if secret, amount, transaction, network, chain, version and term are. The commitment of a burn is that
  of a deposit with the term 0xFFFFFFFF.
\<close>

theorem commitment_binds_arguments:
  assumes "sized 32 s" "sized 32 h" "sized 32 s'" "sized 32 h'"
  shows "length (commitment_preimage s a h n c v t) = 88 \<and>
    (commitment_preimage s a h n c v t = commitment_preimage s' a' h' n' c' v' t' \<longleftrightarrow>
      s = s' \<and> a = a' \<and> h = h' \<and> n = n' \<and> c = c' \<and> v = v' \<and> t = t') \<and>
    computeHeatCommitment s a h n c v = keccak (commitment_preimage s a h n c v 0xFFFFFFFF) 32"
proof -
  have "x = y" if "wr_le64 x = wr_le64 y" for x y
    using rd_le_back(1) [of x "[]"] rd_le_back(1) [of y "[]"] that by simp
  then have i64: "wr_le64 x = wr_le64 y \<longleftrightarrow> x = y" for x y by blast
  have "x = y" if "wr_le32 x = wr_le32 y" for x y
    using rd_le_back(2) [of x "[]"] rd_le_back(2) [of y "[]"] that by simp
  then have i32: "wr_le32 x = wr_le32 y \<longleftrightarrow> x = y" for x y by blast
  show ?thesis
    using assms by (simp add: commitment_preimage_def sized_def i64 i32 computeHeatCommitment_def computeCommitment_def)
qed

theorem commitment_binds_arguments_witness:
  "length (commitment_preimage null_pod 5 null_pod 1 2 3 4) = 88 \<and>
   commitment_preimage null_pod 5 null_pod 1 2 3 4 \<noteq> commitment_preimage null_pod 5 null_pod 1 2 3 9"
  using commitment_binds_arguments [of null_pod null_pod null_pod null_pod 5 1 2 3 4 5 1 2 3 9]
  by (simp add: sized_def null_pod_def)

text \<open>
  A message put into a transaction for a recipient, or for everybody, is read back exactly, with the index it was
  encrypted for and a key exchange on which both sides agree.
\<close>

theorem message_roundtrip:
  assumes "gkd (kp_publicKey txkey) key = Some d" "gkd (ad_spendPublicKey address) (kp_secretKey txkey) = Some d"
  shows "(\<exists>data. message_encrypt gkd index message (Some address) txkey = Some data \<and>
      message_decrypt gkd index (kp_publicKey txkey) (Some key) data = Some message) \<and>
    (\<exists>data. message_encrypt gkd index message None txkey = Some data \<and>
      message_decrypt gkd index (kp_publicKey txkey) None data = Some message)"
proof
  obtain data where data: "message_encrypt gkd index message (Some address) txkey = Some data"
    using assms(2) by (simp add: message_encrypt_def)
  then have "message_decrypt gkd index (kp_publicKey txkey) (Some key) data = Some message"
    using assms by (intro message_decrypt_encrypt) auto
  then show "\<exists>data. message_encrypt gkd index message (Some address) txkey = Some data \<and>
      message_decrypt gkd index (kp_publicKey txkey) (Some key) data = Some message"
    using data by blast
next
  obtain data where data: "message_encrypt gkd index message None txkey = Some data"
    by (simp add: message_encrypt_def)
  then have "message_decrypt gkd index (kp_publicKey txkey) None data = Some message"
    by (intro message_decrypt_encrypt) auto
  then show "\<exists>data. message_encrypt gkd index message None txkey = Some data \<and>
      message_decrypt gkd index (kp_publicKey txkey) None data = Some message"
    using data by blast
qed

theorem message_roundtrip_witness:
  "\<exists>data. message_encrypt (\<lambda>a b. Some [1]) 3 [104, 105] (Some \<lparr>ad_spendPublicKey = [], ad_viewPublicKey = []\<rparr>)
      \<lparr>kp_publicKey = [], kp_secretKey = []\<rparr> = Some data \<and>
    message_decrypt (\<lambda>a b. Some [1]) 3 [] (Some []) data = Some [104, 105]"
  using message_roundtrip [of "\<lambda>a b. Some [1]" "\<lparr>kp_publicKey = [], kp_secretKey = []\<rparr>" "[]" "[1]"
    "\<lparr>ad_spendPublicKey = [], ad_viewPublicKey = []\<rparr>" 3 "[104, 105]"] by simp

text \<open>
  The body of a receipt is not skipped: behind its tag the parser goes on inside the receipt. Here the first bytes of
  the receipt's key are taken for the transaction's public key.
\<close>

theorem receipt_read_as_fields:
  "\<exists>r. getTransactionPublicKeyFromExtra no_message (createTxExtraWithBurnReceipt r) = replicate 31 0 @ [64]"
  by (rule exI [of _ "\<lparr>br_proof_pubkey = 1 # replicate 31 0, br_tx_hash = replicate 64 CHR ''a'', br_timestamp = 0\<rparr>"])
    code_simp

text \<open>A length close to \<open>2 ^ 64\<close> passes the bounds check of the alias look-up and makes it throw.\<close>

theorem alias_lookup_overflow:
  "getAliasFromExtra ([0xEA] @ write_varint 0xFFFFFFFFFFFFFFFF) = Throws"
  by code_simp

end
