(* ===== verification/Transaction_Serialization.thy ===== *)
theory Transaction_Serialization
  imports Transaction_Extra Tree_Hash
begin

text \<open>
  The binary form of transactions and blocks, \<open>src/src/CryptoNoteCore/CryptoNoteSerialization.cpp\<close>, and the hashes taken
  of it, \<open>CryptoNoteTools.h\<close> and \<open>CryptoNoteFormatUtils.cpp\<close>. One \<open>serialize\<close> function of the source is a writer and a
  reader here, for the two kinds of serializer; both give \<open>None\<close> where the source throws. \<open>mem\<close> is an uninitialised
  object a reader leaves in part as it was.

  Shown here: the inputs, outputs and transactions are codecs, so that a transaction is read back as it was written and no
  two byte strings are read as the same transaction; a block that could be written is read back, with empty lists of
  signatures filled in where a transaction has none; equal hashing blobs of two blocks mean equal versions, predecessors,
  transaction roots and numbers of transactions.
\<close>

section \<open>Transactions\<close>

text \<open>The tags of \<open>BinaryVariantTagGetter\<close> stand in front of the members.\<close>

fun wr_input :: "TransactionInput \<Rightarrow> bytes" where
  "wr_input (BaseInput height) = 0xff # wr_u32 height"
| "wr_input (KeyInput amount outputIndexes keyImage) =
     0x2 # wr_u64 amount @ wr_vector wr_u32 outputIndexes @ keyImage"
| "wr_input (MultisignatureInput amount signatureCount outputIndex term) =
     0x3 # wr_u64 amount @ wr_u8 signatureCount @ wr_u32 outputIndex @ wr_u32 term"
| "wr_input (TransactionInputCommitmentSpend amount outputIndexes keyImage claimedInterest) =
     0x4 # wr_u64 amount @ wr_vector wr_u32 outputIndexes @ keyImage @ wr_u64 claimedInterest"
| "wr_input (TransactionInputCommitmentTransfer amount outputIndexes keyImage newTerm) =
     0x8 # wr_u64 amount @ wr_vector wr_u32 outputIndexes @ keyImage @ wr_u32 newTerm"
| "wr_input (TransactionInputUnified outputIndexes keyImage pseudoCommitment sigC0) =
     0x5 # wr_vector wr_u32 outputIndexes @ keyImage @ pseudoCommitment @ sigC0"

definition rd_input_value :: "u8 \<Rightarrow> TransactionInput reader" where
  "rd_input_value tag =
     (if tag = 0xff then rbind rd_u32 (\<lambda>height. rret (BaseInput height))
      else if tag = 0x2 then rbind rd_u64 (\<lambda>amount. rbind (rd_vector rd_u32) (\<lambda>outputIndexes.
        rbind (read_bytes 32) (\<lambda>keyImage. rret (KeyInput amount outputIndexes keyImage))))
      else if tag = 0x3 then rbind rd_u64 (\<lambda>amount. rbind rd_u8 (\<lambda>signatureCount. rbind rd_u32 (\<lambda>outputIndex.
        rbind rd_u32 (\<lambda>term. rret (MultisignatureInput amount signatureCount outputIndex term)))))
      else if tag = 0x4 then rbind rd_u64 (\<lambda>amount. rbind (rd_vector rd_u32) (\<lambda>outputIndexes.
        rbind (read_bytes 32) (\<lambda>keyImage. rbind rd_u64 (\<lambda>claimedInterest.
        rret (TransactionInputCommitmentSpend amount outputIndexes keyImage claimedInterest)))))
      else if tag = 0x5 then rbind (rd_vector rd_u32) (\<lambda>outputIndexes. rbind (read_bytes 32) (\<lambda>keyImage.
        rbind (read_bytes 32) (\<lambda>pseudoCommitment. rbind (read_bytes 32) (\<lambda>sigC0.
        rret (TransactionInputUnified outputIndexes keyImage pseudoCommitment sigC0)))))
      else if tag = 0x8 then rbind rd_u64 (\<lambda>amount. rbind (rd_vector rd_u32) (\<lambda>outputIndexes.
        rbind (read_bytes 32) (\<lambda>keyImage. rbind rd_u32 (\<lambda>newTerm.
        rret (TransactionInputCommitmentTransfer amount outputIndexes keyImage newTerm)))))
      else rfail)"

definition rd_input :: "TransactionInput reader" where
  "rd_input = rbind rd_byte rd_input_value"

fun wr_target :: "TransactionOutputTarget \<Rightarrow> bytes" where
  "wr_target (KeyOutput key) = 0x2 # key"
| "wr_target (MultisignatureOutput keys requiredSignatureCount term) =
     0x3 # wr_vector (\<lambda>k. k) keys @ wr_u8 requiredSignatureCount @ wr_u32 term"
| "wr_target (TransactionOutputCommitment commitKey term amountCommitment amountProof) =
     0x4 # commitKey @ wr_u32 term @ amountCommitment @ amountProof"
| "wr_target (TransactionOutputUnified key term commitment proof') =
     0x5 # key @ wr_u32 term @ commitment @ proof'"

definition rd_target_value :: "u8 \<Rightarrow> TransactionOutputTarget reader" where
  "rd_target_value tag =
     (if tag = 0x2 then rbind (read_bytes 32) (\<lambda>key. rret (KeyOutput key))
      else if tag = 0x3 then rbind (rd_vector (read_bytes 32)) (\<lambda>keys. rbind rd_u8 (\<lambda>requiredSignatureCount.
        rbind rd_u32 (\<lambda>term. rret (MultisignatureOutput keys requiredSignatureCount term))))
      else if tag = 0x4 then rbind (read_bytes 32) (\<lambda>commitKey. rbind rd_u32 (\<lambda>term.
        rbind (read_bytes 32) (\<lambda>amountCommitment. rbind (read_bytes 256) (\<lambda>amountProof.
        rret (TransactionOutputCommitment commitKey term amountCommitment amountProof)))))
      else if tag = 0x5 then rbind (read_bytes 32) (\<lambda>key. rbind rd_u32 (\<lambda>term.
        rbind (read_bytes 32) (\<lambda>commitment. rbind (read_bytes 256) (\<lambda>proof'.
        rret (TransactionOutputUnified key term commitment proof')))))
      else rfail)"

definition rd_target :: "TransactionOutputTarget reader" where
  "rd_target = rbind rd_byte rd_target_value"

definition wr_output :: "TransactionOutput \<Rightarrow> bytes" where
  "wr_output o' = wr_u64 (out_amount o') @ wr_target (out_target o')"

definition rd_output :: "TransactionOutput reader" where
  "rd_output = rbind rd_u64 (\<lambda>amount. rbind rd_target (\<lambda>target. rret \<lparr>out_amount = amount, out_target = target\<rparr>))"

fun getSignaturesCount :: "TransactionInput \<Rightarrow> nat" where
  "getSignaturesCount (BaseInput _) = 0"
| "getSignaturesCount (KeyInput _ outputIndexes _) = length outputIndexes"
| "getSignaturesCount (MultisignatureInput _ signatureCount _ _) = unat signatureCount"
| "getSignaturesCount (TransactionInputCommitmentSpend _ outputIndexes _ _) = length outputIndexes"
| "getSignaturesCount (TransactionInputCommitmentTransfer _ outputIndexes _ _) = length outputIndexes"
| "getSignaturesCount (TransactionInputUnified outputIndexes _ _ _) = length outputIndexes"

text \<open>\<open>serialize(TransactionPrefix&)\<close>.\<close>

definition wr_TransactionPrefix :: "'a TransactionPrefix_scheme \<Rightarrow> bytes option" where
  "wr_TransactionPrefix tx =
     (if 2 < tx_version tx then None
      else Some (wr_u8 (tx_version tx) @ wr_u64 (tx_unlockTime tx) @ wr_vector wr_input (tx_inputs tx) @
        wr_vector wr_output (tx_outputs tx) @ wr_string (tx_extra tx)))"

definition rd_TransactionPrefix :: "TransactionPrefix reader" where
  "rd_TransactionPrefix =
     rbind rd_u8 (\<lambda>version.
     if 2 < version then rfail
     else rbind rd_u64 (\<lambda>unlockTime. rbind (rd_vector rd_input) (\<lambda>inputs. rbind (rd_vector rd_output) (\<lambda>outputs.
       rbind rd_string (\<lambda>extra.
       rret \<lparr>tx_version = version, tx_unlockTime = unlockTime, tx_inputs = inputs, tx_outputs = outputs,
         tx_extra = extra\<rparr>)))))"

text \<open>The loop over the inputs that writes, or reads, as many signatures as each input has.\<close>

fun wr_signatures :: "TransactionInput list \<Rightarrow> signature list list \<Rightarrow> bytes option" where
  "wr_signatures (i # inputs) (sigs # signatures) =
     (if getSignaturesCount i \<noteq> length sigs then None
      else case wr_signatures inputs signatures of None \<Rightarrow> None | Some out \<Rightarrow> Some (concat sigs @ out))"
| "wr_signatures inputs signatures = Some []"

fun rd_signatures :: "TransactionInput list \<Rightarrow> signature list list reader" where
  "rd_signatures [] = rret []"
| "rd_signatures (i # inputs) =
     rbind (rd_items (read_bytes 64) (getSignaturesCount i)) (\<lambda>sigs.
     rbind (rd_signatures inputs) (\<lambda>signatures. rret (sigs # signatures)))"

definition wr_Transaction :: "Transaction \<Rightarrow> bytes option" where
  "wr_Transaction tx =
     (case wr_TransactionPrefix tx of
        None \<Rightarrow> None
      | Some prefix' \<Rightarrow>
          let signaturesNotExpected = tx_signatures tx = []
          in if \<not> signaturesNotExpected \<and> length (tx_inputs tx) \<noteq> length (tx_signatures tx) then None
             else if signaturesNotExpected
             then if list_all (\<lambda>i. getSignaturesCount i = 0) (tx_inputs tx) then Some prefix' else None
             else case wr_signatures (tx_inputs tx) (tx_signatures tx) of
                    None \<Rightarrow> None | Some out \<Rightarrow> Some (prefix' @ out))"

definition with_signatures :: "TransactionPrefix \<Rightarrow> signature list list \<Rightarrow> Transaction" where
  "with_signatures p signatures =
     \<lparr>tx_version = tx_version p, tx_unlockTime = tx_unlockTime p, tx_inputs = tx_inputs p, tx_outputs = tx_outputs p,
      tx_extra = tx_extra p, tx_signatures = signatures\<rparr>"

definition rd_Transaction :: "Transaction reader" where
  "rd_Transaction =
     rbind rd_TransactionPrefix (\<lambda>p. rbind (rd_signatures (tx_inputs p)) (\<lambda>signatures.
     rret (with_signatures p signatures)))"

text \<open>\<open>toBinaryArray\<close>, \<open>getObjectHash\<close> and \<open>getObjectBinarySize\<close>: \<open>None\<close> is the failure flag.\<close>

definition getObjectHash :: "bytes option \<Rightarrow> hash option" where
  "getObjectHash binaryArray = map_option cn_fast_hash binaryArray"

definition getObjectBinarySize :: "bytes option \<Rightarrow> u64" where
  "getObjectBinarySize binaryArray = (case binaryArray of None \<Rightarrow> -1 | Some ba \<Rightarrow> of_nat (length ba))"

section \<open>Blocks\<close>

definition wr_BlockHeader :: "'a BlockHeader_scheme \<Rightarrow> bytes option" where
  "wr_BlockHeader h =
     (if 10 < bl_majorVersion h then None
      else if bl_majorVersion h = 1 then
        Some (wr_u8 (bl_majorVersion h) @ wr_u8 (bl_minorVersion h) @ wr_u64 (bl_timestamp h) @
          bl_previousBlockHash h @ wr_le32 (bl_nonce h))
      else if 2 \<le> bl_majorVersion h then
        Some (wr_u8 (bl_majorVersion h) @ wr_u8 (bl_minorVersion h) @ bl_previousBlockHash h)
      else None)"

text \<open>The reader gives the header as an update of the object \<open>mem\<close> it fills.\<close>

definition rd_BlockHeader :: "Block \<Rightarrow> Block reader" where
  "rd_BlockHeader mem =
     rbind rd_u8 (\<lambda>major.
     if 10 < major then rfail
     else rbind rd_u8 (\<lambda>minor.
       if major = 1 then rbind rd_u64 (\<lambda>timestamp. rbind (read_bytes 32) (\<lambda>prev. rbind rd_le32 (\<lambda>nonce.
         rret (mem\<lparr>bl_majorVersion := major, bl_minorVersion := minor, bl_timestamp := timestamp,
           bl_previousBlockHash := prev, bl_nonce := nonce\<rparr>))))
       else if 2 \<le> major then rbind (read_bytes 32) (\<lambda>prev.
         rret (mem\<lparr>bl_majorVersion := major, bl_minorVersion := minor, bl_previousBlockHash := prev\<rparr>))
       else rfail))"

text \<open>\<open>serialize(ParentBlockSerializer&)\<close> on output; timestamp and nonce are those of the block itself. \<open>mm_tag\<close> is
  \<open>getMergeMiningTagFromExtra\<close>.\<close>

definition wr_ParentBlock ::
  "(bytes \<Rightarrow> (u64 \<times> hash) option) \<Rightarrow> bool \<Rightarrow> bool \<Rightarrow> ParentBlock \<Rightarrow> u64 \<Rightarrow> u32 \<Rightarrow> bytes option" where
  "wr_ParentBlock mm_tag hashingSerialization headerOnly pb timestamp nonce =
     (case (if hashingSerialization
            then (case getObjectHash (wr_Transaction (pb_baseTransaction pb)) of
                    None \<Rightarrow> None
                  | Some minerTxHash \<Rightarrow> Some (tree_hash_from_branch (pb_baseTransactionBranch pb)
                      (length (pb_baseTransactionBranch pb)) minerTxHash None))
            else Some []) of
        None \<Rightarrow> None
      | Some root \<Rightarrow>
          if pb_transactionCount pb < 1 then None
          else
            let header = wr_u8 (pb_majorVersion pb) @ wr_u8 (pb_minorVersion pb) @ wr_u64 timestamp @
                  pb_previousBlockHash pb @ wr_le32 nonce @ root @ wr_u64 (ucast (pb_transactionCount pb))
            in if headerOnly then Some header
               else if length (pb_baseTransactionBranch pb) \<noteq> tree_depth (ucast (pb_transactionCount pb)) then None
               else case wr_Transaction (pb_baseTransaction pb) of
                      None \<Rightarrow> None
                    | Some minerTx \<Rightarrow>
                        (case mm_tag (tx_extra (pb_baseTransaction pb)) of
                           None \<Rightarrow> None
                         | Some (depth, merkleRoot) \<Rightarrow>
                             if 8 * 32 < depth then None
                             else if unat depth \<noteq> length (pb_blockchainBranch pb) then None
                             else Some (header @ concat (pb_baseTransactionBranch pb) @ minerTx @
                               concat (pb_blockchainBranch pb))))"

definition rd_ParentBlock :: "(bytes \<Rightarrow> (u64 \<times> hash) option) \<Rightarrow> (ParentBlock \<times> u64 \<times> u32) reader" where
  "rd_ParentBlock mm_tag =
     rbind rd_u8 (\<lambda>major. rbind rd_u8 (\<lambda>minor. rbind rd_u64 (\<lambda>timestamp. rbind (read_bytes 32) (\<lambda>prev.
     rbind rd_le32 (\<lambda>nonce. rbind rd_u64 (\<lambda>txNum.
     let transactionCount = ucast txNum :: 16 word
     in if transactionCount < 1 then rfail
        else rbind (rd_items (read_bytes 32) (tree_depth (ucast transactionCount))) (\<lambda>baseTransactionBranch.
          rbind rd_Transaction (\<lambda>baseTransaction.
          case mm_tag (tx_extra baseTransaction) of
            None \<Rightarrow> rfail
          | Some (depth, merkleRoot) \<Rightarrow>
              if 8 * 32 < depth then rfail
              else rbind (rd_items (read_bytes 32) (unat depth)) (\<lambda>blockchainBranch.
                rret (\<lparr>pb_majorVersion = major, pb_minorVersion = minor, pb_previousBlockHash = prev,
                  pb_transactionCount = transactionCount, pb_baseTransactionBranch = baseTransactionBranch,
                  pb_baseTransaction = baseTransaction, pb_blockchainBranch = blockchainBranch\<rparr>, timestamp, nonce))))))))))"

definition wr_Block :: "(bytes \<Rightarrow> (u64 \<times> hash) option) \<Rightarrow> Block \<Rightarrow> bytes option" where
  "wr_Block mm_tag b =
     (case wr_BlockHeader b of
        None \<Rightarrow> None
      | Some header \<Rightarrow>
          (case (if 2 \<le> bl_majorVersion b
                 then wr_ParentBlock mm_tag False False (bl_parentBlock b) (bl_timestamp b) (bl_nonce b)
                 else Some []) of
             None \<Rightarrow> None
           | Some parent \<Rightarrow>
               (case wr_Transaction (bl_baseTransaction b) of
                  None \<Rightarrow> None
                | Some miner_tx \<Rightarrow>
                    Some (header @ parent @ miner_tx @ wr_vector (\<lambda>h. h) (bl_transactionHashes b)))))"

definition rd_Block :: "(bytes \<Rightarrow> (u64 \<times> hash) option) \<Rightarrow> Block \<Rightarrow> Block reader" where
  "rd_Block mm_tag mem =
     rbind (rd_BlockHeader mem) (\<lambda>b.
     rbind (if 2 \<le> bl_majorVersion b
            then rbind (rd_ParentBlock mm_tag) (\<lambda>(pb, timestamp, nonce).
              rret (b\<lparr>bl_parentBlock := pb, bl_timestamp := timestamp, bl_nonce := nonce\<rparr>))
            else rret b) (\<lambda>b.
     rbind rd_Transaction (\<lambda>miner_tx. rbind (rd_vector (read_bytes 32)) (\<lambda>tx_hashes.
     rret (b\<lparr>bl_baseTransaction := miner_tx, bl_transactionHashes := tx_hashes\<rparr>)))))"

text \<open>The hash of the base transaction, null when it cannot be serialised.\<close>

definition base_hash :: "Transaction \<Rightarrow> hash" where
  "base_hash tx = (case getObjectHash (wr_Transaction tx) of None \<Rightarrow> null_pod | Some h \<Rightarrow> h)"

definition get_block_hashing_blob :: "Block \<Rightarrow> bytes option" where
  "get_block_hashing_blob b =
     (case wr_BlockHeader b of
        None \<Rightarrow> None
      | Some ba \<Rightarrow> Some (ba @ get_tx_tree_hash base_hash b @ write_varint (of_nat (length (bl_transactionHashes b) + 1))))"

definition get_parent_block_hashing_blob :: "(bytes \<Rightarrow> (u64 \<times> hash) option) \<Rightarrow> Block \<Rightarrow> bytes option" where
  "get_parent_block_hashing_blob mm_tag b =
     wr_ParentBlock mm_tag True True (bl_parentBlock b) (bl_timestamp b) (bl_nonce b)"

text \<open>The hash of a byte array is taken of its serialised form, the array behind its length.\<close>

definition get_block_hash :: "(bytes \<Rightarrow> (u64 \<times> hash) option) \<Rightarrow> Block \<Rightarrow> hash option" where
  "get_block_hash mm_tag b =
     (case get_block_hashing_blob b of
        None \<Rightarrow> None
      | Some ba \<Rightarrow>
          if 2 \<le> bl_majorVersion b
          then (case wr_ParentBlock mm_tag True False (bl_parentBlock b) (bl_timestamp b) (bl_nonce b) of
                  None \<Rightarrow> None
                | Some parent_blob \<Rightarrow> getObjectHash (Some (wr_string (ba @ parent_blob))))
          else getObjectHash (Some (wr_string ba)))"

definition get_aux_block_header_hash :: "Block \<Rightarrow> hash option" where
  "get_aux_block_header_hash b =
     (case get_block_hashing_blob b of None \<Rightarrow> None | Some blob \<Rightarrow> getObjectHash (Some (wr_string blob)))"

text \<open>\<open>cn_slow_hash data light variant\<close> is an argument.\<close>

definition get_block_longhash ::
  "(bytes \<Rightarrow> nat \<Rightarrow> nat \<Rightarrow> hash) \<Rightarrow> (bytes \<Rightarrow> (u64 \<times> hash) option) \<Rightarrow> Block \<Rightarrow> hash option" where
  "get_block_longhash cn_slow_hash mm_tag b =
     (case (if bl_majorVersion b = 1 then get_block_hashing_blob b
            else if 2 \<le> bl_majorVersion b then get_parent_block_hashing_blob mm_tag b else None) of
        None \<Rightarrow> None
      | Some bd \<Rightarrow>
          let cn_variant = (if bl_majorVersion b < 5 then 0 else if 6 \<le> bl_majorVersion b then 2 else 1);
              light = (if 9 \<le> bl_majorVersion b then 1 else 0)
          in Some (cn_slow_hash bd light cn_variant))"

section \<open>Well-formed values\<close>

fun ok_input :: "TransactionInput \<Rightarrow> bool" where
  "ok_input (KeyInput _ outputIndexes keyImage) \<longleftrightarrow> length outputIndexes \<le> max_array \<and> sized 32 keyImage"
| "ok_input (TransactionInputCommitmentSpend _ outputIndexes keyImage _) \<longleftrightarrow>
     length outputIndexes \<le> max_array \<and> sized 32 keyImage"
| "ok_input (TransactionInputCommitmentTransfer _ outputIndexes keyImage _) \<longleftrightarrow>
     length outputIndexes \<le> max_array \<and> sized 32 keyImage"
| "ok_input (TransactionInputUnified outputIndexes keyImage pseudoCommitment sigC0) \<longleftrightarrow>
     length outputIndexes \<le> max_array \<and> sized 32 keyImage \<and> sized 32 pseudoCommitment \<and> sized 32 sigC0"
| "ok_input _ \<longleftrightarrow> True"

fun ok_target :: "TransactionOutputTarget \<Rightarrow> bool" where
  "ok_target (KeyOutput key) \<longleftrightarrow> sized 32 key"
| "ok_target (MultisignatureOutput keys _ _) \<longleftrightarrow> bounded (sized 32) keys"
| "ok_target (TransactionOutputCommitment commitKey _ amountCommitment amountProof) \<longleftrightarrow>
     sized 32 commitKey \<and> sized 32 amountCommitment \<and> sized 256 amountProof"
| "ok_target (TransactionOutputUnified key _ commitment proof') \<longleftrightarrow>
     sized 32 key \<and> sized 32 commitment \<and> sized 256 proof'"

definition ok_output :: "TransactionOutput \<Rightarrow> bool" where
  "ok_output o' \<longleftrightarrow> ok_target (out_target o')"

definition ok_prefix :: "'a TransactionPrefix_scheme \<Rightarrow> bool" where
  "ok_prefix tx \<longleftrightarrow> tx_version tx \<le> 2 \<and> bounded ok_input (tx_inputs tx) \<and> bounded ok_output (tx_outputs tx) \<and>
     length (tx_extra tx) \<le> max_array"

definition ok_signatures :: "TransactionInput list \<Rightarrow> signature list list \<Rightarrow> bool" where
  "ok_signatures inputs signatures \<longleftrightarrow>
     list_all2 (\<lambda>i sigs. length sigs = getSignaturesCount i \<and> list_all (sized 64) sigs) inputs signatures"

definition ok_tx :: "Transaction \<Rightarrow> bool" where
  "ok_tx tx \<longleftrightarrow> ok_prefix tx \<and> ok_signatures (tx_inputs tx) (tx_signatures tx)"

text \<open>The form in which a transaction without signatures is read back: an empty list for every input.\<close>

definition normal_tx :: "Transaction \<Rightarrow> Transaction" where
  "normal_tx tx = (if tx_signatures tx = [] then tx\<lparr>tx_signatures := map (\<lambda>i. []) (tx_inputs tx)\<rparr> else tx)"

definition ok_parent :: "ParentBlock \<Rightarrow> bool" where
  "ok_parent pb \<longleftrightarrow> sized 32 (pb_previousBlockHash pb) \<and> list_all (sized 32) (pb_baseTransactionBranch pb) \<and>
     ok_tx (pb_baseTransaction pb) \<and> list_all (sized 32) (pb_blockchainBranch pb)"

definition ok_block :: "Block \<Rightarrow> bool" where
  "ok_block b \<longleftrightarrow> sized 32 (bl_previousBlockHash b) \<and> ok_tx (bl_baseTransaction b) \<and>
     bounded (sized 32) (bl_transactionHashes b) \<and> (2 \<le> bl_majorVersion b \<longrightarrow> ok_parent (bl_parentBlock b))"

text \<open>Values that fit: keys, hashes and signatures have their size and no list is longer than the reader allows. The
  number of signatures is not restricted.\<close>

definition fits_tx :: "Transaction \<Rightarrow> bool" where
  "fits_tx tx \<longleftrightarrow> ok_prefix tx \<and> list_all (list_all (sized 64)) (tx_signatures tx)"

definition fits_block :: "Block \<Rightarrow> bool" where
  "fits_block b \<longleftrightarrow> sized 32 (bl_previousBlockHash b) \<and> fits_tx (bl_baseTransaction b) \<and>
     bounded (sized 32) (bl_transactionHashes b) \<and>
     (2 \<le> bl_majorVersion b \<longrightarrow>
        sized 32 (pb_previousBlockHash (bl_parentBlock b)) \<and> list_all (sized 32) (pb_baseTransactionBranch (bl_parentBlock b)) \<and>
        fits_tx (pb_baseTransaction (bl_parentBlock b)) \<and> list_all (sized 32) (pb_blockchainBranch (bl_parentBlock b)))"

text \<open>The form in which a block is read back into an object that has the parent block \<open>pb\<close>: its transactions in their
  normal form, and for version 1 the parent block of the object.\<close>

definition normal_block :: "ParentBlock \<Rightarrow> Block \<Rightarrow> Block" where
  "normal_block pb b =
     b\<lparr>bl_baseTransaction := normal_tx (bl_baseTransaction b),
       bl_parentBlock := (if bl_majorVersion b = 1 then pb
         else (bl_parentBlock b)\<lparr>pb_baseTransaction := normal_tx (pb_baseTransaction (bl_parentBlock b))\<rparr>)\<rparr>"

text \<open>The reward of a miner: one input of the base type, one output to a key.\<close>

definition sample_coinbase :: Transaction where
  "sample_coinbase =
     \<lparr>tx_version = 1, tx_unlockTime = 70, tx_inputs = [BaseInput 10],
      tx_outputs = [\<lparr>out_amount = 5000, out_target = KeyOutput null_pod\<rparr>], tx_extra = 1 # null_pod, tx_signatures = [[]]\<rparr>"

definition sample_block :: Block where
  "sample_block =
     \<lparr>bl_majorVersion = 1, bl_minorVersion = 0, bl_nonce = 7, bl_timestamp = 1000, bl_previousBlockHash = null_pod,
      bl_parentBlock = \<lparr>pb_majorVersion = 0, pb_minorVersion = 0, pb_previousBlockHash = null_pod, pb_transactionCount = 0,
        pb_baseTransactionBranch = [], pb_baseTransaction = sample_coinbase, pb_blockchainBranch = []\<rparr>,
      bl_baseTransaction = sample_coinbase, bl_transactionHashes = []\<rparr>"

text \<open>A block of a merge mined version whose transactions have no signatures, as a miner builds it, with a parent block that
  has one transaction and a branch of one hash.\<close>

definition merged_block :: Block where
  "merged_block =
     sample_block\<lparr>bl_majorVersion := 9, bl_baseTransaction := sample_coinbase\<lparr>tx_signatures := []\<rparr>,
       bl_parentBlock := \<lparr>pb_majorVersion = 1, pb_minorVersion = 0, pb_previousBlockHash = null_pod, pb_transactionCount = 1,
         pb_baseTransactionBranch = [], pb_baseTransaction = sample_coinbase\<lparr>tx_signatures := []\<rparr>, pb_blockchainBranch = [null_pod]\<rparr>\<rparr>"

section \<open>Codecs\<close>

lemma codecI:
  assumes "\<And>inp x rest. rd inp = Some (x, rest) \<longleftrightarrow> ok x \<and> inp = wr x @ rest"
  shows "codec wr rd ok"
  using assms by unfold_locales auto

lemma any_True [simp]: "any x"
  by (simp add: any_def)

lemma bounded_any [simp]: "bounded any xs \<longleftrightarrow> length xs \<le> max_array"
  by (simp add: bounded_def list_all_iff)

lemmas codec_iffs = c_byte.rd_iff c_u8.rd_iff c_u32.rd_iff c_u64.rd_iff c_string.rd_iff c_indexes.rd_iff
  pod.rd_iff c_pods.rd_iff

lemma rd_input_value_iff:
  "rd_input_value tag inp = Some (x, rest) \<longleftrightarrow> ok_input x \<and> tag # inp = wr_input x @ rest"
  by (cases x) (auto simp: rd_input_value_def codec_iffs)

interpretation c_input: codec wr_input rd_input ok_input
proof (rule codecI)
  fix inp x rest
  show "rd_input inp = Some (x, rest) \<longleftrightarrow> ok_input x \<and> inp = wr_input x @ rest"
    by (cases inp; cases x) (auto simp: rd_input_def c_byte.rd_iff rd_input_value_iff)
qed

lemma rd_target_value_iff:
  "rd_target_value tag inp = Some (x, rest) \<longleftrightarrow> ok_target x \<and> tag # inp = wr_target x @ rest"
  by (cases x) (auto simp: rd_target_value_def codec_iffs)

interpretation c_target: codec wr_target rd_target ok_target
proof (rule codecI)
  fix inp x rest
  show "rd_target inp = Some (x, rest) \<longleftrightarrow> ok_target x \<and> inp = wr_target x @ rest"
    by (cases inp; cases x) (auto simp: rd_target_def c_byte.rd_iff rd_target_value_iff)
qed

interpretation c_output: codec wr_output rd_output ok_output
proof (rule codecI)
  fix inp x rest
  show "rd_output inp = Some (x, rest) \<longleftrightarrow> ok_output x \<and> inp = wr_output x @ rest"
    by (cases x) (auto simp: rd_output_def wr_output_def ok_output_def c_u64.rd_iff c_target.rd_iff)
qed

interpretation c_inputs: codec "wr_vector wr_input" "rd_vector rd_input" "bounded ok_input"
  by (rule codec_vector) (rule c_input.codec_axioms)

interpretation c_outputs: codec "wr_vector wr_output" "rd_vector rd_output" "bounded ok_output"
  by (rule codec_vector) (rule c_output.codec_axioms)

lemma rd_prefix_iff:
  "rd_TransactionPrefix inp = Some (p, rest) \<longleftrightarrow>
     ok_prefix p \<and> (\<exists>out. wr_TransactionPrefix p = Some out \<and> inp = out @ rest)"
proof -
  have "ok_prefix p \<Longrightarrow> \<not> 2 < tx_version p" by (simp add: ok_prefix_def not_less)
  then show ?thesis
    by (cases p) (auto simp: rd_TransactionPrefix_def wr_TransactionPrefix_def ok_prefix_def codec_iffs
      c_inputs.rd_iff c_outputs.rd_iff split: if_splits)
qed

interpretation c_prefix: partial_codec wr_TransactionPrefix rd_TransactionPrefix ok_prefix
  by unfold_locales (auto simp: rd_prefix_iff)

lemma items_iff:
  "rd_items (read_bytes n) k inp = Some (xs, rest) \<longleftrightarrow> length xs = k \<and> list_all (sized n) xs \<and> inp = concat xs @ rest"
  using pod.items_rd_wr [of n xs rest] pod.items_rd_Some [of n k inp xs rest] by (auto simp: wr_items_def)

lemma rd_signatures_iff:
  "rd_signatures inputs inp = Some (signatures, rest) \<longleftrightarrow>
     ok_signatures inputs signatures \<and> (\<exists>out. wr_signatures inputs signatures = Some out \<and> inp = out @ rest)"
proof (induction inputs arbitrary: inp signatures)
  case Nil
  show ?case by (auto simp: ok_signatures_def)
next
  case (Cons i inputs)
  show ?case
    by (cases signatures) (auto simp: ok_signatures_def items_iff Cons split: option.splits)
qed

lemma wr_signatures_empty:
  "ok_signatures inputs signatures \<Longrightarrow> signatures = [] \<longleftrightarrow> inputs = []"
  by (auto simp: ok_signatures_def)

lemma wr_signatures_Some:
  "ok_signatures inputs signatures \<Longrightarrow> wr_signatures inputs signatures = Some (concat (concat signatures))"
  by (induction inputs signatures rule: wr_signatures.induct) (auto simp: ok_signatures_def)

lemma wr_Transaction_ok:
  assumes "ok_tx tx"
  shows "wr_Transaction tx = map_option (\<lambda>p. p @ concat (concat (tx_signatures tx))) (wr_TransactionPrefix tx)"
proof -
  have s: "ok_signatures (tx_inputs tx) (tx_signatures tx)" using assms by (simp add: ok_tx_def)
  then have "length (tx_inputs tx) = length (tx_signatures tx)" "tx_signatures tx = [] \<longleftrightarrow> tx_inputs tx = []"
    using wr_signatures_empty by (auto simp: ok_signatures_def dest: list_all2_lengthD)
  then show ?thesis using wr_signatures_Some [OF s]
    by (auto simp: wr_Transaction_def Let_def split: option.splits)
qed

lemma with_signatures_self: "with_signatures p signatures = tx \<longleftrightarrow> TransactionPrefix.truncate tx = p \<and> tx_signatures tx = signatures"
  by (cases tx; cases p) (auto simp: with_signatures_def TransactionPrefix.truncate_def)

lemma prefix_truncate [simp]:
  "wr_TransactionPrefix (TransactionPrefix.truncate tx) = wr_TransactionPrefix tx"
  "ok_prefix (TransactionPrefix.truncate tx) = ok_prefix tx"
  "tx_inputs (TransactionPrefix.truncate tx) = tx_inputs tx"
  by (simp_all add: wr_TransactionPrefix_def ok_prefix_def TransactionPrefix.truncate_def)

lemma rd_Transaction_iff:
  "rd_Transaction inp = Some (tx, rest) \<longleftrightarrow>
     ok_tx tx \<and> (\<exists>out. wr_Transaction tx = Some out \<and> inp = out @ rest)"
proof -
  have "rd_Transaction inp = Some (tx, rest) \<longleftrightarrow>
      (\<exists>mid. rd_TransactionPrefix inp = Some (TransactionPrefix.truncate tx, mid) \<and>
        rd_signatures (tx_inputs tx) mid = Some (tx_signatures tx, rest))"
    by (auto simp: rd_Transaction_def with_signatures_self eq_commute [of tx])
  also have "\<dots> \<longleftrightarrow> ok_tx tx \<and> (\<exists>p. wr_TransactionPrefix tx = Some p \<and> inp = p @ concat (concat (tx_signatures tx)) @ rest)"
    by (auto simp: rd_prefix_iff rd_signatures_iff ok_tx_def wr_signatures_Some)
  also have "\<dots> \<longleftrightarrow> ok_tx tx \<and> (\<exists>out. wr_Transaction tx = Some out \<and> inp = out @ rest)"
    using wr_Transaction_ok [of tx] by (cases "wr_TransactionPrefix tx") auto
  finally show ?thesis .
qed

interpretation c_tx: partial_codec wr_Transaction rd_Transaction ok_tx
  by unfold_locales (auto simp: rd_Transaction_iff)

lemma ok_tx_written: "ok_tx tx \<Longrightarrow> \<exists>out. wr_Transaction tx = Some out"
  using wr_Transaction_ok [of tx] by (simp add: wr_TransactionPrefix_def ok_tx_def ok_prefix_def not_less)

text \<open>A transaction without signatures, such as the reward of a miner before it is stored, is written like its
  normal form.\<close>

lemma wr_normal:
  assumes "wr_Transaction tx = Some out"
  shows "wr_Transaction (normal_tx tx) = Some out"
proof -
  have "wr_signatures xs (map (\<lambda>i. []) xs) = Some []" if "list_all (\<lambda>i. getSignaturesCount i = 0) xs" for xs
    using that by (induction xs) auto
  then show ?thesis
    using assms by (auto simp: wr_Transaction_def normal_tx_def Let_def wr_TransactionPrefix_def
      split: option.splits if_splits)
qed

lemma ok_normal:
  assumes "wr_Transaction tx = Some out" "tx_signatures tx = []" "ok_prefix tx"
  shows "ok_tx (normal_tx tx)"
proof -
  have "list_all2 (\<lambda>i sigs. length sigs = getSignaturesCount i \<and> list_all (sized 64) sigs) xs (map (\<lambda>i. []) xs)"
    if "list_all (\<lambda>i. getSignaturesCount i = 0) xs" for xs
    using that by (induction xs) auto
  then show ?thesis
    using assms by (auto simp: wr_Transaction_def normal_tx_def ok_tx_def ok_signatures_def ok_prefix_def
      split: option.splits if_splits)
qed

section \<open>Blocks\<close>

lemma items_back [rd_back]:
  "list_all (sized n) xs \<Longrightarrow> rd_items (read_bytes n) (length xs) (concat xs @ suf) = Some (xs, suf)"
  by (simp add: items_iff)

lemmas block_rd_back = rd_back c_tx.read_back c_pods.rd_wr

lemma parent_written:
  assumes "wr_ParentBlock mm_tag False False pb timestamp nonce = Some out" "ok_parent pb"
  shows "\<exists>pre post. out = pre @ wr_u64 (ucast (pb_transactionCount pb)) @ post \<and>
    (\<forall>n suf. ucast n = pb_transactionCount pb \<longrightarrow>
      rd_ParentBlock mm_tag (pre @ wr_u64 n @ post @ suf) = Some ((pb, timestamp, nonce), suf))"
proof -
  let ?cnt = "pb_transactionCount pb" and ?base = "pb_baseTransaction pb"
  let ?branch = "pb_baseTransactionBranch pb" and ?chain = "pb_blockchainBranch pb"
  obtain tx depth root where tx: "wr_Transaction ?base = Some tx" and mm: "mm_tag (tx_extra ?base) = Some (depth, root)"
      and g: "\<not> ?cnt < 1" "length ?branch = tree_depth (ucast ?cnt)" "\<not> 256 < depth" "length ?chain = unat depth"
      and out: "out = (wr_u8 (pb_majorVersion pb) @ wr_u8 (pb_minorVersion pb) @ wr_u64 timestamp @
        pb_previousBlockHash pb @ wr_le32 nonce) @ wr_u64 (ucast ?cnt) @ concat ?branch @ tx @ concat ?chain"
    using assms(1) by (auto simp: wr_ParentBlock_def Let_def split: option.splits if_splits)
  have rt: "rd_Transaction (tx @ s) = Some (?base, s)" for s
    using assms(2) tx by (intro c_tx.read_back) (auto simp: ok_parent_def)
  have items: "rd_items (read_bytes 32) (tree_depth (ucast ?cnt)) (concat ?branch @ s) = Some (?branch, s)"
      "rd_items (read_bytes 32) (unat depth) (concat ?chain @ s) = Some (?chain, s)" for s
    using assms(2) g by (auto simp: items_iff ok_parent_def)
  have "sized 32 (pb_previousBlockHash pb)" "?cnt \<noteq> 0" using assms(2) g(1) by (auto simp: ok_parent_def)
  then have "ucast n = ?cnt \<longrightarrow> rd_ParentBlock mm_tag ((wr_u8 (pb_majorVersion pb) @ wr_u8 (pb_minorVersion pb) @
      wr_u64 timestamp @ pb_previousBlockHash pb @ wr_le32 nonce) @ wr_u64 n @ (concat ?branch @ tx @ concat ?chain) @ suf) =
      Some ((pb, timestamp, nonce), suf)" for n suf
    using g(3) unfolding rd_ParentBlock_def
    by (simp add: rbind_def rd_back Let_def rt items mm rret_def)
  then show ?thesis using out by blast
qed

lemma rd_parent_back:
  assumes "wr_ParentBlock mm_tag False False pb timestamp nonce = Some out" "ok_parent pb"
  shows "rd_ParentBlock mm_tag (out @ suf) = Some ((pb, timestamp, nonce), suf)"
proof -
  have "(ucast (ucast (pb_transactionCount pb) :: u64) :: 16 word) = pb_transactionCount pb" by (rule narrow_widen) simp
  then show ?thesis using parent_written [OF assms] by auto
qed

text \<open>The reader of a parent block takes the number of transactions modulo \<open>2 ^ 16\<close>: bytes with another number are
  read as the same block.\<close>

lemma parent_count_not_unique:
  assumes "wr_ParentBlock mm_tag False False pb timestamp nonce = Some out" "ok_parent pb"
  shows "\<exists>out'. out' \<noteq> out \<and> rd_ParentBlock mm_tag out' = Some ((pb, timestamp, nonce), [])"
proof -
  let ?n = "ucast (pb_transactionCount pb) :: u64"
  have "unat ?n < 65536"
    using unsigned_less [of "pb_transactionCount pb", where ?'a = nat] unat_widen [of "pb_transactionCount pb"] by simp
  then have "unat (?n + 65536) = unat ?n + 65536" by (simp add: unat_word_ariths)
  then have "unat (ucast (?n + 65536) :: 16 word) = unat (ucast ?n :: 16 word)"
    by (simp add: unsigned_ucast_eq [of "?n + 65536"] unsigned_ucast_eq [of ?n] take_bit_eq_mod)
  then have "ucast (?n + 65536) = (ucast ?n :: 16 word)" by (simp add: word_unat_eq_iff)
  also have "\<dots> = pb_transactionCount pb" by (rule narrow_widen) simp
  finally have n: "ucast (?n + 65536) = pb_transactionCount pb" .
  have "?n + 65536 \<noteq> ?n" by simp
  then have w: "wr_u64 (?n + 65536) \<noteq> wr_u64 ?n" using c_u64.written_inject [of "?n + 65536" ?n] by auto
  obtain pre post where o: "out = pre @ wr_u64 ?n @ post"
      and r: "\<And>n suf. ucast n = pb_transactionCount pb \<Longrightarrow>
        rd_ParentBlock mm_tag (pre @ wr_u64 n @ post @ suf) = Some ((pb, timestamp, nonce), suf)"
    using parent_written [OF assms] by blast
  show ?thesis
    using r [OF n, of "[]"] w unfolding o by (intro exI [of _ "pre @ wr_u64 (?n + 65536) @ post"]) simp
qed

lemma rd_header_back:
  assumes "wr_BlockHeader b = Some out" "sized 32 (bl_previousBlockHash b)"
  shows "rd_BlockHeader mem (out @ suf) =
    Some (if bl_majorVersion b = 1
      then mem\<lparr>bl_majorVersion := bl_majorVersion b, bl_minorVersion := bl_minorVersion b,
        bl_timestamp := bl_timestamp b, bl_previousBlockHash := bl_previousBlockHash b, bl_nonce := bl_nonce b\<rparr>
      else mem\<lparr>bl_majorVersion := bl_majorVersion b, bl_minorVersion := bl_minorVersion b,
        bl_previousBlockHash := bl_previousBlockHash b\<rparr>, suf)"
  using assms
  by (auto simp: wr_BlockHeader_def rd_BlockHeader_def rbind_def rd_back rret_def split: if_splits)

lemma rd_block_back:
  assumes "wr_Block mm_tag b = Some out" "ok_block b"
  shows "rd_Block mm_tag mem (out @ suf) =
    Some (if bl_majorVersion b = 1 then b\<lparr>bl_parentBlock := bl_parentBlock mem\<rparr> else b, suf)"
proof -
  obtain header parent tx where h: "wr_BlockHeader b = Some header" and tx: "wr_Transaction (bl_baseTransaction b) = Some tx"
      and p: "(if 2 \<le> bl_majorVersion b
        then wr_ParentBlock mm_tag False False (bl_parentBlock b) (bl_timestamp b) (bl_nonce b) else Some []) = Some parent"
      and out: "out = header @ parent @ tx @ wr_vector (\<lambda>h. h) (bl_transactionHashes b)"
    using assms(1) by (auto simp: wr_Block_def split: option.splits)
  have rt: "rd_Transaction (tx @ s) = Some (bl_baseTransaction b, s)" for s
    using assms(2) tx by (intro c_tx.read_back) (auto simp: ok_block_def)
  have rh: "rd_vector (read_bytes 32) (wr_vector (\<lambda>h. h) (bl_transactionHashes b) @ s) = Some (bl_transactionHashes b, s)" for s
    using assms(2) by (intro c_pods.rd_wr) (simp add: ok_block_def)
  have v: "bl_majorVersion b = 1 \<or> 2 \<le> bl_majorVersion b"
    using h by (auto simp: wr_BlockHeader_def split: if_splits)
  have one: "\<not> (2 :: u8) \<le> 1" by (simp add: word_le_nat_alt)
  note header = rd_header_back [OF h, of mem "parent @ tx @ wr_vector (\<lambda>h. h) (bl_transactionHashes b) @ suf"]
  from v show ?thesis
  proof
    assume v1: "bl_majorVersion b = 1"
    then have "parent = []" using p one by simp
    then show ?thesis
      using assms(2) v1 header one unfolding out rd_Block_def by (simp add: rbind_def rret_def rt rh ok_block_def)
  next
    assume v2: "2 \<le> bl_majorVersion b"
    then have "bl_majorVersion b \<noteq> 1" using one by auto
    moreover have "rd_ParentBlock mm_tag (parent @ s) = Some ((bl_parentBlock b, bl_timestamp b, bl_nonce b), s)" for s
      using p v2 assms(2) by (intro rd_parent_back) (auto simp: ok_block_def)
    ultimately show ?thesis
      using assms(2) v2 header unfolding out rd_Block_def by (simp add: rbind_def rret_def rt rh ok_block_def)
  qed
qed

text \<open>What was written and fits is well formed in its normal form, which is written to the same bytes.\<close>

lemma wr_signatures_counts:
  "wr_signatures inputs signatures = Some out \<Longrightarrow> length inputs = length signatures \<Longrightarrow> list_all (list_all (sized 64)) signatures \<Longrightarrow>
   ok_signatures inputs signatures"
  by (induction inputs signatures arbitrary: out rule: wr_signatures.induct)
    (auto simp: ok_signatures_def split: if_splits option.splits)

lemma fits_normal:
  assumes "wr_Transaction tx = Some out" "fits_tx tx"
  shows "ok_tx (normal_tx tx)"
proof (cases "tx_signatures tx = []")
  case True
  then show ?thesis using ok_normal [OF assms(1)] assms(2) by (simp add: fits_tx_def)
next
  case False
  then have "length (tx_inputs tx) = length (tx_signatures tx)" "wr_signatures (tx_inputs tx) (tx_signatures tx) \<noteq> None"
    using assms(1) by (auto simp: wr_Transaction_def Let_def split: option.splits if_splits)
  then show ?thesis using assms(2) False wr_signatures_counts by (auto simp: ok_tx_def normal_tx_def fits_tx_def)
qed

lemma normal_extra [simp]: "tx_extra (normal_tx tx) = tx_extra tx"
  by (simp add: normal_tx_def)

lemma wr_parent_normal:
  assumes "wr_ParentBlock mm_tag False False pb timestamp nonce = Some out"
  shows "wr_ParentBlock mm_tag False False (pb\<lparr>pb_baseTransaction := normal_tx (pb_baseTransaction pb)\<rparr>) timestamp nonce = Some out"
    and "\<exists>tx. wr_Transaction (pb_baseTransaction pb) = Some tx"
  using assms wr_normal [of "pb_baseTransaction pb"]
  by (auto simp: wr_ParentBlock_def Let_def split: option.splits if_splits)

lemma block_normal_back:
  assumes "wr_Block mm_tag b = Some out" "fits_block b"
  shows "rd_Block mm_tag mem (out @ suf) = Some (normal_block (bl_parentBlock mem) b, suf)"
proof -
  define n where "n = normal_block (bl_parentBlock b) b"
  obtain header parent tx where h: "wr_BlockHeader b = Some header" and tx: "wr_Transaction (bl_baseTransaction b) = Some tx"
      and p: "(if 2 \<le> bl_majorVersion b
        then wr_ParentBlock mm_tag False False (bl_parentBlock b) (bl_timestamp b) (bl_nonce b) else Some []) = Some parent"
      and out: "out = header @ parent @ tx @ wr_vector (\<lambda>h. h) (bl_transactionHashes b)"
    using assms(1) by (auto simp: wr_Block_def split: option.splits)
  have v: "bl_majorVersion b = 1 \<or> 2 \<le> bl_majorVersion b" using h by (auto simp: wr_BlockHeader_def split: if_splits)
  have one: "\<not> (2 :: u8) \<le> 1" by (simp add: word_le_nat_alt)
  have same: "bl_majorVersion n = bl_majorVersion b" "wr_BlockHeader n = wr_BlockHeader b" "bl_timestamp n = bl_timestamp b"
      "bl_nonce n = bl_nonce b" "bl_transactionHashes n = bl_transactionHashes b" "bl_previousBlockHash n = bl_previousBlockHash b"
      "bl_baseTransaction n = normal_tx (bl_baseTransaction b)"
    by (simp_all add: n_def normal_block_def wr_BlockHeader_def)
  have parents: "(if 2 \<le> bl_majorVersion b
      then wr_ParentBlock mm_tag False False (bl_parentBlock n) (bl_timestamp b) (bl_nonce b) else Some []) = Some parent"
    using p one wr_parent_normal(1) by (auto simp: n_def normal_block_def)
  have "ok_parent (bl_parentBlock n)" if "2 \<le> bl_majorVersion b"
    using that one p assms(2) wr_parent_normal(2) fits_normal
    by (fastforce simp: n_def normal_block_def ok_parent_def fits_block_def)
  then have "ok_block n" using assms(2) fits_normal [OF tx] same by (simp add: ok_block_def fits_block_def)
  moreover have "wr_Block mm_tag n = Some out"
    unfolding wr_Block_def same using h parents wr_normal [OF tx] out by simp
  ultimately show ?thesis using rd_block_back [of mm_tag n out mem suf] v one
    by (auto simp: n_def normal_block_def)
qed

section \<open>Hashing blobs\<close>

lemma length_tree_hash:
  assumes "hs \<noteq> []" "list_all (sized 32) hs"
  shows "length (tree_hash hs) = 32"
  using assms by (cases hs) (auto simp: tree_hash_def Let_def hash_pair_def sized_def)

lemma length_tx_tree_hash:
  assumes "bounded (sized 32) (bl_transactionHashes b)"
  shows "length (get_tx_tree_hash base_hash b) = 32"
proof -
  have "sized 32 (base_hash tx)" for tx
    by (simp add: base_hash_def getObjectHash_def sized_def null_pod_def split: option.splits)
  then show ?thesis using assms unfolding get_tx_tree_hash_def by (intro length_tree_hash) (auto simp: bounded_def)
qed

lemma write_varint_inject: "write_varint v = write_varint w \<longleftrightarrow> v = w"
  using c_u64.written_inject [of v w] by (auto simp: wr_u64_def writeVarint_write_varint)

lemma count_inject:
  assumes "write_varint (of_nat (n + 1)) = write_varint (of_nat (m + 1))" "n \<le> max_array" "m \<le> max_array"
  shows "n = m"
proof -
  have b: "n + 1 < 2 ^ 64" "m + 1 < 2 ^ 64" using assms(2,3) by (auto simp: max_array_def)
  have "unat (of_nat (n + 1) :: u64) = unat (of_nat (m + 1) :: u64)"
    using assms(1) by (simp only: write_varint_inject)
  then show ?thesis using b by (simp add: unsigned_of_nat take_bit_nat_eq_self del: of_nat_Suc of_nat_add)
qed

section \<open>Examples\<close>

lemma sample_ok: "ok_tx sample_coinbase" "ok_block sample_block"
  by (simp_all add: sample_coinbase_def sample_block_def ok_tx_def ok_prefix_def ok_signatures_def ok_block_def
    ok_output_def bounded_def sized_def null_pod_def max_array_def word_le_nat_alt)

section \<open>Properties\<close>

text \<open>
  C9: the binary form of a transaction is exact. The reader accepts an input exactly when it starts with what the writer
  gives for a well-formed transaction, and it then returns this transaction and what follows: nothing is lost, and no
  transaction has a second encoding.
\<close>

theorem transaction_binary_exact:
  "rd_Transaction inp = Some (tx, rest) \<longleftrightarrow>
     ok_tx tx \<and> (\<exists>out. wr_Transaction tx = Some out \<and> inp = out @ rest)"
  by (rule c_tx.accepted_iff)

text \<open>
  C29: the reader only produces well-formed transactions, of a known version, with keys, key images, proofs and signatures of
  their size and as many signatures per input as the input asks for; and a well-formed transaction is always written
  without an exception, to bytes that no other well-formed transaction has.
\<close>

theorem transaction_well_formed:
  "(rd_Transaction inp = Some (tx, rest) \<longrightarrow>
      tx_version tx \<le> 2 \<and> length (tx_signatures tx) = length (tx_inputs tx) \<and>
      (\<forall>i < length (tx_inputs tx). length (tx_signatures tx ! i) = getSignaturesCount (tx_inputs tx ! i)) \<and> ok_tx tx) \<and>
   (ok_tx tx \<longrightarrow> (\<exists>out. wr_Transaction tx = Some out \<and>
      (\<forall>tx'. ok_tx tx' \<and> wr_Transaction tx' = Some out \<longrightarrow> tx' = tx)))"
proof (intro conjI impI)
  assume "rd_Transaction inp = Some (tx, rest)"
  then have ok: "ok_tx tx" using c_tx.read_only_written by blast
  then show "tx_version tx \<le> 2" "ok_tx tx" by (simp_all add: ok_tx_def ok_prefix_def)
  have s: "list_all2 (\<lambda>i sigs. length sigs = getSignaturesCount i \<and> list_all (sized 64) sigs)
      (tx_inputs tx) (tx_signatures tx)"
    using ok by (simp add: ok_tx_def ok_signatures_def)
  then show "length (tx_signatures tx) = length (tx_inputs tx)" by (simp add: list_all2_lengthD)
  show "\<forall>i < length (tx_inputs tx). length (tx_signatures tx ! i) = getSignaturesCount (tx_inputs tx ! i)"
    using list_all2_nthD [OF s] by blast
next
  assume ok: "ok_tx tx"
  then obtain out where "wr_Transaction tx = Some out" using ok_tx_written by blast
  then show "\<exists>out. wr_Transaction tx = Some out \<and> (\<forall>tx'. ok_tx tx' \<and> wr_Transaction tx' = Some out \<longrightarrow> tx' = tx)"
    using c_tx.written_inject ok by blast
qed

theorem transaction_well_formed_witness:
  "\<exists>out. wr_Transaction sample_coinbase = Some out \<and> out \<noteq> []"
proof -
  obtain out where out: "wr_Transaction sample_coinbase = Some out"
    using transaction_well_formed [of "[]" sample_coinbase "[]"] sample_ok(1) by blast
  then have "length out \<noteq> 0"
    by (auto simp: wr_Transaction_def wr_TransactionPrefix_def sample_coinbase_def Let_def null_pod_def wr_string_def
      split: option.splits if_splits)
  then show ?thesis using out by auto
qed

text \<open>
  C21: a block whose writing succeeds and whose keys, hashes, signatures and lists have admissible sizes is read back, and
  what follows it is left over. This holds for every version, with the parent block for merge mining from version 2 on.
  The block is the one that was written, except that a transaction without signatures, such as a fresh coinbase, has an
  empty list of signatures for each input afterwards, and that a block of version 1 leaves the parent block of the object it
  is read into alone.
\<close>

theorem block_roundtrip:
  assumes "fits_block b" "wr_Block mm_tag b = Some out"
  shows "rd_Block mm_tag mem (out @ suf) = Some (normal_block (bl_parentBlock mem) b, suf)"
  by (rule block_normal_back [OF assms(2,1)])

theorem block_roundtrip_witness:
  "\<exists>out. wr_Block (\<lambda>_. Some (1, null_pod)) merged_block = Some out \<and>
     rd_Block (\<lambda>_. Some (1, null_pod)) sample_block (out @ [7]) =
       Some (merged_block\<lparr>bl_baseTransaction := sample_coinbase,
         bl_parentBlock := (bl_parentBlock merged_block)\<lparr>pb_baseTransaction := sample_coinbase\<rparr>\<rparr>, [7])"
proof -
  let ?tx = "sample_coinbase\<lparr>tx_signatures := []\<rparr>"
  have tx: "wr_Transaction ?tx \<noteq> None" "normal_tx ?tx = sample_coinbase" "fits_tx ?tx"
    using sample_ok(1) by (simp_all add: wr_Transaction_def wr_TransactionPrefix_def sample_coinbase_def normal_tx_def fits_tx_def ok_tx_def
      ok_prefix_def word_less_nat_alt word_le_nat_alt)
  then obtain out where out: "wr_Block (\<lambda>_. Some (1, null_pod)) merged_block = Some out"
    by (auto simp: wr_Block_def wr_BlockHeader_def wr_ParentBlock_def merged_block_def sample_block_def tree_depth_def depth_step_def Let_def
      word_le_nat_alt word_less_nat_alt)
  have fits: "fits_block merged_block"
    using tx(3) by (simp add: fits_block_def merged_block_def sample_block_def bounded_def sized_def null_pod_def max_array_def)
  show ?thesis
    using block_roundtrip [OF fits out, of sample_block "[7]"] out tx(2)
    by (simp add: normal_block_def merged_block_def)
qed

text \<open>
  C22: what the hashing blob of a block binds, the bytes from which its identifier is made: well-formed blocks with equal
  blobs have equal versions, the same predecessor, the same root of the transaction tree and the same number of
  transactions, and for version 1 the same timestamp and nonce. From version 2 on timestamp and nonce are in the blob of the
  parent block instead, and nothing is said about them here; nor does an equal root say more of the transactions than the
  hash function does.
\<close>

theorem hashing_blob_binds:
  assumes "ok_block b" "ok_block b'" "get_block_hashing_blob b = Some blob" "get_block_hashing_blob b' = Some blob"
  shows "bl_majorVersion b = bl_majorVersion b' \<and> bl_minorVersion b = bl_minorVersion b' \<and>
    bl_previousBlockHash b = bl_previousBlockHash b' \<and>
    (bl_majorVersion b = 1 \<longrightarrow> bl_timestamp b = bl_timestamp b' \<and> bl_nonce b = bl_nonce b') \<and>
    get_tx_tree_hash base_hash b = get_tx_tree_hash base_hash b' \<and>
    length (bl_transactionHashes b) = length (bl_transactionHashes b')"
proof -
  let ?t = "get_tx_tree_hash base_hash" and ?n = "\<lambda>b :: Block. write_varint (of_nat (length (bl_transactionHashes b) + 1))"
  obtain h h' where h: "wr_BlockHeader b = Some h" "blob = h @ ?t b @ ?n b"
      and h': "wr_BlockHeader b' = Some h'" "blob = h' @ ?t b' @ ?n b'"
    using assms(3,4) by (auto simp: get_block_hashing_blob_def split: option.splits)
  have p: "sized 32 (bl_previousBlockHash b)" "sized 32 (bl_previousBlockHash b')"
      and n: "bounded (sized 32) (bl_transactionHashes b)" "bounded (sized 32) (bl_transactionHashes b')"
    using assms(1,2) by (auto simp: ok_block_def)
  note eq = rd_header_back [OF h(1) p(1), of sample_block "?t b @ ?n b", folded h(2)]
    rd_header_back [OF h'(1) p(2), of sample_block "?t b' @ ?n b'", folded h'(2)]
  have rest: "?t b @ ?n b = ?t b' @ ?n b'" using eq by simp
  then have "?t b = ?t b'" "?n b = ?n b'" using length_tx_tree_hash [OF n(1)] length_tx_tree_hash [OF n(2)] by auto
  moreover have "length (bl_transactionHashes b) = length (bl_transactionHashes b')"
    using calculation(2) n by (intro count_inject) (auto simp: bounded_def)
  moreover have "bl_majorVersion b = bl_majorVersion b'" using eq by (auto simp: sample_block_def split: if_splits)
  ultimately show ?thesis using eq by (auto simp: sample_block_def split: if_splits)
qed

theorem hashing_blob_binds_witness:
  "\<exists>b' blob. b' \<noteq> sample_block \<and> get_block_hashing_blob b' = Some blob \<and> get_block_hashing_blob sample_block = Some blob \<and>
    get_tx_tree_hash base_hash b' = get_tx_tree_hash base_hash sample_block"
proof -
  let ?b = "sample_block\<lparr>bl_parentBlock := (bl_parentBlock sample_block)\<lparr>pb_majorVersion := 3\<rparr>\<rparr>"
  have ok: "ok_block ?b" using sample_ok(2) by (simp add: ok_block_def sample_block_def word_le_nat_alt)
  obtain blob where "get_block_hashing_blob sample_block = Some blob" "get_block_hashing_blob ?b = Some blob"
    by (simp add: get_block_hashing_blob_def wr_BlockHeader_def sample_block_def get_tx_tree_hash_def word_less_nat_alt)
  moreover have "?b \<noteq> sample_block" by (simp add: sample_block_def)
  ultimately show ?thesis using hashing_blob_binds [OF ok sample_ok(2)] by blast
qed

end
