(* ===== verification/Chain_Indices.thy ===== *)
theory Chain_Indices
  imports Transaction_Serialization Ordered_Map
begin

text \<open>
  The look-up indices of the blockchain, \<open>src/src/CryptoNoteCore/BlockchainIndices.cpp\<close>: transactions by payment id,
  blocks by timestamp, the running number of transactions by height and orphan blocks by height. A
  \<open>std::unordered_multimap\<close>, whose order is not specified, is a multiset of pairs; a \<open>std::multimap\<close> is a list of pairs
  sorted by key in which a new pair goes behind its equals; the map of heights is an ordered map. The class
  \<open>TimestampTransactionsIndex\<close> has the same methods as \<open>TimestampBlocksIndex\<close>.

  Shown here: removing what was added last restores each index, the timestamp index stays sorted and a query returns
  the blocks of its interval, and the running numbers are the sums over the chain.
\<close>

section \<open>Definitions\<close>

text \<open>\<open>BlockchainExplorerDataBuilder::getPaymentId\<close> goes on with the fields it has when the extra does not parse.\<close>

definition getPaymentId :: "TransactionExtraElderfierMessage \<Rightarrow> Transaction \<Rightarrow> hash option" where
  "getPaymentId mem tx =
     (case find_nonce (snd (parseTransactionExtra mem (tx_extra tx))) of
        None \<Rightarrow> None
      | Some nonce \<Rightarrow> getPaymentIdFromTransactionExtraNonce nonce)"

type_synonym PaymentIdIndex = "(hash \<times> hash) multiset"

definition PaymentIdIndex_add ::
  "TransactionExtraElderfierMessage \<Rightarrow> Transaction \<Rightarrow> PaymentIdIndex \<Rightarrow> bool \<times> PaymentIdIndex" where
  "PaymentIdIndex_add mem tx index =
     (case getPaymentId mem tx of
        None \<Rightarrow> (False, index)
      | Some paymentId \<Rightarrow> (True, add_mset (paymentId, base_hash tx) index))"

definition PaymentIdIndex_remove ::
  "TransactionExtraElderfierMessage \<Rightarrow> Transaction \<Rightarrow> PaymentIdIndex \<Rightarrow> bool \<times> PaymentIdIndex" where
  "PaymentIdIndex_remove mem tx index =
     (case getPaymentId mem tx of
        None \<Rightarrow> (False, index)
      | Some paymentId \<Rightarrow>
          if (paymentId, base_hash tx) \<in># index then (True, index - {#(paymentId, base_hash tx)#}) else (False, index))"

definition PaymentIdIndex_find :: "hash \<Rightarrow> PaymentIdIndex \<Rightarrow> bool \<times> hash multiset" where
  "PaymentIdIndex_find paymentId index =
     (let range' = filter_mset (\<lambda>e. fst e = paymentId) index in (range' \<noteq> {#}, image_mset snd range'))"

type_synonym TimestampBlocksIndex = "(u64 \<times> hash) list"

definition TimestampBlocksIndex_add :: "u64 \<Rightarrow> hash \<Rightarrow> TimestampBlocksIndex \<Rightarrow> TimestampBlocksIndex" where
  "TimestampBlocksIndex_add timestamp h index =
     takeWhile (\<lambda>e. fst e \<le> timestamp) index @ [(timestamp, h)] @ dropWhile (\<lambda>e. fst e \<le> timestamp) index"

text \<open>The first pair of the range with the hash is the first such pair of the list.\<close>

definition TimestampBlocksIndex_remove :: "u64 \<Rightarrow> hash \<Rightarrow> TimestampBlocksIndex \<Rightarrow> bool \<times> TimestampBlocksIndex" where
  "TimestampBlocksIndex_remove timestamp h index =
     (if (timestamp, h) \<in> set index then (True, remove1 (timestamp, h) index) else (False, index))"

text \<open>Found flag, the hashes up to the limit, and the number of pairs in the interval.\<close>

definition TimestampBlocksIndex_find ::
  "u64 \<Rightarrow> u64 \<Rightarrow> u32 \<Rightarrow> TimestampBlocksIndex \<Rightarrow> (bool \<times> hash list \<times> u32) option" where
  "TimestampBlocksIndex_find timestampBegin timestampEnd hashesNumberLimit index =
     (if timestampEnd < timestampBegin then None
      else
        let range' = takeWhile (\<lambda>e. fst e \<le> timestampEnd) (dropWhile (\<lambda>e. fst e < timestampBegin) index);
            hashes = map snd (take (unat hashesNumberLimit) range')
        in Some (hashes \<noteq> [], hashes, of_nat (length range')))"

record GeneratedTransactionsIndex =
  gt_index :: "(u32, u64) omap"
  gt_lastGeneratedTxNumber :: u64

definition GeneratedTransactionsIndex_new :: GeneratedTransactionsIndex where
  "GeneratedTransactionsIndex_new = \<lparr>gt_index = [], gt_lastGeneratedTxNumber = 0\<rparr>"

text \<open>\<open>boost::get<BaseInput>(block.baseTransaction.inputs.front()).blockIndex\<close>: \<open>None\<close> where it throws.\<close>

definition base_height :: "Block \<Rightarrow> u32 option" where
  "base_height b = (case tx_inputs (bl_baseTransaction b) of BaseInput h # _ \<Rightarrow> Some h | _ \<Rightarrow> None)"

definition GeneratedTransactionsIndex_add ::
  "Block \<Rightarrow> GeneratedTransactionsIndex \<Rightarrow> (bool \<times> GeneratedTransactionsIndex) option" where
  "GeneratedTransactionsIndex_add block g =
     (case base_height block of
        None \<Rightarrow> None
      | Some blockHeight \<Rightarrow>
          if length (gt_index g) \<noteq> unat blockHeight then Some (False, g)
          else if om_has (gt_index g) blockHeight then Some (False, g)
          else
            let n = gt_lastGeneratedTxNumber g + of_nat (length (bl_transactionHashes block)) + 1
            in Some (True, \<lparr>gt_index = om_put blockHeight n (gt_index g), gt_lastGeneratedTxNumber = n\<rparr>))"

text \<open>\<open>index.size() - 1\<close> wraps for an empty index, and no height equals it then.\<close>

definition GeneratedTransactionsIndex_remove ::
  "Block \<Rightarrow> GeneratedTransactionsIndex \<Rightarrow> (bool \<times> GeneratedTransactionsIndex) option" where
  "GeneratedTransactionsIndex_remove block g =
     (case base_height block of
        None \<Rightarrow> None
      | Some blockHeight \<Rightarrow>
          if ucast blockHeight \<noteq> (of_nat (length (gt_index g)) - 1 :: u64) then Some (False, g)
          else
            let index = om_erase blockHeight (gt_index g)
            in Some (True, \<lparr>gt_index = index,
                 gt_lastGeneratedTxNumber =
                   (if blockHeight \<noteq> 0 then (case om_find index (blockHeight - 1) of Some n \<Rightarrow> n | None \<Rightarrow> 0) else 0)\<rparr>))"

definition GeneratedTransactionsIndex_find :: "u32 \<Rightarrow> GeneratedTransactionsIndex \<Rightarrow> u64 option" where
  "GeneratedTransactionsIndex_find height g = om_find (gt_index g) height"

type_synonym OrphanBlocksIndex = "(u32 \<times> hash) multiset"

text \<open>The hash of a block, null when it cannot be formed.\<close>

definition block_hash :: "(bytes \<Rightarrow> (u64 \<times> hash) option) \<Rightarrow> Block \<Rightarrow> hash" where
  "block_hash mm_tag b = (case get_block_hash mm_tag b of None \<Rightarrow> null_pod | Some h \<Rightarrow> h)"

definition OrphanBlocksIndex_add ::
  "(bytes \<Rightarrow> (u64 \<times> hash) option) \<Rightarrow> Block \<Rightarrow> OrphanBlocksIndex \<Rightarrow> OrphanBlocksIndex option" where
  "OrphanBlocksIndex_add mm_tag block index =
     (case base_height block of None \<Rightarrow> None | Some h \<Rightarrow> Some (add_mset (h, block_hash mm_tag block) index))"

definition OrphanBlocksIndex_remove ::
  "(bytes \<Rightarrow> (u64 \<times> hash) option) \<Rightarrow> Block \<Rightarrow> OrphanBlocksIndex \<Rightarrow> (bool \<times> OrphanBlocksIndex) option" where
  "OrphanBlocksIndex_remove mm_tag block index =
     (case base_height block of
        None \<Rightarrow> None
      | Some h \<Rightarrow>
          let e = (h, block_hash mm_tag block)
          in Some (if e \<in># index then (True, index - {#e#}) else (False, index)))"

definition OrphanBlocksIndex_find :: "u32 \<Rightarrow> OrphanBlocksIndex \<Rightarrow> bool \<times> hash multiset" where
  "OrphanBlocksIndex_find height index =
     (let range' = filter_mset (\<lambda>e. fst e = height) index in (range' \<noteq> {#}, image_mset snd range'))"

section \<open>Predicates of the properties\<close>

definition ts_sorted :: "TimestampBlocksIndex \<Rightarrow> bool" where
  "ts_sorted index \<longleftrightarrow> sorted (map fst index)"

text \<open>The index after the blocks of a chain were added in order, and the running numbers it must hold.\<close>

fun add_chain :: "Block list \<Rightarrow> GeneratedTransactionsIndex \<Rightarrow> GeneratedTransactionsIndex option" where
  "add_chain [] g = Some g"
| "add_chain (b # bs) g =
     (case GeneratedTransactionsIndex_add b g of Some (True, g') \<Rightarrow> add_chain bs g' | _ \<Rightarrow> None)"

definition chain_transactions :: "Block list \<Rightarrow> nat" where
  "chain_transactions bs = sum_list (map (\<lambda>b. length (bl_transactionHashes b) + 1) bs)"

definition is_chain :: "Block list \<Rightarrow> bool" where
  "is_chain bs \<longleftrightarrow> length bs < 4294967296 \<and> (\<forall>i < length bs. base_height (bs ! i) = Some (of_nat i))"

text \<open>The index a chain must have.\<close>

definition gt_of :: "Block list \<Rightarrow> GeneratedTransactionsIndex" where
  "gt_of bs =
     \<lparr>gt_index = map (\<lambda>i. (of_nat i, of_nat (chain_transactions (take (Suc i) bs)))) [0..<length bs],
      gt_lastGeneratedTxNumber = of_nat (chain_transactions bs)\<rparr>"

section \<open>Timestamps\<close>

lemma ts_sorted_add: "ts_sorted index \<Longrightarrow> ts_sorted (TimestampBlocksIndex_add t h index)"
  unfolding ts_sorted_def TimestampBlocksIndex_add_def
  by (induction index) (auto dest!: set_takeWhileD set_dropWhileD)

lemma ts_add_mset: "mset (TimestampBlocksIndex_add t h index) = add_mset (t, h) (mset index)"
  unfolding TimestampBlocksIndex_add_def by (induction index) auto

lemma ts_sorted_remove: "ts_sorted index \<Longrightarrow> ts_sorted (snd (TimestampBlocksIndex_remove t h index))"
  unfolding ts_sorted_def TimestampBlocksIndex_remove_def by (induction index) (auto dest: notin_set_remove1)

lemma ts_remove_add:
  assumes "(t, h) \<notin> set index"
  shows "TimestampBlocksIndex_remove t h (TimestampBlocksIndex_add t h index) = (True, index)"
proof -
  have "(t, h) \<notin> set (takeWhile (\<lambda>e. fst e \<le> t) index)" using assms by (meson set_takeWhileD)
  then show ?thesis
    by (simp add: TimestampBlocksIndex_remove_def TimestampBlocksIndex_add_def remove1_append)
qed

lemma ts_range_sorted:
  assumes "ts_sorted index"
  shows "takeWhile (\<lambda>e. fst e \<le> b) (dropWhile (\<lambda>e. fst e < a) index) = filter (\<lambda>e. a \<le> fst e \<and> fst e \<le> b) index"
  using assms
proof (induction index)
  case (Cons e index)
  have s: "ts_sorted index" and le: "\<forall>x \<in> set index. fst e \<le> fst x" using Cons.prems by (auto simp: ts_sorted_def)
  show ?case
  proof (cases "fst e < a")
    case True
    then show ?thesis using Cons.IH [OF s] by auto
  next
    case False
    have "dropWhile (\<lambda>e. fst e < a) index = index"
      using False le by (cases index) auto
    then have "takeWhile (\<lambda>e. fst e \<le> b) index = filter (\<lambda>e. a \<le> fst e \<and> fst e \<le> b) index"
      using Cons.IH [OF s] by simp
    moreover have "\<not> fst e \<le> b \<Longrightarrow> filter (\<lambda>e. a \<le> fst e \<and> fst e \<le> b) index = []"
      using le by (auto simp: filter_empty_conv)
    ultimately show ?thesis using False by auto
  qed
qed simp

section \<open>Running numbers\<close>

lemma om_put_last: "(\<And>e. e \<in> set m \<Longrightarrow> fst e < k) \<Longrightarrow> om_put k v m = m @ [(k, v)]"
proof (induction k v m rule: om_put.induct)
  case (2 k v j w m)
  have "j < k" using "2.prems" [of "(j, w)"] by simp
  then show ?case using 2 by (simp add: not_less_iff_gr_or_eq)
qed simp

lemma om_erase_last: "(\<And>e. e \<in> set m \<Longrightarrow> fst e \<noteq> k) \<Longrightarrow> om_erase k (m @ [(k, v)]) = m"
  by (simp add: om_erase_def filter_id_conv)

lemma of_nat_u32_less: "i < n \<Longrightarrow> n < 4294967296 \<Longrightarrow> (of_nat i :: u32) < of_nat n"
  by (simp add: word_less_nat_alt unat_of_nat_u32)

lemma gt_keys: "length bs < 4294967296 \<Longrightarrow> e \<in> set (gt_index (gt_of bs)) \<Longrightarrow> fst e < of_nat (length bs)"
  by (auto simp: gt_of_def intro: of_nat_u32_less)

lemma gt_of_snoc:
  "gt_of (bs @ [b]) = \<lparr>gt_index = gt_index (gt_of bs) @ [(of_nat (length bs), of_nat (chain_transactions (bs @ [b])))],
    gt_lastGeneratedTxNumber = of_nat (chain_transactions (bs @ [b]))\<rparr>"
  by (simp add: gt_of_def)

lemma gt_find_of:
  assumes "length bs < 4294967296"
  shows "om_find (gt_index (gt_of bs)) h =
    (if unat h < length bs then Some (of_nat (chain_transactions (take (Suc (unat h)) bs))) else None)"
  using assms
proof (induction bs rule: rev_induct)
  case Nil
  show ?case by (simp add: gt_of_def om_find_def)
next
  case (snoc b bs)
  have l: "length bs < 4294967296" using snoc.prems by simp
  have k: "of_nat (length bs) \<notin> fst ` set (gt_index (gt_of bs))" using gt_keys [OF l] by fastforce
  have e: "h = of_nat (length bs) \<longleftrightarrow> unat h = length bs"
    using l by (auto simp: unat_of_nat_u32 word_unat_eq_iff)
  have "om_find (gt_index (gt_of (bs @ [b]))) h =
      (case om_find (gt_index (gt_of bs)) h of
         Some v \<Rightarrow> Some v | None \<Rightarrow> if h = of_nat (length bs) then Some (of_nat (chain_transactions (bs @ [b]))) else None)"
    by (simp add: gt_of_snoc om_find_def map_add_def split: option.split)
  then show ?case using snoc.IH [OF l] e by (auto simp: take_Suc_conv_app_nth)
qed

lemma is_chain_snoc:
  "is_chain (bs @ [b]) \<longleftrightarrow>
     Suc (length bs) < 4294967296 \<and> is_chain bs \<and> base_height b = Some (of_nat (length bs))"
  unfolding is_chain_def by (auto simp: nth_append less_Suc_eq)

lemma gt_add_chain:
  assumes "is_chain (bs @ [b])"
  shows "GeneratedTransactionsIndex_add b (gt_of bs) = Some (True, gt_of (bs @ [b]))"
proof -
  have l: "length bs < 4294967296" and h: "base_height b = Some (of_nat (length bs))"
    using assms by (auto simp: is_chain_snoc)
  have u: "unat (of_nat (length bs) :: u32) = length bs" using l by (simp add: unat_of_nat_u32)
  have "om_put (of_nat (length bs)) v (gt_index (gt_of bs)) = gt_index (gt_of bs) @ [(of_nat (length bs), v)]" for v
    using gt_keys [OF l] by (rule om_put_last)
  moreover have "length (gt_index (gt_of bs)) = length bs" by (simp add: gt_of_def)
  ultimately show ?thesis
    using h u gt_find_of [OF l, of "of_nat (length bs)"]
    by (simp add: GeneratedTransactionsIndex_add_def om_has_def gt_of_snoc Let_def chain_transactions_def gt_of_def [of bs]
      algebra_simps)
qed

lemma gt_remove_chain:
  assumes "is_chain (bs @ [b])"
  shows "GeneratedTransactionsIndex_remove b (gt_of (bs @ [b])) = Some (True, gt_of bs)"
proof -
  have l: "length bs < 4294967296" and h: "base_height b = Some (of_nat (length bs))"
    using assms by (auto simp: is_chain_snoc)
  have u: "unat (of_nat (length bs) :: u32) = length bs" using l by (simp add: unat_of_nat_u32)
  have e: "om_erase (of_nat (length bs)) (gt_index (gt_of (bs @ [b]))) = gt_index (gt_of bs)"
    unfolding gt_of_snoc GeneratedTransactionsIndex.simps
    by (rule om_erase_last) (use gt_keys [OF l] in force)
  have g: "ucast (of_nat (length bs) :: u32) = (of_nat (length (gt_index (gt_of (bs @ [b])))) - 1 :: u64)"
    using l by (simp add: gt_of_def word_unat_eq_iff u unsigned_of_nat take_bit_nat_eq_self)
  have z: "(of_nat (length bs) :: u32) = 0 \<longleftrightarrow> bs = []" using u by (auto simp: word_unat_eq_iff)
  have p: "bs \<noteq> [] \<Longrightarrow> om_find (gt_index (gt_of bs)) (of_nat (length bs) - 1) = Some (of_nat (chain_transactions bs))"
  proof -
    assume "bs \<noteq> []"
    then have "unat (of_nat (length bs) - 1 :: u32) = length bs - 1" "length bs - 1 < length bs"
      using u by (auto simp: unat_sub word_le_nat_alt Suc_leI)
    then show ?thesis using gt_find_of [OF l] by simp
  qed
  show ?thesis
    using h g e z p
    by (cases "bs = []") (simp_all add: GeneratedTransactionsIndex_remove_def gt_of_def chain_transactions_def)
qed

lemma add_chain_snoc:
  "add_chain (bs @ [b]) g =
     (case add_chain bs g of
        Some g' \<Rightarrow> (case GeneratedTransactionsIndex_add b g' of Some (True, g'') \<Rightarrow> Some g'' | _ \<Rightarrow> None)
      | None \<Rightarrow> None)"
  by (induction bs arbitrary: g) (auto split: option.splits prod.splits bool.splits)

lemma add_chain_of:
  assumes "is_chain bs"
  shows "add_chain bs GeneratedTransactionsIndex_new = Some (gt_of bs)"
  using assms
proof (induction bs rule: rev_induct)
  case Nil
  show ?case by (simp add: GeneratedTransactionsIndex_new_def gt_of_def chain_transactions_def)
next
  case (snoc b bs)
  then show ?case by (simp add: add_chain_snoc is_chain_snoc gt_add_chain)
qed

section \<open>Properties\<close>

text \<open>
  The number of transactions on a chain. After the blocks of a chain were added in order, each under its own height, the
  index gives for every height the number of transactions of all blocks up to it, rewards included, modulo \<open>2 ^ 64\<close>, and
  nothing above the chain; and removing the last block gives exactly the index of the chain without it.
\<close>

theorem transaction_count_exact:
  assumes "is_chain (bs @ [b])"
  shows "\<exists>g. add_chain (bs @ [b]) GeneratedTransactionsIndex_new = Some g \<and>
    (\<forall>h. GeneratedTransactionsIndex_find h g =
      (if unat h < length bs + 1 then Some (of_nat (chain_transactions (take (Suc (unat h)) (bs @ [b])))) else None)) \<and>
    (\<exists>g'. GeneratedTransactionsIndex_remove b g = Some (True, g') \<and>
      add_chain bs GeneratedTransactionsIndex_new = Some g')"
proof -
  have "is_chain bs" "length (bs @ [b]) < 4294967296" using assms by (auto simp: is_chain_snoc)
  then show ?thesis
    using add_chain_of [OF assms] add_chain_of [of bs] gt_remove_chain [OF assms] gt_find_of [of "bs @ [b]"]
    by (simp add: GeneratedTransactionsIndex_find_def)
qed

theorem transaction_count_exact_witness:
  "\<exists>g. add_chain [sample_block\<lparr>bl_baseTransaction := sample_coinbase\<lparr>tx_inputs := [BaseInput 0]\<rparr>\<rparr>]
      GeneratedTransactionsIndex_new = Some g \<and> GeneratedTransactionsIndex_find 0 g = Some 1"
proof -
  let ?b = "sample_block\<lparr>bl_baseTransaction := sample_coinbase\<lparr>tx_inputs := [BaseInput 0]\<rparr>\<rparr>"
  have "is_chain ([] @ [?b])" by (simp add: is_chain_def base_height_def)
  moreover have "chain_transactions [?b] = 1" by (simp add: chain_transactions_def sample_block_def)
  ultimately show ?thesis using transaction_count_exact [of "[]" ?b] by (auto simp: chain_transactions_def)
qed

text \<open>
  The blocks of an interval of time. In a sorted index a query returns the first blocks, up to the limit, of exactly
  those whose timestamp lies in the interval, in order, and counts them all; adding a block keeps the index sorted
  and adds nothing else; and removing the block that was added gives the index back.
\<close>

theorem timestamp_query_exact:
  assumes "ts_sorted index" "begin' \<le> end'" "(t, h) \<notin> set index"
  shows "TimestampBlocksIndex_find begin' end' limit index =
      (let r = filter (\<lambda>e. begin' \<le> fst e \<and> fst e \<le> end') index; hs = map snd (take (unat limit) r)
       in Some (hs \<noteq> [], hs, of_nat (length r))) \<and>
    ts_sorted (TimestampBlocksIndex_add t h index) \<and>
    mset (TimestampBlocksIndex_add t h index) = add_mset (t, h) (mset index) \<and>
    TimestampBlocksIndex_remove t h (TimestampBlocksIndex_add t h index) = (True, index)"
  using assms ts_range_sorted [OF assms(1)] ts_sorted_add ts_add_mset ts_remove_add
  by (simp add: TimestampBlocksIndex_find_def not_less)

theorem timestamp_query_exact_witness:
  "TimestampBlocksIndex_find 2 5 1 [(1, []), (3, [7]), (4, [8])] = Some (True, [[7]], 2) \<and>
   TimestampBlocksIndex_remove 3 [9] (TimestampBlocksIndex_add 3 [9] [(1, []), (3, [7]), (4, [8])]) =
     (True, [(1, []), (3, [7]), (4, [8])])"
  using timestamp_query_exact [of "[(1, []), (3, [7]), (4, [8])]" 2 5 3 "[9]" 1]
  by (simp add: ts_sorted_def word_le_nat_alt Let_def)

end
