(* ===== verification/Upgrade_Detector.thy ===== *)
theory Upgrade_Detector
  imports Currency_Rules
begin

text \<open>
  Voting on upgrades of the block version, \<open>src/src/CryptoNoteCore/UpgradeDetector.h\<close>. The blockchain a detector watches
  is the list of the major and minor versions of its blocks. Upgrades whose height the currency fixes need no votes; the
  detector works for the others. \<open>std::lower_bound\<close> is only defined on chains whose versions do not fall, and the
  length of the leading part is its result there.

  Shown here: while blocks are added and removed one at a time, the height at which the voting was completed is always
  the first height of the chain with enough votes, whatever the order of additions and removals was.
\<close>

section \<open>Definitions\<close>

type_synonym versions = "(u8 \<times> u8) list"

record UpgradeDetector =
  ud_targetVersion :: u8
  ud_votingCompleteHeight :: u32

definition UNDEF_HEIGHT :: u32 where
  "UNDEF_HEIGHT = 0xFFFFFFFF"

definition UpgradeDetector_new :: "u8 \<Rightarrow> UpgradeDetector" where
  "UpgradeDetector_new targetVersion = \<lparr>ud_targetVersion = targetVersion, ud_votingCompleteHeight = UNDEF_HEIGHT\<rparr>"

text \<open>A vote: a block of the version before the target with minor version 1. \<open>m_targetVersion - 1\<close> is an \<open>int\<close>.\<close>

definition is_vote :: "u8 \<Rightarrow> u8 \<times> u8 \<Rightarrow> bool" where
  "is_vote target b \<longleftrightarrow> int (unat (fst b)) = int (unat target) - 1 \<and> snd b = 1"

definition getNumberOfVotes :: "Currency \<Rightarrow> u8 \<Rightarrow> versions \<Rightarrow> u32 \<Rightarrow> nat" where
  "getNumberOfVotes c target chain height =
     (if height < cur_upgradeVotingWindow c - 1 then 0
      else length (filter (\<lambda>i. is_vote target (chain ! i))
        [unat (height + 1 - cur_upgradeVotingWindow c)..<unat height + 1]))"

text \<open>The product of the threshold and the window is one of 32-bit integers, the one with the votes of 64-bit integers.\<close>

definition isVotingComplete :: "Currency \<Rightarrow> u8 \<Rightarrow> versions \<Rightarrow> u32 \<Rightarrow> bool" where
  "isVotingComplete c target chain height \<longleftrightarrow>
     ucast (cur_upgradeVotingThreshold c * cur_upgradeVotingWindow c) \<le>
       (100 * of_nat (getNumberOfVotes c target chain height) :: u64)"

definition findVotingCompleteHeight :: "Currency \<Rightarrow> u8 \<Rightarrow> versions \<Rightarrow> u32 \<Rightarrow> u32" where
  "findVotingCompleteHeight c target chain probableUpgradeHeight =
     (let probable = (if maxUpgradeDistance c < probableUpgradeHeight
            then probableUpgradeHeight - maxUpgradeDistance c else 0)
      in case find (\<lambda>i. isVotingComplete c target chain (of_nat i)) [unat probable..<unat probableUpgradeHeight + 1] of
           Some i \<Rightarrow> of_nat i | None \<Rightarrow> UNDEF_HEIGHT)"

definition ud_upgradeHeight :: "Currency \<Rightarrow> UpgradeDetector \<Rightarrow> u32" where
  "ud_upgradeHeight c d =
     (if upgradeHeight (ud_targetVersion d) c = UNDEF_HEIGHT
      then if ud_votingCompleteHeight d = UNDEF_HEIGHT then UNDEF_HEIGHT
           else calculateUpgradeHeight (ud_votingCompleteHeight d) c
      else upgradeHeight (ud_targetVersion d) c)"

text \<open>\<open>init\<close> returns false on an inconsistent chain.\<close>

definition ud_init :: "Currency \<Rightarrow> versions \<Rightarrow> UpgradeDetector \<Rightarrow> bool \<times> UpgradeDetector" where
  "ud_init c chain d =
     (let target = ud_targetVersion d; n = length chain; major = \<lambda>i. fst (chain ! i);
          set_height = \<lambda>h. d\<lparr>ud_votingCompleteHeight := h\<rparr>; upgrade = upgradeHeight target c
      in if upgrade = UNDEF_HEIGHT then
           if chain = [] then (True, set_height UNDEF_HEIGHT)
           else if int (unat target) - 1 = int (unat (major (n - 1)))
           then (True, set_height (findVotingCompleteHeight c target chain (of_nat (n - 1))))
           else if target \<le> major (n - 1) then
             let it = length (takeWhile (\<lambda>b. fst b < target) chain)
             in if it = n \<or> major it \<noteq> target then (False, d)
                else
                  let h = findVotingCompleteHeight c target chain (of_nat it)
                  in (h \<noteq> UNDEF_HEIGHT, set_height h)
           else (True, set_height UNDEF_HEIGHT)
         else if chain \<noteq> [] then
           if n \<le> unat (upgrade + 1) then (\<not> target \<le> major (n - 1), d)
           else if int (unat (major (unat upgrade))) \<noteq> int (unat target) - 1 then (False, d)
           else (major (unat (upgrade + 1)) = target, d)
         else (True, d))"

text \<open>The other branches of \<open>blockPushed\<close> only check assertions and write to the log.\<close>

definition ud_blockPushed :: "Currency \<Rightarrow> versions \<Rightarrow> UpgradeDetector \<Rightarrow> UpgradeDetector" where
  "ud_blockPushed c chain d =
     (if upgradeHeight (ud_targetVersion d) c \<noteq> UNDEF_HEIGHT then d
      else if ud_votingCompleteHeight d \<noteq> UNDEF_HEIGHT then d
      else
        let lastBlockHeight = of_nat (length chain - 1)
        in if isVotingComplete c (ud_targetVersion d) chain lastBlockHeight
           then d\<lparr>ud_votingCompleteHeight := lastBlockHeight\<rparr> else d)"

definition ud_blockPopped :: "versions \<Rightarrow> UpgradeDetector \<Rightarrow> UpgradeDetector" where
  "ud_blockPopped chain d =
     (if ud_votingCompleteHeight d \<noteq> UNDEF_HEIGHT \<and> length chain = unat (ud_votingCompleteHeight d)
      then d\<lparr>ud_votingCompleteHeight := UNDEF_HEIGHT\<rparr> else d)"

section \<open>Chains that grow and shrink\<close>

text \<open>The chain and the detector, with a block added or removed in each step.\<close>

inductive ud_steps :: "Currency \<Rightarrow> u8 \<Rightarrow> versions \<Rightarrow> UpgradeDetector \<Rightarrow> bool" for c target where
  start: "ud_steps c target [] (UpgradeDetector_new target)"
| push: "ud_steps c target chain d \<Longrightarrow> length chain + 1 < 0xFFFFFFFF \<Longrightarrow>
    ud_steps c target (chain @ [b]) (ud_blockPushed c (chain @ [b]) d)"
| pop: "ud_steps c target (chain @ [b]) d \<Longrightarrow> ud_steps c target chain (ud_blockPopped chain d)"

text \<open>The first height with enough votes, by a scan of the whole chain.\<close>

definition first_complete :: "Currency \<Rightarrow> u8 \<Rightarrow> versions \<Rightarrow> u32" where
  "first_complete c target chain =
     (case find (\<lambda>i. isVotingComplete c target chain (of_nat i)) [0..<length chain] of
        Some i \<Rightarrow> of_nat i | None \<Rightarrow> UNDEF_HEIGHT)"

lemma unat_of_nat_height: "n < 0xFFFFFFFF \<Longrightarrow> unat (of_nat n :: u32) = n"
  by (simp add: unsigned_of_nat take_bit_nat_eq_self)

lemma of_nat_height_defined: "n < 0xFFFFFFFF \<Longrightarrow> (of_nat n :: u32) \<noteq> UNDEF_HEIGHT"
  by (auto simp: word_unat_eq_iff unat_of_nat_height UNDEF_HEIGHT_def)

lemma votes_prefix:
  assumes "unat height < length chain"
  shows "getNumberOfVotes c target (chain @ [b]) height = getNumberOfVotes c target chain height"
proof -
  have "filter (\<lambda>i. is_vote target ((chain @ [b]) ! i)) [lo..<unat height + 1] =
      filter (\<lambda>i. is_vote target (chain ! i)) [lo..<unat height + 1]" for lo
    using assms by (intro filter_cong) (auto simp: nth_append)
  then show ?thesis by (simp add: getNumberOfVotes_def)
qed

lemma complete_prefix:
  assumes "i < length chain" "length chain < 0xFFFFFFFF"
  shows "isVotingComplete c target (chain @ [b]) (of_nat i) = isVotingComplete c target chain (of_nat i)"
  using assms votes_prefix [of "of_nat i" chain] by (simp add: isVotingComplete_def unat_of_nat_height)

lemma find_cong_upt: "(\<And>i. i < n \<Longrightarrow> P i = Q i) \<Longrightarrow> find P [0..<n] = find Q [0..<n]"
  by (intro find_cong) auto

lemma find_snoc: "find P (xs @ [x]) = (case find P xs of Some y \<Rightarrow> Some y | None \<Rightarrow> if P x then Some x else None)"
  by (induction xs) auto

lemma first_complete_snoc:
  assumes "length chain + 1 < 0xFFFFFFFF"
  shows "first_complete c target (chain @ [b]) =
    (if first_complete c target chain \<noteq> UNDEF_HEIGHT then first_complete c target chain
     else if isVotingComplete c target (chain @ [b]) (of_nat (length chain)) then of_nat (length chain) else UNDEF_HEIGHT)"
proof -
  let ?P = "\<lambda>i. isVotingComplete c target chain (of_nat i)"
    and ?Q = "\<lambda>i. isVotingComplete c target (chain @ [b]) (of_nat i)"
  have e: "find ?Q [0..<length chain] = find ?P [0..<length chain]"
    using assms by (intro find_cong_upt complete_prefix) auto
  have "of_nat i \<noteq> UNDEF_HEIGHT" if "find ?P [0..<length chain] = Some i" for i
    using that assms by (intro of_nat_height_defined) (auto simp: find_Some_iff)
  then show ?thesis
    using e by (auto simp: first_complete_def find_snoc split: option.split)
qed

lemma first_complete_bound:
  assumes "length chain < 0xFFFFFFFF" "first_complete c target chain \<noteq> UNDEF_HEIGHT"
  shows "unat (first_complete c target chain) < length chain"
proof -
  obtain i where i: "find (\<lambda>i. isVotingComplete c target chain (of_nat i)) [0..<length chain] = Some i"
    using assms(2) by (auto simp: first_complete_def split: option.splits)
  then have "i < length chain" by (auto simp: find_Some_iff)
  then show ?thesis using i assms(1) by (simp add: first_complete_def unat_of_nat_height)
qed

lemma ud_steps_target: "ud_steps c target chain d \<Longrightarrow> ud_targetVersion d = target"
  by (induction rule: ud_steps.induct)
    (auto simp: UpgradeDetector_new_def ud_blockPushed_def ud_blockPopped_def Let_def)

lemma ud_steps_length: "ud_steps c target chain d \<Longrightarrow> length chain < 0xFFFFFFFF"
  by (induction rule: ud_steps.induct) auto

lemma ud_steps_first:
  assumes "ud_steps c target chain d" "upgradeHeight target c = UNDEF_HEIGHT"
  shows "ud_votingCompleteHeight d = first_complete c target chain"
  using assms
proof (induction rule: ud_steps.induct)
  case start
  show ?case by (simp add: UpgradeDetector_new_def first_complete_def)
next
  case (push chain d b)
  then show ?case
    using first_complete_snoc [OF push.hyps(2)] ud_steps_target [OF push.hyps(1)]
    by (simp add: ud_blockPushed_def Let_def)
next
  case (pop chain b d)
  have len: "length chain + 1 < 0xFFFFFFFF" using ud_steps_length [OF pop.hyps(1)] by simp
  have u: "unat (of_nat (length chain) :: u32) = length chain" using len by (simp add: unat_of_nat_height)
  have "first_complete c target chain \<noteq> UNDEF_HEIGHT \<Longrightarrow> unat (first_complete c target chain) < length chain"
    using len by (intro first_complete_bound) simp_all
  then show ?case
    using pop first_complete_snoc [OF len, of c target b] u of_nat_height_defined [of "length chain"] len
    by (auto simp: ud_blockPopped_def)
qed

section \<open>Property\<close>

text \<open>
  C30: while blocks are added and removed one at a time, in any order, a detector for an upgrade without a fixed height
  holds the first height of the present chain at which the votes reached the threshold, or the undefined height if there is
  none; the upgrade is then due one upgrade window later.
\<close>

theorem voting_height_tracked:
  assumes "ud_steps c target chain d" "upgradeHeight target c = UNDEF_HEIGHT"
  shows "ud_votingCompleteHeight d = first_complete c target chain \<and>
    ud_upgradeHeight c d = (if first_complete c target chain = UNDEF_HEIGHT then UNDEF_HEIGHT
      else first_complete c target chain + cur_upgradeWindow c)"
  using ud_steps_first [OF assms] ud_steps_target [OF assms(1)] assms(2)
  by (simp add: ud_upgradeHeight_def calculateUpgradeHeight_def)

theorem voting_height_tracked_witness:
  "\<exists>c d. ud_steps c 11 [(10, 1)] d \<and> upgradeHeight 11 c = UNDEF_HEIGHT \<and>
    ud_votingCompleteHeight d = 0 \<and> ud_upgradeHeight c d = 5"
proof -
  fix c0 :: Currency
  define c where "c = c0\<lparr>cur_upgradeVotingWindow := 1, cur_upgradeVotingThreshold := 100, cur_upgradeWindow := 5\<rparr>"
  let ?d = "ud_blockPushed c ([] @ [(10, 1)]) (UpgradeDetector_new 11)"
  have steps: "ud_steps c 11 ([] @ [(10, 1)]) ?d" by (rule ud_steps.push [OF ud_steps.start]) simp
  have h: "upgradeHeight 11 c = UNDEF_HEIGHT" by (simp add: upgradeHeight_def UNDEF_HEIGHT_def)
  have "isVotingComplete c 11 [(10, 1)] 0"
    by (simp add: isVotingComplete_def getNumberOfVotes_def is_vote_def c_def)
  then have "first_complete c 11 [(10, 1)] = 0" by (simp add: first_complete_def)
  then show ?thesis
    using voting_height_tracked [OF steps h] steps h by (auto simp: UNDEF_HEIGHT_def c_def)
qed

end
