(* ===== verification/Checkpoints.thy ===== *)
theory Checkpoints
  imports Ordered_Map Byte_Codecs Fuego_Config
begin

text \<open>
  The fixed points of the chain, \<open>src/src/CryptoNoteCore/Checkpoints.cpp\<close>: a map from heights to block hashes. The
  records fetched from DNS and the lines of a file come as texts that were split already; reading them is input.

  Shown here: which alternative blocks are allowed on a chain of at least 60 blocks, in terms of the depth of the
  reorganisation and the checkpoints between. On a shorter chain the difference of the code wraps (lemma \<open>depth_exact\<close>).
\<close>

section \<open>Definitions\<close>

type_synonym Checkpoints = "(u32, hash) omap"

definition add_checkpoint :: "u32 \<Rightarrow> string \<Rightarrow> Checkpoints \<Rightarrow> bool \<times> Checkpoints" where
  "add_checkpoint height hash_str points =
     (case podFromHex 32 hash_str of
        None \<Rightarrow> (False, points)
      | Some h \<Rightarrow> if om_has points height then (False, points) else (True, om_put height h points))"

definition is_in_checkpoint_zone :: "u32 \<Rightarrow> Checkpoints \<Rightarrow> bool" where
  "is_in_checkpoint_zone height points \<longleftrightarrow> points \<noteq> [] \<and> height \<le> fst (last points)"

text \<open>The verdict and whether the height is a checkpoint.\<close>

definition check_block :: "bool \<Rightarrow> u32 \<Rightarrow> hash \<Rightarrow> Checkpoints \<Rightarrow> bool \<times> bool" where
  "check_block testnet height h points =
     (if testnet then (True, False)
      else (case om_find points height of
              None \<Rightarrow> (True, False)
            | Some h' \<Rightarrow> (h' = h, True)))"

text \<open>The difference is one of 64-bit integers, since the window is a \<open>size_t\<close>.\<close>

definition is_alternative_block_allowed :: "u32 \<Rightarrow> u32 \<Rightarrow> Checkpoints \<Rightarrow> bool" where
  "is_alternative_block_allowed blockchain_height block_height points =
     (if block_height = 0 then False
      else if (ucast block_height :: u64) < ucast blockchain_height - CRYPTONOTE_MINED_MONEY_UNLOCK_WINDOW
              \<and> \<not> is_in_checkpoint_zone block_height points then False
      else
        let below = filter (\<lambda>p. fst p \<le> blockchain_height) points
        in if below = [] then True else fst (last below) < block_height)"

definition getCheckpointHeights :: "Checkpoints \<Rightarrow> u32 list" where
  "getCheckpointHeights points = map fst points"

definition load_checkpoints :: "(u32 \<times> string) list \<Rightarrow> Checkpoints \<Rightarrow> bool \<times> Checkpoints" where
  "load_checkpoints table points = (True, fold (\<lambda>cp p. snd (add_checkpoint (fst cp) (snd cp) p)) table points)"

text \<open>A line of the file whose height is not a number ends the reading, like a checkpoint that is refused.\<close>

fun load_checkpoints_from_file :: "(u32 option \<times> string) list \<Rightarrow> Checkpoints \<Rightarrow> bool \<times> Checkpoints" where
  "load_checkpoints_from_file [] points = (True, points)"
| "load_checkpoints_from_file ((None, _) # lines) points = (False, points)"
| "load_checkpoints_from_file ((Some height, hash_str) # lines) points =
     (case add_checkpoint height hash_str points of
        (True, points) \<Rightarrow> load_checkpoints_from_file lines points
      | (False, points) \<Rightarrow> (False, points))"

section \<open>Lemmas\<close>

lemma add_checkpoint_keeps:
  assumes "om_inv points" and "om_find points h = Some x"
  shows "om_find (snd (add_checkpoint height hash_str points)) h = Some x"
  using assms by (auto simp: add_checkpoint_def om_has_def split: option.splits)

lemma add_checkpoint_inv: "om_inv points \<Longrightarrow> om_inv (snd (add_checkpoint height hash_str points))"
  by (auto simp: add_checkpoint_def split: option.splits)

lemma last_sorted:
  assumes "om_inv m" "m \<noteq> []" "p \<in> set m"
  shows "fst p \<le> fst (last m)"
proof -
  obtain ps where ps: "m = ps @ [last m]" using assms(2) by (metis append_butlast_last_id)
  then have "om_inv (ps @ [last m])" using assms(1) by simp
  then have "\<forall>q \<in> set ps. fst q < fst (last m)"
    unfolding om_inv_def by (auto simp: sorted_wrt_append)
  moreover have "p \<in> set ps \<or> p = last m"
    using assms(3) ps by (metis in_set_conv_decomp rotate1.simps(2) set_rotate1 set_ConsD)
  ultimately show ?thesis by auto
qed

lemma below_last:
  fixes H :: u32
  assumes "om_inv points"
  defines "below \<equiv> filter (\<lambda>p. fst p \<le> H) points"
  shows "(if below = [] then True else fst (last below) < b) \<longleftrightarrow> \<not> (\<exists>p \<in> set points. b \<le> fst p \<and> fst p \<le> H)"
proof (cases "below = []")
  case True
  then show ?thesis by (auto simp: below_def filter_empty_conv)
next
  case False
  have inv: "om_inv below" using assms(1) by (simp add: below_def om_inv_filter)
  have last: "last below \<in> set points" "fst (last below) \<le> H" using False last_in_set [of below] by (auto simp: below_def)
  have "p \<in> set below" if "p \<in> set points" "fst p \<le> H" for p using that by (simp add: below_def)
  then show ?thesis using last_sorted [OF inv False] last False by force
qed

lemma widen_less: "(ucast (b :: u32) :: u64) < w \<longleftrightarrow> unat b < unat w"
proof -
  have "unat (ucast b :: u64) = unat b"
    by (simp add: unsigned_ucast_eq take_bit_nat_eq_self less_le_trans [OF unsigned_less])
  then show ?thesis by (simp add: word_less_nat_alt)
qed

lemma depth_exact:
  fixes H b :: u32
  shows "(ucast b :: u64) < ucast H - 60 \<longleftrightarrow> unat H < 60 \<or> unat b + 60 < unat H"
proof -
  have widen: "unat (ucast H :: u64) = unat H"
    by (simp add: unsigned_ucast_eq take_bit_nat_eq_self less_le_trans [OF unsigned_less])
  have small: "unat b < 4294967296" "unat H < 4294967296" using unsigned_less [of b] unsigned_less [of H] by simp_all
  show ?thesis
  proof (cases "unat H < 60")
    case True
    have "unat (ucast H - 60 :: u64) = unat H + 18446744073709551616 - 60"
      using True widen by (simp add: unat_sub_if_size word_size word_le_nat_alt)
    then show ?thesis unfolding widen_less using True small by linarith
  next
    case False
    have "unat (ucast H - 60 :: u64) = unat H - 60" using False widen by (simp add: unat_sub word_le_nat_alt)
    then show ?thesis using False by (auto simp: widen_less)
  qed
qed

section \<open>Properties\<close>

text \<open>
  C33: which alternative block may be considered once the chain has at least 60 blocks, the unlock window of mined money.
  The genesis block never; any other exactly when no checkpoint lies at or above its height and at or below the height of
  the chain, and it is inside the checkpoint zone or the reorganisation is at most 60 blocks deep.
\<close>

theorem alternative_block_exact:
  assumes "om_inv points" "60 \<le> unat H"
  shows "is_alternative_block_allowed H b points \<longleftrightarrow>
    b \<noteq> 0 \<and> \<not> (\<exists>p \<in> set points. b \<le> fst p \<and> fst p \<le> H) \<and>
    (is_in_checkpoint_zone b points \<or> unat H \<le> unat b + 60)"
  using below_last [OF assms(1), of H b] depth_exact [of b H] assms(2)
  unfolding is_alternative_block_allowed_def Let_def CRYPTONOTE_MINED_MONEY_UNLOCK_WINDOW_def by auto

theorem alternative_block_exact_witness:
  "is_alternative_block_allowed 100 49 [(10, null_pod)] \<and> \<not> is_alternative_block_allowed 110 49 [(10, null_pod)] \<and>
   \<not> is_alternative_block_allowed 100 49 [(10, null_pod), (60, null_pod)]"
proof -
  have inv: "om_inv [(10 :: u32, null_pod :: hash)]" "om_inv [(10 :: u32, null_pod :: hash), (60, null_pod)]"
    by (simp_all add: om_inv_def word_less_nat_alt)
  show ?thesis
    using alternative_block_exact [OF inv(1), of 100 49] alternative_block_exact [OF inv(1), of 110 49]
      alternative_block_exact [OF inv(2), of 100 49]
    by (simp add: is_in_checkpoint_zone_def word_le_nat_alt)
qed

end
