(* ===== verification/Chain_Transactions.thy ===== *)
theory Chain_Transactions
  imports Chain_Indices
begin

text \<open>
  The transaction part of the chain state, \<open>src/src/CryptoNoteCore/Blockchain.cpp\<close> (\<open>pushTransaction\<close>,
  \<open>popTransaction\<close>): the spent key images, the outputs by amount, the use of multisignature outputs, the commitment
  outputs, the transaction map and the counters of locked and paid amounts.

  A hash map is a map; \<open>operator[]\<close> on a missing amount starts an empty vector. The result is \<open>None\<close> where the code
  has no result: an index behind the end of a vector, a \<open>boost::get\<close> of the wrong alternative or \<open>at\<close> on a missing
  hash, and the loop with a \<open>uint16_t\<close> counter over more than 65535 outputs, which does not end.

  Shown here: popping a transaction undoes pushing it, no key image is spent by two transactions of the chain whatever
  pushes fail and whatever is popped in between, and what a failed push leaves behind.
\<close>

section \<open>Definitions\<close>

record TransactionIndex =
  ti_block :: u32
  ti_transaction :: "16 word"

record MultisignatureOutputUsage =
  mu_transactionIndex :: TransactionIndex
  mu_outputIndex :: "16 word"
  mu_isUsed :: bool

record CommitmentOutputRef =
  co_transactionIndex :: TransactionIndex
  co_outputInTransaction :: "16 word"
  co_commitKey :: public_key
  co_term :: u32
  co_isSlashed :: bool

record ChainTransactions =
  m_spent_keys :: "key_image \<rightharpoonup> u32"
  m_outputs :: "u64 \<rightharpoonup> (TransactionIndex \<times> 16 word) list"
  m_multisignatureOutputs :: "u64 \<rightharpoonup> MultisignatureOutputUsage list"
  m_commitmentOutputs :: "u64 \<rightharpoonup> CommitmentOutputRef list"
  m_transactionMap :: "hash \<rightharpoonup> TransactionIndex"
  m_feePoolBalance :: u64
  m_totalCdLocked :: u64
  m_totalCdInterestPaid :: u64
  m_paymentIdIndex :: PaymentIdIndex

definition ChainTransactions_new :: ChainTransactions where
  "ChainTransactions_new =
     \<lparr>m_spent_keys = Map.empty, m_outputs = Map.empty, m_multisignatureOutputs = Map.empty,
      m_commitmentOutputs = Map.empty, m_transactionMap = Map.empty, m_feePoolBalance = 0, m_totalCdLocked = 0,
      m_totalCdInterestPaid = 0, m_paymentIdIndex = {#}\<rparr>"

definition have_tx_keyimg_as_spent :: "key_image \<Rightarrow> 'a ChainTransactions_scheme \<Rightarrow> bool" where
  "have_tx_keyimg_as_spent key_im s = (m_spent_keys s key_im \<noteq> None)"

definition haveTransactionKeyImagesAsSpent :: "'b TransactionPrefix_scheme \<Rightarrow> 'a ChainTransactions_scheme \<Rightarrow> bool" where
  "haveTransactionKeyImagesAsSpent tx s =
     list_ex (\<lambda>i. case i of KeyInput _ _ keyImage \<Rightarrow> have_tx_keyimg_as_spent keyImage s | _ \<Rightarrow> False) (tx_inputs tx)"

definition haveSpentKeyImages :: "'b TransactionPrefix_scheme \<Rightarrow> 'a ChainTransactions_scheme \<Rightarrow> bool" where
  "haveSpentKeyImages = haveTransactionKeyImagesAsSpent"

subsection \<open>Pushing\<close>

text \<open>The first loop over the inputs; the key inputs seen so far come back in reverse when one is spent already.\<close>

fun undo_keys :: "TransactionInput list \<Rightarrow> (key_image \<rightharpoonup> u32) \<Rightarrow> (key_image \<rightharpoonup> u32) option" where
  "undo_keys [] m = Some m"
| "undo_keys (KeyInput _ _ keyImage # ins) m = undo_keys ins (m(keyImage := None))"
| "undo_keys (_ # ins) m = None"

fun key_loop ::
  "u32 \<Rightarrow> TransactionInput list \<Rightarrow> TransactionInput list \<Rightarrow> (key_image \<rightharpoonup> u32) \<Rightarrow> (bool \<times> (key_image \<rightharpoonup> u32)) option" where
  "key_loop height seen [] m = Some (True, m)"
| "key_loop height seen (KeyInput a is keyImage # ins) m =
     (if m keyImage \<noteq> None then map_option (Pair False) (undo_keys seen m)
      else key_loop height (KeyInput a is keyImage # seen) ins (m(keyImage \<mapsto> height)))"
| "key_loop height seen (i # ins) m = key_loop height (i # seen) ins m"

text \<open>\<open>amountOutputs[in.outputIndex].isUsed = b\<close>.\<close>

definition set_used ::
  "bool \<Rightarrow> u64 \<Rightarrow> u32 \<Rightarrow> (u64 \<rightharpoonup> MultisignatureOutputUsage list) \<Rightarrow> (u64 \<rightharpoonup> MultisignatureOutputUsage list) option" where
  "set_used b amount i m =
     (case m amount of
        None \<Rightarrow> None
      | Some us \<Rightarrow> if unat i < length us then Some (m(amount \<mapsto> us[unat i := (us ! unat i)\<lparr>mu_isUsed := b\<rparr>])) else None)"

text \<open>The second loop over the inputs; \<open>False\<close> where it returns.\<close>

fun spend_loop :: "u32 \<Rightarrow> TransactionInput list \<Rightarrow> 'a ChainTransactions_scheme \<Rightarrow> (bool \<times> 'a ChainTransactions_scheme) option" where
  "spend_loop height [] s = Some (True, s)"
| "spend_loop height (MultisignatureInput amount _ outputIndex _ # ins) s =
     (case set_used True amount outputIndex (m_multisignatureOutputs s) of
        None \<Rightarrow> None
      | Some m \<Rightarrow> spend_loop height ins (s\<lparr>m_multisignatureOutputs := m\<rparr>))"
| "spend_loop height (TransactionInputCommitmentSpend amount _ keyImage claimedInterest # ins) s =
     (if m_spent_keys s keyImage \<noteq> None then Some (False, s)
      else
        let s = s\<lparr>m_spent_keys := (m_spent_keys s)(keyImage \<mapsto> height), m_totalCdLocked := m_totalCdLocked s - amount\<rparr>
        in spend_loop height ins
             (if 0 < claimedInterest \<and> claimedInterest \<le> m_feePoolBalance s
              then s\<lparr>m_feePoolBalance := m_feePoolBalance s - claimedInterest,
                     m_totalCdInterestPaid := m_totalCdInterestPaid s + claimedInterest\<rparr>
              else s))"
| "spend_loop height (TransactionInputCommitmentTransfer _ _ keyImage _ # ins) s =
     (if m_spent_keys s keyImage \<noteq> None then Some (False, s)
      else spend_loop height ins (s\<lparr>m_spent_keys := (m_spent_keys s)(keyImage \<mapsto> height)\<rparr>))"
| "spend_loop height (_ # ins) s = spend_loop height ins s"

definition vector_at :: "('k \<rightharpoonup> 'v list) \<Rightarrow> 'k \<Rightarrow> 'v list" where
  "vector_at m k = (case m k of None \<Rightarrow> [] | Some vs \<Rightarrow> vs)"

text \<open>One round of the loop over the outputs: the global index and the new state.\<close>

definition push_output :: "TransactionIndex \<Rightarrow> nat \<Rightarrow> TransactionOutput \<Rightarrow> 'a ChainTransactions_scheme \<Rightarrow> u32 \<times> 'a ChainTransactions_scheme" where
  "push_output transactionIndex i out s =
     (let amount = out_amount out in
      case out_target out of
        KeyOutput _ \<Rightarrow>
          let vs = vector_at (m_outputs s) amount
          in (of_nat (length vs), s\<lparr>m_outputs := (m_outputs s)(amount \<mapsto> vs @ [(transactionIndex, of_nat i)])\<rparr>)
      | MultisignatureOutput _ _ _ \<Rightarrow>
          let vs = vector_at (m_multisignatureOutputs s) amount
          in (of_nat (length vs), s\<lparr>m_multisignatureOutputs := (m_multisignatureOutputs s)(amount \<mapsto> vs @
                [\<lparr>mu_transactionIndex = transactionIndex, mu_outputIndex = of_nat i, mu_isUsed = False\<rparr>])\<rparr>)
      | TransactionOutputCommitment commitKey term _ _ \<Rightarrow>
          let vs = vector_at (m_commitmentOutputs s) amount
          in (of_nat (length vs), s\<lparr>m_commitmentOutputs := (m_commitmentOutputs s)(amount \<mapsto> vs @
                [\<lparr>co_transactionIndex = transactionIndex, co_outputInTransaction = of_nat i, co_commitKey = commitKey,
                  co_term = term, co_isSlashed = False\<rparr>]), m_totalCdLocked := m_totalCdLocked s + amount\<rparr>)
      | TransactionOutputUnified _ _ _ _ \<Rightarrow> (0, s))"

fun push_outputs ::
  "TransactionIndex \<Rightarrow> nat \<Rightarrow> TransactionOutput list \<Rightarrow> 'a ChainTransactions_scheme \<Rightarrow> u32 list \<times> 'a ChainTransactions_scheme" where
  "push_outputs transactionIndex i [] s = ([], s)"
| "push_outputs transactionIndex i (out # outs) s =
     (case push_output transactionIndex i out s of
        (g, s) \<Rightarrow> (case push_outputs transactionIndex (Suc i) outs s of (gs, s) \<Rightarrow> (g # gs, s)))"

text \<open>
  \<open>pushTransaction\<close> on the transaction at its index of the block and the height of the block: the flag it returns, the
  global output indexes it writes into the entry (\<open>None\<close>: not written) and the new state.
\<close>

definition pushTransaction ::
  "TransactionExtraElderfierMessage \<Rightarrow> u32 \<Rightarrow> Transaction \<Rightarrow> hash \<Rightarrow> TransactionIndex \<Rightarrow> 'a ChainTransactions_scheme \<Rightarrow>
   (bool \<times> u32 list option \<times> 'a ChainTransactions_scheme) option" where
  "pushTransaction mem height tx transactionHash transactionIndex s =
     (if m_transactionMap s transactionHash \<noteq> None then Some (False, None, s)
      else
        let s1 = s\<lparr>m_transactionMap := (m_transactionMap s)(transactionHash \<mapsto> transactionIndex)\<rparr>;
            failed = (\<lambda>t. Some (False, None, t\<lparr>m_transactionMap := (m_transactionMap t)(transactionHash := None)\<rparr>))
        in if \<not> checkMultisignatureInputsDiff tx then failed s1
           else
             case key_loop height [] (tx_inputs tx) (m_spent_keys s1) of
               None \<Rightarrow> None
             | Some (ok, keys) \<Rightarrow>
                 let s2 = s1\<lparr>m_spent_keys := keys\<rparr>
                 in if \<not> ok then failed s2
                    else
                      case spend_loop height (tx_inputs tx) s2 of
                        None \<Rightarrow> None
                      | Some (ok, s3) \<Rightarrow>
                          if \<not> ok then failed s3
                          else if 65535 < length (tx_outputs tx) then None
                          else
                            case push_outputs transactionIndex 0 (tx_outputs tx) s3 of
                              (gs, s4) \<Rightarrow>
                                Some (True, Some gs, s4\<lparr>m_paymentIdIndex := snd (PaymentIdIndex_add mem tx (m_paymentIdIndex s4))\<rparr>))"

subsection \<open>Popping\<close>

definition drop_back :: "'k \<Rightarrow> 'v list \<Rightarrow> ('k \<rightharpoonup> 'v list) \<Rightarrow> ('k \<rightharpoonup> 'v list)" where
  "drop_back k vs m = (if butlast vs = [] then m(k := None) else m(k \<mapsto> butlast vs))"

definition pop_output :: "TransactionIndex \<Rightarrow> nat \<Rightarrow> TransactionOutput \<Rightarrow> 'a ChainTransactions_scheme \<Rightarrow> 'a ChainTransactions_scheme" where
  "pop_output transactionIndex i out s =
     (let amount = out_amount out in
      case out_target out of
        KeyOutput _ \<Rightarrow>
          (case m_outputs s amount of
             None \<Rightarrow> s
           | Some vs \<Rightarrow>
               if vs = [] then s
               else if ti_block (fst (last vs)) \<noteq> ti_block transactionIndex
                       \<or> ti_transaction (fst (last vs)) \<noteq> ti_transaction transactionIndex then s
               else if unat (snd (last vs)) \<noteq> i then s
               else s\<lparr>m_outputs := drop_back amount vs (m_outputs s)\<rparr>)
      | MultisignatureOutput _ _ _ \<Rightarrow>
          (case m_multisignatureOutputs s amount of
             None \<Rightarrow> s
           | Some vs \<Rightarrow>
               if vs = [] then s
               else if mu_isUsed (last vs) then s
               else if ti_block (mu_transactionIndex (last vs)) \<noteq> ti_block transactionIndex
                       \<or> ti_transaction (mu_transactionIndex (last vs)) \<noteq> ti_transaction transactionIndex then s
               else if unat (mu_outputIndex (last vs)) \<noteq> i then s
               else s\<lparr>m_multisignatureOutputs := drop_back amount vs (m_multisignatureOutputs s)\<rparr>)
      | TransactionOutputCommitment _ _ _ _ \<Rightarrow>
          (case m_commitmentOutputs s amount of
             None \<Rightarrow> s
           | Some vs \<Rightarrow>
               if vs = [] then s
               else
                 let s = s\<lparr>m_commitmentOutputs := drop_back amount vs (m_commitmentOutputs s)\<rparr>
                 in if amount \<le> m_totalCdLocked s then s\<lparr>m_totalCdLocked := m_totalCdLocked s - amount\<rparr> else s)
      | TransactionOutputUnified _ _ _ _ \<Rightarrow> s)"

text \<open>The loop runs from the last output to the first.\<close>

fun pop_outputs :: "TransactionIndex \<Rightarrow> nat \<Rightarrow> TransactionOutput list \<Rightarrow> 'a ChainTransactions_scheme \<Rightarrow> 'a ChainTransactions_scheme" where
  "pop_outputs transactionIndex i [] s = s"
| "pop_outputs transactionIndex i (out # outs) s =
     pop_output transactionIndex i out (pop_outputs transactionIndex (Suc i) outs s)"

fun pop_inputs :: "TransactionInput list \<Rightarrow> 'a ChainTransactions_scheme \<Rightarrow> 'a ChainTransactions_scheme option" where
  "pop_inputs [] s = Some s"
| "pop_inputs (KeyInput _ _ keyImage # ins) s = pop_inputs ins (s\<lparr>m_spent_keys := (m_spent_keys s)(keyImage := None)\<rparr>)"
| "pop_inputs (MultisignatureInput amount _ outputIndex _ # ins) s =
     (case set_used False amount outputIndex (m_multisignatureOutputs s) of
        None \<Rightarrow> None
      | Some m \<Rightarrow> pop_inputs ins (s\<lparr>m_multisignatureOutputs := m\<rparr>))"
| "pop_inputs (TransactionInputCommitmentSpend amount _ keyImage claimedInterest # ins) s =
     (let s = s\<lparr>m_spent_keys := (m_spent_keys s)(keyImage := None), m_totalCdLocked := m_totalCdLocked s + amount\<rparr>
      in pop_inputs ins
           (if 0 < claimedInterest
            then s\<lparr>m_feePoolBalance := m_feePoolBalance s + claimedInterest,
                   m_totalCdInterestPaid :=
                     (if claimedInterest \<le> m_totalCdInterestPaid s then m_totalCdInterestPaid s - claimedInterest
                      else m_totalCdInterestPaid s)\<rparr>
            else s))"
| "pop_inputs (TransactionInputCommitmentTransfer _ _ keyImage _ # ins) s =
     pop_inputs ins (s\<lparr>m_spent_keys := (m_spent_keys s)(keyImage := None)\<rparr>)"
| "pop_inputs (_ # ins) s = pop_inputs ins s"

definition popTransaction ::
  "TransactionExtraElderfierMessage \<Rightarrow> Transaction \<Rightarrow> hash \<Rightarrow> 'a ChainTransactions_scheme \<Rightarrow> 'a ChainTransactions_scheme option" where
  "popTransaction mem tx transactionHash s =
     (case m_transactionMap s transactionHash of
        None \<Rightarrow> None
      | Some transactionIndex \<Rightarrow>
          case pop_inputs (tx_inputs tx) (pop_outputs transactionIndex 0 (tx_outputs tx) s) of
            None \<Rightarrow> None
          | Some s \<Rightarrow> Some (s\<lparr>m_paymentIdIndex := snd (PaymentIdIndex_remove mem tx (m_paymentIdIndex s)),
                             m_transactionMap := (m_transactionMap s)(transactionHash := None)\<rparr>))"

subsection \<open>Statement vocabulary\<close>

fun plain_keys :: "TransactionInput list \<Rightarrow> key_image list" where
  "plain_keys [] = []"
| "plain_keys (KeyInput _ _ keyImage # ins) = keyImage # plain_keys ins"
| "plain_keys (_ # ins) = plain_keys ins"

fun commitment_keys :: "TransactionInput list \<Rightarrow> key_image list" where
  "commitment_keys [] = []"
| "commitment_keys (TransactionInputCommitmentSpend _ _ keyImage _ # ins) = keyImage # commitment_keys ins"
| "commitment_keys (TransactionInputCommitmentTransfer _ _ keyImage _ # ins) = keyImage # commitment_keys ins"
| "commitment_keys (_ # ins) = commitment_keys ins"

definition key_images :: "'a TransactionPrefix_scheme \<Rightarrow> key_image list" where
  "key_images tx = plain_keys (tx_inputs tx) @ commitment_keys (tx_inputs tx)"

fun multisignature_refs :: "TransactionInput list \<Rightarrow> (u64 \<times> u32) list" where
  "multisignature_refs [] = []"
| "multisignature_refs (MultisignatureInput amount _ i _ # ins) = (amount, i) # multisignature_refs ins"
| "multisignature_refs (_ # ins) = multisignature_refs ins"

fun redeemed :: "TransactionInput list \<Rightarrow> u64 list" where
  "redeemed [] = []"
| "redeemed (TransactionInputCommitmentSpend amount _ _ _ # ins) = amount # redeemed ins"
| "redeemed (_ # ins) = redeemed ins"

fun claimed :: "TransactionInput list \<Rightarrow> u64 list" where
  "claimed [] = []"
| "claimed (TransactionInputCommitmentSpend _ _ _ claimedInterest # ins) = claimedInterest # claimed ins"
| "claimed (_ # ins) = claimed ins"

fun locked_amount :: "TransactionOutput \<Rightarrow> u64" where
  "locked_amount out = (case out_target out of TransactionOutputCommitment _ _ _ _ \<Rightarrow> out_amount out | _ \<Rightarrow> 0)"

text \<open>The multisignature output an input names exists and is not used, what \<open>validateInput\<close> checks first.\<close>

definition unused :: "(u64 \<rightharpoonup> MultisignatureOutputUsage list) \<Rightarrow> u64 \<times> u32 \<Rightarrow> bool" where
  "unused m p = (case m (fst p) of None \<Rightarrow> False | Some us \<Rightarrow> unat (snd p) < length us \<and> \<not> mu_isUsed (us ! unat (snd p)))"

definition total :: "u64 list \<Rightarrow> nat" where
  "total xs = sum_list (map unat xs)"

text \<open>The interest claimed is in the fee pool and no counter leaves its range.\<close>

definition counters_fit :: "Transaction \<Rightarrow> 'a ChainTransactions_scheme \<Rightarrow> bool" where
  "counters_fit tx s =
     (total (claimed (tx_inputs tx)) \<le> unat (m_feePoolBalance s) \<and>
      unat (m_totalCdInterestPaid s) + total (claimed (tx_inputs tx)) < 2 ^ 64 \<and>
      total (redeemed (tx_inputs tx)) \<le> unat (m_totalCdLocked s) \<and>
      unat (m_totalCdLocked s) + total (map locked_amount (tx_outputs tx)) < 2 ^ 64)"

text \<open>The transactions pushed and not popped, newest first, with failed pushes in between.\<close>

inductive chain_ops :: "TransactionExtraElderfierMessage \<Rightarrow> Transaction list \<Rightarrow> ChainTransactions \<Rightarrow> bool" for mem where
  ops_new: "chain_ops mem [] ChainTransactions_new"
| ops_push: "chain_ops mem txs s \<Longrightarrow> pushTransaction mem height tx h idx s = Some (True, gs, s') \<Longrightarrow> chain_ops mem (tx # txs) s'"
| ops_fail: "chain_ops mem txs s \<Longrightarrow> pushTransaction mem height tx h idx s = Some (False, gs, s') \<Longrightarrow> chain_ops mem txs s'"
| ops_pop: "chain_ops mem (tx # txs) s \<Longrightarrow> popTransaction mem tx h s = Some s' \<Longrightarrow> chain_ops mem txs s'"

definition no_empty :: "('k \<rightharpoonup> 'v list) \<Rightarrow> bool" where
  "no_empty m = (\<forall>k. m k \<noteq> Some [])"

definition sound_vectors :: "'a ChainTransactions_scheme \<Rightarrow> bool" where
  "sound_vectors s = (no_empty (m_outputs s) \<and> no_empty (m_multisignatureOutputs s) \<and> no_empty (m_commitmentOutputs s))"

fun set_all_used ::
  "bool \<Rightarrow> (u64 \<times> u32) list \<Rightarrow> (u64 \<rightharpoonup> MultisignatureOutputUsage list) \<Rightarrow> (u64 \<rightharpoonup> MultisignatureOutputUsage list) option" where
  "set_all_used b [] m = Some m"
| "set_all_used b (p # ps) m = (case set_used b (fst p) (snd p) m of None \<Rightarrow> None | Some m \<Rightarrow> set_all_used b ps m)"

text \<open>The entry a global index names, by the kind of the output.\<close>

definition output_entry :: "TransactionOutput \<Rightarrow> u32 \<Rightarrow> 'a ChainTransactions_scheme \<Rightarrow> (TransactionIndex \<times> 16 word) option" where
  "output_entry out g s =
     (let amount = out_amount out; n = unat g in
      case out_target out of
        KeyOutput _ \<Rightarrow>
          (let vs = vector_at (m_outputs s) amount in if n < length vs then Some (vs ! n) else None)
      | MultisignatureOutput _ _ _ \<Rightarrow>
          (let vs = vector_at (m_multisignatureOutputs s) amount
           in if n < length vs then Some (mu_transactionIndex (vs ! n), mu_outputIndex (vs ! n)) else None)
      | TransactionOutputCommitment _ _ _ _ \<Rightarrow>
          (let vs = vector_at (m_commitmentOutputs s) amount
           in if n < length vs then Some (co_transactionIndex (vs ! n), co_outputInTransaction (vs ! n)) else None)
      | TransactionOutputUnified _ _ _ _ \<Rightarrow> None)"

definition indexed :: "TransactionOutput \<Rightarrow> bool" where
  "indexed out = (case out_target out of TransactionOutputUnified _ _ _ _ \<Rightarrow> False | _ \<Rightarrow> True)"

definition small_vectors :: "nat \<Rightarrow> 'a ChainTransactions_scheme \<Rightarrow> bool" where
  "small_vectors n s =
     (\<forall>a. length (vector_at (m_outputs s) a) + n \<le> 2 ^ 32 \<and> length (vector_at (m_multisignatureOutputs s) a) + n \<le> 2 ^ 32
       \<and> length (vector_at (m_commitmentOutputs s) a) + n \<le> 2 ^ 32)"

definition sample_spend :: Transaction where
  "sample_spend =
     \<lparr>tx_version = 1, tx_unlockTime = 0, tx_inputs = [KeyInput 5000 [0] (replicate 32 9)],
      tx_outputs = [\<lparr>out_amount = 4000, out_target = KeyOutput null_pod\<rparr>,
        \<lparr>out_amount = 800, out_target = TransactionOutputCommitment null_pod 16440 [] []\<rparr>],
      tx_extra = [], tx_signatures = [[]]\<rparr>"

definition sample_index :: TransactionIndex where
  "sample_index = \<lparr>ti_block = 3, ti_transaction = 1\<rparr>"

section \<open>Spent key images\<close>

lemma undo_keys_spec:
  "undo_keys seen m = Some m' \<Longrightarrow> m' k = (if k \<in> set (plain_keys seen) then None else m k)"
  by (induction seen m rule: undo_keys.induct) auto

lemma key_loop_True:
  "key_loop height seen ins m = Some (True, m') \<Longrightarrow>
   distinct (plain_keys ins) \<and> (\<forall>k \<in> set (plain_keys ins). m k = None)
   \<and> (\<forall>k. m' k = (if k \<in> set (plain_keys ins) then Some height else m k))"
  by (induction height seen ins m rule: key_loop.induct) (auto split: if_splits)

lemma key_loop_False:
  "key_loop height seen ins m = Some (False, m') \<Longrightarrow> m' k = (if k \<in> set (plain_keys seen) then None else m k)"
  by (induction height seen ins m rule: key_loop.induct) (auto simp: undo_keys_spec split: if_splits)

lemma spend_loop_keys:
  "spend_loop height ins s = Some (True, s') \<Longrightarrow>
   distinct (commitment_keys ins) \<and> (\<forall>k \<in> set (commitment_keys ins). m_spent_keys s k = None)
   \<and> (\<forall>k. m_spent_keys s' k = (if k \<in> set (commitment_keys ins) then Some height else m_spent_keys s k))"
  by (induction height ins s rule: spend_loop.induct) (auto simp: Let_def split: if_splits option.splits)

lemma spend_loop_keeps_keys:
  "spend_loop height ins s = Some (ok, s') \<Longrightarrow> m_spent_keys s k = Some x \<longrightarrow> m_spent_keys s' k = Some x"
  by (induction height ins s rule: spend_loop.induct) (auto simp: Let_def split: if_splits option.splits)

lemma push_output_keeps [simp]:
  "m_spent_keys (snd (push_output idx i out s)) = m_spent_keys s"
  "m_transactionMap (snd (push_output idx i out s)) = m_transactionMap s"
  "m_feePoolBalance (snd (push_output idx i out s)) = m_feePoolBalance s"
  "m_totalCdInterestPaid (snd (push_output idx i out s)) = m_totalCdInterestPaid s"
  "m_paymentIdIndex (snd (push_output idx i out s)) = m_paymentIdIndex s"
  by (simp_all add: push_output_def Let_def split: TransactionOutputTarget.splits)

lemma push_outputs_Cons [simp]:
  "push_outputs idx i (out # outs) s =
     (fst (push_output idx i out s) # fst (push_outputs idx (Suc i) outs (snd (push_output idx i out s))),
      snd (push_outputs idx (Suc i) outs (snd (push_output idx i out s))))"
  by (simp add: case_prod_beta)

declare push_outputs.simps(2) [simp del]

lemma push_outputs_keeps [simp]:
  "m_spent_keys (snd (push_outputs idx i outs s)) = m_spent_keys s"
  "m_transactionMap (snd (push_outputs idx i outs s)) = m_transactionMap s"
  "m_feePoolBalance (snd (push_outputs idx i outs s)) = m_feePoolBalance s"
  "m_totalCdInterestPaid (snd (push_outputs idx i outs s)) = m_totalCdInterestPaid s"
  "m_paymentIdIndex (snd (push_outputs idx i outs s)) = m_paymentIdIndex s"
  by (induction outs arbitrary: i s) simp_all

lemma pop_output_keeps [simp]:
  "m_spent_keys (pop_output idx i out s) = m_spent_keys s"
  "m_transactionMap (pop_output idx i out s) = m_transactionMap s"
  by (simp_all add: pop_output_def Let_def split: TransactionOutputTarget.splits option.splits)

lemma pop_outputs_keeps [simp]:
  "m_spent_keys (pop_outputs idx i outs s) = m_spent_keys s"
  "m_transactionMap (pop_outputs idx i outs s) = m_transactionMap s"
  by (induction outs arbitrary: i) simp_all

lemma pop_inputs_keys:
  "pop_inputs ins s = Some s' \<Longrightarrow>
   m_spent_keys s' k = (if k \<in> set (plain_keys ins @ commitment_keys ins) then None else m_spent_keys s k)"
  by (induction ins s rule: pop_inputs.induct) (auto simp: Let_def split: if_splits option.splits)

text \<open>A push that succeeds, as its steps.\<close>

lemma pushTransaction_True:
  assumes "pushTransaction mem height tx h idx s = Some (True, gs, s')"
  obtains keys s2 s3 where
    "m_transactionMap s h = None" "checkMultisignatureInputsDiff tx"
    "key_loop height [] (tx_inputs tx) (m_spent_keys s) = Some (True, keys)"
    "s2 = s\<lparr>m_transactionMap := (m_transactionMap s)(h \<mapsto> idx), m_spent_keys := keys\<rparr>"
    "spend_loop height (tx_inputs tx) s2 = Some (True, s3)"
    "length (tx_outputs tx) \<le> 65535"
    "gs = Some (fst (push_outputs idx 0 (tx_outputs tx) s3))"
    "s' = (snd (push_outputs idx 0 (tx_outputs tx) s3))\<lparr>m_paymentIdIndex := snd (PaymentIdIndex_add mem tx (m_paymentIdIndex s3))\<rparr>"
  using assms
  by (auto simp: pushTransaction_def Let_def case_prod_beta split: if_splits option.splits)

lemma pushTransaction_keys:
  assumes "pushTransaction mem height tx h idx s = Some (True, gs, s')"
  shows "distinct (key_images tx) \<and> (\<forall>k \<in> set (key_images tx). m_spent_keys s k = None)
    \<and> (\<forall>k. m_spent_keys s' k = (if k \<in> set (key_images tx) then Some height else m_spent_keys s k))"
  using assms
  by (elim pushTransaction_True)
    (auto dest!: key_loop_True spend_loop_keys simp: key_images_def split: if_splits)

text \<open>A push that fails leaves the state as it was unless it fails in the second loop.\<close>

lemma key_loop_restores:
  "key_loop height [] ins m = Some (False, m') \<Longrightarrow> m' = m"
  by (rule ext) (simp add: key_loop_False)

lemma pushTransaction_False:
  assumes "pushTransaction mem height tx h idx s = Some (False, gs, s')"
  obtains (unchanged) "s' = s"
  | (second) keys t where
      "key_loop height [] (tx_inputs tx) (m_spent_keys s) = Some (True, keys)"
      "spend_loop height (tx_inputs tx) (s\<lparr>m_transactionMap := (m_transactionMap s)(h \<mapsto> idx), m_spent_keys := keys\<rparr>) = Some (False, t)"
      "s' = t\<lparr>m_transactionMap := (m_transactionMap t)(h := None)\<rparr>"
proof -
  have upd: "m_transactionMap s h = None \<Longrightarrow> (m_transactionMap s)(h := None) = m_transactionMap s" by auto
  show thesis
    using assms that
    by (auto simp: pushTransaction_def Let_def case_prod_beta upd split: if_splits option.splits dest!: key_loop_restores)
qed

lemma pushTransaction_False_keys:
  assumes "pushTransaction mem height tx h idx s = Some (False, gs, s')" and "m_spent_keys s k = Some x"
  shows "m_spent_keys s' k = Some x"
  using assms(1)
proof (cases rule: pushTransaction_False)
  case unchanged
  then show ?thesis using assms(2) by simp
next
  case (second keys t)
  have "keys k = Some x" using key_loop_True [OF second(1)] assms(2) by (auto split: if_splits)
  then show ?thesis using spend_loop_keeps_keys [OF second(2), of k x] second(3) by simp
qed

lemma popTransaction_keys:
  assumes "popTransaction mem tx h s = Some s'"
  shows "m_spent_keys s' k = (if k \<in> set (key_images tx) then None else m_spent_keys s k)"
  using assms by (auto simp: popTransaction_def key_images_def pop_inputs_keys split: option.splits)

lemma chain_ops_keys:
  assumes "chain_ops mem txs s"
  shows "distinct (concat (map key_images txs)) \<and> set (concat (map key_images txs)) \<subseteq> dom (m_spent_keys s)"
  using assms
proof (induction rule: chain_ops.induct)
  case ops_new
  then show ?case by simp
next
  case (ops_push txs s height tx h idx gs s')
  let ?ks = "set (key_images tx)"
  have "distinct (key_images tx)" "?ks \<inter> dom (m_spent_keys s) = {}" "dom (m_spent_keys s') = ?ks \<union> dom (m_spent_keys s)"
    using pushTransaction_keys [OF ops_push(2)] by (auto simp: dom_def)
  then show ?case using ops_push.IH by simp blast
next
  case (ops_fail txs s height tx h idx gs s')
  have "dom (m_spent_keys s) \<subseteq> dom (m_spent_keys s')"
    using pushTransaction_False_keys [OF ops_fail(2)] by (auto simp: dom_def)
  then show ?case using ops_fail.IH by simp blast
next
  case (ops_pop tx txs s h s')
  have "dom (m_spent_keys s') = dom (m_spent_keys s) - set (key_images tx)"
    using popTransaction_keys [OF ops_pop(2)] by (auto simp: dom_def)
  then show ?case using ops_pop.IH by simp blast
qed

section \<open>Popping undoes pushing\<close>

subsection \<open>Outputs\<close>

lemma no_empty_upd [simp]: "no_empty m \<Longrightarrow> no_empty (m(k \<mapsto> vs @ [v]))" "no_empty m \<Longrightarrow> no_empty (m(k := None))"
  by (auto simp: no_empty_def)

lemma no_empty_drop [simp]: "no_empty m \<Longrightarrow> no_empty (drop_back k vs m)"
  by (auto simp: no_empty_def drop_back_def)

lemma drop_back_push [simp]:
  assumes "no_empty m"
  shows "drop_back k (vector_at m k @ [v]) (m(k \<mapsto> vector_at m k @ [v])) = m"
  using assms by (auto simp: drop_back_def vector_at_def no_empty_def fun_eq_iff split: option.splits)

lemma push_output_sound: "sound_vectors s \<Longrightarrow> sound_vectors (snd (push_output idx i out s))"
  by (auto simp: push_output_def sound_vectors_def Let_def split: TransactionOutputTarget.splits)

lemma push_outputs_sound: "sound_vectors s \<Longrightarrow> sound_vectors (snd (push_outputs idx i outs s))"
  by (induction outs arbitrary: i s) (simp_all add: push_output_sound)

lemma push_output_locked:
  "m_totalCdLocked (snd (push_output idx i out s)) = m_totalCdLocked s + locked_amount out"
  by (simp add: push_output_def Let_def split: TransactionOutputTarget.splits)

lemma pop_push_output:
  assumes "sound_vectors s" "i < 65536" "unat (m_totalCdLocked s) + unat (locked_amount out) < 2 ^ 64"
  shows "pop_output idx i out (snd (push_output idx i out s)) = s"
proof -
  have i: "unat (of_nat i :: 16 word) = i"
    using assms(2) by (simp add: unsigned_of_nat take_bit_nat_eq_self)
  show ?thesis
  proof (cases "out_target out")
    case (TransactionOutputCommitment k t a b)
    have "out_amount out \<le> m_totalCdLocked s + out_amount out"
      using assms(3) TransactionOutputCommitment by (simp add: word_le_nat_alt unat_word_ariths(1))
    then show ?thesis
      using TransactionOutputCommitment assms(1)
      by (simp add: push_output_def pop_output_def Let_def sound_vectors_def)
  qed (use assms(1) i in \<open>simp_all add: push_output_def pop_output_def Let_def sound_vectors_def\<close>)
qed

lemma pop_push_outputs:
  assumes "sound_vectors s" "i + length outs \<le> 65536"
    "unat (m_totalCdLocked s) + total (map locked_amount outs) < 2 ^ 64"
  shows "pop_outputs idx i outs (snd (push_outputs idx i outs s)) = s"
  using assms
proof (induction outs arbitrary: i s)
  case (Cons out outs)
  let ?s = "snd (push_output idx i out s)"
  have fit: "unat (m_totalCdLocked s) + unat (locked_amount out) < 2 ^ 64"
    using Cons.prems(3) by (simp add: total_def del: locked_amount.simps)
  then have "unat (m_totalCdLocked ?s) = unat (m_totalCdLocked s) + unat (locked_amount out)"
    by (simp add: push_output_locked unat_word_ariths(1) del: locked_amount.simps)
  then have "pop_outputs idx (Suc i) outs (snd (push_outputs idx (Suc i) outs ?s)) = ?s"
    using Cons.IH [of ?s "Suc i"] Cons.prems push_output_sound [OF Cons.prems(1), of idx i out] by (simp add: total_def del: locked_amount.simps)
  then show ?case using pop_push_output [OF Cons.prems(1) _ fit] Cons.prems(2) by simp
qed simp

subsection \<open>Use of multisignature outputs\<close>

lemma set_used_commute:
  assumes "p \<noteq> q" "set_used b (fst p) (snd p) m = Some m1" "set_used c (fst q) (snd q) m = Some m2"
  shows "\<exists>m3. set_used c (fst q) (snd q) m1 = Some m3 \<and> set_used b (fst p) (snd p) m2 = Some m3"
proof (cases "fst p = fst q")
  case True
  then have "unat (snd p) \<noteq> unat (snd q)" using assms(1) by (metis prod_eq_iff unsigned_word_eqI)
  then show ?thesis
    using True assms by (auto simp: set_used_def list_update_swap split: option.splits if_splits)
next
  case False
  then show ?thesis
    using assms by (auto simp: set_used_def fun_upd_twist split: option.splits if_splits)
qed

lemma set_used_back:
  assumes "unused m p" "set_used True (fst p) (snd p) m = Some m1"
  shows "set_used False (fst p) (snd p) m1 = Some m"
proof -
  obtain us where us: "m (fst p) = Some us" "unat (snd p) < length us" "\<not> mu_isUsed (us ! unat (snd p))"
    using assms(1) by (auto simp: unused_def split: option.splits)
  have "(us ! unat (snd p))\<lparr>mu_isUsed := False\<rparr> = us ! unat (snd p)" using us(3) by simp
  moreover have "m1 = m(fst p \<mapsto> us[unat (snd p) := (us ! unat (snd p))\<lparr>mu_isUsed := True\<rparr>])"
    using assms(2) us by (simp add: set_used_def)
  moreover have "m(fst p \<mapsto> us) = m" using us(1) by auto
  ultimately show ?thesis using us(2) by (simp add: set_used_def)
qed

lemma set_all_used_commute:
  assumes "p \<notin> set ps" "set_used b (fst p) (snd p) m = Some m1" "set_all_used c ps m = Some m2"
  shows "\<exists>m3. set_all_used c ps m1 = Some m3 \<and> set_used b (fst p) (snd p) m2 = Some m3"
  using assms
proof (induction ps arbitrary: m m1)
  case (Cons q ps)
  obtain n where n: "set_used c (fst q) (snd q) m = Some n" "set_all_used c ps n = Some m2"
    using Cons.prems(3) by (auto split: option.splits)
  obtain n1 where n1: "set_used c (fst q) (snd q) m1 = Some n1" "set_used b (fst p) (snd p) n = Some n1"
    using set_used_commute [OF _ Cons.prems(2) n(1)] Cons.prems(1) by auto
  then show ?case using Cons.IH [OF _ n1(2) n(2)] Cons.prems(1) by simp
qed simp

lemma set_all_used_back:
  assumes "distinct ps" "\<forall>p \<in> set ps. unused m p" "set_all_used True ps m = Some m'"
  shows "set_all_used False ps m' = Some m"
  using assms
proof (induction ps arbitrary: m')
  case (Cons p ps)
  obtain m1 where m1: "set_used True (fst p) (snd p) m = Some m1" "set_all_used True ps m1 = Some m'"
    using Cons.prems(3) by (auto split: option.splits)
  have undone: "set_used False (fst p) (snd p) m1 = Some m" using set_used_back [OF _ m1(1)] Cons.prems(2) by simp
  obtain n where n: "set_all_used True ps m = Some n" "set_used False (fst p) (snd p) m' = Some n"
    using set_all_used_commute [OF _ undone m1(2)] Cons.prems(1) by auto
  then show ?case using Cons.IH [OF _ _ n(1)] Cons.prems by simp
qed simp

lemma set_used_no_empty: "no_empty m \<Longrightarrow> set_used b a i m = Some m' \<Longrightarrow> no_empty m'"
  by (auto simp: set_used_def no_empty_def split: option.splits if_splits)

subsection \<open>Inputs\<close>

lemma total_simps [simp]: "total [] = 0" "total (x # xs) = unat x + total xs"
  by (simp_all add: total_def)

lemma spend_loop_fields:
  "spend_loop height ins s = Some (ok, s') \<Longrightarrow>
   m_outputs s' = m_outputs s \<and> m_commitmentOutputs s' = m_commitmentOutputs s \<and>
   m_transactionMap s' = m_transactionMap s \<and> m_paymentIdIndex s' = m_paymentIdIndex s \<and>
   ChainTransactions.more s' = ChainTransactions.more s"
  by (induction height ins s rule: spend_loop.induct) (auto simp: Let_def split: if_splits option.splits)

lemma spend_loop_multisignature:
  "spend_loop height ins s = Some (True, s') \<Longrightarrow>
   set_all_used True (multisignature_refs ins) (m_multisignatureOutputs s) = Some (m_multisignatureOutputs s')"
  by (induction height ins s rule: spend_loop.induct) (auto simp: Let_def split: if_splits option.splits)

lemma spend_loop_locked:
  "spend_loop height ins s = Some (True, s') \<Longrightarrow> m_totalCdLocked s' = m_totalCdLocked s - sum_list (redeemed ins)"
  by (induction height ins s rule: spend_loop.induct) (auto simp: Let_def algebra_simps split: if_splits option.splits)

lemma spend_loop_no_empty:
  "spend_loop height ins s = Some (ok, s') \<Longrightarrow> no_empty (m_multisignatureOutputs s) \<Longrightarrow> no_empty (m_multisignatureOutputs s')"
  by (induction height ins s rule: spend_loop.induct)
    (auto simp: Let_def split: if_splits option.splits dest: set_used_no_empty)

lemma spend_loop_interest:
  "spend_loop height ins s = Some (True, s') \<Longrightarrow> total (claimed ins) \<le> unat (m_feePoolBalance s) \<Longrightarrow>
   m_feePoolBalance s' = m_feePoolBalance s - sum_list (claimed ins) \<and>
   m_totalCdInterestPaid s' = m_totalCdInterestPaid s + sum_list (claimed ins)"
proof (induction height ins s rule: spend_loop.induct)
  case (3 height amount ixs keyImage c ins s)
  have le: "c \<le> m_feePoolBalance s" using "3.prems"(2) by (simp add: word_le_nat_alt)
  then have "unat (m_feePoolBalance s - c) = unat (m_feePoolBalance s) - unat c" by (simp add: unat_sub)
  then show ?case
    using "3.IH" "3.prems" le word_gt_0 [of c]
    by (auto simp: Let_def algebra_simps split: if_splits)
qed (auto split: if_splits option.splits)

lemma pop_inputs_fields:
  "pop_inputs ins s = Some s' \<Longrightarrow>
   m_outputs s' = m_outputs s \<and> m_commitmentOutputs s' = m_commitmentOutputs s \<and>
   m_transactionMap s' = m_transactionMap s \<and> m_paymentIdIndex s' = m_paymentIdIndex s \<and>
   ChainTransactions.more s' = ChainTransactions.more s"
  by (induction ins s rule: pop_inputs.induct) (auto simp: Let_def split: if_splits option.splits)

lemma pop_inputs_multisignature:
  "set_all_used False (multisignature_refs ins) (m_multisignatureOutputs s) = Some m \<Longrightarrow>
   \<exists>s'. pop_inputs ins s = Some s' \<and> m_multisignatureOutputs s' = m"
  by (induction ins s rule: pop_inputs.induct) (auto simp: Let_def split: option.splits)

lemma pop_inputs_counters:
  "pop_inputs ins s = Some s' \<Longrightarrow>
   m_totalCdLocked s' = m_totalCdLocked s + sum_list (redeemed ins) \<and>
   m_feePoolBalance s' = m_feePoolBalance s + sum_list (claimed ins)"
  by (induction ins s rule: pop_inputs.induct)
    (auto simp: Let_def algebra_simps word_gt_0 split: if_splits option.splits)

lemma pop_inputs_no_empty:
  "pop_inputs ins s = Some s' \<Longrightarrow> no_empty (m_multisignatureOutputs s) \<Longrightarrow> no_empty (m_multisignatureOutputs s')"
  by (induction ins s rule: pop_inputs.induct)
    (auto simp: Let_def split: if_splits option.splits dest: set_used_no_empty)

lemma pop_inputs_paid:
  "pop_inputs ins s = Some s' \<Longrightarrow> total (claimed ins) \<le> unat (m_totalCdInterestPaid s) \<Longrightarrow>
   m_totalCdInterestPaid s' = m_totalCdInterestPaid s - sum_list (claimed ins)"
proof (induction ins s rule: pop_inputs.induct)
  case (4 amount ixs keyImage c ins s)
  have le: "c \<le> m_totalCdInterestPaid s" using "4.prems"(2) by (simp add: word_le_nat_alt)
  then have "unat (m_totalCdInterestPaid s - c) = unat (m_totalCdInterestPaid s) - unat c" by (simp add: unat_sub)
  then show ?case
    using "4.IH" "4.prems" le word_gt_0 [of c]
    by (auto simp: Let_def algebra_simps split: if_splits)
qed (auto split: if_splits option.splits)

lemma unat_sum_list: "total xs < 2 ^ 64 \<Longrightarrow> unat (sum_list xs) = total xs"
  by (induction xs) (simp_all add: unat_word_ariths(1))

subsection \<open>States of the chain\<close>

lemma pop_output_sound: "sound_vectors s \<Longrightarrow> sound_vectors (pop_output idx i out s)"
  by (auto simp: pop_output_def sound_vectors_def Let_def split: TransactionOutputTarget.splits option.splits)

lemma pop_outputs_sound: "sound_vectors s \<Longrightarrow> sound_vectors (pop_outputs idx i outs s)"
  by (induction outs arbitrary: i) (simp_all add: pop_output_sound)

lemma sound_vectors_upd [simp]:
  "sound_vectors (s\<lparr>m_transactionMap := t\<rparr>) = sound_vectors s"
  "sound_vectors (s\<lparr>m_spent_keys := k\<rparr>) = sound_vectors s"
  "sound_vectors (s\<lparr>m_paymentIdIndex := p\<rparr>) = sound_vectors s"
  by (simp_all add: sound_vectors_def)

lemma spend_loop_sound: "spend_loop height ins s = Some (ok, s') \<Longrightarrow> sound_vectors s \<Longrightarrow> sound_vectors s'"
  using spend_loop_fields spend_loop_no_empty by (fastforce simp: sound_vectors_def)

lemma pop_inputs_sound: "pop_inputs ins s = Some s' \<Longrightarrow> sound_vectors s \<Longrightarrow> sound_vectors s'"
  using pop_inputs_fields pop_inputs_no_empty by (fastforce simp: sound_vectors_def)

lemma pushTransaction_sound:
  assumes "pushTransaction mem height tx h idx s = Some (ok, gs, s')" "sound_vectors s"
  shows "sound_vectors s'"
proof (cases ok)
  case True
  then show ?thesis
    using assms by (auto elim!: pushTransaction_True dest!: spend_loop_sound intro!: push_outputs_sound)
next
  case False
  then have "pushTransaction mem height tx h idx s = Some (False, gs, s')" using assms(1) by simp
  then show ?thesis
    by (cases rule: pushTransaction_False) (use assms(2) spend_loop_sound in fastforce)+
qed

lemma popTransaction_sound:
  "popTransaction mem tx h s = Some s' \<Longrightarrow> sound_vectors s \<Longrightarrow> sound_vectors s'"
  by (auto simp: popTransaction_def split: option.splits dest!: pop_inputs_sound intro: pop_outputs_sound)

lemma chain_ops_sound: "chain_ops mem txs s \<Longrightarrow> sound_vectors s"
proof (induction rule: chain_ops.induct)
  case ops_new
  then show ?case by (simp add: sound_vectors_def no_empty_def ChainTransactions_new_def)
qed (blast intro: pushTransaction_sound popTransaction_sound)+

lemma PaymentIdIndex_remove_add [simp]:
  "snd (PaymentIdIndex_remove mem tx (snd (PaymentIdIndex_add mem tx index))) = index"
  by (simp add: PaymentIdIndex_remove_def PaymentIdIndex_add_def split: option.splits)

lemma multisignature_refs_distinct: "checkMultisignatureInputsDiff tx \<Longrightarrow> distinct (multisignature_refs (tx_inputs tx))"
proof -
  have "diff_loop used ins \<Longrightarrow> distinct (multisignature_refs ins) \<and> set (multisignature_refs ins) \<inter> set used = {}" for used ins
    by (induction used ins rule: diff_loop.induct) (auto split: TransactionInput.splits if_splits)
  then show "checkMultisignatureInputsDiff tx \<Longrightarrow> ?thesis" by (simp add: checkMultisignatureInputsDiff_def)
qed

lemma pop_outputs_payment:
  "pop_outputs idx i outs (s\<lparr>m_paymentIdIndex := p\<rparr>) = (pop_outputs idx i outs s)\<lparr>m_paymentIdIndex := p\<rparr>"
proof -
  have step: "pop_output idx i out (s\<lparr>m_paymentIdIndex := p\<rparr>) = (pop_output idx i out s)\<lparr>m_paymentIdIndex := p\<rparr>" for i out s
    by (simp add: pop_output_def Let_def split: TransactionOutputTarget.splits option.splits)
  show ?thesis by (induction outs arbitrary: i) (simp_all add: step)
qed

lemma counters_fit_upd [simp]:
  "counters_fit tx (s\<lparr>m_transactionMap := t\<rparr>) = counters_fit tx s" "counters_fit tx (s\<lparr>m_spent_keys := k\<rparr>) = counters_fit tx s"
  by (simp_all add: counters_fit_def)

text \<open>The counters behind the second loop.\<close>

lemma spend_loop_counters:
  assumes spend: "spend_loop height (tx_inputs tx) s = Some (True, t)" and fit: "counters_fit tx s"
  defines "cs \<equiv> claimed (tx_inputs tx)" and "rs \<equiv> redeemed (tx_inputs tx)"
  shows "m_feePoolBalance t = m_feePoolBalance s - sum_list cs"
    "m_totalCdInterestPaid t = m_totalCdInterestPaid s + sum_list cs"
    "m_totalCdLocked t = m_totalCdLocked s - sum_list rs"
    "unat (m_totalCdLocked t) \<le> unat (m_totalCdLocked s)"
    "total cs \<le> unat (m_totalCdInterestPaid t)"
proof -
  show paid: "m_feePoolBalance t = m_feePoolBalance s - sum_list cs"
      "m_totalCdInterestPaid t = m_totalCdInterestPaid s + sum_list cs"
    using spend_loop_interest [OF spend] fit by (simp_all add: counters_fit_def cs_def)
  show locked: "m_totalCdLocked t = m_totalCdLocked s - sum_list rs"
    using spend_loop_locked [OF spend] by (simp add: rs_def)
  have "total rs < 2 ^ 64" "total cs < 2 ^ 64"
    using fit unsigned_less [of "m_totalCdLocked s"] by (auto simp: counters_fit_def cs_def rs_def)
  then have unats: "unat (sum_list rs) = total rs" "unat (sum_list cs) = total cs"
    by (simp_all add: unat_sum_list del: power_numeral)
  show "unat (m_totalCdLocked t) \<le> unat (m_totalCdLocked s)"
    using fit unats unfolding locked counters_fit_def rs_def by (simp add: unat_sub word_le_nat_alt)
  show "total cs \<le> unat (m_totalCdInterestPaid t)"
    using fit unats by (simp add: paid counters_fit_def unat_word_ariths(1) cs_def)
qed

lemma pop_push_transaction:
  assumes "sound_vectors s" and push: "pushTransaction mem height tx h idx s = Some (True, gs, s')"
    and unused: "\<forall>p \<in> set (multisignature_refs (tx_inputs tx)). unused (m_multisignatureOutputs s) p"
    and fit: "counters_fit tx s"
  shows "popTransaction mem tx h s' = Some s"
proof -
  let ?ins = "tx_inputs tx" and ?outs = "tx_outputs tx"
  let ?idx = "snd (PaymentIdIndex_add mem tx (m_paymentIdIndex s))"
  obtain keys s2 s3 where steps:
    "m_transactionMap s h = None" "checkMultisignatureInputsDiff tx"
    "s2 = s\<lparr>m_transactionMap := (m_transactionMap s)(h \<mapsto> idx), m_spent_keys := keys\<rparr>"
    "spend_loop height ?ins s2 = Some (True, s3)" "length ?outs \<le> 65535"
    "s' = (snd (push_outputs idx 0 ?outs s3))\<lparr>m_paymentIdIndex := snd (PaymentIdIndex_add mem tx (m_paymentIdIndex s3))\<rparr>"
    using push by (rule pushTransaction_True)
  note f3 = spend_loop_fields [OF steps(4)]
  have fit2: "counters_fit tx s2" and sound2: "sound_vectors s2" using fit assms(1) steps(3) by simp_all
  note c3 = spend_loop_counters [OF steps(4) fit2]
  have "pop_outputs idx 0 ?outs (snd (push_outputs idx 0 ?outs s3)) = s3"
    using pop_push_outputs [OF spend_loop_sound [OF steps(4) sound2], of 0 ?outs idx] steps(5) fit2 c3(4)
    by (simp add: counters_fit_def)
  then have popped: "pop_outputs idx 0 ?outs s' = s3\<lparr>m_paymentIdIndex := ?idx\<rparr>"
    using f3 steps(3) by (simp add: steps(6) pop_outputs_payment)
  have "set_all_used False (multisignature_refs ?ins) (m_multisignatureOutputs s3) = Some (m_multisignatureOutputs s)"
    using set_all_used_back [OF multisignature_refs_distinct [OF steps(2)] unused]
      spend_loop_multisignature [OF steps(4)] steps(3) by simp
  then obtain t where t: "pop_inputs ?ins (s3\<lparr>m_paymentIdIndex := ?idx\<rparr>) = Some t"
      "m_multisignatureOutputs t = m_multisignatureOutputs s"
    using pop_inputs_multisignature [of ?ins "s3\<lparr>m_paymentIdIndex := ?idx\<rparr>"] by auto
  have counters: "m_totalCdInterestPaid t = m_totalCdInterestPaid s" "m_feePoolBalance t = m_feePoolBalance s"
      "m_totalCdLocked t = m_totalCdLocked s"
    using pop_inputs_paid [OF t(1)] pop_inputs_counters [OF t(1)] c3 steps(3) by simp_all
  have others: "m_transactionMap t = (m_transactionMap s)(h \<mapsto> idx)" "m_outputs t = m_outputs s"
      "m_commitmentOutputs t = m_commitmentOutputs s" "m_paymentIdIndex t = ?idx"
      "ChainTransactions.more t = ChainTransactions.more s"
    using pop_inputs_fields [OF t(1)] f3 steps(3) by simp_all
  have popTx: "popTransaction mem tx h s' = Some (t\<lparr>m_paymentIdIndex := m_paymentIdIndex s, m_transactionMap := m_transactionMap s\<rparr>)"
    using t(1) others f3 steps(1,3) popped by (auto simp: popTransaction_def steps(6) fun_upd_idem)
  have "m_spent_keys t = m_spent_keys s"
    using popTransaction_keys [OF popTx] pushTransaction_keys [OF push] by (auto simp: fun_eq_iff split: if_splits)
  then show ?thesis
    using popTx t(2) counters others by simp
qed

section \<open>Global output indexes\<close>

lemma vector_at_upd [simp]: "vector_at (m(k \<mapsto> vs)) k' = (if k' = k then vs else vector_at m k')"
  by (simp add: vector_at_def)

lemma set_used_length: "set_used b a i m = Some m' \<Longrightarrow> length (vector_at m' k) = length (vector_at m k)"
  by (auto simp: set_used_def vector_at_def split: option.splits if_splits)

lemma spend_loop_small:
  "spend_loop height ins s = Some (ok, s') \<Longrightarrow> small_vectors n s' = small_vectors n s"
  by (induction height ins s rule: spend_loop.induct)
    (auto simp: small_vectors_def Let_def set_used_length split: if_splits option.splits)

lemma push_output_small:
  assumes "small_vectors (Suc n) s"
  shows "small_vectors n (snd (push_output idx i out s))"
  unfolding small_vectors_def
proof
  fix a
  have le: "length (vector_at (m_outputs s) a) + Suc n \<le> 2 ^ 32" "length (vector_at (m_multisignatureOutputs s) a) + Suc n \<le> 2 ^ 32"
      "length (vector_at (m_commitmentOutputs s) a) + Suc n \<le> 2 ^ 32"
    using assms by (simp_all add: small_vectors_def)
  then show "length (vector_at (m_outputs (snd (push_output idx i out s))) a) + n \<le> 2 ^ 32 \<and>
      length (vector_at (m_multisignatureOutputs (snd (push_output idx i out s))) a) + n \<le> 2 ^ 32 \<and>
      length (vector_at (m_commitmentOutputs (snd (push_output idx i out s))) a) + n \<le> 2 ^ 32"
    by (auto simp: push_output_def Let_def split: TransactionOutputTarget.splits)
qed

lemma push_output_entry:
  assumes "indexed out" "small_vectors (Suc n) s"
  shows "output_entry out (fst (push_output idx i out s)) (snd (push_output idx i out s)) = Some (idx, of_nat i)"
proof -
  have "unat (of_nat m :: u32) = m" if "m + Suc n \<le> 2 ^ 32" for m
    using that by (simp add: unsigned_of_nat take_bit_nat_eq_self)
  then show ?thesis
    using assms
    by (auto simp: output_entry_def push_output_def indexed_def small_vectors_def Let_def split: TransactionOutputTarget.splits)
qed

lemma push_output_keeps_entry:
  "output_entry o' g s = Some e \<Longrightarrow> output_entry o' g (snd (push_output idx i out s)) = Some e"
  by (auto simp: output_entry_def push_output_def Let_def nth_append split: TransactionOutputTarget.splits if_splits)

lemma push_outputs_keeps_entry:
  "output_entry o' g s = Some e \<Longrightarrow> output_entry o' g (snd (push_outputs idx i outs s)) = Some e"
  by (induction outs arbitrary: i s) (simp_all add: push_output_keeps_entry)

lemma push_outputs_entries:
  assumes "small_vectors (length outs) s" "j < length outs" "indexed (outs ! j)"
  shows "output_entry (outs ! j) (fst (push_outputs idx i outs s) ! j) (snd (push_outputs idx i outs s)) = Some (idx, of_nat (i + j))"
  using assms
proof (induction outs arbitrary: i j s)
  case (Cons out outs)
  show ?case
  proof (cases j)
    case 0
    then show ?thesis using Cons.prems push_output_entry push_outputs_keeps_entry by fastforce
  next
    case (Suc k)
    then show ?thesis using Cons.IH [of "snd (push_output idx i out s)" k "Suc i"] Cons.prems push_output_small by fastforce
  qed
qed simp

section \<open>Properties\<close>

text \<open>
  C2: popping a transaction undoes pushing it. From any state the chain reaches by pushes, failed pushes and pops, a push
  that succeeds and the pop of the same transaction lead back to the same state, with all its maps, vectors, flags and
  counters; what is needed is that the multisignature outputs it spends were unused, that the claimed interest is in the
  fee pool and that the counters do not leave their range.
\<close>

theorem pop_undoes_push:
  assumes "chain_ops mem txs s" and "pushTransaction mem height tx h idx s = Some (True, gs, s')"
    and "\<forall>p \<in> set (multisignature_refs (tx_inputs tx)). unused (m_multisignatureOutputs s) p" and "counters_fit tx s"
  shows "popTransaction mem tx h s' = Some s"
  using pop_push_transaction [OF chain_ops_sound [OF assms(1)] assms(2,3,4)] .

lemma sample_push:
  "\<exists>s'. pushTransaction mem 3 sample_spend [1] sample_index ChainTransactions_new = Some (True, Some [0, 0], s')"
  by (simp add: pushTransaction_def sample_spend_def ChainTransactions_new_def checkMultisignatureInputsDiff_def
      push_output_def vector_at_def Let_def)

theorem pop_undoes_push_witness:
  "\<exists>mem s'. pushTransaction mem 3 sample_spend [1] sample_index ChainTransactions_new = Some (True, Some [0, 0], s')
     \<and> popTransaction mem sample_spend [1] s' = Some ChainTransactions_new"
proof -
  fix mem
  obtain s' where push: "pushTransaction mem 3 sample_spend [1] sample_index ChainTransactions_new = Some (True, Some [0, 0], s')"
    using sample_push by blast
  have "counters_fit sample_spend ChainTransactions_new"
    by (simp add: counters_fit_def sample_spend_def ChainTransactions_new_def)
  then have "popTransaction mem sample_spend [1] s' = Some ChainTransactions_new"
    using pop_undoes_push [OF ops_new push] by (simp add: sample_spend_def)
  then show ?thesis using push by blast
qed

text \<open>
  C3: no key image is spent twice. Whatever transactions were pushed, refused or popped, in any order, the key images of
  the key inputs and the commitment inputs of the transactions that are in the chain are pairwise distinct, within a
  transaction and across, and each is recorded as spent.
\<close>

theorem no_double_spend:
  assumes "chain_ops mem txs s"
  shows "distinct (concat (map key_images txs)) \<and> list_all (\<lambda>k. have_tx_keyimg_as_spent k s) (concat (map key_images txs))"
  using chain_ops_keys [OF assms] by (auto simp: list_all_iff have_tx_keyimg_as_spent_def)

theorem no_double_spend_witness:
  "\<exists>mem s. chain_ops mem [sample_spend] s \<and> have_tx_keyimg_as_spent (replicate 32 9) s"
proof -
  fix mem
  obtain s' where "pushTransaction mem 3 sample_spend [1] sample_index ChainTransactions_new = Some (True, Some [0, 0], s')"
    using sample_push by blast
  then have ops: "chain_ops mem [sample_spend] s'" by (rule ops_push [OF ops_new])
  then have "have_tx_keyimg_as_spent (replicate 32 9) s'"
    using no_double_spend [OF ops] by (simp add: key_images_def sample_spend_def)
  then show ?thesis using ops by blast
qed

text \<open>
  C31: the global output indexes written for a transaction are right: as long as no vector of outputs grows past 32 bits,
  index number \<open>j\<close> leads, in the vector of the amount and the kind of output \<open>j\<close>, to an entry with the index of this
  transaction and the number \<open>j\<close>.
\<close>

theorem global_indexes_exact:
  assumes "pushTransaction mem height tx h idx s = Some (True, Some gs, s')" and "small_vectors (length (tx_outputs tx)) s"
    and "j < length (tx_outputs tx)" and "indexed (tx_outputs tx ! j)"
  shows "output_entry (tx_outputs tx ! j) (gs ! j) s' = Some (idx, of_nat j)"
proof -
  obtain keys s2 s3 where steps:
    "s2 = s\<lparr>m_transactionMap := (m_transactionMap s)(h \<mapsto> idx), m_spent_keys := keys\<rparr>"
    "spend_loop height (tx_inputs tx) s2 = Some (True, s3)"
    "gs = fst (push_outputs idx 0 (tx_outputs tx) s3)"
    "s' = (snd (push_outputs idx 0 (tx_outputs tx) s3))\<lparr>m_paymentIdIndex := snd (PaymentIdIndex_add mem tx (m_paymentIdIndex s3))\<rparr>"
    using assms(1) by (rule pushTransaction_True) simp
  have "small_vectors (length (tx_outputs tx)) s3"
    using assms(2) spend_loop_small [OF steps(2)] steps(1) by (simp add: small_vectors_def)
  then have "output_entry (tx_outputs tx ! j) (gs ! j) (snd (push_outputs idx 0 (tx_outputs tx) s3)) = Some (idx, of_nat j)"
    using push_outputs_entries [of "tx_outputs tx" s3 j idx 0] assms(3,4) steps(3) by simp
  then show ?thesis by (simp add: steps(4) output_entry_def cong: TransactionOutputTarget.case_cong)
qed

theorem global_indexes_exact_witness:
  "\<exists>mem s'. pushTransaction mem 3 sample_spend [1] sample_index ChainTransactions_new = Some (True, Some [0, 0], s')
     \<and> output_entry \<lparr>out_amount = 800, out_target = TransactionOutputCommitment null_pod 16440 [] []\<rparr> 0 s' = Some (sample_index, 1)"
proof -
  fix mem
  obtain s' where push: "pushTransaction mem 3 sample_spend [1] sample_index ChainTransactions_new = Some (True, Some [0, 0], s')"
    using sample_push by blast
  have "small_vectors (length (tx_outputs sample_spend)) ChainTransactions_new"
    by (simp add: small_vectors_def sample_spend_def ChainTransactions_new_def vector_at_def)
  then have "output_entry (tx_outputs sample_spend ! 1) ([0, 0] ! 1) s' = Some (sample_index, of_nat 1)"
    by (rule global_indexes_exact [OF push]) (simp_all add: sample_spend_def indexed_def)
  then show ?thesis using push by (auto simp: sample_spend_def)
qed

text \<open>
  A push that fails in the second loop leaves key images behind: here the first input is a commitment to be redeemed, the
  second repeats its key image, and the refused transaction has marked the first as spent.
\<close>

theorem failed_push_leaks:
  "\<exists>tx. \<exists>s'. pushTransaction mem 3 tx [1] sample_index ChainTransactions_new = Some (False, None, s')
     \<and> m_spent_keys s' (replicate 32 9) = Some 3"
proof -
  let ?tx = "sample_spend\<lparr>tx_inputs := [TransactionInputCommitmentSpend 800 [0] (replicate 32 9) 0,
    TransactionInputCommitmentSpend 800 [0] (replicate 32 9) 0]\<rparr>"
  have "\<exists>s'. pushTransaction mem 3 ?tx [1] sample_index ChainTransactions_new = Some (False, None, s')
     \<and> m_spent_keys s' (replicate 32 9) = Some 3"
    by (simp add: pushTransaction_def ChainTransactions_new_def checkMultisignatureInputsDiff_def Let_def)
  then show ?thesis by blast
qed

end
