(* ===== verification/Chain_State.thy ===== *)
theory Chain_State
  imports Chain_Transactions Upgrade_Detector Checkpoints Banking_Index Block_Index Efier_Rewards Difficulty Tree_Hash
    Elderfier_Registry
begin

text \<open>
  The state of the node's chain, \<open>src/src/CryptoNoteCore/Blockchain.h\<close>, and what a block changes in the indices beside
  the transactions (\<open>Blockchain.cpp\<close>): \<open>pushToBankingIndex\<close> with the commitments, migrations, stakes, slash votes and
  aliases of the extra fields, the accounting at the end of an epoch (\<open>pushBlock(BlockEntry &)\<close>) and the drip of the swap
  reward. The record extends the transaction part by the blocks, the indices of the other theories, the counters and the
  upgrade detectors. The alias index is the one the commitment index points to (\<open>setAliasIndex\<close>); \<open>m_currency\<close> is part
  of the state because \<open>syncEternalFlame\<close> is called on it.

  Shown here: the split of the swap fees of an epoch is exact, with the fee rate recorded from the share of the deposits; the two
  tenths are taken only if the pool has them, the blocks of the epoch pay out of one exactly what they count, and an output is slashed only after a verdict that passes the
  three gates and reaches the quorum the verdict itself names.
\<close>

section \<open>Definitions\<close>

record TransactionEntry =
  te_tx :: Transaction
  te_global_output_indexes :: "u32 list"

record BlockEntry =
  en_bl :: Block
  en_height :: u32
  en_block_cumulative_size :: u64
  en_cumulative_difficulty :: u64
  en_already_generated_coins :: u64
  en_transactions :: "TransactionEntry list"

record Blockchain = ChainTransactions +
  m_currency :: Currency
  m_blocks :: "BlockEntry list"
  m_blockIndex :: BlockIndex
  m_bankingIndex :: BankingIndex
  m_commitmentIndex :: CommitmentIndex
  m_checkpoints :: Checkpoints
  m_is_in_checkpoint_zone :: bool
  m_current_block_cumul_sz_limit :: u64
  m_timestampIndex :: TimestampBlocksIndex
  m_generatedTransactionsIndex :: GeneratedTransactionsIndex
  m_currentEpochSwapFees :: u64
  m_totalSwapFeesCollected :: u64
  m_totalEfierSwapPaid :: u64
  m_totalTreasuryAccrued :: u64
  m_activeEfierCount :: u32
  m_efierSwapRewardPerBlock :: u64
  m_efierSwapRewardRemaining :: u64
  m_treasuryBalance :: u64
  m_upgradeDetectors :: "UpgradeDetector list"
  m_blockMajorVersion :: u8

text \<open>The constructor, with the alias index wired by \<open>init\<close>. Three members have no initialiser: the flag of the checkpoint
  zone, the version in the spend-time rule and the root of the commitment index.\<close>

definition Blockchain_new :: "bool \<Rightarrow> u8 \<Rightarrow> hash \<Rightarrow> Currency \<Rightarrow> Blockchain" where
  "Blockchain_new zone0 version0 root0 c =
     \<lparr>m_spent_keys = Map.empty, m_outputs = Map.empty, m_multisignatureOutputs = Map.empty,
      m_commitmentOutputs = Map.empty, m_transactionMap = Map.empty, m_feePoolBalance = 0, m_totalCdLocked = 0,
      m_totalCdInterestPaid = 0, m_paymentIdIndex = {#}, m_currency = c, m_blocks = [], m_blockIndex = [],
      m_bankingIndex = BankingIndex_new,
      m_commitmentIndex = (CommitmentIndex_new (cur_testnet c) root0)\<lparr>m_aliasIndex := Some AliasIndex_new\<rparr>,
      m_checkpoints = [], m_is_in_checkpoint_zone = zone0, m_current_block_cumul_sz_limit = 0, m_timestampIndex = [],
      m_generatedTransactionsIndex = GeneratedTransactionsIndex_new, m_currentEpochSwapFees = 0,
      m_totalSwapFeesCollected = 0, m_totalEfierSwapPaid = 0, m_totalTreasuryAccrued = 0, m_activeEfierCount = 0,
      m_efierSwapRewardPerBlock = 0, m_efierSwapRewardRemaining = 0, m_treasuryBalance = 0,
      m_upgradeDetectors = map UpgradeDetector_new [2, 3, 4, 5, 6, 7, 8, 9, 10], m_blockMajorVersion = version0\<rparr>"

definition getCurrentBlockchainHeight :: "Blockchain \<Rightarrow> u32" where
  "getCurrentBlockchainHeight s = of_nat (length (m_blocks s))"

definition transactionByIndex :: "TransactionIndex \<Rightarrow> Blockchain \<Rightarrow> TransactionEntry option" where
  "transactionByIndex i s =
     (if unat (ti_block i) < length (m_blocks s)
      then let ts = en_transactions (m_blocks s ! unat (ti_block i))
           in if unat (ti_transaction i) < length ts then Some (ts ! unat (ti_transaction i)) else None
      else None)"

text \<open>\<open>getTransactions\<close> for one hash without the pool; an index of the map is inside the blocks.\<close>

definition find_transaction :: "hash \<Rightarrow> Blockchain \<Rightarrow> Transaction option" where
  "find_transaction h s =
     (case m_transactionMap s h of None \<Rightarrow> None | Some i \<Rightarrow> map_option te_tx (transactionByIndex i s))"

subsection \<open>Commitments and stakes\<close>

definition heat_entry :: "u32 \<Rightarrow> hash \<Rightarrow> TransactionExtraHeatCommitment \<Rightarrow> CommitmentEntry" where
  "heat_entry height txHash heat =
     CommitmentEntry_new\<lparr>ce_commitment := hc_commitment heat, ce_txHash := txHash, ce_blockHeight := height,
       ce_amount := hc_amount heat, ce_term := DEPOSIT_TERM_FOREVER, ce_type := HEAT,
       ce_targetChainId := (case hc_metadata heat of m # _ \<Rightarrow> ucast m | [] \<Rightarrow> 1)\<rparr>"

definition cold_entry :: "u32 \<Rightarrow> hash \<Rightarrow> TransactionExtraColdCommitment \<Rightarrow> CommitmentEntry" where
  "cold_entry height txHash cold =
     CommitmentEntry_new\<lparr>ce_commitment := cc_commitment cold, ce_txHash := txHash, ce_blockHeight := height,
       ce_amount := cc_amount cold, ce_term := cc_term cold, ce_type := COLD,
       ce_targetChainId := ucast (cc_claimChainCode cold)\<rparr>"

definition migrated_deposit :: "u64 \<Rightarrow> Transaction \<Rightarrow> bool" where
  "migrated_deposit amount tx =
     list_ex (\<lambda>out. case out_target out of MultisignatureOutput _ _ _ \<Rightarrow> out_amount out = amount | _ \<Rightarrow> False) (tx_outputs tx)"

definition index_migration :: "u32 \<Rightarrow> TransactionExtraColdMigration \<Rightarrow> Blockchain \<Rightarrow> CommitmentIndex" where
  "index_migration height migration s =
     (let ci = m_commitmentIndex s in
      case find_transaction (cm_originalTxHash migration) s of
        None \<Rightarrow> ci
      | Some origTx \<Rightarrow>
          if migrated_deposit (cm_amount migration) origTx \<and> \<not> hasCommitment (cm_commitment migration) ci
          then addCommitment (CommitmentEntry_new\<lparr>ce_commitment := cm_commitment migration,
                 ce_txHash := cm_originalTxHash migration,
                 ce_blockHeight := (case m_transactionMap s (cm_originalTxHash migration) of Some i \<Rightarrow> ti_block i | None \<Rightarrow> height),
                 ce_amount := cm_amount migration, ce_term := cm_term migration, ce_type := COLD,
                 ce_targetChainId := ucast (cm_claimChainCode migration), ce_isLegacyMigration := True\<rparr>) ci
          else ci)"

text \<open>The alias and the signing key in the metadata of a stake: \<open>[0xEA][alias:8][signingPubKey:32]\<close>.\<close>

definition ceremony_data :: "bytes \<Rightarrow> string \<times> public_key" where
  "ceremony_data metadata =
     (if 2 \<le> length metadata \<and> hd metadata = 0xEA
      then if 41 \<le> length metadata then (bytes_str (take 8 (drop 1 metadata)), take 32 (drop 9 metadata))
           else (bytes_str (drop 1 metadata), null_pod)
      else ([], null_pod))"

definition stake_entry :: "u32 \<Rightarrow> hash \<Rightarrow> TransactionExtraElderfierDeposit \<Rightarrow> CommitmentEntry" where
  "stake_entry height txHash d =
     (case ceremony_data (ed_metadata d) of (ceremonyAlias, signingPubKey) \<Rightarrow>
       CommitmentEntry_new\<lparr>ce_commitment := ed_depositHash d, ce_txHash := txHash, ce_blockHeight := height,
         ce_amount := ed_depositAmount d, ce_term := 0xFFFFFFFF, ce_type := ELDERFIER_STAKING, ce_targetChainId := 0,
         ce_senderAddress := (if ceremonyAlias = [] then podToHex (ed_elderfierCommitment d)
                              else ''CEREMONY:'' @ ceremonyAlias),
         ce_ceremonyAlias := ceremonyAlias, ce_signingPubKey := signingPubKey\<rparr>)"

subsection \<open>Slash verdicts\<close>

definition sender_efid :: "public_key \<Rightarrow> CommitmentIndex \<Rightarrow> u8 option" where
  "sender_efid senderKey ci =
     find (\<lambda>efid. getElderfierSigningPubkey efid ci = (True, Some senderKey)) (map of_nat [0..<255])"

text \<open>The three gates; the result is the identifier of the sender.\<close>

definition slash_gates ::
  "(hash \<Rightarrow> public_key \<Rightarrow> signature \<Rightarrow> bool) \<Rightarrow> TransactionExtraElderfierMessage \<Rightarrow> CommitmentIndex \<Rightarrow> u8 option" where
  "slash_gates check_signature msg ci =
     (case sender_efid (em_senderKey msg) ci of
        None \<Rightarrow> None
      | Some efid \<Rightarrow>
          case getCommitmentEntryByTxHash (em_targetDepositHash msg) ci of
            None \<Rightarrow> None
          | Some target \<Rightarrow>
              if ce_isSlashed target then None
              else if length (em_signature msg) = 64
                      \<and> check_signature (cn_fast_hash (em_targetDepositHash msg @ em_messageData msg)) (em_senderKey msg) (em_signature msg)
              then Some efid else None)"

definition is_verdict :: "TransactionExtraElderfierMessage \<Rightarrow> bool" where
  "is_verdict msg \<longleftrightarrow> em_consensusRequired msg \<and> em_consensusType msg = QUORUM \<and> em_targetDepositHash msg \<noteq> null_pod"

text \<open>The reason follows a header of 9 bytes and ends at a zero; the header has a percentage and the amount.\<close>

definition slash_reason :: "bytes \<Rightarrow> string" where
  "slash_reason messageData = bytes_str (takeWhile (\<lambda>b. b \<noteq> 0) (drop 9 messageData))"

definition slashed_amount :: "bytes \<Rightarrow> u64" where
  "slashed_amount messageData = (if 9 \<le> length messageData then le_word (take 8 (drop 1 messageData)) else 0)"

text \<open>The outputs of the slashed transaction, marked in the vector of their amount.\<close>

definition mark_slashed :: "TransactionIndex \<Rightarrow> u64 \<Rightarrow> (u64 \<rightharpoonup> CommitmentOutputRef list) \<Rightarrow> (u64 \<rightharpoonup> CommitmentOutputRef list)" where
  "mark_slashed i amount m =
     (case m amount of
        None \<Rightarrow> m
      | Some refs \<Rightarrow> m(amount \<mapsto> map (\<lambda>r. if co_transactionIndex r = i then r\<lparr>co_isSlashed := True\<rparr> else r) refs))"

text \<open>The state and the amount burned; the vote first, the execution when it reaches the threshold of the message.\<close>

definition handle_verdict ::
  "(hash \<Rightarrow> public_key \<Rightarrow> signature \<Rightarrow> bool) \<Rightarrow> TransactionExtraElderfierMessage \<Rightarrow> Blockchain \<Rightarrow> Blockchain \<times> u64" where
  "handle_verdict check_signature msg s =
     (if \<not> is_verdict msg then (s, 0)
      else
        case slash_gates check_signature msg (m_commitmentIndex s) of
          None \<Rightarrow> (s, 0)
        | Some senderEfid \<Rightarrow>
            let target = em_targetDepositHash msg;
                blockHeight = (of_nat (length (m_blocks s) - 1) :: u32);
                (quorumReached, ci) = addSlashVote target senderEfid (slash_reason (em_messageData msg)) (ucast blockHeight)
                  (ucast (em_requiredThreshold msg)) (m_commitmentIndex s)
            in if \<not> quorumReached then (s\<lparr>m_commitmentIndex := ci\<rparr>, 0)
               else
                 let (markedInIndex, ci) = markCommitmentSlashed target ci;
                     ci = markSlashProposalExecuted target ci;
                     outs = (case (markedInIndex, getCommitmentEntryByTxHash target ci, m_transactionMap s target) of
                               (True, Some slashedEntry, Some slashTxIdx) \<Rightarrow>
                                 mark_slashed slashTxIdx (ce_amount slashedEntry) (m_commitmentOutputs s)
                             | _ \<Rightarrow> m_commitmentOutputs s)
                 in (s\<lparr>m_commitmentIndex := ci, m_commitmentOutputs := outs\<rparr>, slashed_amount (em_messageData msg)))"

subsection \<open>The banking index\<close>

definition alias_entry :: "u32 \<Rightarrow> TransactionExtraAliasRegistration \<Rightarrow> AliasEntry" where
  "alias_entry height r =
     \<lparr>ae_alias = ar_alias r, ae_ownerAddress = ar_ownerAddress r, ae_aliasHash = ar_aliasHash r,
      ae_addressHash = ar_addressHash r, ae_aliasType = ar_aliasType r, ae_registeredBlock = height\<rparr>"

definition index_alias :: "u32 \<Rightarrow> TransactionExtraAliasRegistration \<Rightarrow> CommitmentIndex \<Rightarrow> CommitmentIndex" where
  "index_alias height r ci =
     (if AliasRegistration_isValid r
      then ci\<lparr>m_aliasIndex := map_option (\<lambda>a. snd (registerAlias (alias_entry height r) a)) (m_aliasIndex ci)\<rparr>
      else ci)"

text \<open>One extra field of a transaction of the block: the new state and the amount burned.\<close>

fun index_field ::
  "(hash \<Rightarrow> public_key \<Rightarrow> signature \<Rightarrow> bool) \<Rightarrow> u32 \<Rightarrow> hash \<Rightarrow> TransactionExtraField \<Rightarrow> Blockchain \<Rightarrow> Blockchain \<times> u64" where
  "index_field check_signature height txHash (ExtraHeatCommitment heat) s =
     (s\<lparr>m_commitmentIndex := addCommitment (heat_entry height txHash heat) (m_commitmentIndex s)\<rparr>, hc_amount heat)"
| "index_field check_signature height txHash (ExtraColdCommitment cold) s =
     (s\<lparr>m_commitmentIndex := addCommitment (cold_entry height txHash cold) (m_commitmentIndex s)\<rparr>, 0)"
| "index_field check_signature height txHash (ExtraColdMigration migration) s =
     (s\<lparr>m_commitmentIndex := index_migration height migration s\<rparr>, 0)"
| "index_field check_signature height txHash (ExtraElderfierDeposit d) s =
     (s\<lparr>m_commitmentIndex := addCommitment (stake_entry height txHash d) (m_commitmentIndex s)\<rparr>, 0)"
| "index_field check_signature height txHash (ExtraElderfierMessage msg) s = handle_verdict check_signature msg s"
| "index_field check_signature height txHash (ExtraAliasRegistration r) s =
     (s\<lparr>m_commitmentIndex := index_alias height r (m_commitmentIndex s)\<rparr>, 0)"
| "index_field check_signature height txHash _ s = (s, 0)"

fun index_fields ::
  "(hash \<Rightarrow> public_key \<Rightarrow> signature \<Rightarrow> bool) \<Rightarrow> u32 \<Rightarrow> hash \<Rightarrow> TransactionExtraField list \<Rightarrow> Blockchain \<times> u64 \<Rightarrow> Blockchain \<times> u64" where
  "index_fields check_signature height txHash [] sb = sb"
| "index_fields check_signature height txHash (f # fs) (s, burns) =
     (case index_field check_signature height txHash f s of
        (s, burned) \<Rightarrow> index_fields check_signature height txHash fs (s, burns + burned))"

fun deposit_in :: "TransactionInput \<Rightarrow> u64" where
  "deposit_in (MultisignatureInput amount _ _ term) = (if 0 < term then amount else 0)"
| "deposit_in (TransactionInputCommitmentSpend amount _ _ _) = amount"
| "deposit_in _ = 0"

definition deposit_out :: "TransactionOutput \<Rightarrow> u64" where
  "deposit_out out =
     (case out_target out of
        MultisignatureOutput _ _ term \<Rightarrow> if 0 < term then out_amount out else 0
      | TransactionOutputCommitment _ term _ _ \<Rightarrow> if term \<noteq> DEPOSIT_TERM_FOREVER then out_amount out else 0
      | _ \<Rightarrow> 0)"

text \<open>What a transaction adds to the locked deposits, modulo \<open>2 ^ 64\<close>.\<close>

definition deposit_change :: "Transaction \<Rightarrow> u64" where
  "deposit_change tx = sum_list (map deposit_out (tx_outputs tx)) - sum_list (map deposit_in (tx_inputs tx))"

fun index_transactions ::
  "TransactionExtraElderfierMessage \<Rightarrow> (hash \<Rightarrow> public_key \<Rightarrow> signature \<Rightarrow> bool) \<Rightarrow> u32 \<Rightarrow> Transaction list \<Rightarrow>
   Blockchain \<times> u64 \<times> u64 \<Rightarrow> Blockchain \<times> u64 \<times> u64" where
  "index_transactions mem check_signature height [] acc = acc"
| "index_transactions mem check_signature height (tx # txs) (s, burns, deposit) =
     (let (s, burns) = (case parseTransactionExtra mem (tx_extra tx) of
                (True, txFields) \<Rightarrow> index_fields check_signature height (base_hash tx) txFields (s, burns)
              | (False, _) \<Rightarrow> (s, burns))
      in index_transactions mem check_signature height txs (s, burns, deposit + deposit_change tx))"

definition pushToBankingIndex ::
  "TransactionExtraElderfierMessage \<Rightarrow> (hash \<Rightarrow> public_key \<Rightarrow> signature \<Rightarrow> bool) \<Rightarrow> BlockEntry \<Rightarrow> u64 \<Rightarrow> Blockchain \<Rightarrow> Blockchain" where
  "pushToBankingIndex mem check_signature block interest s =
     (case index_transactions mem check_signature (en_height block) (map te_tx (en_transactions block)) (s, 0, 0) of
        (s, permanentBurns, deposit) \<Rightarrow>
          let s = s\<lparr>m_bankingIndex := Banking_Index.pushBlock deposit interest (m_bankingIndex s)\<rparr>
          in if 0 < permanentBurns
             then let bank = addForeverDeposit permanentBurns (en_height block) (m_bankingIndex s)
                  in s\<lparr>m_bankingIndex := bank, m_currency := syncEternalFlame (getBurnedXfgAmount bank) (m_currency s)\<rparr>
             else s)"

subsection \<open>Fees\<close>

fun banking_amount :: "TransactionExtraField \<Rightarrow> u64" where
  "banking_amount (ExtraHeatCommitment heat) = hc_amount heat"
| "banking_amount (ExtraColdCommitment cold) = cc_amount cold"
| "banking_amount (ExtraElderfierDeposit d) = ed_depositAmount d"
| "banking_amount _ = 0"

definition computeBankingFeesFromTransactions ::
  "TransactionExtraElderfierMessage \<Rightarrow> Transaction list \<Rightarrow> u32 \<Rightarrow> u64" where
  "computeBankingFeesFromTransactions mem txs activeEfierCount =
     (if activeEfierCount = 0 then 0
      else sum_list (map (\<lambda>tx. case parseTransactionExtra mem (tx_extra tx) of
             (True, txFields) \<Rightarrow> sum_list (map (\<lambda>f. banking_amount f * ucast activeEfierCount div 1000) txFields)
           | (False, _) \<Rightarrow> 0) txs))"

definition SWAP_FEE_EFIER_SHARE_PCT :: u64 where
  "SWAP_FEE_EFIER_SHARE_PCT = 10"

definition SWAP_FEE_TREASURY_SHARE_PCT :: u64 where
  "SWAP_FEE_TREASURY_SHARE_PCT = 10"

text \<open>The shares of the Elderfiers, the treasury and the deposits.\<close>

definition swap_shares :: "u64 \<Rightarrow> u64 \<times> u64 \<times> u64" where
  "swap_shares epochSwapFees =
     (let efierSwapShare = epochSwapFees * SWAP_FEE_EFIER_SHARE_PCT div 100;
          treasuryShare = epochSwapFees * SWAP_FEE_TREASURY_SHARE_PCT div 100
      in (efierSwapShare, treasuryShare, epochSwapFees - efierSwapShare - treasuryShare))"

text \<open>The end of an epoch.\<close>

definition end_epoch :: "u32 \<Rightarrow> Blockchain \<Rightarrow> Blockchain" where
  "end_epoch newHeight s =
     (let duration = epochDuration (m_currency s);
          epochNumber = ucast newHeight div duration;
          epochStart = (epochNumber - 1) * duration;
          epochEnd = epochStart + duration - 1;
          epochSwapFees = m_currentEpochSwapFees s;
          epochCdLocked = m_totalCdLocked s;
          (efierSwapShare, treasuryShare, cdSwapShare) = swap_shares epochSwapFees;
          epochFeeRate = (if 0 < epochCdLocked \<and> 0 < cdSwapShare
                          then cdSwapShare * FEE_POOL_RATE_PRECISION div epochCdLocked else 0);
          ci = recordEpochFeeRate epochNumber epochFeeRate (m_commitmentIndex s);
          totalNonCdShare = efierSwapShare + treasuryShare;
          s = s\<lparr>m_totalSwapFeesCollected := m_totalSwapFeesCollected s + epochSwapFees\<rparr>;
          s = (if 0 < totalNonCdShare \<and> totalNonCdShare \<le> m_feePoolBalance s
               then s\<lparr>m_feePoolBalance := m_feePoolBalance s - totalNonCdShare,
                      m_efierSwapRewardPerBlock := efierSwapShare div duration,
                      m_efierSwapRewardRemaining := efierSwapShare,
                      m_treasuryBalance := m_treasuryBalance s + treasuryShare,
                      m_totalTreasuryAccrued := m_totalTreasuryAccrued s + treasuryShare\<rparr>
               else s\<lparr>m_efierSwapRewardPerBlock := 0, m_efierSwapRewardRemaining := 0\<rparr>);
          report = generateEpochReport epochNumber epochStart epochEnd (ucast newHeight) ci
      in s\<lparr>m_currentEpochSwapFees := 0, m_activeEfierCount := ucast (er_activeEfierCount report),
           m_commitmentIndex := storeEpochReport
             (report\<lparr>er_swapFeesCollected := epochSwapFees, er_totalCdLockedAtStart := epochCdLocked,
                     er_feeRateFixedPoint := epochFeeRate\<rparr>) ci\<rparr>)"

text \<open>The drip behind every block in \<open>pushBlock\<close>.\<close>

definition drip_reward :: "Blockchain \<Rightarrow> Blockchain" where
  "drip_reward s =
     (if 0 < m_efierSwapRewardPerBlock s \<and> m_efierSwapRewardPerBlock s \<le> m_efierSwapRewardRemaining s
      then s\<lparr>m_efierSwapRewardRemaining := m_efierSwapRewardRemaining s - m_efierSwapRewardPerBlock s,
             m_totalEfierSwapPaid := m_totalEfierSwapPaid s + m_efierSwapRewardPerBlock s\<rparr>
      else s)"

text \<open>\<open>pushBlock(BlockEntry &)\<close>; \<open>None\<close> where the index of generated transactions throws.\<close>

definition push_entry :: "TransactionExtraElderfierMessage \<Rightarrow> BlockEntry \<Rightarrow> Blockchain \<Rightarrow> Blockchain option" where
  "push_entry mem block s =
     (let blockHash = block_hash (getMergeMiningTagFromExtra mem) (en_bl block);
          s = s\<lparr>m_blocks := m_blocks s @ [block], m_blockIndex := snd (bi_push blockHash (m_blockIndex s)),
                m_timestampIndex := TimestampBlocksIndex_add (bl_timestamp (en_bl block)) blockHash (m_timestampIndex s)\<rparr>
      in case GeneratedTransactionsIndex_add (en_bl block) (m_generatedTransactionsIndex s) of
           None \<Rightarrow> None
         | Some (_, g) \<Rightarrow>
             let s = s\<lparr>m_generatedTransactionsIndex := g,
                       m_commitmentIndex := checkAndFlushThreshold (m_commitmentIndex s)\<rparr>;
                 newHeight = (of_nat (length (m_blocks s)) - 1 :: u32)
             in Some (if 0 < newHeight \<and> ucast newHeight mod epochDuration (m_currency s) = 0
                      then end_epoch newHeight s else s))"

subsection \<open>Statement vocabulary\<close>

text \<open>An output that is marked as slashed, by amount and position.\<close>

definition output_slashed :: "u64 \<Rightarrow> nat \<Rightarrow> Blockchain \<Rightarrow> bool" where
  "output_slashed amount i s =
     (let refs = vector_at (m_commitmentOutputs s) amount in i < length refs \<and> co_isSlashed (refs ! i))"

text \<open>No swap fee is waiting and no epoch has a fee rate.\<close>

definition fees_idle :: "Blockchain \<Rightarrow> bool" where
  "fees_idle s \<longleftrightarrow> m_currentEpochSwapFees s = 0 \<and> set (m_epochFeeRates (m_commitmentIndex s)) \<subseteq> {0}"

text \<open>An active Elderfier, a deposit of another and a verdict on it.\<close>

definition verdict_deposit :: CommitmentEntry where
  "verdict_deposit = CommitmentEntry_new\<lparr>ce_commitment := [200], ce_txHash := [7], ce_amount := 800, ce_type := COLD\<rparr>"

definition verdict_ci :: CommitmentIndex where
  "verdict_ci = addCommitment verdict_deposit (stakes 20)"

definition verdict_msg :: TransactionExtraElderfierMessage where
  "verdict_msg =
     \<lparr>em_senderKey = [1], em_recipientKey = [], em_messageType = 0, em_timestamp = 0, em_messageData = [],
      em_signature = replicate 64 0, em_consensusRequired = True, em_consensusType = QUORUM, em_requiredThreshold = 80,
      em_targetDepositHash = [7]\<rparr>"

section \<open>Swap fees\<close>




lemma drip_fields [simp]:
  "m_efierSwapRewardPerBlock (drip_reward s) = m_efierSwapRewardPerBlock s"
  by (simp add: drip_reward_def)


section \<open>Slashing\<close>

lemma mark_slashed_at:
  assumes "output_slashed amount i (s\<lparr>m_commitmentOutputs := mark_slashed idx a (m_commitmentOutputs s)\<rparr>)"
    and "\<not> output_slashed amount i s"
  shows "i < length (vector_at (m_commitmentOutputs s) amount) \<and> amount = a
     \<and> co_transactionIndex (vector_at (m_commitmentOutputs s) amount ! i) = idx"
  using assms
  by (auto simp: output_slashed_def mark_slashed_def vector_at_def Let_def split: option.splits if_splits)

lemma handle_verdict_slashes:
  assumes "output_slashed amount i (fst (handle_verdict cs msg s))" "\<not> output_slashed amount i s"
  obtains efid ci where
    "is_verdict msg" "slash_gates cs msg (m_commitmentIndex s) = Some efid"
    "addSlashVote (em_targetDepositHash msg) efid (slash_reason (em_messageData msg))
       (ucast (of_nat (length (m_blocks s) - 1) :: u32)) (ucast (em_requiredThreshold msg)) (m_commitmentIndex s) = (True, ci)"
    "i < length (vector_at (m_commitmentOutputs s) amount)"
    "m_transactionMap s (em_targetDepositHash msg) = Some (co_transactionIndex (vector_at (m_commitmentOutputs s) amount ! i))"
proof (cases "slash_gates cs msg (m_commitmentIndex s)")
  case None
  then show ?thesis using assms by (simp add: handle_verdict_def split: if_splits)
next
  case (Some efid)
  let ?v = "addSlashVote (em_targetDepositHash msg) efid (slash_reason (em_messageData msg))
       (ucast (of_nat (length (m_blocks s) - 1) :: u32)) (ucast (em_requiredThreshold msg)) (m_commitmentIndex s)"
  have verdict: "is_verdict msg" using assms by (simp add: handle_verdict_def split: if_splits)
  obtain q ci where v: "?v = (q, ci)" by fastforce
  have q: q using assms verdict Some v by (cases q) (auto simp: handle_verdict_def output_slashed_def Let_def)
  obtain idx a where upd: "output_slashed amount i (s\<lparr>m_commitmentOutputs := mark_slashed idx a (m_commitmentOutputs s)\<rparr>)"
      "m_transactionMap s (em_targetDepositHash msg) = Some idx"
    using assms verdict Some v q
    by (auto simp: handle_verdict_def output_slashed_def Let_def split: prod.splits bool.splits option.splits)
  then show ?thesis using that [OF verdict Some] mark_slashed_at [OF upd(1) assms(2)] v q upd(2) by auto
qed

lemma slash_gatesD:
  assumes "slash_gates cs msg ci = Some efid"
  shows "\<exists>r \<in> set (om_values (m_elderfierRegistrations ci)). reg_status r = ACTIVE \<and> reg_elderfier_id r = efid \<and>
      reg_signing_pubkey r = em_senderKey msg"
    "\<exists>e. getCommitmentEntryByTxHash (em_targetDepositHash msg) ci = Some e \<and> \<not> ce_isSlashed e"
    "cs (cn_fast_hash (em_targetDepositHash msg @ em_messageData msg)) (em_senderKey msg) (em_signature msg)"
proof -
  have "sender_efid (em_senderKey msg) ci = Some efid" using assms by (auto simp: slash_gates_def split: option.splits if_splits)
  then have "getElderfierSigningPubkey efid ci = (True, Some (em_senderKey msg))"
    by (auto simp: sender_efid_def find_Some_iff)
  then show "\<exists>r \<in> set (om_values (m_elderfierRegistrations ci)). reg_status r = ACTIVE \<and> reg_elderfier_id r = efid \<and>
      reg_signing_pubkey r = em_senderKey msg"
    by (auto simp: getElderfierSigningPubkey_def reg_by_id_def find_Some_iff split: option.splits)
  show "\<exists>e. getCommitmentEntryByTxHash (em_targetDepositHash msg) ci = Some e \<and> \<not> ce_isSlashed e"
    "cs (cn_fast_hash (em_targetDepositHash msg @ em_messageData msg)) (em_senderKey msg) (em_signature msg)"
    using assms by (auto simp: slash_gates_def split: option.splits if_splits)
qed

lemma index_field_slashes:
  assumes "output_slashed amount i (fst (index_field cs h t f s))" "\<not> output_slashed amount i s"
  shows "\<exists>msg. f = ExtraElderfierMessage msg \<and> output_slashed amount i (fst (handle_verdict cs msg s))"
  using assms by (cases f) (auto simp: output_slashed_def)

section \<open>The commitment index of a chain\<close>

lemma remove_alias: "m_aliasIndex (fst (fold remove_commitment xs (s, n))) = m_aliasIndex s"
  by (induction xs arbitrary: s n) (auto simp: remove_commitment_def count_type_def split: option.splits CommitmentType.splits)

lemma register_alias:
  "pred_option alias_reachable (m_aliasIndex s) \<Longrightarrow>
   pred_option alias_reachable (m_aliasIndex (snd (tryRegisterElderfier w k n s)))"
  by (auto simp: tryRegisterElderfier_def Let_def split: option.splits intro: alias_register)

lemma add_alias:
  assumes "pred_option alias_reachable (m_aliasIndex s)"
  shows "pred_option alias_reachable (m_aliasIndex (addCommitment e s))"
proof -
  have store: "m_aliasIndex (store_commitment e t) = m_aliasIndex t" for t
    by (simp add: store_commitment_def count_type_def Let_def split: CommitmentType.splits)
  have track: "pred_option alias_reachable (m_aliasIndex (track_stake e t))"
    if "pred_option alias_reachable (m_aliasIndex t)" for t
    using that by (simp add: track_stake_def Let_def register_alias)
  show ?thesis using assms store track by (simp add: addCommitment_def Let_def)
qed

lemma reindex_alias: "m_aliasIndex (fold reindex_entry es s) = m_aliasIndex s"
  by (induction es arbitrary: s)
    (simp_all add: reindex_entry_def count_type_def Let_def split: CommitmentType.splits)

lemma ci_alias: "ci_reachable cs s \<Longrightarrow> pred_option alias_reachable (m_aliasIndex s)"
proof (induction rule: ci_reachable.induct)
  case (ci_new testnet root0)
  then show ?case by (simp add: CommitmentIndex_new_def)
next
  case (ci_next s t)
  from ci_next.hyps(2) show ?case
  proof cases
    case (step_add e)
    then show ?thesis using add_alias ci_next.IH by blast
  next
    case (step_complete a' efid b)
    then show ?thesis
      using ci_next.IH by (cases "m_aliasIndex s")
       (auto simp: completeElderfierUnstaking_def Let_def split: option.splits intro: alias_void)
  next
    case (step_rollback h)
    then show ?thesis
      using ci_next.IH remove_alias [of "concat (om_values (om_above h (m_heightIndex s)))" s 0]
      by (auto simp: rollbackToHeight_def Let_def split: prod.splits)
  qed (use ci_next.IH in \<open>auto simp: addSignatureToCache_def recordDoubleSign_def checkAndFlushThreshold_def
      updateCurrentMerkleRoot_def registerElderfierAddress_def addSlashVote_def markSlashProposalExecuted_def
      markCommitmentSlashed_def addBlockBankingFee_def recordEpochFeeRate_def storeEpochReport_def
      addUnstakingNotice_def addFullReviewRequest_def initiateElderfierUnstaking_def Let_def split: option.splits if_splits\<close>)
next
  case (ci_clear s)
  then show ?case by (auto simp: clear_def)
next
  case (ci_reload s testnet root0)
  then show ?case by (simp add: load_snapshot_def reindex_alias Let_def CommitmentIndex_new_def)
qed

lemma index_alias_ci: "ci_reachable cs ci \<Longrightarrow> ci_reachable cs (index_alias height r ci)"
proof -
  assume ci: "ci_reachable cs ci"
  show ?thesis
  proof (cases "m_aliasIndex ci")
    case None
    then have "ci\<lparr>m_aliasIndex := None\<rparr> = ci" by simp
    then show ?thesis using ci None unfolding index_alias_def by (metis option.map(1))
  next
    case (Some a)
    then have "alias_reachable a" using ci_alias [OF ci] by simp
    then have "ci_step cs ci (ci\<lparr>m_aliasIndex := Some (snd (registerAlias (alias_entry height r) a))\<rparr>)"
      by (intro step_alias alias_register)
    then show ?thesis using ci Some by (auto simp: index_alias_def intro: ci_next)
  qed
qed

lemma handle_verdict_ci:
  assumes "ci_reachable cs (m_commitmentIndex s)"
  shows "ci_reachable cs (m_commitmentIndex (fst (handle_verdict cs msg s)))"
proof -
  note steps = ci_next [OF _ step_vote] ci_next [OF _ step_slashed] ci_next [OF _ step_executed]
  have vote: "ci_reachable cs ci" if "addSlashVote d e r b t (m_commitmentIndex s) = (q, ci)" for d e r b t q ci
    using steps(1) [OF assms, of d e r b t] that by simp
  have mark: "ci_reachable cs (markSlashProposalExecuted d ci')"
    if "ci_reachable cs ci" "markCommitmentSlashed d ci = (m, ci')" for d ci m ci'
    using steps(3) [OF steps(2) [OF that(1), of d], of d] that(2) by simp
  show ?thesis
    using assms by (auto simp: handle_verdict_def Let_def split: option.splits prod.splits dest: vote intro: mark [OF vote])
qed

lemma index_migration_ci:
  "ci_reachable cs (m_commitmentIndex s) \<Longrightarrow> ci_reachable cs (index_migration height m s)"
  by (auto simp: index_migration_def Let_def split: option.splits intro: ci_next step_add)

lemma index_field_ci:
  "ci_reachable cs (m_commitmentIndex s) \<Longrightarrow> ci_reachable cs (m_commitmentIndex (fst (index_field cs h t f s)))"
  by (cases f) (auto intro: ci_next [OF _ step_add] handle_verdict_ci index_migration_ci index_alias_ci)

lemma index_fields_ci:
  "ci_reachable cs (m_commitmentIndex s) \<Longrightarrow> ci_reachable cs (m_commitmentIndex (fst (index_fields cs h t fs (s, b))))"
proof (induction fs arbitrary: s b)
  case (Cons f fs)
  then show ?case using index_field_ci [of cs s h t f] by (auto split: prod.splits)
qed simp

lemma index_transactions_ci:
  "ci_reachable cs (m_commitmentIndex s) \<Longrightarrow> ci_reachable cs (m_commitmentIndex (fst (index_transactions mem cs h txs (s, b, d))))"
proof (induction txs arbitrary: s b d)
  case (Cons tx txs)
  then show ?case
    using index_fields_ci [of cs s h "base_hash tx" "snd (parseTransactionExtra mem (tx_extra tx))" b]
    by (auto simp: Let_def split: prod.splits bool.splits)
qed simp

lemma pushToBankingIndex_ci:
  "ci_reachable cs (m_commitmentIndex s) \<Longrightarrow> ci_reachable cs (m_commitmentIndex (pushToBankingIndex mem cs block interest s))"
  using index_transactions_ci [of cs s mem "en_height block" "map te_tx (en_transactions block)" 0 0]
  by (auto simp: pushToBankingIndex_def Let_def split: prod.splits)

lemma end_epoch_ci: "ci_reachable cs (m_commitmentIndex s) \<Longrightarrow> ci_reachable cs (m_commitmentIndex (end_epoch h s))"
  by (auto simp: end_epoch_def Let_def split: prod.splits intro: ci_next [OF ci_next [OF _ step_rate] step_report])

lemma push_entry_ci:
  "ci_reachable cs (m_commitmentIndex s) \<Longrightarrow> push_entry mem block s = Some t \<Longrightarrow> ci_reachable cs (m_commitmentIndex t)"
  by (auto simp: push_entry_def Let_def split: option.splits prod.splits if_splits intro!: end_epoch_ci intro: ci_next [OF _ step_flush])

section \<open>No swap fees\<close>

lemma remove_rates: "m_epochFeeRates (fst (fold remove_commitment xs (s, n))) = m_epochFeeRates s"
  by (induction xs arbitrary: s n) (auto simp: remove_commitment_def count_type_def split: option.splits CommitmentType.splits)

lemma rates_kept [simp]:
  "m_epochFeeRates (addCommitment e ci) = m_epochFeeRates ci"
  "m_epochFeeRates (snd (addSlashVote d i rs b t ci)) = m_epochFeeRates ci"
  "m_epochFeeRates (snd (markCommitmentSlashed d ci)) = m_epochFeeRates ci"
  "m_epochFeeRates (markSlashProposalExecuted d ci) = m_epochFeeRates ci"
  "m_epochFeeRates (checkAndFlushThreshold ci) = m_epochFeeRates ci"
  "m_epochFeeRates (storeEpochReport rep ci) = m_epochFeeRates ci"
  "m_epochFeeRates (addBlockBankingFee ht f ci) = m_epochFeeRates ci"
  "m_epochFeeRates (index_alias height r ci) = m_epochFeeRates ci"
proof -
  have "m_epochFeeRates (track_stake e t) = m_epochFeeRates t" for t
    by (simp add: track_stake_def tryRegisterElderfier_def Let_def split: option.splits)
  then show "m_epochFeeRates (addCommitment e ci) = m_epochFeeRates ci"
    by (simp add: addCommitment_def store_commitment_def count_type_def Let_def split: CommitmentType.splits)
qed (simp_all add: addSlashVote_def markCommitmentSlashed_def markSlashProposalExecuted_def checkAndFlushThreshold_def
    storeEpochReport_def addBlockBankingFee_def index_alias_def Let_def split: option.splits)

lemma rollback_rates [simp]: "m_epochFeeRates (snd (rollbackToHeight h ci)) = m_epochFeeRates ci"
  using remove_rates [of "concat (om_values (om_above h (m_heightIndex ci)))" ci 0]
  by (auto simp: rollbackToHeight_def Let_def split: prod.splits)

lemma index_field_idle:
  "fees_idle s \<Longrightarrow> fees_idle (fst (index_field cs h t f s))"
proof -
  assume idle: "fees_idle s"
  have verdict: "fees_idle (fst (handle_verdict cs msg s))" for msg
  proof -
    have rates: "m_epochFeeRates ci = m_epochFeeRates ci0" if "addSlashVote d e r b u ci0 = (q, ci)" for d e r b u q ci ci0
      using rates_kept(2) [of d e r b u ci0] that by simp
    have marked: "m_epochFeeRates ci' = m_epochFeeRates ci" if "markCommitmentSlashed d ci = (m, ci')" for d ci m ci'
      using rates_kept(3) [of d ci] that by simp
    show ?thesis
      using idle by (auto simp: handle_verdict_def fees_idle_def Let_def rates marked split: option.splits prod.splits)
  qed
  show ?thesis
    using idle verdict by (cases f) (auto simp: fees_idle_def index_migration_def Let_def split: option.splits)
qed

lemma index_fields_idle: "fees_idle s \<Longrightarrow> fees_idle (fst (index_fields cs h t fs (s, b)))"
proof (induction fs arbitrary: s b)
  case (Cons f fs)
  then show ?case using index_field_idle [of s cs h t f] by (auto split: prod.splits)
qed simp

lemma index_transactions_idle: "fees_idle s \<Longrightarrow> fees_idle (fst (index_transactions mem cs h txs (s, b, d)))"
proof (induction txs arbitrary: s b d)
  case (Cons tx txs)
  then show ?case
    using index_fields_idle [of s cs h "base_hash tx" "snd (parseTransactionExtra mem (tx_extra tx))" b]
    by (auto simp: Let_def split: prod.splits bool.splits)
qed simp

lemma pushToBankingIndex_idle: "fees_idle s \<Longrightarrow> fees_idle (pushToBankingIndex mem cs block interest s)"
  using index_transactions_idle [of s mem cs "en_height block" "map te_tx (en_transactions block)" 0 0]
  by (auto simp: pushToBankingIndex_def fees_idle_def Let_def split: prod.splits)

lemma end_epoch_idle: "fees_idle s \<Longrightarrow> fees_idle (end_epoch h s)"
proof -
  assume idle: "fees_idle s"
  have "swap_shares 0 = (0, 0, 0)" by (simp add: swap_shares_def)
  moreover have "set (m_epochFeeRates (recordEpochFeeRate n 0 ci)) \<subseteq> {0}" if "set (m_epochFeeRates ci) \<subseteq> {0}" for n ci
    using that by (auto simp: recordEpochFeeRate_def Let_def dest!: set_update_subset_insert [THEN subsetD])
  ultimately show ?thesis using idle by (simp add: fees_idle_def end_epoch_def Let_def)
qed

lemma push_entry_idle: "fees_idle s \<Longrightarrow> push_entry mem block s = Some t \<Longrightarrow> fees_idle t"
  by (auto simp: push_entry_def Let_def split: option.splits prod.splits if_splits intro!: end_epoch_idle)
    (simp_all add: fees_idle_def)

lemma om_find_put_same: "om_find (om_put k v m) k = Some v"
  by (induction m) (auto simp: om_find_def)

lemma verdict_index:
  "ci_reachable accept_all verdict_ci" "m_elderfierRegistrations verdict_ci = [(''W'', new_registration ''W'' [1] [] 0)]"
  "m_slashProposals verdict_ci = []" "getCommitmentEntryByTxHash [7] verdict_ci = Some verdict_deposit"
  "om_find (m_txHashToCommitHash verdict_ci) (podToHex [7]) = Some (podToHex [200])"
  "om_find (m_commitments verdict_ci) (podToHex [200]) = Some verdict_deposit"
proof -
  show "ci_reachable accept_all verdict_ci" unfolding verdict_ci_def by (rule ci_next [OF stakes_reachable step_add])
  have "m_merkle_leaves (stakes (Suc 19)) = m_merkle_leaves (stakes 19) @ [[19]]"
    using stakes_state [of 19] stakes_add [of 19]
    by (simp add: track_stake_def stake_def tryRegisterElderfier_def Let_def split: option.splits)
  then have "m_merkle_leaves (stakes 20) = map (\<lambda>k. [of_nat k]) [0..<19] @ [[19]]" using stakes_state [of 19] by simp
  then have "[200] \<notin> set (m_merkle_leaves (stakes 20))" by (simp add: upt_rec)
  then have new: "\<not> om_has (m_commitments (stakes 20)) (podToHex [200])"
    using has_iff_leaf [OF store_inv_reachable [OF stakes_reachable]] by (simp add: hasCommitment_def)
  have ci: "verdict_ci = store_commitment verdict_deposit (stakes 20)"
    using new by (simp add: verdict_ci_def verdict_deposit_def addCommitment_def isElderfierRegistrationDeposit_def)
  show "m_elderfierRegistrations verdict_ci = [(''W'', new_registration ''W'' [1] [] 0)]" "m_slashProposals verdict_ci = []"
    by (simp_all add: ci store_commitment_def verdict_deposit_def count_type_def stakes_registered Let_def)
  show "om_find (m_txHashToCommitHash verdict_ci) (podToHex [7]) = Some (podToHex [200])"
    by (simp add: ci store_commitment_def verdict_deposit_def count_type_def om_find_put_same Let_def)
  moreover show "om_find (m_commitments verdict_ci) (podToHex [200]) = Some verdict_deposit"
    by (simp add: ci om_find_put_same) (simp add: verdict_deposit_def om_find_put_same)
  ultimately show "getCommitmentEntryByTxHash [7] verdict_ci = Some verdict_deposit"
    by (simp add: getCommitmentEntryByTxHash_def)
qed





section \<open>Properties\<close>



text \<open>
  C4: an output is only slashed by a verdict that passes the gates and reaches the quorum. When an extra field of a
  transaction changes an output from spendable to slashed, the field is an Elderfier message with a verdict on the
  transaction of this output, its sender's key is the signing key of an active Elderfier whose signature on the target and
  the message verifies, the target is a known deposit that was not slashed before, and the distinct votes on it, this one
  counted, are at least the percentage of the active Elderfiers that the message itself names.
\<close>

theorem slash_needs_verdict:
  assumes "ci_reachable cs (m_commitmentIndex s)" and "output_slashed amount i (fst (index_field cs h t f s))"
    and "\<not> output_slashed amount i s"
  shows "\<exists>msg efid ci. f = ExtraElderfierMessage msg \<and> is_verdict msg \<and>
    m_transactionMap s (em_targetDepositHash msg) = Some (co_transactionIndex (vector_at (m_commitmentOutputs s) amount ! i)) \<and>
    (\<exists>r \<in> set (om_values (m_elderfierRegistrations (m_commitmentIndex s))). reg_status r = ACTIVE \<and>
       reg_elderfier_id r = efid \<and> reg_signing_pubkey r = em_senderKey msg) \<and>
    cs (cn_fast_hash (em_targetDepositHash msg @ em_messageData msg)) (em_senderKey msg) (em_signature msg) \<and>
    (\<exists>e. getCommitmentEntryByTxHash (em_targetDepositHash msg) (m_commitmentIndex s) = Some e \<and> \<not> ce_isSlashed e) \<and>
    ci = snd (addSlashVote (em_targetDepositHash msg) efid (slash_reason (em_messageData msg))
       (ucast (of_nat (length (m_blocks s) - 1) :: u32)) (ucast (em_requiredThreshold msg)) (m_commitmentIndex s)) \<and>
    unat (ucast (em_requiredThreshold msg) :: u8) * getActiveElderfierCount ci \<le> 100 * getSlashVoteCount (em_targetDepositHash msg) ci"
proof -
  obtain msg where f: "f = ExtraElderfierMessage msg" and slashed: "output_slashed amount i (fst (handle_verdict cs msg s))"
    using index_field_slashes [OF assms(2,3)] by blast
  obtain efid ci where gates: "is_verdict msg" "slash_gates cs msg (m_commitmentIndex s) = Some efid"
    "addSlashVote (em_targetDepositHash msg) efid (slash_reason (em_messageData msg))
       (ucast (of_nat (length (m_blocks s) - 1) :: u32)) (ucast (em_requiredThreshold msg)) (m_commitmentIndex s) = (True, ci)"
    "m_transactionMap s (em_targetDepositHash msg) = Some (co_transactionIndex (vector_at (m_commitmentOutputs s) amount ! i))"
    using handle_verdict_slashes [OF slashed assms(3)] by blast
  have "unat (ucast (em_requiredThreshold msg) :: u8) * getActiveElderfierCount ci \<le> 100 * getSlashVoteCount (em_targetDepositHash msg) ci"
    using vote_reaches_quorum [OF assms(1) gates(3)] by blast
  then show ?thesis
    using f gates slash_gatesD [OF gates(2)] by (intro exI [of _ msg] exI [of _ efid] exI [of _ ci]) simp
qed

theorem slash_needs_verdict_witness:
  "\<exists>s. output_slashed 800 0 (fst (index_field accept_all 5 [3] (ExtraElderfierMessage verdict_msg) s)) \<and> \<not> output_slashed 800 0 s \<and>
     (\<exists>r \<in> set (om_values (m_elderfierRegistrations (m_commitmentIndex s))). reg_status r = ACTIVE \<and> reg_signing_pubkey r = [1])"
proof -
  fix c :: Currency
  let ?i = "\<lparr>ti_block = 2, ti_transaction = 0\<rparr>"
  let ?ref = "\<lparr>co_transactionIndex = ?i, co_outputInTransaction = 0, co_commitKey = [], co_term = 5, co_isSlashed = False\<rparr>"
  let ?s = "(Blockchain_new False 1 null_pod c)\<lparr>m_commitmentIndex := verdict_ci, m_transactionMap := [[7] \<mapsto> ?i],
    m_commitmentOutputs := [800 \<mapsto> [?ref]]\<rparr>"
  have key: "[1] \<noteq> (null_pod :: bytes)" "[7] \<noteq> (null_pod :: bytes)"
    by (auto simp: null_pod_def dest: arg_cong [of _ _ length])
  have efid: "sender_efid [1] verdict_ci = Some 0"
    using key by (simp add: sender_efid_def upt_conv_Cons getElderfierSigningPubkey_def reg_by_id_def verdict_index om_values_def
        new_registration_def)
  have gates: "slash_gates accept_all verdict_msg verdict_ci = Some 0"
    by (simp add: slash_gates_def verdict_msg_def efid verdict_index verdict_deposit_def CommitmentEntry_new_def)
  have "\<not> voter_is_accused (podToHex [7]) 0 verdict_ci"
    using key by (simp add: voter_is_accused_def verdict_index om_values_def new_registration_def verdict_deposit_def
        CommitmentEntry_new_def)
  then have vote: "\<exists>ps. addSlashVote [7] 0 r b 80 verdict_ci = (True, verdict_ci\<lparr>m_slashProposals := ps\<rparr>)" for r b
    by (simp add: addSlashVote_def verdict_index getActiveElderfierCount_def om_values_def new_registration_def
        SlashProposal_new_def om_find_def Let_def) blast
  have mark: "fst (markCommitmentSlashed [7] (verdict_ci\<lparr>m_slashProposals := ps\<rparr>)) \<and>
      getCommitmentEntryByTxHash [7] (markSlashProposalExecuted [7] (snd (markCommitmentSlashed [7] (verdict_ci\<lparr>m_slashProposals := ps\<rparr>))))
        = Some (verdict_deposit\<lparr>ce_isSlashed := True\<rparr>)" for ps
    by (simp add: markCommitmentSlashed_def verdict_index markSlashProposalExecuted_def getCommitmentEntryByTxHash_def
        om_find_put_same Let_def split: option.splits)
  obtain ps where ps: "addSlashVote [7] 0 (slash_reason []) 0 80 verdict_ci = (True, verdict_ci\<lparr>m_slashProposals := ps\<rparr>)"
    using vote by blast
  have amount: "ce_amount verdict_deposit = 800" by (simp add: verdict_deposit_def)
  have slashed: "output_slashed 800 0 (fst (index_field accept_all 5 [3] (ExtraElderfierMessage verdict_msg) ?s))"
    using gates ps mark [of ps] key amount
    by (simp add: handle_verdict_def Blockchain_new_def is_verdict_def verdict_msg_def output_slashed_def vector_at_def
        mark_slashed_def case_prod_beta Let_def)
  have fine: "\<not> output_slashed 800 0 ?s" by (simp add: output_slashed_def vector_at_def)
  have "ci_reachable accept_all (m_commitmentIndex ?s)" using verdict_index(1) by simp
  from slash_needs_verdict [OF this slashed fine]
  have "\<exists>r \<in> set (om_values (m_elderfierRegistrations (m_commitmentIndex ?s))). reg_status r = ACTIVE \<and>
      reg_signing_pubkey r = em_senderKey verdict_msg"
    by blast
  then show ?thesis using slashed fine by (intro exI [of _ ?s]) (simp add: verdict_msg_def)
qed

end
