(* ===== verification/Chain_Validation.thy ===== *)
theory Chain_Validation
  imports Chain_State
begin

text \<open>
  The checks a transaction and a block pass before they enter the chain, \<open>src/src/CryptoNoteCore/Blockchain.cpp\<close>: the
  inputs of a transaction (ring members, maturity, slashed outputs, signatures), its outputs, and of a block the version,
  the size, the timestamp, the reward of the miner and the difficulty.

  The functions on the curve and the clock are the fields of a record that is an argument: \<open>cr_check_signature\<close>,
  \<open>cr_check_ring_signature\<close>, \<open>cr_scalarmultKey\<close>, \<open>cr_check_key\<close>, \<open>cr_parse_address\<close> and \<open>cr_now\<close>. A check that returns
  false is \<open>None\<close>, and so is an access behind the end of the signatures or of the blocks, which the code asserts away.
  Where the code keeps the highest block a transaction refers to, the result carries it.

  Shown here: a redeemed deposit is mature and not slashed whichever ring member is the real one, the claimed interest is
  covered by the fee pool, the signers of a multisignature input have different positions in its key list and are enough, and its term has passed
  in the 32-bit sum of the code, an accepted block is not older
  than half of the blocks before it, and what its coinbase may claim. A burn in a multisignature output can be spent, a
  transfer does not check maturity, and from version 10 on the coinbase is not bounded by the reward.
\<close>

section \<open>Definitions\<close>

record CryptoFunctions =
  cr_check_signature :: "hash \<Rightarrow> public_key \<Rightarrow> signature \<Rightarrow> bool"
  cr_check_ring_signature :: "hash \<Rightarrow> key_image \<Rightarrow> public_key list \<Rightarrow> signature list \<Rightarrow> bool"
  cr_scalarmultKey :: "key_image \<Rightarrow> key_image \<Rightarrow> key_image"
  cr_check_key :: "public_key \<Rightarrow> bool"
  cr_parse_address :: "string \<Rightarrow> AccountPublicAddress option"
  cr_now :: u64

text \<open>\<open>Common::medianValue\<close>.\<close>

definition medianValue :: "u64 list \<Rightarrow> u64" where
  "medianValue v =
     (if v = [] then 0
      else if length v = 1 then hd v
      else
        let n = length v div 2; w = sort v
        in if odd (length v) then w ! n else (w ! (n - 1) + w ! n) div 2)"

subsection \<open>Inputs\<close>

definition is_tx_spendtime_unlocked :: "CryptoFunctions \<Rightarrow> u64 \<Rightarrow> Blockchain \<Rightarrow> bool" where
  "is_tx_spendtime_unlocked cr unlock_time s =
     (let c = m_currency s in
      if unlock_time < cur_maxBlockHeight c
      then unlock_time \<le> ucast (getCurrentBlockchainHeight s - 1) + cur_lockedTxAllowedDeltaBlocks c
      else unlock_time \<le> cr_now cr + lockedTxAllowedDeltaSeconds (m_blockMajorVersion s) c)"

definition curve_identity :: key_image where
  "curve_identity = 1 # replicate 31 0"

definition curve_order :: key_image where
  "curve_order = [0xed, 0xd3, 0xf5, 0x5c, 0x1a, 0x63, 0x12, 0x58, 0xd6, 0x9c, 0xf7, 0xa2, 0xde, 0xf9, 0xde, 0x14] @
     replicate 15 0 @ [0x10]"

text \<open>\<open>outputs_visitor::handle_output\<close>.\<close>

definition handle_output :: "CryptoFunctions \<Rightarrow> Transaction \<Rightarrow> TransactionOutput \<Rightarrow> Blockchain \<Rightarrow> public_key option" where
  "handle_output cr tx out s =
     (if \<not> is_tx_spendtime_unlocked cr (tx_unlockTime tx) s then None
      else (case out_target out of KeyOutput key \<Rightarrow> Some key | _ \<Rightarrow> None))"

text \<open>\<open>scanOutputKeysForIndexes\<close>: the keys of the ring and the block of the last member.\<close>

fun scan_loop ::
  "CryptoFunctions \<Rightarrow> (TransactionIndex \<times> 16 word) list \<Rightarrow> u32 list \<Rightarrow> u32 \<Rightarrow> Blockchain \<Rightarrow> (public_key list \<times> u32) option" where
  "scan_loop cr outs [] height s = Some ([], height)"
| "scan_loop cr outs (i # is) height s =
     (if length outs \<le> unat i then None
      else
        case transactionByIndex (fst (outs ! unat i)) s of
          None \<Rightarrow> None
        | Some entry \<Rightarrow>
            let tx = te_tx entry; j = unat (snd (outs ! unat i))
            in if length (tx_outputs tx) \<le> j then None
               else
                 case handle_output cr tx (tx_outputs tx ! j) s of
                   None \<Rightarrow> None
                 | Some key \<Rightarrow>
                     map_option (\<lambda>(ks, h). (key # ks, h))
                       (scan_loop cr outs is (if is = [] then max height (ti_block (fst (outs ! unat i))) else height) s))"

definition scanOutputKeysForIndexes ::
  "CryptoFunctions \<Rightarrow> u64 \<Rightarrow> u32 list \<Rightarrow> u32 \<Rightarrow> Blockchain \<Rightarrow> (public_key list \<times> u32) option" where
  "scanOutputKeysForIndexes cr amount outputIndexes height s =
     (case m_outputs s amount of
        None \<Rightarrow> None
      | Some outs \<Rightarrow>
          if outputIndexes = [] then None
          else scan_loop cr outs (relative_output_offsets_to_absolute outputIndexes) height s)"

definition check_tx_input ::
  "CryptoFunctions \<Rightarrow> u64 \<Rightarrow> u32 list \<Rightarrow> key_image \<Rightarrow> hash \<Rightarrow> signature list \<Rightarrow> u32 \<Rightarrow> Blockchain \<Rightarrow> u32 option" where
  "check_tx_input cr amount outputIndexes keyImage tx_prefix_hash sig height s =
     (if cr_scalarmultKey cr keyImage curve_order \<noteq> curve_identity then None
      else
        case scanOutputKeysForIndexes cr amount outputIndexes height s of
          None \<Rightarrow> None
        | Some (output_keys, height) \<Rightarrow>
            if length outputIndexes \<noteq> length output_keys then None
            else if length sig \<noteq> length output_keys then None
            else if m_is_in_checkpoint_zone s then Some height
            else if cr_check_ring_signature cr tx_prefix_hash keyImage output_keys sig then Some height else None)"

text \<open>The absolute indexes of commitment inputs are 64-bit sums.\<close>

fun absolute_indexes :: "u64 \<Rightarrow> u32 list \<Rightarrow> u64 list" where
  "absolute_indexes acc [] = []"
| "absolute_indexes acc (i # is) = (acc + ucast i) # absolute_indexes (acc + ucast i) is"

definition mature :: "u32 \<Rightarrow> CommitmentOutputRef \<Rightarrow> bool" where
  "mature currentHeight ref =
     (if co_term ref \<noteq> DEPOSIT_TERM_FOREVER \<and> 0 < co_term ref
      then let creationHeight = ti_block (co_transactionIndex ref);
               maturityHeight = creationHeight + co_term ref
           in \<not> (maturityHeight < creationHeight \<or> currentHeight < maturityHeight)
      else True)"

text \<open>The loop over the ring of a redemption: the keys, whether a member is not burned, the oldest member and the highest
  block.\<close>

fun spend_ring ::
  "u32 \<Rightarrow> CommitmentOutputRef list \<Rightarrow> u64 list \<Rightarrow> public_key list \<times> bool \<times> u32 \<times> u32 \<Rightarrow> (public_key list \<times> bool \<times> u32 \<times> u32) option" where
  "spend_ring currentHeight refs [] acc = Some acc"
| "spend_ring currentHeight refs (i # is) (ringKeys, hasNonForever, oldest, height) =
     (if length refs \<le> unat i then None
      else
        let ref = refs ! unat i
        in if \<not> mature currentHeight ref then None
           else if co_isSlashed ref then None
           else spend_ring currentHeight refs is
             (ringKeys @ [co_commitKey ref], hasNonForever \<or> co_term ref \<noteq> DEPOSIT_TERM_FOREVER,
              min oldest (ti_block (co_transactionIndex ref)), max height (ti_block (co_transactionIndex ref))))"

definition checkCommitmentSpendInput ::
  "CryptoFunctions \<Rightarrow> u64 \<Rightarrow> u32 list \<Rightarrow> key_image \<Rightarrow> u64 \<Rightarrow> hash \<Rightarrow> signature list \<Rightarrow> u32 \<Rightarrow> Blockchain \<Rightarrow> u32 option" where
  "checkCommitmentSpendInput cr amount outputIndexes keyImage claimedInterest tx_prefix_hash sig height s =
     (if cr_scalarmultKey cr keyImage curve_order \<noteq> curve_identity then None
      else
        case m_commitmentOutputs s amount of
          None \<Rightarrow> None
        | Some refs \<Rightarrow>
            let currentHeight = getCurrentBlockchainHeight s in
            case spend_ring currentHeight refs (absolute_indexes 0 outputIndexes) ([], False, currentHeight, height) of
              None \<Rightarrow> None
            | Some (ringKeys, hasNonForever, oldest, height) \<Rightarrow>
                if \<not> hasNonForever then None
                else if length ringKeys \<noteq> length sig then None
                else if \<not> cr_check_ring_signature cr tx_prefix_hash keyImage ringKeys sig then None
                else if 0 < claimedInterest
                        \<and> min (calculateCdInterest amount oldest currentHeight (m_commitmentIndex s) (m_currency s))
                              (m_feePoolBalance s) < claimedInterest then None
                else Some height)"

definition CD_TRANSFER_MIN_REMAINING_TERM :: u32 where
  "CD_TRANSFER_MIN_REMAINING_TERM = 1"

fun transfer_ring ::
  "CommitmentOutputRef list \<Rightarrow> u64 list \<Rightarrow> public_key list \<times> bool \<times> u32 \<Rightarrow> (public_key list \<times> bool \<times> u32) option" where
  "transfer_ring refs [] acc = Some acc"
| "transfer_ring refs (i # is) (ringKeys, hasNonForever, height) =
     (if length refs \<le> unat i then None
      else
        let ref = refs ! unat i
        in if co_isSlashed ref then None
           else transfer_ring refs is
             (ringKeys @ [co_commitKey ref], hasNonForever \<or> co_term ref \<noteq> DEPOSIT_TERM_FOREVER,
              max height (ti_block (co_transactionIndex ref))))"

definition checkCommitmentTransferInput ::
  "CryptoFunctions \<Rightarrow> u64 \<Rightarrow> u32 list \<Rightarrow> key_image \<Rightarrow> u32 \<Rightarrow> hash \<Rightarrow> signature list \<Rightarrow> u32 \<Rightarrow> Blockchain \<Rightarrow> u32 option" where
  "checkCommitmentTransferInput cr amount outputIndexes keyImage newTerm tx_prefix_hash sig height s =
     (if cr_scalarmultKey cr keyImage curve_order \<noteq> curve_identity then None
      else if newTerm < CD_TRANSFER_MIN_REMAINING_TERM then None
      else
        case m_commitmentOutputs s amount of
          None \<Rightarrow> None
        | Some refs \<Rightarrow>
            case transfer_ring refs (absolute_indexes 0 outputIndexes) ([], False, height) of
              None \<Rightarrow> None
            | Some (ringKeys, hasNonForever, height) \<Rightarrow>
                if \<not> hasNonForever then None
                else if length ringKeys \<noteq> length sig then None
                else if cr_check_ring_signature cr tx_prefix_hash keyImage ringKeys sig then Some height else None)"

text \<open>The loop of \<open>validateInput\<close>: each signature in turn against the remaining keys.\<close>

fun match_signatures :: "(public_key \<Rightarrow> signature \<Rightarrow> bool) \<Rightarrow> signature list \<Rightarrow> public_key list \<Rightarrow> bool" where
  "match_signatures check [] keys = True"
| "match_signatures check (sig # sigs) [] = False"
| "match_signatures check (sig # sigs) (key # keys) =
     (if check key sig then match_signatures check sigs keys else match_signatures check (sig # sigs) keys)"

definition validateInput ::
  "CryptoFunctions \<Rightarrow> u64 \<Rightarrow> u8 \<Rightarrow> u32 \<Rightarrow> u32 \<Rightarrow> hash \<Rightarrow> signature list \<Rightarrow> Blockchain \<Rightarrow> bool" where
  "validateInput cr amount signatureCount outputIndex term prefixHash signatures s =
     (case m_multisignatureOutputs s amount of
        None \<Rightarrow> False
      | Some us \<Rightarrow>
          if length us \<le> unat outputIndex then False
          else
            let usage = us ! unat outputIndex
            in if mu_isUsed usage then False
               else
                 case transactionByIndex (mu_transactionIndex usage) s of
                   None \<Rightarrow> False
                 | Some entry \<Rightarrow>
                     let tx = te_tx entry; j = unat (mu_outputIndex usage)
                     in if \<not> is_tx_spendtime_unlocked cr (tx_unlockTime tx) s then False
                        else if length (tx_outputs tx) \<le> j then False
                        else
                          case out_target (tx_outputs tx ! j) of
                            MultisignatureOutput keys requiredSignatureCount outTerm \<Rightarrow>
                              if signatureCount \<noteq> requiredSignatureCount then False
                              else if term \<noteq> outTerm then False
                              else if outTerm \<noteq> 0 \<and>
                                getCurrentBlockchainHeight s < ti_block (mu_transactionIndex usage) + outTerm then False
                              else unat signatureCount \<le> length signatures
                                \<and> match_signatures (\<lambda>key sig. cr_check_signature cr prefixHash key sig)
                                    (take (unat signatureCount) signatures) keys
                          | _ \<Rightarrow> False)"

definition isInCheckpointZone :: "u32 \<Rightarrow> Blockchain \<Rightarrow> bool" where
  "isInCheckpointZone height s = is_in_checkpoint_zone height (m_checkpoints s)"

text \<open>One input with its signatures; the ring of a key input is checked in the checkpoint zone too.\<close>

fun check_input ::
  "CryptoFunctions \<Rightarrow> hash \<Rightarrow> TransactionInput \<Rightarrow> signature list \<Rightarrow> u32 \<Rightarrow> Blockchain \<Rightarrow> u32 option" where
  "check_input cr prefixHash (KeyInput amount outputIndexes keyImage) sig height s =
     (if outputIndexes = [] then None
      else if have_tx_keyimg_as_spent keyImage s then None
      else
        case check_tx_input cr amount outputIndexes keyImage prefixHash sig height s of
          None \<Rightarrow> None
        | Some height \<Rightarrow>
            if \<not> isInCheckpointZone (getCurrentBlockchainHeight s) s
            then check_tx_input cr amount outputIndexes keyImage prefixHash sig height s
            else Some height)"
| "check_input cr prefixHash (MultisignatureInput amount signatureCount outputIndex term) sig height s =
     (if isInCheckpointZone (getCurrentBlockchainHeight s) s
         \<or> validateInput cr amount signatureCount outputIndex term prefixHash sig s then Some height else None)"
| "check_input cr prefixHash (TransactionInputCommitmentSpend amount outputIndexes keyImage claimedInterest) sig height s =
     (if outputIndexes = [] then None
      else if have_tx_keyimg_as_spent keyImage s then None
      else if isInCheckpointZone (getCurrentBlockchainHeight s) s then Some height
      else checkCommitmentSpendInput cr amount outputIndexes keyImage claimedInterest prefixHash sig height s)"
| "check_input cr prefixHash (TransactionInputCommitmentTransfer amount outputIndexes keyImage newTerm) sig height s =
     (if outputIndexes = [] then None
      else if have_tx_keyimg_as_spent keyImage s then None
      else if isInCheckpointZone (getCurrentBlockchainHeight s) s then Some height
      else checkCommitmentTransferInput cr amount outputIndexes keyImage newTerm prefixHash sig height s)"
| "check_input cr prefixHash _ sig height s = None"

fun check_inputs ::
  "CryptoFunctions \<Rightarrow> hash \<Rightarrow> TransactionInput list \<Rightarrow> signature list list \<Rightarrow> u32 \<Rightarrow> Blockchain \<Rightarrow> u32 option" where
  "check_inputs cr prefixHash [] sigs height s = Some height"
| "check_inputs cr prefixHash (i # ins) [] height s = None"
| "check_inputs cr prefixHash (i # ins) (sig # sigs) height s =
     (case check_input cr prefixHash i sig height s of
        None \<Rightarrow> None
      | Some height \<Rightarrow> check_inputs cr prefixHash ins sigs height s)"

definition prefix_hash :: "Transaction \<Rightarrow> hash" where
  "prefix_hash tx = (case getObjectHash (wr_TransactionPrefix tx) of None \<Rightarrow> null_pod | Some h \<Rightarrow> h)"

definition checkTransactionInputs :: "CryptoFunctions \<Rightarrow> Transaction \<Rightarrow> Blockchain \<Rightarrow> u32 option" where
  "checkTransactionInputs cr tx s = check_inputs cr (prefix_hash tx) (tx_inputs tx) (tx_signatures tx) 0 s"

subsection \<open>Outputs\<close>

definition check_tx_outputs :: "Transaction \<Rightarrow> u32 \<Rightarrow> Blockchain \<Rightarrow> bool" where
  "check_tx_outputs tx height s =
     list_all (\<lambda>out.
       case out_target out of
         MultisignatureOutput _ _ term \<Rightarrow>
           if tx_version tx < 2 then False
           else if term \<noteq> 0 \<and> 821000 \<le> height
           then \<not> (term \<noteq> DEPOSIT_TERM_FOREVER \<and>
                    (term < cur_depositMinTerm (m_currency s) \<or> cur_depositMaxTerm (m_currency s) < term))
                \<and> \<not> out_amount out < cur_depositMinAmount (m_currency s)
           else True
       | _ \<Rightarrow> True) (tx_outputs tx)"

subsection \<open>Blocks\<close>

definition getBlockMajorVersionForHeight :: "u32 \<Rightarrow> Blockchain \<Rightarrow> u8" where
  "getBlockMajorVersionForHeight height s =
     (case find (\<lambda>d. ud_upgradeHeight (m_currency s) d < height) (rev (m_upgradeDetectors s)) of
        Some d \<Rightarrow> ud_targetVersion d | None \<Rightarrow> 1)"

definition checkBlockVersion :: "Block \<Rightarrow> Blockchain \<Rightarrow> bool" where
  "checkBlockVersion b s \<longleftrightarrow>
     bl_majorVersion b = getBlockMajorVersionForHeight (get_block_height b) s \<and>
     \<not> (bl_majorVersion b = 2 \<and> 1 < pb_majorVersion (bl_parentBlock b))"

definition checkParentBlockSize :: "TransactionExtraElderfierMessage \<Rightarrow> Block \<Rightarrow> bool" where
  "checkParentBlockSize mem b =
     (if 2 \<le> bl_majorVersion b
      then (case wr_ParentBlock (getMergeMiningTagFromExtra mem) False False (bl_parentBlock b) (bl_timestamp b) (bl_nonce b) of
              None \<Rightarrow> False | Some blob \<Rightarrow> length blob \<le> 2 * 1024)
      else True)"

definition checkCumulativeBlockSize :: "u64 \<Rightarrow> u64 \<Rightarrow> Blockchain \<Rightarrow> bool" where
  "checkCumulativeBlockSize cumulativeBlockSize height s \<longleftrightarrow>
     \<not> maxBlockCumulativeSize height (m_currency s) < cumulativeBlockSize"

definition check_block_timestamp :: "u64 list \<Rightarrow> Block \<Rightarrow> Blockchain \<Rightarrow> bool" where
  "check_block_timestamp timestamps b s =
     (if of_nat (length timestamps) < timestampCheckWindow (bl_majorVersion b) (m_currency s) then True
      else \<not> bl_timestamp b < medianValue timestamps)"

definition check_block_timestamp_main :: "CryptoFunctions \<Rightarrow> Block \<Rightarrow> Blockchain \<Rightarrow> bool" where
  "check_block_timestamp_main cr b s =
     (if cr_now cr + blockFutureTimeLimit (bl_majorVersion b) (m_currency s) < bl_timestamp b then False
      else
        let window = unat (timestampCheckWindow (bl_majorVersion b) (m_currency s));
            offset = (if length (m_blocks s) \<le> window then 0 else length (m_blocks s) - window)
        in check_block_timestamp (map (\<lambda>e. bl_timestamp (en_bl e)) (drop offset (m_blocks s))) b s)"

definition getBackwardBlocksSize :: "nat \<Rightarrow> nat \<Rightarrow> Blockchain \<Rightarrow> u64 list option" where
  "getBackwardBlocksSize from_height cnt s =
     (if length (m_blocks s) \<le> from_height then None
      else
        let start_offset = (from_height + 1) - min (from_height + 1) cnt
        in Some (map en_block_cumulative_size (take (from_height + 1 - start_offset) (drop start_offset (m_blocks s)))))"

definition get_last_n_blocks_sizes :: "nat \<Rightarrow> Blockchain \<Rightarrow> u64 list" where
  "get_last_n_blocks_sizes cnt s =
     (if m_blocks s = [] then []
      else case getBackwardBlocksSize (length (m_blocks s) - 1) cnt s of None \<Rightarrow> [] | Some sz \<Rightarrow> sz)"

definition update_next_comulative_size_limit :: "Blockchain \<Rightarrow> Blockchain" where
  "update_next_comulative_size_limit s =
     (let nextBlockMajorVersion = getBlockMajorVersionForHeight (of_nat (length (m_blocks s))) s;
          zone = blockGrantedFullRewardZoneByBlockVersion nextBlockMajorVersion (m_currency s);
          median = medianValue (get_last_n_blocks_sizes (unat (cur_rewardBlocksWindow (m_currency s))) s)
      in s\<lparr>m_current_block_cumul_sz_limit := (if median \<le> zone then zone else median) * 2\<rparr>)"

definition checkTransactionSize :: "u64 \<Rightarrow> Blockchain \<Rightarrow> bool" where
  "checkTransactionSize blobSize s \<longleftrightarrow>
     \<not> m_current_block_cumul_sz_limit s - cur_minerTxBlobReservedSize (m_currency s) < blobSize"

definition prevalidate_miner_transaction :: "CryptoFunctions \<Rightarrow> Block \<Rightarrow> u32 \<Rightarrow> Blockchain \<Rightarrow> bool" where
  "prevalidate_miner_transaction cr b height s =
     (let tx = bl_baseTransaction b in
      case tx_inputs tx of
        [BaseInput index] \<Rightarrow>
          if index \<noteq> height then False
          else if tx_unlockTime tx \<noteq> ucast height + cur_minedMoneyUnlockWindow (m_currency s) then False
          else (case check_outs_valid (cr_check_key cr) tx of Inl _ \<Rightarrow> False | Inr _ \<Rightarrow> check_outs_overflow tx)
      | _ \<Rightarrow> False)"

text \<open>The reward and the change of the emission, for a block on top of the chain.\<close>

definition validate_miner_transaction ::
  "CryptoFunctions \<Rightarrow> TransactionExtraElderfierMessage \<Rightarrow> Block \<Rightarrow> u32 \<Rightarrow> u64 \<Rightarrow> u64 \<Rightarrow> u64 \<Rightarrow> Transaction list \<Rightarrow> Blockchain \<Rightarrow>
   (u64 \<times> int) option" where
  "validate_miner_transaction cr mem b height cumulativeBlockSize alreadyGeneratedCoins fee blockTransactions s =
     (let coinbaseTotal = sum_list (map out_amount (tx_outputs (bl_baseTransaction b)))
      in if is_in_checkpoint_zone height (m_checkpoints s) then Some (coinbaseTotal, sint (coinbaseTotal - fee))
         else
           let blocksSizeMedian = medianValue (get_last_n_blocks_sizes (unat (cur_rewardBlocksWindow (m_currency s))) s);
               blockMajorVersion = getBlockMajorVersionForHeight height s;
               burnedAtPrevHeight = (if 0 < height then getBurnedXfgAtHeight (height - 1) (m_bankingIndex s) else 0)
           in case getBlockReward blockMajorVersion blocksSizeMedian cumulativeBlockSize alreadyGeneratedCoins fee height
                     burnedAtPrevHeight (m_currency s) of
                None \<Rightarrow> None
              | Some (reward, emissionChange) \<Rightarrow>
                  if 10 \<le> blockMajorVersion
                  then
                    let bankingFeesInBlock = computeBankingFeesFromTransactions mem blockTransactions (m_activeEfierCount s);
                        totalEfierInput = bankingFeesInBlock + m_efierSwapRewardPerBlock s;
                        efierTotal = sum_list (map snd (computePerBlockEfierRewards (cr_parse_address cr)
                          (cur_defaultDustThreshold (m_currency s)) totalEfierInput (bl_previousBlockHash b) (m_commitmentIndex s)));
                        expectedCoinbase = reward - min bankingFeesInBlock reward + efierTotal
                    in if coinbaseTotal \<noteq> expectedCoinbase then None else Some (reward, emissionChange)
                  else if reward < coinbaseTotal then None
                  else if coinbaseTotal \<noteq> reward then Some (coinbaseTotal, sint (coinbaseTotal - fee))
                  else Some (reward, emissionChange))"

definition getDifficultyForNextBlock :: "(u64 list \<Rightarrow> u64 list \<Rightarrow> u64) \<Rightarrow> Blockchain \<Rightarrow> u64" where
  "getDifficultyForNextBlock v3 s =
     (let currentHeight = (of_nat (length (m_blocks s)) :: u32);
          version = getBlockMajorVersionForHeight currentHeight s;
          difficultyWindow = difficultyBlocksCountByBlockVersion version (m_currency s);
          heights = getCheckpointHeights (m_checkpoints s);
          lastCheckpointHeight = (if heights = [] then 0 else last heights)
      in if 0 < lastCheckpointHeight \<and> lastCheckpointHeight < currentHeight
            \<and> ucast currentHeight \<le> ucast lastCheckpointHeight + difficultyWindow + 10 then 500000
         else
           let offset = length (m_blocks s) - min (length (m_blocks s)) (unat difficultyWindow);
               recent = drop (if offset = 0 then 1 else offset) (m_blocks s)
           in nextDifficulty v3 currentHeight version (map (\<lambda>e. bl_timestamp (en_bl e)) recent)
                (map en_cumulative_difficulty recent) (m_currency s))"

subsection \<open>A sample chain\<close>

definition sample_crypto :: CryptoFunctions where
  "sample_crypto =
     \<lparr>cr_check_signature = (\<lambda>_ _ _. True), cr_check_ring_signature = (\<lambda>_ _ _ _. True),
      cr_scalarmultKey = (\<lambda>_ _. curve_identity), cr_check_key = (\<lambda>_. True), cr_parse_address = (\<lambda>_. None), cr_now = 1000000\<rparr>"

definition sample_ref :: "u32 \<Rightarrow> CommitmentOutputRef" where
  "sample_ref term =
     \<lparr>co_transactionIndex = \<lparr>ti_block = 1, ti_transaction = 0\<rparr>, co_outputInTransaction = 0, co_commitKey = [5],
      co_term = term, co_isSlashed = False\<rparr>"

text \<open>A chain of twenty equal blocks whose base transaction has one multisignature output, and a commitment output.\<close>

definition sample_deposit :: "u32 \<Rightarrow> Transaction" where
  "sample_deposit term =
     \<lparr>tx_version = 2, tx_unlockTime = 0, tx_inputs = [],
      tx_outputs = [\<lparr>out_amount = 800, out_target = MultisignatureOutput [[1], [2], [3]] 2 term\<rparr>],
      tx_extra = [], tx_signatures = []\<rparr>"

definition sample_deposit_entry :: "u32 \<Rightarrow> BlockEntry" where
  "sample_deposit_entry term =
     \<lparr>en_bl = sample_block, en_height = 0, en_block_cumulative_size = 100, en_cumulative_difficulty = 1,
      en_already_generated_coins = 0,
      en_transactions = [\<lparr>te_tx = sample_deposit term, te_global_output_indexes = [0]\<rparr>]\<rparr>"

definition sample_chain :: "u32 \<Rightarrow> Currency \<Rightarrow> Blockchain" where
  "sample_chain term c =
     (Blockchain_new False 1 null_pod (c\<lparr>cur_maxBlockHeight := 500000000, cur_lockedTxAllowedDeltaBlocks := 1\<rparr>))
       \<lparr>m_blocks := replicate 20 (sample_deposit_entry term), m_commitmentOutputs := [800 \<mapsto> [sample_ref term]],
        m_multisignatureOutputs := [800 \<mapsto>
          [\<lparr>mu_transactionIndex = \<lparr>ti_block = 1, ti_transaction = 0\<rparr>, mu_outputIndex = 0, mu_isUsed = False\<rparr>]]\<rparr>"

text \<open>A chain with an active Elderfier and a share of swap fees, and a block whose coinbase has one output.\<close>

definition payout_chain :: "Currency \<Rightarrow> Blockchain" where
  "payout_chain c =
     (Blockchain_new False 10 null_pod (c\<lparr>cur_upgradeHeightV9 := 2, cur_upgradeHeightV10 := 5, cur_blockGrantedFullRewardZone := 430080,
        cur_emissionSpeedFactor_FUEGO := 20, cur_moneySupply := 80000088000008, cur_defaultDustThreshold := 1000\<rparr>))
       \<lparr>m_commitmentIndex := stakes 20, m_efierSwapRewardPerBlock := 8000\<rparr>"

definition payout_block :: "u64 \<Rightarrow> Block" where
  "payout_block amount =
     sample_block\<lparr>bl_baseTransaction := sample_coinbase\<lparr>tx_outputs := [\<lparr>out_amount = amount, out_target = KeyOutput []\<rparr>]\<rparr>\<rparr>"

section \<open>Rings\<close>

lemma spend_ring_sound:
  "spend_ring height refs is (keys, nonForever, oldest, h) = Some (keys', nonForever', oldest', h') \<Longrightarrow>
   (\<forall>i \<in> set is. unat i < length refs \<and> mature height (refs ! unat i) \<and> \<not> co_isSlashed (refs ! unat i)) \<and>
   keys' = keys @ map (\<lambda>i. co_commitKey (refs ! unat i)) is \<and>
   (nonForever' \<longleftrightarrow> nonForever \<or> (\<exists>i \<in> set is. co_term (refs ! unat i) \<noteq> DEPOSIT_TERM_FOREVER))"
  by (induction height refs "is" "(keys, nonForever, oldest, h)" arbitrary: keys nonForever oldest h rule: spend_ring.induct)
    (auto simp: Let_def split: if_splits)

lemma transfer_ring_sound:
  "transfer_ring refs is (keys, nonForever, h) = Some (keys', nonForever', h') \<Longrightarrow>
   (\<forall>i \<in> set is. unat i < length refs \<and> \<not> co_isSlashed (refs ! unat i)) \<and>
   keys' = keys @ map (\<lambda>i. co_commitKey (refs ! unat i)) is \<and>
   (nonForever' \<longleftrightarrow> nonForever \<or> (\<exists>i \<in> set is. co_term (refs ! unat i) \<noteq> DEPOSIT_TERM_FOREVER))"
  by (induction refs "is" "(keys, nonForever, h)" arbitrary: keys nonForever h rule: transfer_ring.induct)
    (auto simp: Let_def split: if_splits)

lemma absolute_indexes_length [simp]: "length (absolute_indexes acc is) = length is"
  by (induction "is" arbitrary: acc) simp_all

text \<open>Maturity, with the guard against the wrap of the sum.\<close>

lemma mature_exact:
  assumes "mature height ref" "co_term ref \<noteq> 0" "co_term ref \<noteq> DEPOSIT_TERM_FOREVER"
  shows "unat (ti_block (co_transactionIndex ref)) + unat (co_term ref) \<le> unat height"
proof -
  let ?b = "ti_block (co_transactionIndex ref)"
  have "\<not> ?b + co_term ref < ?b" "?b + co_term ref \<le> height"
    using assms by (auto simp: mature_def Let_def word_gt_0 not_less)
  then have "?b \<le> ?b + co_term ref" "unat (?b + co_term ref) \<le> unat height" by (simp_all add: not_less word_le_nat_alt)
  then show ?thesis by (simp add: iffD1 [OF unat_plus_simple])
qed

section \<open>Signatures\<close>

lemma match_signatures_sound:
  "match_signatures check sigs keys \<Longrightarrow>
   \<exists>js. sorted_wrt (<) js \<and> length js = length sigs \<and> (\<forall>k < length js. js ! k < length keys \<and> check (keys ! (js ! k)) (sigs ! k))"
proof (induction check sigs keys rule: match_signatures.induct)
  case (1 check keys)
  then show ?case by (intro exI [of _ "[]"]) simp
next
  case (3 check sig sigs key keys)
  show ?case
  proof (cases "check key sig")
    case True
    then obtain js where js: "sorted_wrt (<) js" "length js = length sigs"
        "\<forall>k < length js. js ! k < length keys \<and> check (keys ! (js ! k)) (sigs ! k)"
      using "3.IH"(1) "3.prems" by auto
    have "sorted_wrt (<) (0 # map Suc js)" using js(1) by (simp add: sorted_wrt_map)
    moreover have "\<forall>k < length (0 # map Suc js). (0 # map Suc js) ! k < length (key # keys) \<and>
        check ((key # keys) ! ((0 # map Suc js) ! k)) ((sig # sigs) ! k)"
      using True js(2,3) by (auto simp: nth_Cons split: nat.splits)
    ultimately show ?thesis using js(2) by (intro exI [of _ "0 # map Suc js"]) simp
  next
    case False
    then obtain js where js: "sorted_wrt (<) js" "length js = length (sig # sigs)"
        "\<forall>k < length js. js ! k < length keys \<and> check (keys ! (js ! k)) ((sig # sigs) ! k)"
      using "3.IH"(2) "3.prems" by auto
    then show ?thesis by (intro exI [of _ "map Suc js"]) (simp add: sorted_wrt_map)
  qed
qed simp

section \<open>The median\<close>

lemma sorted_below: 
  assumes "sorted w" "k < length w"
  shows "Suc k \<le> length (filter (\<lambda>x. x \<le> w ! k) w)"
proof -
  have "take (Suc k) w = filter (\<lambda>x. x \<le> w ! k) (take (Suc k) w)"
    using assms by (intro filter_True [symmetric]) (auto simp: in_set_conv_nth sorted_nth_mono)
  then have "Suc k = length (filter (\<lambda>x. x \<le> w ! k) (take (Suc k) w))" using assms(2) by simp
  also have "\<dots> \<le> length (filter (\<lambda>x. x \<le> w ! k) (take (Suc k) w @ drop (Suc k) w))" unfolding filter_append by simp
  finally show ?thesis by simp
qed

lemma filter_sort_length: "length (filter P (sort v)) = length (filter P v)"
  by (metis mset_filter mset_sort size_mset)

lemma median_half:
  fixes v :: "u64 list"
  assumes "v \<noteq> []" "\<forall>x \<in> set v. unat x < 2 ^ 63" "\<not> t < medianValue v"
  shows "length v \<le> 2 * length (filter (\<lambda>x. x \<le> t) v)"
proof -
  let ?w = "sort v" and ?n = "length v div 2"
  have mono: "length (filter (\<lambda>x. x \<le> a) v) \<le> length (filter (\<lambda>x. x \<le> t) v)" if "a \<le> t" for a
    using that by (induction v) auto
  consider "length v = 1" | "odd (length v)" "length v \<noteq> 1" | "even (length v)" by blast
  then show ?thesis
  proof cases
    case 1
    then obtain x where "v = [x]" by (auto simp: length_Suc_conv)
    then show ?thesis using assms(3) by (simp add: medianValue_def not_less)
  next
    case 2
    then have m: "?w ! ?n \<le> t" using assms(1,3) by (simp add: medianValue_def not_less)
    have c: "Suc ?n \<le> length (filter (\<lambda>x. x \<le> ?w ! ?n) v)"
      using sorted_below [of ?w ?n] 2 assms(1) by (simp add: filter_sort_length)
    have "Suc ?n \<le> length (filter (\<lambda>x. x \<le> t) v)" by (rule le_trans [OF c mono [OF m]])
    then show ?thesis using 2(1) by (auto elim!: oddE)
  next
    case 3
    let ?a = "?w ! (?n - 1)" and ?b = "?w ! ?n"
    have "0 < length v" using assms(1) by blast
    then have n: "0 < ?n" "?n < length v" using 3 by presburger+
    have "?a \<in> set v" "?b \<in> set v" using n nth_mem [of "?n - 1" ?w] nth_mem [of ?n ?w] by simp_all
    then have small: "unat ?a < 2 ^ 63" "unat ?b < 2 ^ 63" using assms(2) by auto
    have "?a \<le> ?b" using n by (intro sorted_nth_mono) simp_all
    then have "?a \<le> (?a + ?b) div 2"
      using small by (simp add: word_le_nat_alt unat_div unat_word_ariths(1) less_eq_div_iff_mult_less_eq)
    moreover have "(?a + ?b) div 2 \<le> t" using 3 n assms(1,3) by (auto simp: medianValue_def not_less Let_def)
    ultimately have "?a \<le> t" by simp
    moreover have "Suc (?n - 1) \<le> length (filter (\<lambda>x. x \<le> ?a) v)"
      using sorted_below [of ?w "?n - 1"] n by (simp add: filter_sort_length)
    ultimately have "?n \<le> length (filter (\<lambda>x. x \<le> t) v)" using mono [of ?a] n(1) by linarith
    then show ?thesis using 3 by (auto elim!: evenE)
  qed
qed

section \<open>Interest\<close>

lemma no_rates_no_interest:
  assumes "set (m_epochFeeRates ci) \<subseteq> {0}"
  shows "calculateCdInterest amount creation current ci c = 0"
proof -
  have "getEpochFeeRate e ci = 0" for e
    using assms subsetD [OF assms nth_mem [of "unat e" "m_epochFeeRates ci"]] by (simp add: getEpochFeeRate_def not_le)
  then have "foldl (\<lambda>i e. i + (amount * getEpochFeeRate (of_nat e) ci) div FEE_POOL_RATE_PRECISION) 0 es = 0" for es :: "nat list"
    by (induction es rule: rev_induct) simp_all
  then show ?thesis by (simp add: calculateCdInterest_def Let_def)
qed

lemma idle_refuses_interest:
  assumes "fees_idle s" "0 < claimedInterest"
  shows "checkCommitmentSpendInput cr amount ixs keyImage claimedInterest h sig height s = None"
  using assms no_rates_no_interest [of "m_commitmentIndex s"]
  by (auto simp: checkCommitmentSpendInput_def fees_idle_def Let_def word_gt_0 split: option.splits)

lemma sample_chain_simps [simp]:
  "getCurrentBlockchainHeight (sample_chain term c) = 20" "m_commitmentOutputs (sample_chain term c) = [800 \<mapsto> [sample_ref term]]"
  "m_multisignatureOutputs (sample_chain term c) =
     [800 \<mapsto> [\<lparr>mu_transactionIndex = \<lparr>ti_block = 1, ti_transaction = 0\<rparr>, mu_outputIndex = 0, mu_isUsed = False\<rparr>]]"
  "transactionByIndex \<lparr>ti_block = 1, ti_transaction = 0\<rparr> (sample_chain term c) =
     Some \<lparr>te_tx = sample_deposit term, te_global_output_indexes = [0]\<rparr>"
  "is_tx_spendtime_unlocked cr 0 (sample_chain term c)"
  by (simp_all add: getCurrentBlockchainHeight_def sample_chain_def transactionByIndex_def sample_deposit_entry_def
    is_tx_spendtime_unlocked_def)

lemma median_replicate: "odd n \<Longrightarrow> medianValue (replicate n x) = x"
  by (auto simp: medianValue_def Let_def sorted_sort_id odd_pos)

lemma transfer_ring_complete:
  assumes "\<forall>i \<in> set ixs. unat i < length refs \<and> \<not> co_isSlashed (refs ! unat i)"
  shows "\<exists>h'. transfer_ring refs ixs (keys, nf, h) =
    Some (keys @ map (\<lambda>i. co_commitKey (refs ! unat i)) ixs, nf \<or> (\<exists>i \<in> set ixs. co_term (refs ! unat i) \<noteq> DEPOSIT_TERM_FOREVER), h')"
  using assms
proof (induction ixs arbitrary: keys nf h)
  case (Cons i ixs)
  let ?r = "refs ! unat i"
  have rest: "\<forall>i \<in> set ixs. unat i < length refs \<and> \<not> co_isSlashed (refs ! unat i)" using Cons.prems by simp
  show ?case
    using Cons.IH [OF rest, of "keys @ [co_commitKey ?r]" "nf \<or> co_term ?r \<noteq> DEPOSIT_TERM_FOREVER"
        "max h (ti_block (co_transactionIndex ?r))"] Cons.prems
    by (simp add: Let_def not_le disj_assoc)
qed simp

lemma payout_chain_simps:
  "getBlockMajorVersionForHeight 10 (payout_chain c) = 10" "getBlockMajorVersionForHeight 3 (payout_chain c) = 9"
  "m_checkpoints (payout_chain c) = []" "m_blocks (payout_chain c) = []" "m_bankingIndex (payout_chain c) = BankingIndex_new"
  "m_commitmentIndex (payout_chain c) = stakes 20" "m_efierSwapRewardPerBlock (payout_chain c) = 8000"
  "cur_defaultDustThreshold (m_currency (payout_chain c)) = 1000" "cur_moneySupply (m_currency (payout_chain c)) = 80000088000008"
  "cur_blockGrantedFullRewardZone (m_currency (payout_chain c)) = 430080"
  by (simp_all add: getBlockMajorVersionForHeight_def payout_chain_def Blockchain_new_def ud_upgradeHeight_def upgradeHeight_def
    UpgradeDetector_new_def UNDEF_HEIGHT_def word_less_nat_alt)

lemma payout_reward:
  assumes "v = 9 \<or> v = 10"
  shows "getBlockReward v 0 1000 0 0 height 0 (m_currency (payout_chain c)) = Some (76294029, 76294029)"
  using assms
  by (auto simp: getBlockReward_def base_reward_def emissionSpeedFactor_def payout_chain_def Blockchain_new_def
    blockGrantedFullRewardZoneByBlockVersion_def getPenalizedAmount_def word_le_nat_alt word_less_nat_alt max_def drop_bit_eq_div)

lemma efier_total:
  fixes input dust :: u64 and parse :: "string \<Rightarrow> 'addr option"
  assumes "ci_reachable cs ci" "0 < dust"
  shows "sum_list (map snd (computePerBlockEfierRewards parse dust input prev ci)) =
    (if active_efiers parse ci \<noteq> [] \<and> unat dust \<le> unat input div length (active_efiers parse ci) then input else 0)"
proof -
  have "sum_list (map snd rs) = of_nat (sum_list (map (\<lambda>r. unat (snd r)) rs))" for rs :: "('addr \<times> u64) list"
    by (induction rs) simp_all
  then show ?thesis using rewards_split [OF assms, of parse input prev] by (auto split: if_splits)
qed

section \<open>Properties\<close>

text \<open>
  C5: the redemption of a deposit is checked against every ring member. When it is accepted, each member is an output of
  the amount that is not slashed and, if it has a term, matured by the height of the chain, with no wrap of the sum; not
  all are burned; the ring signature verifies for exactly their keys; and the interest claimed is in the fee pool.
\<close>

theorem commitment_spend_sound:
  assumes "checkCommitmentSpendInput cr amount ixs keyImage claimedInterest prefixHash sig height s = Some height'"
  defines "ring \<equiv> absolute_indexes 0 ixs"
  shows "\<exists>refs. m_commitmentOutputs s amount = Some refs \<and>
    (\<forall>i \<in> set ring. unat i < length refs \<and> \<not> co_isSlashed (refs ! unat i) \<and>
      (co_term (refs ! unat i) \<noteq> 0 \<and> co_term (refs ! unat i) \<noteq> DEPOSIT_TERM_FOREVER \<longrightarrow>
        unat (ti_block (co_transactionIndex (refs ! unat i))) + unat (co_term (refs ! unat i)) \<le> unat (getCurrentBlockchainHeight s))) \<and>
    (\<exists>i \<in> set ring. co_term (refs ! unat i) \<noteq> DEPOSIT_TERM_FOREVER) \<and>
    length sig = length ixs \<and>
    cr_check_ring_signature cr prefixHash keyImage (map (\<lambda>i. co_commitKey (refs ! unat i)) ring) sig \<and>
    claimedInterest \<le> m_feePoolBalance s"
proof -
  obtain refs where refs: "m_commitmentOutputs s amount = Some refs"
    using assms(1) by (auto simp: checkCommitmentSpendInput_def split: if_splits option.splits)
  obtain keys nf old ht where walk: "spend_ring (getCurrentBlockchainHeight s) refs ring ([], False, getCurrentBlockchainHeight s, height)
      = Some (keys, nf, old, ht)"
    and checks: "nf" "length keys = length sig" "cr_check_ring_signature cr prefixHash keyImage keys sig"
      "0 < claimedInterest \<longrightarrow> claimedInterest \<le> m_feePoolBalance s"
    using assms(1) refs
    by (auto simp: checkCommitmentSpendInput_def ring_def Let_def not_less split: if_splits option.splits)
  note sound = spend_ring_sound [OF walk]
  have "claimedInterest \<le> m_feePoolBalance s" using checks(4) by (cases "claimedInterest = 0") (simp_all add: word_gt_0)
  moreover have "keys = map (\<lambda>i. co_commitKey (refs ! unat i)) ring" using sound by simp
  ultimately show ?thesis
    using refs sound checks mature_exact by (intro exI [of _ refs]) (auto simp: ring_def)
qed

theorem commitment_spend_sound_witness:
  "\<exists>c. checkCommitmentSpendInput sample_crypto 800 [0] [9] 0 [] [[]] 0 (sample_chain 5 c) = Some 1 \<and>
     unat (ti_block (co_transactionIndex (sample_ref 5))) + unat (co_term (sample_ref 5)) \<le> 20"
proof -
  fix c
  have ok: "checkCommitmentSpendInput sample_crypto 800 [0] [9] 0 [] [[]] 0 (sample_chain 5 c) = Some 1"
    by (simp add: checkCommitmentSpendInput_def sample_crypto_def sample_ref_def mature_def DEPOSIT_TERM_FOREVER_def Let_def max_def)
  have "unat (ti_block (co_transactionIndex (sample_ref 5))) + unat (co_term (sample_ref 5)) \<le> 20"
    using commitment_spend_sound [OF ok] by (simp add: sample_ref_def)
  then show ?thesis using ok by blast
qed

text \<open>
  C10: the spending of a multisignature output needs its signers and its time. When the input is accepted, it names an unused
  output with the number of signatures and the term that the output asks for, in a transaction whose unlock time has
  passed. If the output is a deposit, the chain has reached its block plus its term, in the 32-bit sum that the code computes.
  The signatures verify for keys at as many different positions of the key list, in its order, which are different keys
  whenever the output lists no key twice.
\<close>

theorem multisignature_spend_sound:
  assumes "validateInput cr amount n i term h sigs s"
  shows "\<exists>us e keys js. m_multisignatureOutputs s amount = Some us \<and> unat i < length us \<and> \<not> mu_isUsed (us ! unat i) \<and>
    transactionByIndex (mu_transactionIndex (us ! unat i)) s = Some e \<and>
    is_tx_spendtime_unlocked cr (tx_unlockTime (te_tx e)) s \<and>
    unat (mu_outputIndex (us ! unat i)) < length (tx_outputs (te_tx e)) \<and>
    out_target (tx_outputs (te_tx e) ! unat (mu_outputIndex (us ! unat i))) = MultisignatureOutput keys n term \<and>
    (term \<noteq> 0 \<longrightarrow> ti_block (mu_transactionIndex (us ! unat i)) + term \<le> getCurrentBlockchainHeight s) \<and>
    sorted_wrt (<) js \<and> length js = unat n \<and> unat n \<le> length sigs \<and>
    (\<forall>k < unat n. js ! k < length keys \<and> cr_check_signature cr h (keys ! (js ! k)) (sigs ! k)) \<and>
    (distinct keys \<longrightarrow> distinct (map ((!) keys) js))"
proof -
  obtain us where us: "m_multisignatureOutputs s amount = Some us" "unat i < length us" "\<not> mu_isUsed (us ! unat i)"
    using assms by (auto simp: validateInput_def Let_def not_le split: option.splits if_splits)
  obtain e where e: "transactionByIndex (mu_transactionIndex (us ! unat i)) s = Some e"
      "is_tx_spendtime_unlocked cr (tx_unlockTime (te_tx e)) s"
      "unat (mu_outputIndex (us ! unat i)) < length (tx_outputs (te_tx e))"
    using assms us by (auto simp: validateInput_def Let_def not_le split: option.splits if_splits)
  obtain keys where keys: "out_target (tx_outputs (te_tx e) ! unat (mu_outputIndex (us ! unat i))) = MultisignatureOutput keys n term"
      "term \<noteq> 0 \<longrightarrow> ti_block (mu_transactionIndex (us ! unat i)) + term \<le> getCurrentBlockchainHeight s"
      "unat n \<le> length sigs" "match_signatures (cr_check_signature cr h) (take (unat n) sigs) keys"
    using assms us e
    by (auto simp: validateInput_def Let_def not_less split: option.splits if_splits TransactionOutputTarget.splits)
  obtain js where js: "sorted_wrt (<) js" "length js = unat n"
      "\<forall>k < length js. js ! k < length keys \<and> cr_check_signature cr h (keys ! (js ! k)) (take (unat n) sigs ! k)"
    using match_signatures_sound [OF keys(4)] keys(3) by auto
  have "set js \<subseteq> {..< length keys}" using js(3) by (auto simp: in_set_conv_nth)
  then have "distinct keys \<longrightarrow> distinct (map ((!) keys) js)"
    using js(1) by (auto simp: distinct_map strict_sorted_iff intro!: inj_on_nth)
  then show ?thesis using us e keys(1-3) js
    by (intro exI [of _ us] exI [of _ e] exI [of _ keys] exI [of _ js]) simp
qed

theorem multisignature_spend_sound_witness:
  "\<exists>c. validateInput sample_crypto 800 2 0 5 [] [[], []] (sample_chain 5 c) \<and> (1 :: u32) + 5 \<le> getCurrentBlockchainHeight (sample_chain 5 c) \<and>
     (\<exists>js. length js = 2 \<and> sorted_wrt (<) js \<and> js ! 1 < length [[1 :: u8], [2], [3]])"
proof -
  fix c
  have ok: "validateInput sample_crypto 800 2 0 5 [] [[], []] (sample_chain 5 c)"
    by (simp add: validateInput_def Let_def sample_deposit_def sample_crypto_def)
  obtain js :: "nat list" where js: "length js = 2" "sorted_wrt (<) js" "\<forall>k < 2. js ! k < Suc (Suc (Suc 0))"
      and lock: "(1 :: u32) + 5 \<le> getCurrentBlockchainHeight (sample_chain 5 c)"
    using multisignature_spend_sound [OF ok] by (auto simp: sample_deposit_def)
  have "js ! 1 < Suc (Suc (Suc 0))" using js(3) by simp
  then show ?thesis using ok js(1,2) lock by auto
qed

text \<open>
  C32: a deposit burned in a multisignature output can be spent at once. The output of a burn has the term that stands for
  ever, 2^32 - 1, and the sum of its block and its term wraps around to the block before, so from the block of the burn on
  the check of the lock passes and the signatures alone decide.
\<close>

theorem burned_deposit_spendable:
  assumes "m_multisignatureOutputs s amount = Some us" "unat i < length us"
  defines "usage \<equiv> us ! unat i"
  assumes "\<not> mu_isUsed usage" "transactionByIndex (mu_transactionIndex usage) s = Some e"
    and "is_tx_spendtime_unlocked cr (tx_unlockTime (te_tx e)) s" "unat (mu_outputIndex usage) < length (tx_outputs (te_tx e))"
    and "out_target (tx_outputs (te_tx e) ! unat (mu_outputIndex usage)) = MultisignatureOutput keys n DEPOSIT_TERM_FOREVER"
    and "0 < ti_block (mu_transactionIndex usage)" "ti_block (mu_transactionIndex usage) \<le> getCurrentBlockchainHeight s"
  shows "validateInput cr amount n i DEPOSIT_TERM_FOREVER h sigs s \<longleftrightarrow>
    unat n \<le> length sigs \<and> match_signatures (cr_check_signature cr h) (take (unat n) sigs) keys"
proof -
  let ?b = "ti_block (mu_transactionIndex usage)"
  have "?b + DEPOSIT_TERM_FOREVER = ?b - 1" by (simp add: DEPOSIT_TERM_FOREVER_def)
  moreover have "?b - 1 \<le> ?b" using assms(9) by (simp add: word_gt_0 word_le_nat_alt unat_minus_one)
  ultimately have "?b + DEPOSIT_TERM_FOREVER \<le> getCurrentBlockchainHeight s" using assms(10) by (metis order_trans)
  then have "\<not> getCurrentBlockchainHeight s < ?b + DEPOSIT_TERM_FOREVER" by (simp add: not_less)
  then show ?thesis using assms by (simp add: validateInput_def Let_def)
qed

theorem burned_deposit_spendable_witness:
  "\<exists>c. validateInput sample_crypto 800 2 0 DEPOSIT_TERM_FOREVER [] [[], []] (sample_chain DEPOSIT_TERM_FOREVER c)"
proof -
  fix c
  let ?s = "sample_chain DEPOSIT_TERM_FOREVER c"
  show ?thesis
    using burned_deposit_spendable [of ?s 800 "[\<lparr>mu_transactionIndex = \<lparr>ti_block = 1, ti_transaction = 0\<rparr>, mu_outputIndex = 0, mu_isUsed = False\<rparr>]"
        0 "\<lparr>te_tx = sample_deposit DEPOSIT_TERM_FOREVER, te_global_output_indexes = [0]\<rparr>" sample_crypto "[[1], [2], [3]]" 2 "[]" "[[], []]"]
    by (auto simp: sample_deposit_def sample_crypto_def)
qed

text \<open>
  C26: an accepted block is neither older than half of the blocks before it nor from the far future: of the blocks of the
  timestamp window at least half carry a timestamp up to its own, and its own is within the future limit of the clock.
\<close>

theorem block_timestamp_bounds:
  assumes "check_block_timestamp_main cr b s"
  defines "w \<equiv> unat (timestampCheckWindow (bl_majorVersion b) (m_currency s))"
    and "recent \<equiv> drop (length (m_blocks s) - unat (timestampCheckWindow (bl_majorVersion b) (m_currency s))) (m_blocks s)"
  assumes "0 < w" "w \<le> length (m_blocks s)" "\<forall>e \<in> set recent. unat (bl_timestamp (en_bl e)) < 2 ^ 63"
  shows "w \<le> 2 * length (filter (\<lambda>e. bl_timestamp (en_bl e) \<le> bl_timestamp b) recent) \<and>
    bl_timestamp b \<le> cr_now cr + blockFutureTimeLimit (bl_majorVersion b) (m_currency s)"
proof
  let ?ts = "map (\<lambda>e. bl_timestamp (en_bl e)) recent"
  have len: "length ?ts = w" using assms(5) by (simp add: recent_def w_def)
  have "(of_nat (length ?ts) :: u64) = timestampCheckWindow (bl_majorVersion b) (m_currency s)" unfolding len w_def by simp
  moreover have "check_block_timestamp ?ts b s"
    using assms(1,5) by (cases "length (m_blocks s) = w") (auto simp: check_block_timestamp_main_def Let_def recent_def w_def split: if_splits)
  ultimately have "\<not> bl_timestamp b < medianValue ?ts" by (simp add: check_block_timestamp_def)
  moreover have "?ts \<noteq> []" using len assms(4) by auto
  ultimately have "length ?ts \<le> 2 * length (filter (\<lambda>x. x \<le> bl_timestamp b) ?ts)" using median_half [of ?ts] assms(6) by simp
  then show "w \<le> 2 * length (filter (\<lambda>e. bl_timestamp (en_bl e) \<le> bl_timestamp b) recent)"
    unfolding len by (simp add: filter_map o_def)
  show "bl_timestamp b \<le> cr_now cr + blockFutureTimeLimit (bl_majorVersion b) (m_currency s)"
    using assms(1) by (auto simp: check_block_timestamp_main_def not_less split: if_splits)
qed

theorem block_timestamp_bounds_witness:
  "\<exists>s. check_block_timestamp_main sample_crypto sample_block s \<and> length (m_blocks s) = 20 \<and>
     11 \<le> 2 * length (filter (\<lambda>e. bl_timestamp (en_bl e) \<le> bl_timestamp sample_block) (drop 9 (m_blocks s)))"
proof -
  fix c :: Currency
  let ?s = "sample_chain 5 (c\<lparr>cur_timestampCheckWindow := 11, cur_blockFutureTimeLimit := 7200\<rparr>)"
  have w: "timestampCheckWindow (bl_majorVersion sample_block) (m_currency ?s) = 11"
    by (simp add: timestampCheckWindow_def sample_block_def sample_chain_def Blockchain_new_def word_le_nat_alt)
  have n: "length (m_blocks ?s) = 20" "\<And>e. e \<in> set (m_blocks ?s) \<Longrightarrow> bl_timestamp (en_bl e) = 1000"
    by (auto simp: sample_chain_def sample_deposit_entry_def sample_block_def)
  have "medianValue (replicate 11 1000) = 1000"
    by (rule median_replicate) simp
  then have ok: "check_block_timestamp_main sample_crypto sample_block ?s"
    by (simp add: check_block_timestamp_main_def check_block_timestamp_def w Let_def)
      (simp add: sample_chain_def sample_deposit_entry_def sample_block_def sample_crypto_def blockFutureTimeLimit_def
        Blockchain_new_def word_le_nat_alt word_less_nat_alt)
  have small: "\<forall>e \<in> set (drop 9 (m_blocks ?s)). unat (bl_timestamp (en_bl e)) < 9223372036854775808"
    using n(2) in_set_dropD [of _ 9 "m_blocks ?s"] by auto
  show ?thesis
    using block_timestamp_bounds [OF ok] ok n(1) small by (intro exI [of _ ?s]) (simp add: w)
qed

text \<open>
  C11: up to block version 9 the coinbase never creates more than the schedule. When the reward of a block outside the
  checkpoint zone is accepted, the outputs of the coinbase add up to the reward that is reported, the reward is the change
  of the emission plus the fees, and the emission stays within the supply, also when the miner takes less, provided the circulation was within it and amounts and sizes are in range.
\<close>

theorem coinbase_within_supply:
  assumes "validate_miner_transaction cr mem b height blockSize already fee txs s = Some (reward, change)"
    and "\<not> is_in_checkpoint_zone height (m_checkpoints s)"
  defines "v \<equiv> getBlockMajorVersionForHeight height s" and "c \<equiv> m_currency s"
    and "median \<equiv> medianValue (get_last_n_blocks_sizes (unat (cur_rewardBlocksWindow (m_currency s))) s)"
    and "burned \<equiv> (if 0 < height then getBurnedXfgAtHeight (height - 1) (m_bankingIndex s) else 0)"
  assumes "v < 10" "circulating v already burned c \<le> cur_moneySupply c" "unat (cur_moneySupply c) + unat fee < 2 ^ 63"
    and "0 < max median (blockGrantedFullRewardZoneByBlockVersion v c)"
    and "unat (max median (blockGrantedFullRewardZoneByBlockVersion v c)) < 2 ^ 32"
  shows "sum_list (map out_amount (tx_outputs (bl_baseTransaction b))) = reward \<and>
    int (unat reward) = change + int (unat fee) \<and>
    int (unat (circulating v already burned c)) + change \<le> int (unat (cur_moneySupply c))"
proof -
  let ?t = "sum_list (map out_amount (tx_outputs (bl_baseTransaction b)))"
  obtain r ch where r: "getBlockReward v median blockSize already fee height burned c = Some (r, ch)"
    and t: "?t \<le> r" "(reward, change) = (if ?t \<noteq> r then (?t, sint (?t - fee)) else (r, ch))"
    using assms(1,2,7)
    by (auto simp: validate_miner_transaction_def Let_def v_def c_def median_def burned_def not_less not_le split: if_splits option.splits)
  note w = reward_within_supply [OF r assms(8,9,10,11)]
  have f: "unat (cur_moneySupply c) + unat fee < 9223372036854775808" using assms(9) by simp
  have "int (unat r) < 9223372036854775808" using w f by linarith
  then have "unat ?t < 9223372036854775808" using t(1) unfolding word_le_nat_alt by linarith
  then have "sint (?t - fee) = int (unat ?t) - int (unat fee)" using f by (intro sint_diff) simp_all
  moreover have "int (unat ?t) \<le> int (unat r)" using t(1) by (simp only: of_nat_le_iff word_le_nat_alt)
  ultimately show ?thesis using t(2) w by (cases "?t = r") auto
qed

theorem coinbase_within_supply_witness:
  "\<exists>mem c reward change. validate_miner_transaction sample_crypto mem (payout_block 76294029) 3 1000 0 0 [] (payout_chain c) = Some (reward, change) \<and>
     int (unat reward) = change \<and> change \<le> 80000088000008"
proof -
  fix mem c
  let ?s = "payout_chain c"
  have z: "\<not> is_in_checkpoint_zone 3 (m_checkpoints ?s)" by (simp add: payout_chain_simps is_in_checkpoint_zone_def)
  have ok: "validate_miner_transaction sample_crypto mem (payout_block 76294029) 3 1000 0 0 [] ?s = Some (76294029, 76294029)"
    using z by (simp add: validate_miner_transaction_def Let_def payout_chain_simps payout_reward payout_block_def
      get_last_n_blocks_sizes_def medianValue_def getBurnedXfgAtHeight_def BankingIndex_new_def word_le_nat_alt)
  have "int (unat (76294029 :: u64)) = 76294029 \<and> (76294029 :: int) \<le> 80000088000008"
    using coinbase_within_supply [OF ok z]
    by (simp add: payout_chain_simps get_last_n_blocks_sizes_def medianValue_def circulating_def
      blockGrantedFullRewardZoneByBlockVersion_def word_le_nat_alt word_less_nat_alt max_def)
  then show ?thesis using ok by blast
qed

text \<open>
  C6: what the coinbase of a block of version 10 or later claims, outside the checkpoint zone, with amounts whose sum fits 64
  bits and a positive dust threshold, and when the Elderfiers are paid,
  that is, when one is active and an equal share of the banking fees and the share of the swap fees is no dust. The outputs
  add up to the reward, less the banking fees that the extras of the block declare as far as the reward covers them, plus
  these fees and the share of the swap fees. So fees up to the reward move from the miner to the Elderfiers, while fees
  above it, which nothing bounds by the deposits of the block, are created in full.
\<close>

theorem coinbase_v10_exact:
  assumes "validate_miner_transaction cr mem b height blockSize already fee txs s = Some (reward, change)"
    and "\<not> is_in_checkpoint_zone height (m_checkpoints s)" "10 \<le> getBlockMajorVersionForHeight height s"
    and "ci_reachable cs (m_commitmentIndex s)" "0 < cur_defaultDustThreshold (m_currency s)"
  defines "fees \<equiv> computeBankingFeesFromTransactions mem txs (m_activeEfierCount s)"
    and "drip \<equiv> m_efierSwapRewardPerBlock s"
    and "efiers \<equiv> active_efiers (cr_parse_address cr) (m_commitmentIndex s)"
    and "coinbase \<equiv> sum_list (map out_amount (tx_outputs (bl_baseTransaction b)))"
  assumes "unat fees + unat drip + unat reward < 2 ^ 64"
    and "efiers \<noteq> []" "unat (cur_defaultDustThreshold (m_currency s)) \<le> (unat fees + unat drip) div length efiers"
  shows "unat coinbase = unat reward - min (unat fees) (unat reward) + unat fees + unat drip"
proof -
  let ?dust = "cur_defaultDustThreshold (m_currency s)"
  let ?rewards = "computePerBlockEfierRewards (cr_parse_address cr) ?dust (fees + drip) (bl_previousBlockHash b) (m_commitmentIndex s)"
  have coinbase: "coinbase = reward - min fees reward + sum_list (map snd ?rewards)"
    using assms(1-3) by (auto simp: validate_miner_transaction_def Let_def fees_def drip_def coinbase_def split: if_splits option.splits)
  have big: "unat fees + unat drip + unat reward < 18446744073709551616" using assms(10) by simp
  have sum: "unat (fees + drip) = unat fees + unat drip" by (subst unat_add_no_wrap) (use big in simp_all)
  have sub: "unat (reward - min fees reward) = unat reward - min (unat fees) (unat reward)"
    by (simp add: unat_sub min_def word_le_nat_alt)
  have paid: "sum_list (map snd ?rewards) = fees + drip"
    using efier_total [OF assms(4,5), of "cr_parse_address cr" "fees + drip"] assms(11,12) unfolding efiers_def [symmetric] sum by simp
  show ?thesis
    unfolding coinbase paid using big sub sum by (auto simp: unat_add_no_wrap)
qed

theorem coinbase_v10_exact_witness:
  "\<exists>cr mem c reward change. validate_miner_transaction cr mem (payout_block 76302029) 10 1000 0 0 [] (payout_chain c) = Some (reward, change) \<and>
     unat (76302029 :: u64) = unat reward + 8000"
proof -
  fix mem c and a :: AccountPublicAddress
  let ?cr = "sample_crypto\<lparr>cr_parse_address := \<lambda>_. Some a\<rparr>" and ?s = "payout_chain c"
  have e: "active_efiers (\<lambda>_. Some a) (stakes 20) = [(0, a)]"
    by (simp add: active_efiers_def stakes_registered om_values_def new_registration_def om_find_def map_filter_simps)
  have fees: "computeBankingFeesFromTransactions mem [] (m_activeEfierCount ?s) = 0"
    by (simp add: computeBankingFeesFromTransactions_def)
  have z: "\<not> is_in_checkpoint_zone 10 (m_checkpoints ?s)" by (simp add: payout_chain_simps is_in_checkpoint_zone_def)
  have ok: "validate_miner_transaction ?cr mem (payout_block 76302029) 10 1000 0 0 [] ?s = Some (76294029, 76294029)"
    using z by (simp add: validate_miner_transaction_def Let_def fees payout_chain_simps payout_reward payout_block_def
      computePerBlockEfierRewards_def e get_last_n_blocks_sizes_def medianValue_def getBurnedXfgAtHeight_def BankingIndex_new_def word_gt_0)
  have "unat (76302029 :: u64) = unat (76294029 :: u64) + 8000"
    using coinbase_v10_exact [OF ok z, of accept_all] stakes_reachable [of 20]
    by (simp add: fees payout_chain_simps e payout_block_def)
  then show ?thesis using ok by blast
qed

text \<open>
  C34: a deposit can be transferred before it is mature. For the same ring, without slashed members and with one that is
  not burned, the transfer is accepted as soon as the ring signature verifies, while the redemption is refused as long as
  one member has not reached its term. Nothing in the check of the transaction ties the new term to an output.
\<close>

theorem transfer_ignores_maturity:
  fixes ixs :: "u32 list"
  assumes "m_commitmentOutputs s amount = Some refs"
  defines "ring \<equiv> absolute_indexes 0 ixs"
  assumes "\<forall>i \<in> set ring. unat i < length refs \<and> \<not> co_isSlashed (refs ! unat i)"
    and "\<exists>i \<in> set ring. co_term (refs ! unat i) \<noteq> DEPOSIT_TERM_FOREVER"
    and "\<exists>i \<in> set ring. \<not> mature (getCurrentBlockchainHeight s) (refs ! unat i)"
    and "cr_scalarmultKey cr keyImage curve_order = curve_identity" "length sig = length ixs" "0 < newTerm"
    and "cr_check_ring_signature cr h keyImage (map (\<lambda>i. co_commitKey (refs ! unat i)) ring) sig"
  shows "checkCommitmentTransferInput cr amount ixs keyImage newTerm h sig 0 s \<noteq> None \<and>
    checkCommitmentSpendInput cr amount ixs keyImage interest h sig 0 s = None"
proof
  obtain h' where "transfer_ring refs ring ([], False, 0) = Some (map (\<lambda>i. co_commitKey (refs ! unat i)) ring, True, h')"
    using transfer_ring_complete [OF assms(3), of "[]" False 0] assms(4) by auto
  then show "checkCommitmentTransferInput cr amount ixs keyImage newTerm h sig 0 s \<noteq> None"
    using assms(1,6-9) by (simp add: checkCommitmentTransferInput_def ring_def CD_TRANSFER_MIN_REMAINING_TERM_def word_less_1 word_gt_0)
  have "spend_ring (getCurrentBlockchainHeight s) refs ring acc = None" for acc
    using spend_ring_sound [of "getCurrentBlockchainHeight s" refs ring] assms(5)
    by (cases "spend_ring (getCurrentBlockchainHeight s) refs ring acc"; cases acc) fastforce+
  then show "checkCommitmentSpendInput cr amount ixs keyImage interest h sig 0 s = None"
    using assms(1) by (simp add: checkCommitmentSpendInput_def ring_def Let_def)
qed

theorem transfer_ignores_maturity_witness:
  "\<exists>c. checkCommitmentTransferInput sample_crypto 800 [0] [9] 1 [] [[]] 0 (sample_chain 500 c) \<noteq> None \<and>
     checkCommitmentSpendInput sample_crypto 800 [0] [9] 0 [] [[]] 0 (sample_chain 500 c) = None"
proof -
  fix c
  show ?thesis
    using transfer_ignores_maturity [of "sample_chain 500 c" 800 "[sample_ref 500]" "[0]" sample_crypto "[9]" "[[]]" 1 "[]" 0]
    by (auto simp: sample_ref_def sample_crypto_def mature_def DEPOSIT_TERM_FOREVER_def Let_def word_less_nat_alt)
qed

end
