(* ===== verification/Miner_Transaction.thy ===== *)
theory Miner_Transaction
  imports Chain_Validation
begin

text \<open>
  The coinbase transaction that a node builds for its own blocks: \<open>Currency::constructMinerTx\<close>
  (\<open>src/src/CryptoNoteCore/Currency.cpp\<close>) and the part of \<open>core::get_block_template\<close>
  (\<open>src/src/CryptoNoteCore/Core.cpp\<close>) that computes the shares of the Elderfiers and fits the size of the coinbase.

  The derivation of one-time keys is a parameter (\<open>KeyFunctions\<close>), as are the key pairs drawn by \<open>generateKeyPair\<close>,
  one for each call. A coinbase that cannot be built is \<open>None\<close>.
\<close>

record KeyFunctions =
  kf_generate_key_derivation :: "public_key \<Rightarrow> secret_key \<Rightarrow> bytes option"
  kf_derive_public_key :: "bytes \<Rightarrow> u64 \<Rightarrow> public_key \<Rightarrow> public_key option"

section \<open>The coinbase\<close>

text \<open>The loop that merges the last two amounts until at most \<open>maxOuts\<close> are left. It runs only with \<open>1 \<le> maxOuts\<close>, so
  that two amounts are there.\<close>

function merge_amounts :: "nat \<Rightarrow> u64 list \<Rightarrow> u64 list" where
  "merge_amounts maxOuts outAmounts =
     (if maxOuts < length outAmounts \<and> 2 \<le> length outAmounts
      then merge_amounts maxOuts
        ((butlast outAmounts)[length outAmounts - 2 := outAmounts ! (length outAmounts - 2) + last outAmounts])
      else outAmounts)"
  by auto
termination by (relation "measure (\<lambda>(_, xs). length xs)") auto

declare merge_amounts.simps [simp del]

text \<open>One output for each address and amount, with the one-time key of its position.\<close>

fun add_outputs :: "KeyFunctions \<Rightarrow> secret_key \<Rightarrow> u64 \<Rightarrow> (AccountPublicAddress \<times> u64) list \<Rightarrow> TransactionOutput list option" where
  "add_outputs kf secret outputIndex [] = Some []"
| "add_outputs kf secret outputIndex ((address, amount) # rest) =
     (case kf_generate_key_derivation kf (ad_viewPublicKey address) secret of
        None \<Rightarrow> None
      | Some derivation \<Rightarrow>
          (case kf_derive_public_key kf derivation outputIndex (ad_spendPublicKey address) of
             None \<Rightarrow> None
           | Some outEphemeralPubKey \<Rightarrow>
               map_option (Cons \<lparr>out_amount = amount, out_target = KeyOutput outEphemeralPubKey\<rparr>)
                 (add_outputs kf secret (outputIndex + 1) rest)))"

definition miner_share :: "u8 \<Rightarrow> u64 \<Rightarrow> u64 \<Rightarrow> u64" where
  "miner_share blockMajorVersion blockReward efierTotal =
     (if 10 \<le> blockMajorVersion \<and> 0 < efierTotal \<and> efierTotal \<le> blockReward then blockReward - efierTotal else blockReward)"

definition coinbase_amounts :: "u8 \<Rightarrow> u64 \<Rightarrow> Currency \<Rightarrow> u64 list" where
  "coinbase_amounts blockMajorVersion minerReward c =
     (if 11 \<le> blockMajorVersion then decompose_amount_uniform minerReward (cur_defaultDustThreshold c)
      else decomposeAmount minerReward (cur_defaultDustThreshold c))"

definition constructMinerTx ::
  "KeyFunctions \<Rightarrow> KeyPair \<Rightarrow> u8 \<Rightarrow> u32 \<Rightarrow> u64 \<Rightarrow> u64 \<Rightarrow> u64 \<Rightarrow> u64 \<Rightarrow> AccountPublicAddress \<Rightarrow> bytes \<Rightarrow> nat \<Rightarrow> u64 \<Rightarrow>
   (AccountPublicAddress \<times> u64) list \<Rightarrow> Currency \<Rightarrow> Transaction \<Rightarrow> Transaction option" where
  "constructMinerTx kf txkey blockMajorVersion height medianSize alreadyGeneratedCoins currentBlockSize fee minerAddress
     extraNonce maxOuts burnedCoinsOverride efierRewards c tx =
     (let extra = addTransactionPublicKeyToExtra [] (kp_publicKey txkey);
          (ok, extra') = (if extraNonce = [] then (True, extra) else addExtraNonceToTransactionExtra extra extraNonce)
      in if \<not> ok then None
         else
           case getBlockReward blockMajorVersion medianSize currentBlockSize alreadyGeneratedCoins fee height burnedCoinsOverride c of
             None \<Rightarrow> None
           | Some (blockReward, emissionChange) \<Rightarrow>
               let efierTotal = sum_list (map snd efierRewards);
                   minerReward = miner_share blockMajorVersion blockReward efierTotal;
                   outAmounts = coinbase_amounts blockMajorVersion minerReward c
               in if maxOuts < 1 then None
                  else
                    let outAmounts' = merge_amounts maxOuts outAmounts
                    in case add_outputs kf (kp_secretKey txkey) 0 (map (\<lambda>a. (minerAddress, a)) outAmounts') of
                         None \<Rightarrow> None
                       | Some minerOuts \<Rightarrow>
                           (case add_outputs kf (kp_secretKey txkey) (of_nat (length minerOuts)) efierRewards of
                              None \<Rightarrow> None
                            | Some efierOuts \<Rightarrow>
                                let outs = minerOuts @ efierOuts
                                in if sum_list (map out_amount outs) \<noteq> minerReward + efierTotal then None
                                   else Some (tx\<lparr>tx_version := 1, tx_unlockTime := ucast height + cur_minedMoneyUnlockWindow c,
                                     tx_inputs := [BaseInput height], tx_outputs := outs, tx_extra := extra'\<rparr>)))"

section \<open>The template\<close>

text \<open>The banking fees of the transactions of the template and the shares of the Elderfiers.\<close>

definition template_rewards ::
  "CryptoFunctions \<Rightarrow> TransactionExtraElderfierMessage \<Rightarrow> u8 \<Rightarrow> hash \<Rightarrow> Transaction list \<Rightarrow> Blockchain \<Rightarrow> (AccountPublicAddress \<times> u64) list" where
  "template_rewards cr mem majorVersion previousBlockHash blockTxs s =
     (if 10 \<le> majorVersion
      then
        let bankingFeesInBlock = computeBankingFeesFromTransactions mem blockTxs (m_activeEfierCount s);
            totalEfierInput = bankingFeesInBlock + m_efierSwapRewardPerBlock s
        in if 0 < totalEfierInput
           then computePerBlockEfierRewards (cr_parse_address cr) (cur_defaultDustThreshold (m_currency s)) totalEfierInput
             previousBlockHash (m_commitmentIndex s)
           else []
      else [])"

text \<open>The loop of ten attempts that makes the size of the block the one the reward was computed for; \<open>build n size\<close> is
  the call of \<open>constructMinerTx\<close> of attempt \<open>n\<close>.\<close>

definition coinbase_size :: "Transaction \<Rightarrow> u64" where
  "coinbase_size tx = getObjectBinarySize (wr_Transaction tx)"

fun fit_coinbase :: "(nat \<Rightarrow> u64 \<Rightarrow> Transaction option) \<Rightarrow> u64 \<Rightarrow> nat \<Rightarrow> u64 \<Rightarrow> Transaction option" where
  "fit_coinbase build txs_size 0 cumulative_size = None"
| "fit_coinbase build txs_size (Suc tries) cumulative_size =
     (case build (Suc tries) cumulative_size of
        None \<Rightarrow> None
      | Some tx \<Rightarrow>
          let coinbase_blob_size = coinbase_size tx
          in if cumulative_size - txs_size < coinbase_blob_size
             then fit_coinbase build txs_size tries (txs_size + coinbase_blob_size)
             else if coinbase_blob_size < cumulative_size - txs_size
             then
               let delta = cumulative_size - txs_size - coinbase_blob_size;
                   padded = tx\<lparr>tx_extra := tx_extra tx @ replicate (unat delta) 0\<rparr>
               in if cumulative_size \<noteq> txs_size + coinbase_size padded
                  then
                    if cumulative_size + 1 \<noteq> txs_size + coinbase_size padded then None
                    else
                      let shorter = padded\<lparr>tx_extra := butlast (tx_extra padded)\<rparr>
                      in if cumulative_size \<noteq> txs_size + coinbase_size shorter
                         then fit_coinbase build txs_size tries (cumulative_size + (delta - 1))
                         else Some shorter
                  else Some padded
             else if cumulative_size = txs_size + coinbase_size tx then Some tx
             else None)"

definition getCoinsInCirculation :: "Blockchain \<Rightarrow> u64" where
  "getCoinsInCirculation s = (if m_blocks s = [] then 0 else en_already_generated_coins (last (m_blocks s)))"

text \<open>The coinbase of \<open>get_block_template\<close> for the transactions \<open>blockTxs\<close> of size \<open>txs_size\<close> and fees \<open>fee\<close>; the key pair
  of attempt \<open>n\<close> is \<open>keys n\<close>, that of the first construction \<open>keys 0\<close>.\<close>

definition template_coinbase ::
  "CryptoFunctions \<Rightarrow> KeyFunctions \<Rightarrow> (nat \<Rightarrow> KeyPair) \<Rightarrow> TransactionExtraElderfierMessage \<Rightarrow> AccountPublicAddress \<Rightarrow> bytes \<Rightarrow>
   Block \<Rightarrow> u32 \<Rightarrow> u64 \<Rightarrow> u64 \<Rightarrow> Transaction list \<Rightarrow> Blockchain \<Rightarrow> Block option" where
  "template_coinbase cr kf keys mem adr ex_nonce b height txs_size fee blockTxs s =
     (let median_size = m_current_block_cumul_sz_limit s div 2;
          burnedCoins = (if 0 < height then getBurnedXfgAtHeight (height - 1) (m_bankingIndex s) else 0);
          efierRewards = template_rewards cr mem (bl_majorVersion b) (bl_previousBlockHash b) blockTxs s;
          maxCoinbaseOuts = (if 11 \<le> bl_majorVersion b then 33 else 11);
          build = (\<lambda>n sz. constructMinerTx kf (keys n) (bl_majorVersion b) height median_size (getCoinsInCirculation s) sz fee adr
            ex_nonce maxCoinbaseOuts burnedCoins efierRewards (m_currency s) (bl_baseTransaction b))
      in case build 0 txs_size of
           None \<Rightarrow> None
         | Some tx \<Rightarrow>
             map_option (\<lambda>tx. b\<lparr>bl_baseTransaction := tx\<rparr>) (fit_coinbase build txs_size 10 (txs_size + coinbase_size tx)))"

subsection \<open>A sample chain\<close>

definition sample_keys :: KeyFunctions where
  "sample_keys = \<lparr>kf_generate_key_derivation = (\<lambda>_ _. Some []), kf_derive_public_key = (\<lambda>_ _ _. Some [7])\<rparr>"

text \<open>A chain of one block at which version 10 has started, with a reward of 9000 and a swap share of 8000.\<close>

definition template_chain :: "Currency \<Rightarrow> Blockchain" where
  "template_chain c = update_next_comulative_size_limit
     ((Blockchain_new False 10 null_pod (c\<lparr>cur_upgradeHeightV9 := 0, cur_upgradeHeightV10 := 0, cur_blockGrantedFullRewardZone := 430080,
        cur_emissionSpeedFactor_FUEGO := 20, cur_moneySupply := 9437184000, cur_defaultDustThreshold := 1000,
        cur_rewardBlocksWindow := 100, cur_minedMoneyUnlockWindow := 60\<rparr>))
       \<lparr>m_commitmentIndex := stakes 20, m_efierSwapRewardPerBlock := 8000, m_blocks := [sample_deposit_entry 0]\<rparr>)"

definition template_tx :: Transaction where
  "template_tx = \<lparr>tx_version = 1, tx_unlockTime = 61, tx_inputs = [BaseInput 1],
     tx_outputs = [\<lparr>out_amount = 1000, out_target = KeyOutput [7]\<rparr>, \<lparr>out_amount = 8000, out_target = KeyOutput [7]\<rparr>],
     tx_extra = 1 # null_pod, tx_signatures = [[]]\<rparr>"

section \<open>Lemmas\<close>

subsection \<open>Amounts\<close>

lemma word_sum_list: "sum_list xs = of_nat (sum_list (map unat xs))" for xs :: "u64 list"
  by (induction xs) simp_all

lemma coinbase_amounts_sum: "sum_list (map unat (coinbase_amounts v reward c)) = unat reward"
  by (simp add: coinbase_amounts_def decompose_uniform_sum decomposeAmount_sum)

lemma merge_step:
  fixes xs :: "u64 list"
  assumes "2 \<le> length xs"
  obtains ys a b where "xs = ys @ [a, b]" "(butlast xs)[length xs - 2 := xs ! (length xs - 2) + last xs] = ys @ [a + b]"
proof -
  obtain zs b where z: "xs = zs @ [b]" using assms by (cases xs rule: rev_cases) auto
  obtain ys a where "zs = ys @ [a]" using assms z by (cases zs rule: rev_cases) auto
  then show ?thesis using z by (intro that [of ys a b]) (auto simp: nth_append list_update_append butlast_append)
qed

lemma merge_amounts_spec:
  assumes "1 \<le> maxOuts" "sum_list (map unat xs) < 2 ^ 64"
  shows "sum_list (map unat (merge_amounts maxOuts xs)) = sum_list (map unat xs) \<and> length (merge_amounts maxOuts xs) \<le> max 1 maxOuts \<and>
    (0 \<notin> set xs \<longrightarrow> 0 \<notin> set (merge_amounts maxOuts xs))"
  using assms
proof (induction maxOuts xs rule: merge_amounts.induct)
  case (1 maxOuts xs)
  show ?case
  proof (cases "maxOuts < length xs")
    case True
    then have l: "2 \<le> length xs" using 1(2) by simp
    obtain ys a b where x: "xs = ys @ [a, b]" and m: "(butlast xs)[length xs - 2 := xs ! (length xs - 2) + last xs] = ys @ [a + b]"
      by (rule merge_step [OF l])
    have ab: "unat (a + b) = unat a + unat b" using 1(3) x by (intro unat_add_no_wrap) simp
    then have nz: "a \<noteq> 0 \<Longrightarrow> a + b \<noteq> 0" by (metis add_is_0 unat_eq_zero)
    have "merge_amounts maxOuts xs = merge_amounts maxOuts (ys @ [a + b])"
      using True l m by (subst merge_amounts.simps) simp
    moreover have "sum_list (map unat (ys @ [a + b])) = sum_list (map unat xs)" using x ab by simp
    ultimately show ?thesis using 1(1) [OF conjI [OF True l]] 1(2,3) x m nz by auto
  next
    case False
    then show ?thesis by (simp add: merge_amounts.simps)
  qed
qed

lemma decomposeAmount_pos: "0 \<notin> set (decomposeAmount a t)"
proof -
  have "is_digit_amount c \<Longrightarrow> c \<noteq> 0" for c by (auto simp: is_digit_amount_def)
  then show ?thesis
    using digits_loop_parts [OF digit_state_start, where h = False and a = a and t = t]
    by (force simp: decomposeAmount_def decompose_digits_loop split: decomposed.splits)
qed

lemma decompose_uniform_pos: "0 \<notin> set (decompose_amount_uniform a t)"
proof (cases "push_tiers tiers t a")
  case (Pair out rest)
  note p = push_tiers_spec [OF Pair]
  have pos: "0 \<notin> set out" using p by (auto simp: tiers_def)
  have "last out + rest \<noteq> 0" if ne: "out \<noteq> []" and some: "0 < rest"
  proof -
    obtain ys y where "out = ys @ [y]" using ne by (meson rev_exhaust)
    then have "unat (last out) + unat rest < 2 ^ 64" using p unat_u64_bound [of a] by (simp del: unat_u64_bound)
    then show ?thesis using some by (auto simp: word_gt_0 unat_add_no_wrap simp flip: unat_eq_0)
  qed
  then show ?thesis using Pair pos by (auto simp: decompose_amount_uniform_def dest: in_set_butlastD)
qed

lemma coinbase_amounts_pos: "0 \<notin> set (coinbase_amounts v reward c)"
  by (simp add: coinbase_amounts_def decompose_uniform_pos decomposeAmount_pos)

subsection \<open>Outputs\<close>

lemma add_outputs_amounts: "add_outputs kf k i xs = Some outs \<Longrightarrow> map out_amount outs = map snd xs"
  by (induction kf k i xs arbitrary: outs rule: add_outputs.induct) (auto split: option.splits)

lemma add_outputs_total:
  assumes "\<forall>x \<in> set xs. kf_generate_key_derivation kf (ad_viewPublicKey (fst x)) k \<noteq> None"
    and "\<forall>x \<in> set xs. \<forall>d i. kf_derive_public_key kf d i (ad_spendPublicKey (fst x)) \<noteq> None"
  shows "\<exists>outs. add_outputs kf k i xs = Some outs"
  using assms
proof (induction xs arbitrary: i)
  case (Cons x xs)
  obtain d key where "kf_generate_key_derivation kf (ad_viewPublicKey (fst x)) k = Some d"
    "kf_derive_public_key kf d i (ad_spendPublicKey (fst x)) = Some key"
    using Cons.prems by (meson list.set_intros(1) not_None_eq)
  then show ?case using Cons.IH [of "i + 1"] Cons.prems by (cases x) auto
qed simp

lemma add_outputs_keys:
  "add_outputs kf k i xs = Some outs \<Longrightarrow>
   \<forall>out \<in> set outs. \<exists>d j spend key. out_target out = KeyOutput key \<and> kf_derive_public_key kf d j spend = Some key"
  by (induction kf k i xs arbitrary: outs rule: add_outputs.induct) (fastforce split: option.splits)+

lemma constructMinerTx_cases:
  assumes "constructMinerTx kf txkey v height median already sz fee adr nonce maxOuts burned rewards c tx = Some tx'"
  obtains reward change minerOuts efierOuts where
    "getBlockReward v median sz already fee height burned c = Some (reward, change)" "1 \<le> maxOuts"
    "tx_inputs tx' = [BaseInput height]" "tx_unlockTime tx' = ucast height + cur_minedMoneyUnlockWindow c" "tx_version tx' = 1"
    "tx_signatures tx' = tx_signatures tx" "tx_outputs tx' = minerOuts @ efierOuts"
    "map out_amount minerOuts = merge_amounts maxOuts (coinbase_amounts v (miner_share v reward (sum_list (map snd rewards))) c)"
    "map out_amount efierOuts = map snd rewards"
    "sum_list (map out_amount (tx_outputs tx')) = miner_share v reward (sum_list (map snd rewards)) + sum_list (map snd rewards)"
    "\<forall>out \<in> set (tx_outputs tx'). \<exists>d j spend key. out_target out = KeyOutput key \<and> kf_derive_public_key kf d j spend = Some key"
proof -
  define total where "total = sum_list (map snd rewards)"
  obtain ok ex where e: "(if nonce = [] then (True, addTransactionPublicKeyToExtra [] (kp_publicKey txkey))
      else addExtraNonceToTransactionExtra (addTransactionPublicKeyToExtra [] (kp_publicKey txkey)) nonce) = (ok, ex)"
    by fastforce
  have ok: ok using assms by (simp add: constructMinerTx_def Let_def e split: if_splits)
  obtain reward change where r: "getBlockReward v median sz already fee height burned c = Some (reward, change)"
    using assms by (auto simp: constructMinerTx_def Let_def e ok split: option.splits)
  define amounts where "amounts = merge_amounts maxOuts (coinbase_amounts v (miner_share v reward total) c)"
  have m: "1 \<le> maxOuts" using assms by (cases "maxOuts < 1") (simp_all add: constructMinerTx_def Let_def e ok r)
  note step = assms [unfolded constructMinerTx_def Let_def e prod.case r option.case total_def [symmetric] amounts_def [symmetric]]
  obtain mo where mo: "add_outputs kf (kp_secretKey txkey) 0 (map (\<lambda>a. (adr, a)) amounts) = Some mo"
    using step ok m by (cases "add_outputs kf (kp_secretKey txkey) 0 (map (\<lambda>a. (adr, a)) amounts)") simp_all
  obtain eo where eo: "add_outputs kf (kp_secretKey txkey) (of_nat (length mo)) rewards = Some eo"
    using step ok m mo by (cases "add_outputs kf (kp_secretKey txkey) (of_nat (length mo)) rewards") simp_all
  have sum: "sum_list (map out_amount (mo @ eo)) = miner_share v reward total + total"
    using step ok m mo eo by (cases "sum_list (map out_amount (mo @ eo)) = miner_share v reward total + total") simp_all
  have tx: "tx' = tx\<lparr>tx_version := 1, tx_unlockTime := ucast height + cur_minedMoneyUnlockWindow c,
      tx_inputs := [BaseInput height], tx_outputs := mo @ eo, tx_extra := ex\<rparr>"
    using step ok m [folded not_less] mo eo sum by (simp only: option.case simp_thms if_True if_False option.inject)
  show ?thesis
  proof (rule that [OF r m])
    show "map out_amount mo = merge_amounts maxOuts (coinbase_amounts v (miner_share v reward (sum_list (map snd rewards))) c)"
      using add_outputs_amounts [OF mo] by (simp add: amounts_def total_def comp_def)
    show "\<forall>out \<in> set (tx_outputs tx'). \<exists>d j spend key. out_target out = KeyOutput key \<and> kf_derive_public_key kf d j spend = Some key"
      using add_outputs_keys [OF mo] add_outputs_keys [OF eo] by (auto simp: tx)
    show "map out_amount eo = map snd rewards" by (rule add_outputs_amounts [OF eo])
    show "sum_list (map out_amount (tx_outputs tx')) = miner_share v reward (sum_list (map snd rewards)) + sum_list (map snd rewards)"
    proof -
      have "tx_outputs tx' = mo @ eo" by (simp add: tx)
      then show ?thesis using sum by (simp only: total_def)
    qed
  qed (simp_all add: tx)
qed

lemma constructMinerTx_total:
  assumes "getBlockReward v median sz already fee height burned c = Some (reward, change)" "1 \<le> maxOuts" "length nonce \<le> 255"
    and "\<forall>a \<in> insert adr (fst ` set rewards). kf_generate_key_derivation kf (ad_viewPublicKey a) (kp_secretKey txkey) \<noteq> None \<and>
      (\<forall>d i. kf_derive_public_key kf d i (ad_spendPublicKey a) \<noteq> None)"
  shows "\<exists>tx'. constructMinerTx kf txkey v height median already sz fee adr nonce maxOuts burned rewards c tx = Some tx'"
proof -
  define total where "total = sum_list (map snd rewards)"
  define reward' where "reward' = miner_share v reward total"
  define amounts where "amounts = merge_amounts maxOuts (coinbase_amounts v reward' c)"
  obtain mo where mo: "add_outputs kf (kp_secretKey txkey) 0 (map (\<lambda>a. (adr, a)) amounts) = Some mo"
    using add_outputs_total [of "map (\<lambda>a. (adr, a)) amounts" kf "kp_secretKey txkey" 0] assms(4) by auto
  obtain eo where eo: "add_outputs kf (kp_secretKey txkey) (of_nat (length mo)) rewards = Some eo"
    using add_outputs_total [of rewards kf "kp_secretKey txkey"] assms(4) by force
  have "sum_list (map unat (coinbase_amounts v reward' c)) < 2 ^ 64" by (simp add: coinbase_amounts_sum)
  then have "sum_list (map unat amounts) = unat reward'"
    using merge_amounts_spec [OF assms(2)] unfolding amounts_def by (simp add: coinbase_amounts_sum)
  then have "sum_list amounts = reward'" by (simp add: word_sum_list)
  then have "sum_list (map out_amount (mo @ eo)) = reward' + total"
    using add_outputs_amounts [OF mo] add_outputs_amounts [OF eo] by (simp add: total_def comp_def)
  then show ?thesis
    using assms(1-3) mo eo
    by (simp add: constructMinerTx_def addExtraNonceToTransactionExtra_def TX_EXTRA_NONCE_MAX_COUNT_def
      amounts_def reward'_def total_def Let_def)
qed

lemma fit_choice:
  assumes "(if p then a1 else if q then (if r then (if u then None else if v then a2 else Some x) else Some y)
      else if w then Some z else None) = Some tx"
  shows "a1 = Some tx \<or> a2 = Some tx \<or> \<not> v \<and> tx = x \<or> \<not> r \<and> tx = y \<or> w \<and> tx = z"
  using assms by (cases p; cases q; cases r; cases u; cases v; cases w) simp_all

lemma extra_twice: "tx\<lparr>tx_extra := a, tx_extra := b\<rparr> = tx\<lparr>tx_extra := b\<rparr>" for tx :: Transaction
  by simp

lemma fit_coinbase_exact:
  "fit_coinbase build txs_size tries sz = Some tx \<Longrightarrow>
   \<exists>n tx0 ex. build n (txs_size + coinbase_size tx) = Some tx0 \<and> tx = tx0\<lparr>tx_extra := ex\<rparr>"
proof (induction tries arbitrary: sz)
  case (Suc tries)
  obtain t where t: "build (Suc tries) sz = Some t" using Suc.prems by (auto split: option.splits)
  have stop: ?case if "\<not> sz \<noteq> txs_size + coinbase_size x" "tx = x" "x = t\<lparr>tx_extra := ex\<rparr>" for x ex
    using t that by blast
  have again: ?case if "fit_coinbase build txs_size tries z = Some tx" for z using Suc.IH that by blast
  have same: "t = t\<lparr>tx_extra := tx_extra t\<rparr>" by simp
  from fit_choice [OF Suc.prems [unfolded fit_coinbase.simps t option.case Let_def]] show ?case
  proof (elim disjE conjE, goal_cases)
    case 3
    then show ?case by (rule stop) (rule extra_twice)
  next
    case 4
    then show ?case by (rule stop) (rule refl)
  next
    case 5
    then show ?case by (intro stop [OF _ _ same]) simp_all
  qed (erule again)+
qed simp

lemma template_total:
  fixes mem :: TransactionExtraElderfierMessage and txs :: "Transaction list" and cr :: CryptoFunctions
  assumes "ci_reachable cs (m_commitmentIndex s)" "0 < cur_defaultDustThreshold (m_currency s)"
  defines "input \<equiv> computeBankingFeesFromTransactions mem txs (m_activeEfierCount s) + m_efierSwapRewardPerBlock s"
    and "efiers \<equiv> active_efiers (cr_parse_address cr) (m_commitmentIndex s)"
  shows "sum_list (map snd (template_rewards cr mem v prev txs s)) =
    (if 10 \<le> v \<and> efiers \<noteq> [] \<and> unat (cur_defaultDustThreshold (m_currency s)) \<le> unat input div length efiers then input else 0)"
  using assms(2) efier_total [OF assms(1,2), of "cr_parse_address cr" input prev]
  by (auto simp: template_rewards_def Let_def input_def [symmetric] efiers_def word_gt_0)

lemma template_coinbase_built:
  assumes "template_coinbase cr kf keys mem adr nonce b height txs_size fee txs s = Some b'"
  defines "rewards \<equiv> template_rewards cr mem (bl_majorVersion b) (bl_previousBlockHash b) txs s"
    and "burned \<equiv> (if 0 < height then getBurnedXfgAtHeight (height - 1) (m_bankingIndex s) else 0)"
    and "cumulative \<equiv> txs_size + coinbase_size (bl_baseTransaction b')"
  obtains reward change where
    "getBlockReward (bl_majorVersion b) (m_current_block_cumul_sz_limit s div 2) cumulative (getCoinsInCirculation s) fee height burned
      (m_currency s) = Some (reward, change)"
    "bl_previousBlockHash b' = bl_previousBlockHash b"
    "sum_list (map out_amount (tx_outputs (bl_baseTransaction b'))) =
      miner_share (bl_majorVersion b) reward (sum_list (map snd rewards)) + sum_list (map snd rewards)"
proof -
  define build where "build n sz = constructMinerTx kf (keys n) (bl_majorVersion b) height (m_current_block_cumul_sz_limit s div 2)
    (getCoinsInCirculation s) sz fee adr nonce (if 11 \<le> bl_majorVersion b then 33 else 11) burned rewards (m_currency s)
    (bl_baseTransaction b)" for n sz
  obtain tx z where tx: "fit_coinbase build txs_size 10 z = Some tx" and b': "b' = b\<lparr>bl_baseTransaction := tx\<rparr>"
    using assms(1)
    by (auto simp: template_coinbase_def Let_def build_def [abs_def] burned_def rewards_def simp del: fit_coinbase.simps split: option.splits)
  obtain n tx0 ex where built: "build n cumulative = Some tx0" and ex: "tx = tx0\<lparr>tx_extra := ex\<rparr>"
    using fit_coinbase_exact [OF tx] by (auto simp: cumulative_def b')
  show ?thesis
    by (rule constructMinerTx_cases [OF built [unfolded build_def]], rule that) (simp_all add: b' ex)
qed

lemma limit_reward:
  assumes "m_current_block_cumul_sz_limit s = m_current_block_cumul_sz_limit (update_next_comulative_size_limit s)"
  defines "median \<equiv> medianValue (get_last_n_blocks_sizes (unat (cur_rewardBlocksWindow (m_currency s))) s)"
    and "v \<equiv> getBlockMajorVersionForHeight (of_nat (length (m_blocks s))) s"
  assumes "unat (max median (blockGrantedFullRewardZoneByBlockVersion v (m_currency s))) < 2 ^ 63"
  shows "getBlockReward v (m_current_block_cumul_sz_limit s div 2) sz already fee height burned (m_currency s) =
    getBlockReward v median sz already fee height burned (m_currency s)"
proof -
  let ?zone = "blockGrantedFullRewardZoneByBlockVersion v (m_currency s)"
  have "m_current_block_cumul_sz_limit s = max median ?zone * 2"
    unfolding assms(1) by (simp add: update_next_comulative_size_limit_def Let_def median_def v_def max_def)
  moreover have "unat (max median ?zone * 2) = unat (max median ?zone) * 2"
    using assms(4) by (subst unat_mult_no_wrap) simp_all
  ultimately have "m_current_block_cumul_sz_limit s div 2 = max median ?zone"
    by (simp add: word_arith_nat_div)
  then show ?thesis by (simp add: getBlockReward_def)
qed

section \<open>Properties\<close>

text \<open>
  C13: the coinbase can always be built and passes the first check of a block. When the block is not too big, the nonce
  fits, and the addresses of the miner and of the Elderfiers are valid keys whose one-time keys are valid, then the
  transaction is built: the amounts add up to the share of the miner plus the rewards, at most \<open>maxOuts\<close> outputs go to
  the miner, and the result passes \<open>prevalidate_miner_transaction\<close>.
\<close>

theorem coinbase_prevalidated:
  assumes "getBlockReward v median sz already fee height burned (m_currency s) = Some (reward, change)"
    and "1 \<le> maxOuts" "length nonce \<le> 255"
    and "\<forall>a \<in> insert adr (fst ` set rewards). kf_generate_key_derivation kf (ad_viewPublicKey a) (kp_secretKey txkey) \<noteq> None \<and>
      (\<forall>d i. kf_derive_public_key kf d i (ad_spendPublicKey a) \<noteq> None)"
    and "\<forall>d i k key. kf_derive_public_key kf d i k = Some key \<longrightarrow> cr_check_key cr key"
    and "\<forall>r \<in> set rewards. snd r \<noteq> 0"
    and "unat reward + sum_list (map (\<lambda>r. unat (snd r)) rewards) < 2 ^ 64"
  shows "\<exists>tx'. constructMinerTx kf txkey v height median already sz fee adr nonce maxOuts burned rewards (m_currency s) tx = Some tx' \<and>
    prevalidate_miner_transaction cr (b\<lparr>bl_baseTransaction := tx'\<rparr>) height s \<and>
    length (tx_outputs tx') \<le> maxOuts + length rewards \<and>
    sum_list (map (\<lambda>out. unat (out_amount out)) (tx_outputs tx')) =
      unat (miner_share v reward (sum_list (map snd rewards))) + sum_list (map (\<lambda>r. unat (snd r)) rewards)"
proof -
  define share where "share = miner_share v reward (sum_list (map snd rewards))"
  obtain tx' where tx': "constructMinerTx kf txkey v height median already sz fee adr nonce maxOuts burned rewards (m_currency s) tx = Some tx'"
    using constructMinerTx_total [OF assms(1-4)] by blast
  obtain mo eo where t: "tx_inputs tx' = [BaseInput height]" "tx_unlockTime tx' = ucast height + cur_minedMoneyUnlockWindow (m_currency s)"
      "tx_outputs tx' = mo @ eo"
    and mo: "map out_amount mo = merge_amounts maxOuts (coinbase_amounts v share (m_currency s))"
    and eo: "map out_amount eo = map snd rewards"
    and keys: "\<forall>out \<in> set (tx_outputs tx'). \<exists>d j spend key. out_target out = KeyOutput key \<and> kf_derive_public_key kf d j spend = Some key"
    by (rule constructMinerTx_cases [OF tx']) (use assms(1) in \<open>auto simp: share_def\<close>)
  note merged = merge_amounts_spec [OF assms(2), of "coinbase_amounts v share (m_currency s)"]
  have share: "unat share \<le> unat reward" by (auto simp: share_def miner_share_def unat_sub word_le_nat_alt)
  have lengths: "length mo \<le> maxOuts" "length eo = length rewards"
    using merged coinbase_amounts_sum [of v share "m_currency s"] assms(2) arg_cong [OF mo, of length] arg_cong [OF eo, of length] by simp_all
  have sums: "sum_list (map unat (map out_amount mo)) = unat share"
      "sum_list (map unat (map out_amount eo)) = sum_list (map (\<lambda>r. unat (snd r)) rewards)"
    unfolding mo eo using merged coinbase_amounts_sum [of v share "m_currency s"] by (simp_all add: comp_def)
  have "0 \<notin> set (map out_amount mo)" "0 \<notin> set (map out_amount eo)"
    unfolding mo eo using merged coinbase_amounts_pos [of v share "m_currency s"] coinbase_amounts_sum [of v share "m_currency s"] assms(6) by auto
  then have "output_error (cr_check_key cr) (tx_version tx') out = None" if "out \<in> set (tx_outputs tx')" for out
    using that keys assms(5) unfolding t(3) by (fastforce simp: output_error_def)
  then have "outputs_error (cr_check_key cr) (tx_version tx') outs = None" if "set outs \<subseteq> set (tx_outputs tx')" for outs
    using that by (induction outs) auto
  then have "prevalidate_miner_transaction cr (b\<lparr>bl_baseTransaction := tx'\<rparr>) height s"
    using t share sums assms(7)
    by (simp add: prevalidate_miner_transaction_def check_outs_valid_def check_outs_overflow_def overflow_loop_iff)
  then show ?thesis
    using tx' t lengths sums by (auto simp: share_def comp_def)
qed

theorem coinbase_prevalidated_witness:
  "\<exists>c tx tx' b txkey adr. constructMinerTx sample_keys txkey 10 10 0 0 1000 0 adr [1, 2] 11 0 [(adr, 8000)] (m_currency (payout_chain c)) tx = Some tx' \<and>
    prevalidate_miner_transaction sample_crypto (b\<lparr>bl_baseTransaction := tx'\<rparr>) 10 (payout_chain c) \<and>
    sum_list (map (\<lambda>out. unat (out_amount out)) (tx_outputs tx')) = 76294029"
proof -
  fix c tx b txkey and adr :: AccountPublicAddress
  have r: "getBlockReward 10 0 1000 0 0 10 0 (m_currency (payout_chain c)) = Some (76294029, 76294029)" by (simp add: payout_reward)
  have s: "miner_share 10 76294029 8000 = 76286029" by (simp add: miner_share_def word_le_nat_alt word_less_nat_alt)
  show ?thesis
    using coinbase_prevalidated [OF r, of 11 "[1, 2]" adr "[(adr, 8000)]" sample_keys txkey sample_crypto tx b] s
    by (simp add: sample_keys_def sample_crypto_def) blast
qed

text \<open>
  C7: a node does not always accept its own template. Outside the checkpoint zone, for a template on top of the chain, the
  reward check accepts the coinbase up to block version 9. From version 10 on, when the banking fees and the swap share
  are paid out and within the reward, it is accepted only if no swap share is paid; and when they are not paid out, or
  exceed the reward, only if there are no banking fees or no reward.
\<close>

theorem template_acceptance:
  assumes "template_coinbase cr kf keys mem adr nonce b height txs_size fee txs s = Some b'"
    and "height = of_nat (length (m_blocks s))" "bl_majorVersion b = getBlockMajorVersionForHeight height s"
    and "m_current_block_cumul_sz_limit s = m_current_block_cumul_sz_limit (update_next_comulative_size_limit s)"
    and "\<not> is_in_checkpoint_zone height (m_checkpoints s)"
    and "ci_reachable cs (m_commitmentIndex s)" "0 < cur_defaultDustThreshold (m_currency s)"
  defines "median \<equiv> medianValue (get_last_n_blocks_sizes (unat (cur_rewardBlocksWindow (m_currency s))) s)"
    and "fees \<equiv> computeBankingFeesFromTransactions mem txs (m_activeEfierCount s)"
    and "drip \<equiv> m_efierSwapRewardPerBlock s"
    and "efiers \<equiv> active_efiers (cr_parse_address cr) (m_commitmentIndex s)"
    and "cumulative \<equiv> txs_size + coinbase_size (bl_baseTransaction b')"
    and "burned \<equiv> (if 0 < height then getBurnedXfgAtHeight (height - 1) (m_bankingIndex s) else 0)"
  assumes "unat (max median (blockGrantedFullRewardZoneByBlockVersion (bl_majorVersion b) (m_currency s))) < 2 ^ 63"
    and "unat fees + unat drip < 2 ^ 64"
  shows "\<exists>reward change. getBlockReward (bl_majorVersion b) median cumulative (getCoinsInCirculation s) fee height burned (m_currency s)
      = Some (reward, change) \<and>
    (validate_miner_transaction cr mem b' height cumulative (getCoinsInCirculation s) fee txs s \<noteq> None \<longleftrightarrow>
      bl_majorVersion b < 10 \<or>
      (if efiers \<noteq> [] \<and> unat (cur_defaultDustThreshold (m_currency s)) \<le> (unat fees + unat drip) div length efiers \<and> fees + drip \<le> reward
       then drip = 0 else fees = 0 \<or> reward = 0))"
proof -
  let ?v = "bl_majorVersion b" and ?dust = "cur_defaultDustThreshold (m_currency s)"
  define paid where "paid \<longleftrightarrow> efiers \<noteq> [] \<and> unat ?dust \<le> (unat fees + unat drip) div length efiers"
  have sum: "unat (fees + drip) = unat fees + unat drip" using assms(15) by (subst unat_add_no_wrap) simp_all
  have fees_le: "fees \<le> fees + drip" by (simp add: word_le_nat_alt sum)
  have efierTotal: "sum_list (map snd (computePerBlockEfierRewards (cr_parse_address cr) ?dust (fees + drip) (bl_previousBlockHash b) (m_commitmentIndex s)))
      = (if paid then fees + drip else 0)"
    using efier_total [OF assms(6,7), of "cr_parse_address cr" "fees + drip"] by (simp add: paid_def efiers_def sum)
  obtain reward change where r: "getBlockReward ?v (m_current_block_cumul_sz_limit s div 2) cumulative (getCoinsInCirculation s) fee height burned
        (m_currency s) = Some (reward, change)"
    and prev: "bl_previousBlockHash b' = bl_previousBlockHash b"
    and coinbase: "sum_list (map out_amount (tx_outputs (bl_baseTransaction b'))) =
      (let t = (if 10 \<le> ?v \<and> paid then fees + drip else 0) in miner_share ?v reward t + t)"
    by (rule template_coinbase_built [OF assms(1)])
      (use template_total [OF assms(6,7), where mem = mem and txs = txs and cr = cr and v = "bl_majorVersion b" and prev = "bl_previousBlockHash b"]
       in \<open>simp add: cumulative_def burned_def Let_def paid_def sum fees_def [symmetric] drip_def [symmetric] efiers_def [symmetric]\<close>)
  have r': "getBlockReward ?v median cumulative (getCoinsInCirculation s) fee height burned (m_currency s) = Some (reward, change)"
    using r limit_reward [OF assms(4)] assms(3,14) unfolding assms(2) median_def by metis
  define t where "t = (if paid then fees + drip else 0)"
  have accepted: "validate_miner_transaction cr mem b' height cumulative (getCoinsInCirculation s) fee txs s \<noteq> None \<longleftrightarrow>
      ?v < 10 \<or> miner_share ?v reward t + t = reward - min fees reward + t"
    using coinbase r' efierTotal
    by (cases "10 \<le> ?v") (simp_all add: validate_miner_transaction_def Let_def assms(5) prev t_def miner_share_def not_le not_less
      fees_def [symmetric] drip_def [symmetric] assms(3) [symmetric] median_def [symmetric] burned_def [symmetric])
  have "min fees reward = 0 \<longleftrightarrow> fees = 0 \<or> reward = 0" by (auto simp: min_def)
  moreover have "miner_share ?v reward t + t = reward - min fees reward + t \<longleftrightarrow>
      (if paid \<and> fees + drip \<le> reward then drip = 0 else min fees reward = 0)" if "\<not> ?v < 10"
    using fees_le that by (auto simp: miner_share_def t_def min_def not_le word_gt_0)
  ultimately have "validate_miner_transaction cr mem b' height cumulative (getCoinsInCirculation s) fee txs s \<noteq> None \<longleftrightarrow>
      ?v < 10 \<or> (if paid \<and> fees + drip \<le> reward then drip = 0 else fees = 0 \<or> reward = 0)"
    using accepted by (cases "?v < 10") simp_all
  then show ?thesis using r' by (auto simp: paid_def)
qed

lemma template_chain_simps:
  "m_blocks (template_chain c) = [sample_deposit_entry 0]" "m_checkpoints (template_chain c) = []"
  "m_commitmentIndex (template_chain c) = stakes 20" "m_efierSwapRewardPerBlock (template_chain c) = 8000"
  "m_bankingIndex (template_chain c) = BankingIndex_new" "getCoinsInCirculation (template_chain c) = 0"
  "cur_defaultDustThreshold (m_currency (template_chain c)) = 1000" "cur_minedMoneyUnlockWindow (m_currency (template_chain c)) = 60"
  "cur_rewardBlocksWindow (m_currency (template_chain c)) = 100"
  "blockGrantedFullRewardZoneByBlockVersion 10 (m_currency (template_chain c)) = 430080"
  by (simp_all add: template_chain_def update_next_comulative_size_limit_def Blockchain_new_def Let_def getCoinsInCirculation_def
    sample_deposit_entry_def blockGrantedFullRewardZoneByBlockVersion_def word_le_nat_alt)

lemma template_chain_version: "getBlockMajorVersionForHeight 1 (template_chain c) = 10"
  by (simp add: getBlockMajorVersionForHeight_def template_chain_def update_next_comulative_size_limit_def Blockchain_new_def
    ud_upgradeHeight_def upgradeHeight_def UpgradeDetector_new_def UNDEF_HEIGHT_def word_less_nat_alt Let_def)

lemma template_chain_limit: "m_current_block_cumul_sz_limit (template_chain c) = 860160"
proof -
  define s0 where "s0 = (Blockchain_new False 10 null_pod (c\<lparr>cur_upgradeHeightV9 := 0, cur_upgradeHeightV10 := 0,
    cur_blockGrantedFullRewardZone := 430080, cur_emissionSpeedFactor_FUEGO := 20, cur_moneySupply := 9437184000,
    cur_defaultDustThreshold := 1000, cur_rewardBlocksWindow := 100, cur_minedMoneyUnlockWindow := 60\<rparr>))
    \<lparr>m_commitmentIndex := stakes 20, m_efierSwapRewardPerBlock := 8000, m_blocks := [sample_deposit_entry 0]\<rparr>"
  have v: "getBlockMajorVersionForHeight 1 s0 = 10"
    by (simp add: s0_def getBlockMajorVersionForHeight_def Blockchain_new_def ud_upgradeHeight_def upgradeHeight_def
      UpgradeDetector_new_def UNDEF_HEIGHT_def word_less_nat_alt)
  have z: "blockGrantedFullRewardZoneByBlockVersion 10 (m_currency s0) = 430080" "length (m_blocks s0) = 1"
    by (simp_all add: s0_def Blockchain_new_def blockGrantedFullRewardZoneByBlockVersion_def word_le_nat_alt)
  have m: "medianValue (get_last_n_blocks_sizes (unat (cur_rewardBlocksWindow (m_currency s0))) s0) = 100"
    by (simp add: s0_def Blockchain_new_def get_last_n_blocks_sizes_def getBackwardBlocksSize_def medianValue_def sample_deposit_entry_def)
  have "template_chain c = update_next_comulative_size_limit s0" unfolding template_chain_def s0_def ..
  then show ?thesis by (simp add: update_next_comulative_size_limit_def v z m Let_def word_le_nat_alt)
qed

lemma template_chain_reward:
  assumes "sz \<le> 430080" "median \<le> 430080"
  shows "getBlockReward 10 median sz 0 0 1 0 (m_currency (template_chain c)) = Some (9000, 9000)"
proof -
  have "max median 430080 = 430080" using assms(2) by (rule max_absorb2)
  moreover
  have "\<not> 860160 < sz" "\<not> 430080 < sz" using assms(1) by (simp_all add: word_le_nat_alt word_less_nat_alt)
  ultimately show ?thesis
    by (simp add: getBlockReward_def template_chain_simps base_reward_def emissionSpeedFactor_def getPenalizedAmount_def Let_def)
      (simp add: template_chain_def update_next_comulative_size_limit_def Blockchain_new_def Let_def drop_bit_eq_div word_le_nat_alt word_less_nat_alt)
qed

lemma template_tx_size: "coinbase_size template_tx = 48"
  by (simp add: coinbase_size_def getObjectBinarySize_def wr_Transaction_def wr_TransactionPrefix_def template_tx_def wr_output_def Let_def
    wr_u8_def wr_u32_def wr_u64_def wr_vector_def wr_items_def wr_string_def wr_size_def null_pod_def writeVarint.simps word_le_nat_alt)

lemma thousand: "decomposeAmount 1000 1000 = [1000]"
  by (simp add: decomposeAmount_def decompose_amount_into_digits_def digits_loop.simps)

lemma template_built:
  assumes "sz \<le> 430080"
  shows "constructMinerTx sample_keys (key\<lparr>kp_publicKey := null_pod\<rparr>) 10 1 430080 0 sz 0 adr [] 11 0 [(a, 8000)]
    (m_currency (template_chain c)) sample_coinbase = Some template_tx"
  by (simp add: constructMinerTx_def template_chain_reward [OF assms order_refl] miner_share_def coinbase_amounts_def thousand merge_amounts.simps
    sample_keys_def template_tx_def template_chain_simps sample_coinbase_def addTransactionPublicKeyToExtra_def word_le_nat_alt)

lemma fit_at_once:
  assumes "build 10 (txs_size + coinbase_size tx) = Some tx"
  shows "fit_coinbase build txs_size 10 (txs_size + coinbase_size tx) = Some tx"
proof -
  have "(10 :: nat) = Suc 9" by simp
  then show ?thesis using assms by (simp only: fit_coinbase.simps) (simp add: Let_def)
qed

theorem template_acceptance_witness:
  "\<exists>cr kf keys mem adr b b' c. template_coinbase cr kf keys mem adr [] b 1 0 0 [] (template_chain c) = Some b' \<and>
     validate_miner_transaction cr mem b' 1 (coinbase_size (bl_baseTransaction b')) 0 0 [] (template_chain c) = None"
proof -
  fix mem c and a :: AccountPublicAddress and keys :: "nat \<Rightarrow> KeyPair"
  let ?cr = "sample_crypto\<lparr>cr_parse_address := \<lambda>_. Some a\<rparr>" and ?s = "template_chain c" and ?b = "sample_block\<lparr>bl_majorVersion := 10\<rparr>"
  let ?keys = "\<lambda>n. (keys n)\<lparr>kp_publicKey := null_pod\<rparr>"
  have e: "active_efiers (\<lambda>_. Some a) (stakes 20) = [(0, a)]"
    by (simp add: active_efiers_def stakes_registered om_values_def new_registration_def om_find_def map_filter_simps)
  have fees: "computeBankingFeesFromTransactions mem [] (m_activeEfierCount ?s) = 0"
    by (simp add: computeBankingFeesFromTransactions_def)
  have rewards: "template_rewards ?cr mem 10 null_pod [] ?s = [(a, 8000)]"
    by (simp add: template_rewards_def fees template_chain_simps computePerBlockEfierRewards_def e word_gt_0)
  have ok: "template_coinbase ?cr sample_keys ?keys mem a [] ?b 1 0 0 [] ?s = Some (?b\<lparr>bl_baseTransaction := template_tx\<rparr>)"
    by (simp add: template_coinbase_def template_chain_limit template_chain_simps rewards sample_block_def getBurnedXfgAtHeight_def
      BankingIndex_new_def template_built template_tx_size word_le_nat_alt
      fit_at_once [where txs_size = 0 and tx = template_tx, simplified template_tx_size add_0])
  have median: "medianValue (get_last_n_blocks_sizes 100 ?s) = 100"
    by (simp add: get_last_n_blocks_sizes_def getBackwardBlocksSize_def medianValue_def template_chain_simps sample_deposit_entry_def)
  have limit: "m_current_block_cumul_sz_limit ?s = m_current_block_cumul_sz_limit (update_next_comulative_size_limit ?s)"
    by (simp add: update_next_comulative_size_limit_def template_chain_limit template_chain_simps template_chain_version median Let_def word_le_nat_alt)
  have "validate_miner_transaction ?cr mem (?b\<lparr>bl_baseTransaction := template_tx\<rparr>) 1 48 0 0 [] ?s = None"
    using template_acceptance [OF ok _ _ limit, of accept_all] stakes_reachable [of 20]
    by (simp add: template_chain_simps template_chain_version e fees is_in_checkpoint_zone_def median template_tx_size template_chain_reward
      getBurnedXfgAtHeight_def BankingIndex_new_def word_le_nat_alt max_def del: not_None_eq)
  then show ?thesis using ok template_tx_size by fastforce
qed

end
