(* ===== verification/Spec2Isabelle.thy ===== *)
theory Spec2Isabelle
  imports Fuego_Prelude Int_Util Keccak Byte_Codecs Base58 Ordered_Map Alias_Index Merkle_Tree Commitment_Data
    Commitment_Index Commitment_Store Elderfier_Registry Efier_Rewards Money_Amounts Transactions Fuego_Config Currency_Builder
    Currency_Rules Difficulty Banking_Index Swap_Machine Block_Index Tree_Hash Binary_Streams Chacha8 Extra_Fields
    Transaction_Extra Transaction_Serialization Chain_Indices Upgrade_Detector Checkpoints Chain_Transactions Chain_State Chain_Validation Miner_Transaction
begin

text \<open>
  A verification library for the node of the Fuego currency (C++, \<open>src/src\<close>): its arithmetic and hashes, the forms of
  its data, its consensus rules and the state of its chain. The definitions are translated function by function and keep
  the names of the source; the lemmas show what the functions guarantee.

  \<^bold>\<open>The program.\<close> A block carries transactions and a coinbase. \<open>CryptoNoteCore/Blockchain.cpp\<close> checks a block and its
  transactions (sizes, versions, timestamp, difficulty, proof of work, inputs, outputs, coinbase), pushes them on the chain
  and can pop them again. Transactions spend outputs through key images and ring signatures, through multisignature
  outputs or through commitments. Their extra bytes carry burns, term deposits, stakes of Elderfiers (the nodes that vote
  on slashing), aliases and messages. From these fields the chain feeds the banking index, the commitment index with its
  Merkle tree, registrations and votes, and the alias index. \<open>Currency.cpp\<close> has the rules: versions by height, reward and
  its penalty, fees, interest and difficulty; \<open>Core.cpp\<close> builds block templates from them. The swap daemon is a separate
  program that drives the state machine of an atomic swap.

  \<^bold>\<open>The theories\<close>, by layer; each opens with a text that says how it corresponds to its source.

  \<^item> Base. \<open>Fuego_Prelude\<close> has the integer types and shared lemmas, \<open>Fuego_Config\<close> the constants of \<open>CryptoNoteConfig.h\<close>,
    \<open>Ordered_Map\<close> the \<open>std::map\<close> with the contract \<open>keyed_store\<close>.
  \<^item> Arithmetic and cryptographic primitives. \<open>Int_Util\<close> (\<open>Common/int-util.h\<close>, \<open>Difficulty.cpp\<close>) shows the 128-bit routines
    and the proof-of-work test exact. \<open>Keccak\<close> (\<open>crypto/keccak.c\<close>) is executable; \<open>Chacha8\<close> (\<open>crypto/chacha8.c\<close>) is shown to be
    an exclusive or with a key stream; \<open>Tree_Hash\<close> (\<open>crypto/tree-hash.c\<close>) has the transaction tree and its branches.
  \<^item> Data forms. \<open>Byte_Codecs\<close> (\<open>StringTools.cpp\<close>, \<open>Varint.h\<close>), \<open>Base58\<close> (\<open>Base58.cpp\<close>), \<open>Binary_Streams\<close>
    (\<open>StreamTools.cpp\<close>, \<open>Serialization/Binary*\<close>) with the contracts \<open>codec\<close> and \<open>partial_codec\<close>, \<open>Transactions\<close>
    (\<open>include/CryptoNote.h\<close>, \<open>CryptoNoteFormatUtils.cpp\<close>), \<open>Extra_Fields\<close> and \<open>Transaction_Extra\<close> (\<open>TransactionExtra.cpp\<close>),
    \<open>Transaction_Serialization\<close> (\<open>CryptoNoteSerialization.cpp\<close>), \<open>Money_Amounts\<close>. Shown: round trips, uniqueness of accepted
    encodings, well-formedness of what is read, and where a scan for a tag misses a field.
  \<^item> Rules. \<open>Currency_Builder\<close>, \<open>Currency_Rules\<close>, \<open>Difficulty\<close> (\<open>Currency.cpp\<close>, \<open>BankingFee.cpp\<close>), \<open>Checkpoints\<close>,
    \<open>Upgrade_Detector\<close>. Shown: the supply bound, the exact penalty, the bounds on the response of the difficulty, which
    alternative blocks are allowed, and the height of a completed vote.
  \<^item> Indices. \<open>Block_Index\<close>, \<open>Chain_Indices\<close> (\<open>BlockchainIndices.cpp\<close>), \<open>Banking_Index\<close> (\<open>BankingIndex.cpp\<close>, refined to a
    ledger through the locale \<open>forward_simulation\<close>), \<open>Alias_Index\<close> (\<open>AliasIndex.cpp\<close>, contract \<open>alias_registry\<close>), and the
    commitment index (\<open>CommitmentIndex.cpp\<close>) in \<open>Merkle_Tree\<close>, \<open>Commitment_Data\<close>, \<open>Commitment_Index\<close>,
    \<open>Commitment_Store\<close>, \<open>Elderfier_Registry\<close> and \<open>Efier_Rewards\<close>. Shown: invariants of all reachable states, exact queries,
    rollbacks, and completeness and soundness of Merkle proofs.
  \<^item> Chain. \<open>Chain_Transactions\<close> (\<open>pushTransaction\<close>, \<open>popTransaction\<close>), \<open>Chain_State\<close> (\<open>pushToBankingIndex\<close>, the end of an epoch),
    \<open>Chain_Validation\<close> (the checks of \<open>Blockchain.cpp\<close>) and \<open>Miner_Transaction\<close> (\<open>constructMinerTx\<close> and the coinbase of
    \<open>get_block_template\<close>). The record \<open>Blockchain\<close> extends \<open>ChainTransactions\<close>, so the lemmas of the first hold for the whole
    state. Shown: no double spending, pop undoes push, what an accepted input or coinbase guarantees, and when a node accepts
    its own template.
  \<^item> \<open>Swap_Machine\<close> (\<open>SwapDaemon\<close>): the transition table, its stored form and the commands.

  \<^bold>\<open>Conventions.\<close> Machine integers are words of their width and wrap; container sizes are \<open>nat\<close>. Hashes, keys and signatures
  are lists of bytes. A function that changes members takes and returns their record; \<open>None\<close> is a refusal, an exception or
  an access the language leaves undefined, as the text at each definition says. An object whose members the source does
  not initialise comes in as the argument \<open>mem\<close>. A method under a mutex is one step. Functions on the curve, signatures,
  ring signatures, address parsing, random keys and the clock are arguments (\<open>CryptoFunctions\<close>, \<open>KeyFunctions\<close> or single
  functions); what a theorem needs of them is among its hypotheses.

  \<^bold>\<open>Bounds and termination.\<close> No definition uses fuel: every loop is structural or has a termination proof. The one loop
  of the source that may not end, the 16-bit counter over the outputs in \<open>pushTransaction\<close>, gives \<open>None\<close> for more than 65535
  outputs. Hypotheses of the form \<open>x < 2 ^ 64\<close> keep sums and products in range where the code does not check; the
  reader's limit \<open>max_array\<close> bounds the lists of a serialized value.

  \<^bold>\<open>Not modelled.\<close> The composition of the checks into \<open>addNewBlock\<close>, alternative chains, the transaction pool and the storage
  of the chain on disk; the arithmetic on the curve and the slow hash, which are arguments; version 3 of the difficulty,
  which computes in floating point and is an argument of the dispatch; the JSON text layer. Outside the rules of the chain:
  the network and its protocol, RPC and HTTP, wallets, payment gate, mining threads, daemons, logging, platform and
  system layers, word lists, the clients of other chains in the swap daemon, and everything outside \<open>src/src\<close> except
  the types in \<open>include/CryptoNote.h\<close>. The locks and the order of threads are left out throughout.
\<close>

end
